(* ===== verification/Prelude.thy ===== *)
theory Prelude
  imports Main "HOL-Library.Word" "HOL-Library.Finite_Map" "HOL-Library.Signed_Division"
begin

text \<open>
  What the components share: the machine integers of the Go sources, the fixed-width encodings
  of \<^verbatim>\<open>encoding/binary\<close>, byte readers (\<^verbatim>\<open>io.ReadFull\<close>), Go maps as finite maps with their
  length, channels that are only ever closed, and the collections of rewrite rules that carry
  the component proofs.
\<close>

unbundle bit_operations_syntax

section \<open>Machine integers and time\<close>

type_synonym byte = "8 word"
type_synonym u16 = "16 word"
type_synonym u32 = "32 word"
type_synonym u64 = "64 word"

text \<open>
  Go's \<^verbatim>\<open>int\<close> is 64 bits wide on every platform the node supports and is written \<open>int\<close> where no
  operation of the code can leave that range; \<^verbatim>\<open>time.Time\<close> and \<^verbatim>\<open>time.Duration\<close> are nanoseconds.
\<close>

type_synonym time = int
type_synonym duration = int

text \<open>Go's \<^verbatim>\<open>/\<close> and \<^verbatim>\<open>%\<close> truncate towards zero (\<open>sdiv\<close>, \<open>smod\<close>); on non-negative operands they are
  the usual quotient and remainder.\<close>

lemma go_div_nonneg:
  fixes a b :: int
  assumes "0 \<le> a" "0 < b"
  shows "a sdiv b = a div b" "a smod b = a mod b"
  using assms by (auto simp: signed_divide_int_def signed_modulo_int_def sgn_if)

named_theorems codec_simps \<open>lengths and round trips of fixed-width encodings\<close>
named_theorems gomap_simps \<open>lengths and domains of Go maps\<close>

section \<open>Fixed-width integers as bytes (\<^verbatim>\<open>encoding/binary\<close>)\<close>

text \<open>\<open>be_put n w\<close> appends the low \<open>n\<close> bytes of \<open>w\<close>, most significant first, as
  \<^verbatim>\<open>binary.BigEndian.AppendUintN\<close> does; \<open>be_get\<close> is \<^verbatim>\<open>binary.BigEndian.UintN\<close>, the shifts and ors
  of its bytes. The little-endian variants are the same on the reversed bytes.\<close>

primrec be_put :: "nat \<Rightarrow> 'a::len word \<Rightarrow> byte list" where
  "be_put 0 w = []"
| "be_put (Suc n) w = ucast (drop_bit (8 * n) w) # be_put n w"

definition be_get :: "byte list \<Rightarrow> 'a::len word" where
  "be_get bs = foldl (\<lambda>acc b. push_bit 8 acc OR ucast b) 0 bs"

definition le_put :: "nat \<Rightarrow> 'a::len word \<Rightarrow> byte list" where
  "le_put n w = rev (be_put n w)"

definition le_get :: "byte list \<Rightarrow> 'a::len word" where
  "le_get bs = be_get (rev bs)"

lemma length_be_put [simp, codec_simps]: "length (be_put n w) = n"
  by (induction n) auto

lemma length_le_put [simp, codec_simps]: "length (le_put n w) = n"
  by (simp add: le_put_def)

lemma be_step_bits:
  fixes w :: "'a::len word"
  shows "push_bit (8 * n) (push_bit 8 acc OR ucast (ucast (drop_bit (8 * n) w) :: byte))
           OR take_bit (8 * n) w
         = push_bit (8 * Suc n) acc OR take_bit (8 * Suc n) w"
  by (rule bit_word_eqI) (auto simp: bit_simps add.commute)

lemma foldl_be_put:
  fixes w :: "'a::len word"
  shows "foldl (\<lambda>acc b. push_bit 8 acc OR ucast b) acc (be_put n w)
         = push_bit (8 * n) acc OR take_bit (8 * n) w"
proof (induction n arbitrary: acc)
  case 0
  then show ?case by simp
next
  case (Suc n)
  have "foldl (\<lambda>acc b. push_bit 8 acc OR ucast b) acc (be_put (Suc n) w)
        = push_bit (8 * n) (push_bit 8 acc OR ucast (ucast (drop_bit (8 * n) w) :: byte))
            OR take_bit (8 * n) w"
    using Suc.IH by simp
  also have "\<dots> = push_bit (8 * Suc n) acc OR take_bit (8 * Suc n) w"
    by (rule be_step_bits)
  finally show ?case .
qed

lemma be_get_put: "be_get (be_put n w) = take_bit (8 * n) w"
  by (simp add: be_get_def foldl_be_put)

lemma be_get_put_full [codec_simps]:
  fixes w :: "'a::len word"
  assumes "LENGTH('a) \<le> 8 * n"
  shows "be_get (be_put n w) = w"
  using assms by (simp add: be_get_put take_bit_word_eq_self)

text \<open>The other direction: \<open>n\<close> bytes that fit the word are the encoding of what they decode to.\<close>

lemma bit_foldl_be:
  fixes acc :: "'a::len word" and bs :: "byte list"
  shows "bit (foldl (\<lambda>acc b. push_bit 8 acc OR ucast b) acc bs) k
         = (k < LENGTH('a) \<and>
            (if 8 * length bs \<le> k then bit acc (k - 8 * length bs)
             else bit (bs ! (length bs - 1 - k div 8)) (k mod 8)))"
proof (induction bs arbitrary: acc)
  case Nil
  then show ?case by (auto dest: bit_imp_le_length)
next
  case (Cons b bs)
  let ?m = "8 * length bs"
  have step: "bit (foldl (\<lambda>acc b. push_bit 8 acc OR ucast b) acc (b # bs)) k
        = (k < LENGTH('a) \<and>
            (if ?m \<le> k then bit (push_bit 8 acc OR (ucast b :: 'a word)) (k - ?m)
             else bit (bs ! (length bs - 1 - k div 8)) (k mod 8)))"
    using Cons.IH by simp
  consider "k < ?m" | "?m \<le> k" "k < ?m + 8" | "?m + 8 \<le> k" by linarith
  then show ?case
  proof cases
    case 1
    then have "k div 8 < length bs" by (simp add: less_mult_imp_div_less mult.commute)
    then have "length (b # bs) - 1 - k div 8 = Suc (length bs - 1 - k div 8)" by simp
    with 1 show ?thesis unfolding step by simp
  next
    case 2
    then have d: "k div 8 = length bs" by (auto intro: div_nat_eqI)
    then have "k mod 8 = k - ?m" using minus_div_mult_eq_mod [of k 8] by (simp add: mult.commute)
    with 2 d show ?thesis unfolding step
      by (auto simp: bit_simps)
  next
    case 3
    have "\<not> bit b (k - ?m)" using 3 bit_imp_le_length [of b "k - ?m"] by auto
    with 3 show ?thesis unfolding step
      by (auto simp: bit_simps add.commute)
  qed
qed

lemma nth_be_put: "i < n \<Longrightarrow> be_put n w ! i = ucast (drop_bit (8 * (n - 1 - i)) w)"
  by (induction n arbitrary: i) (auto simp: nth_Cons split: nat.split)

lemma be_put_get [codec_simps]:
  fixes bs :: "byte list"
  assumes n: "length bs = n" and fits: "8 * n \<le> LENGTH('a::len)"
  shows "be_put n (be_get bs :: 'a word) = bs"
proof (rule nth_equalityI)
  show "length (be_put n (be_get bs :: 'a word)) = length bs" by (simp add: n)
next
  fix i assume "i < length (be_put n (be_get bs :: 'a word))"
  then have i: "i < n" by simp
  show "be_put n (be_get bs :: 'a word) ! i = bs ! i"
  proof (rule bit_word_eqI)
    fix j assume "j < LENGTH(8)"
    then have j: "j < 8" by simp
    let ?k = "8 * (n - 1 - i) + j"
    have "?k < 8 * n" using i j by linarith
    with fits have "?k < LENGTH('a)" by linarith
    moreover have "?k div 8 = n - 1 - i" "?k mod 8 = j" using j by auto
    moreover have "n - 1 - (n - 1 - i) = i" using i by linarith
    ultimately show "bit (be_put n (be_get bs :: 'a word) ! i) j = bit (bs ! i) j"
      using j \<open>?k < 8 * n\<close> i
      by (simp add: nth_be_put bit_simps be_get_def bit_foldl_be n)
  qed
qed

lemma le_get_put_full [codec_simps]:
  fixes w :: "'a::len word"
  assumes "LENGTH('a) \<le> 8 * n"
  shows "le_get (le_put n w) = w"
  using assms by (simp add: le_get_def le_put_def be_get_put_full)

lemma le_put_get [codec_simps]:
  fixes bs :: "byte list"
  assumes "length bs = n" and "8 * n \<le> LENGTH('a::len)"
  shows "le_put n (le_get bs :: 'a word) = bs"
  using assms by (simp add: le_put_def le_get_def be_put_get)

text \<open>A Go \<^verbatim>\<open>int\<close> written as \<^verbatim>\<open>uint16\<close> or \<^verbatim>\<open>uint32\<close> and read back: the identity on the values that fit,
  the value modulo the width in general.\<close>

lemma be_int_fits [codec_simps]:
  fixes i :: int
  assumes "LENGTH('a::len) = 8 * n" "0 \<le> i" "i < 2 ^ LENGTH('a)"
  shows "uint (be_get (be_put n (word_of_int i :: 'a word)) :: 'a word) = i"
  using assms by (simp add: be_get_put_full uint_word_of_int_eq take_bit_int_eq_self)

lemma be_int_wraps:
  fixes i :: int
  assumes "LENGTH('a::len) = 8 * n"
  shows "uint (be_get (be_put n (word_of_int i :: 'a word)) :: 'a word) = i mod 2 ^ LENGTH('a)"
  using assms by (simp add: be_get_put_full uint_word_of_int_eq take_bit_eq_mod)

section \<open>Readers\<close>

text \<open>A reader is the bytes it has left. \<^verbatim>\<open>io.ReadFull\<close> fills a buffer of \<open>n\<close> bytes, or consumes what
  is left and reports \<^verbatim>\<open>io.EOF\<close> (nothing was read) or \<^verbatim>\<open>io.ErrUnexpectedEOF\<close> with the count read.\<close>

datatype io_error = EOF | ErrUnexpectedEOF

definition ReadFull :: "byte list \<Rightarrow> nat \<Rightarrow> nat \<times> (io_error + byte list) \<times> byte list" where
  "ReadFull r n =
     (if n \<le> length r then (n, Inr (take n r), drop n r)
      else if r = [] then (0, Inl EOF, [])
      else (length r, Inl ErrUnexpectedEOF, []))"

lemma ReadFull_append [simp]: "length bs = n \<Longrightarrow> ReadFull (bs @ rest) n = (n, Inr bs, rest)"
  by (simp add: ReadFull_def)

lemma ReadFull_short:
  "length r < n \<Longrightarrow> \<exists>e. ReadFull r n = (length r, Inl e, []) \<and> (e = EOF \<longleftrightarrow> r = [])"
  by (auto simp: ReadFull_def)

section \<open>Go maps\<close>

text \<open>A Go map is a finite map. \<open>mlen\<close> is \<^verbatim>\<open>len\<close>. Where the code ranges over a map, the order of the
  iteration is unspecified: it is either irrelevant, and the model uses the order-free combinators
  of the library, or an explicit argument of the model.\<close>

abbreviation mlen :: "('k, 'v) fmap \<Rightarrow> nat" where
  "mlen m \<equiv> fcard (fmdom m)"

lemma mlen_empty [simp, gomap_simps]: "mlen fmempty = 0"
  by simp

lemma mlen_0_iff [gomap_simps]: "mlen m = 0 \<longleftrightarrow> m = fmempty"
  by (metis fcard_fempty fcard_0_eq fmdom_empty fmrestrict_fset_dom fmrestrict_fset_null)

lemma mlen_upd [gomap_simps]:
  "mlen (fmupd k v m) = (if k |\<in>| fmdom m then mlen m else Suc (mlen m))"
  by (simp add: fcard_finsert_if)

lemma mlen_drop [gomap_simps]:
  "mlen (fmdrop k m) = (if k |\<in>| fmdom m then mlen m - 1 else mlen m)"
  by (simp add: fcard_fminus_fsingleton_if)

lemma in_fmdom_iff: "k |\<in>| fmdom m \<longleftrightarrow> (\<exists>v. fmlookup m k = Some v)"
  by (auto simp: fmlookup_dom_iff)

section \<open>Slices\<close>

text \<open>The Go slice expression \<open>xs[a:b]\<close> where it does not panic (\<open>a \<le> b \<le> len(xs)\<close>).\<close>

definition slice :: "nat \<Rightarrow> nat \<Rightarrow> 'a list \<Rightarrow> 'a list" where
  "slice a b xs = take (b - a) (drop a xs)"

lemma length_slice [simp]: "b \<le> length xs \<Longrightarrow> length (slice a b xs) = b - a"
  by (simp add: slice_def)

lemma slice_append:
  assumes "a \<le> b" "b \<le> c"
  shows "slice a b xs @ slice b c xs = slice a c xs"
proof -
  have e: "c - a = (b - a) + (c - b)" using assms by simp
  have "slice a c xs = take (b - a) (drop a xs) @ take (c - b) (drop (b - a) (drop a xs))"
    unfolding slice_def e take_add ..
  also have "drop (b - a) (drop a xs) = drop b xs" using assms by simp
  finally show ?thesis by (simp add: slice_def)
qed

lemma slice_same [simp]: "slice a a xs = []"
  by (simp add: slice_def)

lemma slice_all: "slice 0 (length xs) xs = xs"
  by (simp add: slice_def)

lemma nth_slice: "i < b - a \<Longrightarrow> b \<le> length xs \<Longrightarrow> slice a b xs ! i = xs ! (a + i)"
  by (simp add: slice_def)

lemma set_slice: "set (slice a b xs) \<subseteq> set xs"
  unfolding slice_def using set_drop_subset set_take_subset by fast

lemma concat_slices:
  assumes "\<And>i. i < n \<Longrightarrow> f i \<le> f (Suc i)"
  shows "concat (map (\<lambda>i. slice (f i) (f (Suc i)) xs) [0..<n]) = slice (f 0) (f n) xs"
  using assms
proof (induction n)
  case 0
  then show ?case by simp
next
  case (Suc n)
  have "f 0 \<le> f n" using Suc.prems by (induction n) (auto intro: le_trans)
  then show ?case using Suc by (simp add: slice_append)
qed

lemma fcard_fempty [simp]: "fcard {||} = 0"
  by (simp add: fcard.rep_eq)

lemma fmmap_keys_empty [simp]: "fmmap_keys f fmempty = fmempty"
  by (rule fmap_ext) simp

lemma fmfilter_empty_map [simp]: "fmfilter P fmempty = fmempty"
  by (rule fmap_ext) simp

lemma fmdrop_upd_empty [simp]: "fmdrop k (fmupd k v fmempty) = fmempty"
  by (rule fmap_ext) simp

lemma ffilter_fempty [simp]: "ffilter P {||} = {||}"
  by auto

lemma sorted_list_of_fset_empty [simp]: "sorted_list_of_fset {||} = []"
  by (simp add: sorted_list_of_fset.rep_eq)

lemma mlen_fresh: "fmlookup m k = None \<Longrightarrow> mlen (fmupd k v m) = Suc (mlen m)"
  unfolding mlen_upd by (auto dest: fmdom_notI)

lemma find_False [simp]: "find (\<lambda>x. False) xs = None"
  by (simp add: find_None_iff)

lemma ex_fmupd:
  assumes "fmlookup m i = Some w" "P w' = P w"
  shows "(\<exists>k v. fmlookup (fmupd i w' m) k = Some v \<and> P v) \<longleftrightarrow> (\<exists>k v. fmlookup m k = Some v \<and> P v)"
  using assms by (metis fmupd_lookup option.inject)

section \<open>Successors of heights\<close>

lemma unat_bound: "unat (h :: u64) < 2 ^ 64"
  using unsigned_less [of h] by simp

lemma unat_of_nat_u64: "n < 2 ^ 64 \<Longrightarrow> unat (of_nat n :: u64) = n"
  by (simp add: unsigned_of_nat take_bit_nat_eq_self)

lemma unat_u64_succ:
  fixes h :: u64
  assumes "h < - 1"
  shows "unat (h + 1) = unat h + 1"
proof -
  have "unat h < unat (- 1 :: u64)" using assms by (simp only: word_less_nat_alt)
  moreover have "unat (- 1 :: u64) = 2 ^ 64 - 1"
    by (simp add: unsigned_minus_1_eq_mask mask_eq_exp_minus_1)
  ultimately have "unat h + 1 < 2 ^ 64" by linarith
  then show ?thesis by (simp add: unat_word_ariths)
qed

lemma u64_succ:
  fixes h :: u64
  assumes "h < - 1"
  shows "h < h + 1" "k < h + 1 \<longleftrightarrow> k \<le> h" "h + 1 \<le> k \<longleftrightarrow> h < k" "h + 1 \<noteq> 0"
  using unat_u64_succ [OF assms] by (auto simp: word_less_nat_alt word_le_nat_alt)

lemma word_pred_less_le:
  fixes a b :: u64
  assumes "\<not> b \<le> a - 1"
  shows "a \<le> b"
proof (cases "a = 0")
  case False
  then have "unat (a - 1) = unat a - 1" by (simp add: unat_minus_one)
  then show ?thesis using assms unfolding word_le_nat_alt by linarith
qed simp

section \<open>Loops that may fail\<close>

text \<open>Applying a fallible function to every element, up to the first failure.\<close>

fun traverse :: "('a \<Rightarrow> 'e + 'b) \<Rightarrow> 'a list \<Rightarrow> 'e + 'b list" where
  "traverse f [] = Inr []"
| "traverse f (x # xs) =
     (case f x of
        Inl e \<Rightarrow> Inl e
      | Inr y \<Rightarrow> (case traverse f xs of Inl e \<Rightarrow> Inl e | Inr ys \<Rightarrow> Inr (y # ys)))"

lemma traverse_Inr: "(\<And>x. x \<in> set xs \<Longrightarrow> f x = Inr (g x)) \<Longrightarrow> traverse f xs = Inr (map g xs)"
  by (induction xs) auto

lemma traverse_InrD: "traverse f xs = Inr ys \<Longrightarrow> length ys = length xs \<and> (\<forall>i < length xs. f (xs ! i) = Inr (ys ! i))"
  by (induction xs arbitrary: ys) (auto split: sum.splits simp: nth_Cons')

lemma traverse_Inl: "traverse f xs = Inl e \<Longrightarrow> \<exists>x \<in> set xs. f x = Inl e"
  by (induction xs) (auto split: sum.splits)

lemma traverse_cong [fundef_cong]: "xs = ys \<Longrightarrow> (\<And>x. x \<in> set ys \<Longrightarrow> f x = g x) \<Longrightarrow> traverse f xs = traverse g ys"
  by (induction xs arbitrary: ys) (auto split: sum.splits)

section \<open>Invariants and simulations\<close>

text \<open>
  Two contracts of a component with operations. It is stable when every operation allowed in a state of the
  invariant succeeds and keeps the invariant; it simulates a specification when moreover it does to the
  abstract state what the specification says.
\<close>

fun run_ops :: "('o \<Rightarrow> 's \<Rightarrow> 's option) \<Rightarrow> 'o list \<Rightarrow> 's \<Rightarrow> 's option" where
  "run_ops step [] s = Some s"
| "run_ops step (x # xs) s = (case step x s of None \<Rightarrow> None | Some s' \<Rightarrow> run_ops step xs s')"

fun allowed :: "('o \<Rightarrow> 's \<Rightarrow> bool) \<Rightarrow> ('o \<Rightarrow> 's \<Rightarrow> 's option) \<Rightarrow> 'o list \<Rightarrow> 's \<Rightarrow> bool" where
  "allowed pre step [] s \<longleftrightarrow> True"
| "allowed pre step (x # xs) s \<longleftrightarrow> pre x s \<and> (case step x s of None \<Rightarrow> True | Some s' \<Rightarrow> allowed pre step xs s')"

lemma allowed_always: "(\<And>x s. pre x s) \<Longrightarrow> allowed pre step xs s"
  by (induction xs arbitrary: s) (auto split: option.splits)

locale stable =
  fixes step :: "'o \<Rightarrow> 's \<Rightarrow> 's option" and inv :: "'s \<Rightarrow> bool" and pre :: "'o \<Rightarrow> 's \<Rightarrow> bool"
  assumes keeps: "inv s \<Longrightarrow> pre x s \<Longrightarrow> \<exists>s'. step x s = Some s' \<and> inv s'"
begin

lemma stays:
  assumes "inv s" "allowed pre step xs s"
  shows "\<exists>s'. run_ops step xs s = Some s' \<and> inv s'"
  using assms
proof (induction xs arbitrary: s)
  case (Cons x xs)
  obtain s1 where "step x s = Some s1" "inv s1" using keeps Cons.prems by fastforce
  then show ?case using Cons.IH [of s1] Cons.prems by simp
qed simp

end

locale simulation =
  fixes step :: "'o \<Rightarrow> 's \<Rightarrow> 's option" and spec :: "'o \<Rightarrow> 'a \<Rightarrow> 'a" and abs :: "'s \<Rightarrow> 'a"
    and inv :: "'s \<Rightarrow> bool" and pre :: "'o \<Rightarrow> 's \<Rightarrow> bool"
  assumes simulates: "inv s \<Longrightarrow> pre x s \<Longrightarrow> \<exists>s'. step x s = Some s' \<and> inv s' \<and> abs s' = spec x (abs s)"
begin

lemma tracks:
  assumes "inv s" "allowed pre step xs s" "run_ops step xs s = Some s'"
  shows "abs s' = fold spec xs (abs s)"
  using assms
proof (induction xs arbitrary: s)
  case (Cons x xs)
  obtain s1 where "step x s = Some s1" "inv s1" "abs s1 = spec x (abs s)" using simulates Cons.prems by fastforce
  then show ?case using Cons.IH [of s1] Cons.prems by simp
qed simp

end

sublocale simulation \<subseteq> stable step inv pre
  using simulates by unfold_locales blast

context simulation
begin

lemma runs:
  assumes "inv s" "allowed pre step xs s"
  shows "\<exists>s'. run_ops step xs s = Some s' \<and> inv s' \<and> abs s' = fold spec xs (abs s)"
  using stays [OF assms] tracks [OF assms] by blast

end

end
