(* ===== verification/DasWorker.thy ===== *)
theory DasWorker
  imports Prelude
begin

text \<open>
  The sampling worker of \<^verbatim>\<open>das/worker.go\<close>: the jobs it is given, the loop over the heights of a job,
  and the state the coordinator reads through \<^verbatim>\<open>getState\<close>. The header getter and the sampling
  function of the node are parameters; their errors are classified the way the code does with
  \<^verbatim>\<open>errors.Is\<close>.
\<close>

section \<open>Jobs, results and worker states\<close>

datatype jobType = catchup | recent | retry

datatype 'e sample_error = Canceled | OutsideSamplingWindow | SampleFailed 'e

record 'h job =
  jid :: int
  jtype :: jobType
  jfrom :: u64
  jto :: u64
  jheader :: "'h option"

text \<open>\<^verbatim>\<open>err\<close> joins one error per failed height, in the order of the heights.\<close>

record ('h, 'e) "result" = "'h job" +
  rfailed :: "(u64, int) fmap"
  rerr :: "(u64 \<times> 'e sample_error) list"

record ('h, 'e) workerState = "('h, 'e) result" +
  wcurr :: u64

text \<open>The worker together with the control state of its goroutine: the variable \<^verbatim>\<open>curr\<close> of the loop in
  \<^verbatim>\<open>run\<close>, and whether it is in the loop, offering its result on \<^verbatim>\<open>resultCh\<close>, or has returned on
  cancellation.\<close>

datatype wphase = Looping | Sending | Stopped

record ('h, 'e) worker =
  wst :: "('h, 'e) workerState"
  wpos :: u64
  phase :: wphase

definition newWorker :: "'h job \<Rightarrow> ('h, 'e) worker" where
  "newWorker j =
     \<lparr>wst = \<lparr>jid = jid j, jtype = jtype j, jfrom = jfrom j, jto = jto j, jheader = jheader j,
             rfailed = fmempty, rerr = [], wcurr = jfrom j\<rparr>,
      wpos = jfrom j, phase = Looping\<rparr>"

definition getState :: "('h, 'e) worker \<Rightarrow> ('h, 'e) workerState" where
  "getState w = wst w"

section \<open>Sampling one height\<close>

text \<open>Durations are in nanoseconds; \<open>ShareSize\<close> is \<^verbatim>\<open>libshare.ShareSize\<close>.\<close>

definition baseSampleTimeout :: duration where "baseSampleTimeout = 20 * 10 ^ 9"
definition sampleTimeoutPerMiB :: duration where "sampleTimeoutPerMiB = 4 * 10 ^ 9"

definition deriveSampleTimeout :: "int \<Rightarrow> int \<Rightarrow> duration" where
  "deriveSampleTimeout ShareSize edsWidth =
     (let odsWidth = edsWidth sdiv 2; odsBytes = odsWidth * odsWidth * ShareSize in
      baseSampleTimeout + (sampleTimeoutPerMiB * odsBytes) sdiv 2 ^ 20)"

definition getHeader ::
    "(u64 \<Rightarrow> 'e sample_error + 'h) \<Rightarrow> ('h, 'e) worker \<Rightarrow> u64 \<Rightarrow> 'e sample_error + 'h" where
  "getHeader getter w height =
     (case jheader (wst w) of Some h \<Rightarrow> Inr h | None \<Rightarrow> getter height)"

definition worker_sample ::
    "(u64 \<Rightarrow> 'e sample_error + 'h) \<Rightarrow> (duration \<Rightarrow> 'h \<Rightarrow> 'e sample_error option) \<Rightarrow> ('h \<Rightarrow> int) \<Rightarrow> int
      \<Rightarrow> duration \<Rightarrow> ('h, 'e) worker \<Rightarrow> u64 \<Rightarrow> 'e sample_error option" where
  "worker_sample getter sampleFn rowRoots ShareSize timeout w height =
     (case getHeader getter w height of
        Inl e \<Rightarrow> Some e
      | Inr h \<Rightarrow>
          sampleFn (if timeout = 0 then deriveSampleTimeout ShareSize (rowRoots h) else timeout) h)"

section \<open>The loop over the heights of a job\<close>

definition setResult ::
    "u64 \<Rightarrow> 'e sample_error option \<Rightarrow> ('h, 'e) workerState \<Rightarrow> ('h, 'e) workerState" where
  "setResult height err s =
     (case err of
        Some e \<Rightarrow> s\<lparr>rfailed := fmupd height (case fmlookup (rfailed s) height of Some n \<Rightarrow> n + 1 | None \<Rightarrow> 1) (rfailed s),
                    rerr := rerr s @ [(height, e)], wcurr := height\<rparr>
      | None \<Rightarrow> s\<lparr>wcurr := height\<rparr>)"

text \<open>One turn of the loop of \<^verbatim>\<open>run\<close>, \<open>err\<close> being what \<^verbatim>\<open>w.sample\<close> returned for the current height.\<close>

definition worker_iter :: "'e sample_error option \<Rightarrow> ('h, 'e) worker \<Rightarrow> ('h, 'e) worker" where
  "worker_iter err w =
     (if wpos w \<le> jto (wst w) then
        (if err = Some Canceled then w\<lparr>phase := Stopped\<rparr>
         else
           let err' = (if err = Some OutsideSamplingWindow then None else err) in
           w\<lparr>wst := setResult (wpos w) err' (wst w), wpos := wpos w + 1\<rparr>)
      else w\<lparr>phase := Sending\<rparr>)"

text \<open>The whole of \<^verbatim>\<open>run\<close> up to the send, with the outcome of sampling a height given by \<open>sample\<close>;
  \<open>fuel\<close> bounds the turns, since the loop never ends when the job ends at the greatest \<^verbatim>\<open>uint64\<close>.\<close>

fun worker_run ::
    "(u64 \<Rightarrow> 'e sample_error option) \<Rightarrow> nat \<Rightarrow> ('h, 'e) worker \<Rightarrow> ('h, 'e) worker option" where
  "worker_run sample fuel w =
     (if phase w \<noteq> Looping then Some w
      else case fuel of
        0 \<Rightarrow> None
      | Suc f \<Rightarrow> worker_run sample f (worker_iter (sample (wpos w)) w))"

declare worker_run.simps [simp del]


section \<open>What a worker has done\<close>

text \<open>\<open>worker_wf S w\<close>: the job is an interval that ends below the greatest height; the heights the loop
  has passed are in \<open>S\<close> (sampled, or outside the window) or recorded as failed once, no other height
  is recorded, and \<open>wcurr\<close> is the last height passed.\<close>

definition worker_wf :: "u64 set \<Rightarrow> ('h, 'e) worker \<Rightarrow> bool" where
  "worker_wf S w \<longleftrightarrow>
     jfrom (wst w) \<le> jto (wst w) \<and> jto (wst w) < - 1 \<and>
     jfrom (wst w) \<le> wpos w \<and> wpos w \<le> jto (wst w) + 1 \<and>
     (phase w = Sending \<longrightarrow> wpos w = jto (wst w) + 1) \<and>
     wcurr (wst w) = (if wpos w = jfrom (wst w) then jfrom (wst w) else wpos w - 1) \<and>
     (\<forall>h n. fmlookup (rfailed (wst w)) h = Some n \<longrightarrow> n = 1 \<and> jfrom (wst w) \<le> h \<and> h < wpos w) \<and>
     (\<forall>h. jfrom (wst w) \<le> h \<longrightarrow> h < wpos w \<longrightarrow> h \<in> S \<or> fmlookup (rfailed (wst w)) h \<noteq> None)"

lemma newWorker_simps [simp]:
  "wpos (newWorker j) = jfrom j" "phase (newWorker j) = Looping" "jto (wst (newWorker j)) = jto j"
  "jfrom (wst (newWorker j)) = jfrom j" "jid (wst (newWorker j)) = jid j"
  "jtype (wst (newWorker j)) = jtype j" "wcurr (wst (newWorker j)) = jfrom j"
  "rfailed (wst (newWorker j)) = fmempty"
  by (simp_all add: newWorker_def)

lemma newWorker_wf: "jfrom j \<le> jto j \<Longrightarrow> jto j < - 1 \<Longrightarrow> worker_wf S (newWorker j)"
  using u64_succ(2) [of "jto j" "jfrom j"]
  by (auto simp: worker_wf_def newWorker_def less_imp_le)

lemma worker_wf_mono: "worker_wf S w \<Longrightarrow> S \<subseteq> S' \<Longrightarrow> worker_wf S' w"
  unfolding worker_wf_def by blast

lemma worker_wf_failed:
  assumes "worker_wf S w" "fmlookup (rfailed (wst w)) h = Some n"
  shows "jfrom (wst w) \<le> h" "h \<le> jto (wst w)" "h < - 1"
proof -
  have w: "jto (wst w) < - 1" "jfrom (wst w) \<le> h" "h < wpos w" "wpos w \<le> jto (wst w) + 1"
    using assms by (auto simp: worker_wf_def)
  then have "h < jto (wst w) + 1" by (simp add: order_less_le_trans)
  then show "jfrom (wst w) \<le> h" "h \<le> jto (wst w)" "h < - 1"
    using w u64_succ(2) [OF w(1)] by (auto intro: order_le_less_trans)
qed

lemma worker_wf_to: "worker_wf S w \<Longrightarrow> jto (wst w) < - 1"
  by (simp add: worker_wf_def)

lemma worker_wf_curr:
  assumes "worker_wf S w"
  shows "jfrom (wst w) \<le> wcurr (wst w)" "wcurr (wst w) \<le> jto (wst w)" "wcurr (wst w) \<le> wpos w"
proof -
  note w = assms [unfolded worker_wf_def]
  have "jfrom (wst w) \<le> wpos w - 1 \<and> wpos w - 1 \<le> jto (wst w) \<and> wpos w - 1 \<le> wpos w" if "wpos w \<noteq> jfrom (wst w)"
  proof -
    have lt: "jfrom (wst w) < wpos w" using w that by (simp add: order_less_le)
    then have "unat (wpos w - 1) = unat (wpos w) - 1"
      by (simp add: unat_sub word_le_nat_alt word_less_nat_alt)
    moreover have "unat (wpos w) \<le> unat (jto (wst w)) + 1"
      using w unat_u64_succ [of "jto (wst w)"] by (simp add: word_le_nat_alt)
    moreover have "unat (jfrom (wst w)) < unat (wpos w)" using lt by (simp add: word_less_nat_alt)
    ultimately show ?thesis unfolding word_le_nat_alt by linarith
  qed
  then show "jfrom (wst w) \<le> wcurr (wst w)" "wcurr (wst w) \<le> jto (wst w)" "wcurr (wst w) \<le> wpos w"
    using w by auto
qed

lemma worker_iter_job [simp]:
  "jid (wst (worker_iter err w)) = jid (wst w)" "jtype (wst (worker_iter err w)) = jtype (wst w)"
  "jfrom (wst (worker_iter err w)) = jfrom (wst w)" "jto (wst (worker_iter err w)) = jto (wst w)"
  by (auto simp: worker_iter_def setResult_def Let_def split: option.splits)

lemma worker_wf_next:
  assumes w: "worker_wf S w" and le: "wpos w \<le> jto (wst w)" and S: "S \<subseteq> S'"
    and ok: "err = None \<Longrightarrow> wpos w \<in> S'"
  shows "worker_wf S' (w\<lparr>wst := setResult (wpos w) err (wst w), wpos := wpos w + 1\<rparr>)"
proof -
  note w' = w [unfolded worker_wf_def]
  have lt: "wpos w < - 1" "jto (wst w) < - 1" using w' le by auto
  note succ = u64_succ [OF lt(1)] u64_succ [OF lt(2)]
  have fresh: "fmlookup (rfailed (wst w)) (wpos w) = None"
    using w' by (cases "fmlookup (rfailed (wst w)) (wpos w)") auto
  have ne: "wpos w + 1 \<noteq> jfrom (wst w)" using w' succ by (metis not_less)
  have ph: "phase w \<noteq> Sending" using w' le succ by (metis not_less)
  have le': "wpos w + 1 \<le> jto (wst w) + 1" "jfrom (wst w) \<le> wpos w + 1"
    using le succ w' by (simp_all add: order_le_less_trans less_imp_le)
  show ?thesis
    unfolding worker_wf_def using w' succ fresh ne ph le le' S ok
    by (auto simp: setResult_def less_imp_le split: option.splits)
qed

lemma worker_iter_wf:
  assumes w: "worker_wf S w" and S: "S \<subseteq> S'"
    and ok: "wpos w \<le> jto (wst w) \<Longrightarrow> err \<in> {None, Some OutsideSamplingWindow} \<Longrightarrow> wpos w \<in> S'"
  shows "worker_wf S' (worker_iter err w)"
proof (cases "wpos w \<le> jto (wst w)")
  case True
  show ?thesis
  proof (cases "err = Some Canceled")
    case True
    then show ?thesis using worker_wf_mono [OF w S] \<open>wpos w \<le> jto (wst w)\<close>
      by (simp add: worker_iter_def worker_wf_def)
  next
    case False
    then show ?thesis using worker_wf_next [OF w True S, of None] worker_wf_next [OF w True S, of err] ok True
      by (simp add: worker_iter_def Let_def)
  qed
next
  case False
  then have "wpos w = jto (wst w) + 1"
    using w u64_succ(2,3) [of "jto (wst w)"] by (simp add: worker_wf_def antisym not_le)
  then show ?thesis using worker_wf_mono [OF w S] False by (simp add: worker_iter_def worker_wf_def)
qed

text \<open>A run that is not cancelled ends, at the end of its job, with exactly the heights it failed to
  sample recorded.\<close>

definition sampled_by :: "(u64 \<Rightarrow> 'e sample_error option) \<Rightarrow> u64 set" where
  "sampled_by sample = {h. sample h \<in> {None, Some OutsideSamplingWindow}}"

lemma worker_run_wf:
  assumes "worker_wf (sampled_by sample) w" "phase w = Looping"
    and "\<forall>h. fmlookup (rfailed (wst w)) h \<noteq> None \<longrightarrow> h \<notin> sampled_by sample"
    and "\<forall>h. wpos w \<le> h \<longrightarrow> h \<le> jto (wst w) \<longrightarrow> sample h \<noteq> Some Canceled"
    and "unat (jto (wst w)) + 2 - unat (wpos w) \<le> fuel"
  shows "\<exists>w'. worker_run sample fuel w = Some w' \<and> phase w' = Sending \<and> worker_wf (sampled_by sample) w'
           \<and> jfrom (wst w') = jfrom (wst w) \<and> jto (wst w') = jto (wst w)
           \<and> (\<forall>h. fmlookup (rfailed (wst w')) h \<noteq> None \<longrightarrow> h \<notin> sampled_by sample)"
  using assms
proof (induction fuel arbitrary: w)
  case 0
  then have "unat (wpos w) \<le> unat (jto (wst w)) + 1"
    using unat_u64_succ [of "jto (wst w)"] by (auto simp: worker_wf_def word_le_nat_alt)
  with 0 show ?case by simp
next
  case (Suc fuel)
  let ?e = "sample (wpos w)" and ?w = "worker_iter (sample (wpos w)) w"
  have wf: "worker_wf (sampled_by sample) ?w"
    using worker_iter_wf [OF Suc.prems(1) order_refl] by (simp add: sampled_by_def)
  have unf: "worker_run sample (Suc fuel) w = worker_run sample fuel ?w"
    using Suc.prems(2) by (simp add: worker_run.simps)
  show ?case
  proof (cases "wpos w \<le> jto (wst w)")
    case True
    then have lt: "wpos w < - 1" and nc: "?e \<noteq> Some Canceled" using Suc.prems by (auto simp: worker_wf_def)
    have w: "wpos ?w = wpos w + 1" "phase ?w = Looping" using True nc Suc.prems(2) by (simp_all add: worker_iter_def Let_def)
    have "\<forall>h. fmlookup (rfailed (wst ?w)) h \<noteq> None \<longrightarrow> h \<notin> sampled_by sample"
      using Suc.prems(3) True nc
      by (auto simp: worker_iter_def setResult_def sampled_by_def Let_def split: option.splits if_splits)
    moreover have "unat (jto (wst ?w)) + 2 - unat (wpos ?w) \<le> fuel"
      using Suc.prems(5) w unat_u64_succ [OF lt] by simp
    moreover have "\<forall>h. wpos ?w \<le> h \<longrightarrow> h \<le> jto (wst ?w) \<longrightarrow> sample h \<noteq> Some Canceled"
      using Suc.prems(4) w u64_succ(3) [OF lt] by auto
    ultimately show ?thesis using Suc.IH [OF wf w(2)] unf by simp
  next
    case False
    then show ?thesis using Suc.prems wf unf
      by (auto simp: worker_iter_def worker_run.simps)
  qed
qed

lemma worker_run_result:
  assumes j: "jfrom j \<le> jto j" "jto j < - 1"
    and c: "\<forall>h. jfrom j \<le> h \<longrightarrow> h \<le> jto j \<longrightarrow> sample h \<noteq> Some Canceled"
    and fuel: "unat (jto j) + 2 - unat (jfrom j) \<le> fuel"
  shows "\<exists>w. worker_run sample fuel (newWorker j) = Some w \<and> phase w = Sending \<and> wcurr (wst w) = jto j
           \<and> (\<forall>h. fmlookup (rfailed (wst w)) h =
                    (if jfrom j \<le> h \<and> h \<le> jto j \<and> h \<notin> sampled_by sample then Some 1 else None))"
proof -
  obtain w where w: "worker_run sample fuel (newWorker j) = Some w" "phase w = Sending" "worker_wf (sampled_by sample) w"
      "jfrom (wst w) = jfrom j" "jto (wst w) = jto j"
      "\<forall>h. fmlookup (rfailed (wst w)) h \<noteq> None \<longrightarrow> h \<notin> sampled_by sample"
    using worker_run_wf [OF newWorker_wf [OF j], of sample fuel] c fuel by auto
  note w' = w(3) [unfolded worker_wf_def]
  have ne: "jto j + 1 \<noteq> jfrom j" using j u64_succ(1) by (metis not_less)
  have "fmlookup (rfailed (wst w)) h =
          (if jfrom j \<le> h \<and> h \<le> jto j \<and> h \<notin> sampled_by sample then Some 1 else None)" for h
  proof (cases "fmlookup (rfailed (wst w)) h")
    case None
    then show ?thesis using w w' u64_succ(2) [OF j(2)] by auto
  next
    case (Some n)
    then have "n = 1 \<and> jfrom j \<le> h \<and> h < jto j + 1" using w w' by auto
    with Some show ?thesis using w(6) u64_succ(2) [OF j(2)] by auto
  qed
  moreover have "wcurr (wst w) = jto j" using w w' ne by simp
  ultimately show ?thesis using w by blast
qed

end
