(* ===== verification/DasState.thy ===== *)
theory DasState
  imports DasWorker
begin

text \<open>
  The state of the sampling coordinator and its operations: \<^verbatim>\<open>das/backoff.go\<close> and \<^verbatim>\<open>das/state.go\<close>.
  The clock is an argument of the operations that read it. A Go map that the code ranges over is a
  finite map; where the order of the iteration decides the outcome, the order is an argument.
\<close>

section \<open>Retry backoff\<close>

text \<open>Times are nanoseconds from the zero value of \<^verbatim>\<open>time.Time\<close>.\<close>

record retryAttempt =
  count :: int
  after :: time

definition zeroAttempt :: retryAttempt where
  "zeroAttempt = \<lparr>count = 0, after = 0\<rparr>"

definition canRetry :: "time \<Rightarrow> retryAttempt \<Rightarrow> bool" where
  "canRetry now r \<longleftrightarrow> after r < now"

definition nextRetry :: "duration list \<Rightarrow> retryAttempt \<Rightarrow> time \<Rightarrow> retryAttempt \<times> bool" where
  "nextRetry retryIntervals lastRetry lastAttempt =
     (let r = lastRetry\<lparr>count := count lastRetry + 1\<rparr>; n = int (length retryIntervals) in
      if n = 0 then (r, False)
      else if count r > n then (r\<lparr>after := lastAttempt + retryIntervals ! nat (n - 1)\<rparr>, True)
      else (r\<lparr>after := lastAttempt + retryIntervals ! nat (count r - 1)\<rparr>, False))"

fun exponentialBackoff :: "duration \<Rightarrow> int \<Rightarrow> nat \<Rightarrow> duration list" where
  "exponentialBackoff nxt multiplier 0 = []"
| "exponentialBackoff nxt multiplier (Suc amount) =
     nxt # exponentialBackoff (nxt * multiplier) multiplier amount"

definition defaultBackoffInitialInterval :: duration where "defaultBackoffInitialInterval = 60 * 10 ^ 9"
definition defaultBackoffMultiplier :: int where "defaultBackoffMultiplier = 4"
definition defaultBackoffMaxRetryCount :: nat where "defaultBackoffMaxRetryCount = 4"

lemma length_exponentialBackoff [simp]: "length (exponentialBackoff b m n) = n"
  by (induction n arbitrary: b) auto

lemma nth_exponentialBackoff: "i < n \<Longrightarrow> exponentialBackoff b m n ! i = b * m ^ i"
  by (induction n arbitrary: b i) (auto simp: nth_Cons' gr0_conv_Suc)

text \<open>The \<open>k\<close>-th attempt at a height waits \<open>b * m ^ (k - 1)\<close>, and \<open>b * m ^ (n - 1)\<close> from the \<open>n\<close>-th on.\<close>

lemma nextRetry_exponential:
  assumes "0 < n" "0 \<le> count r"
  shows "nextRetry (exponentialBackoff b m n) r now =
           (\<lparr>count = count r + 1, after = now + b * m ^ min (nat (count r)) (n - 1)\<rparr>, int n \<le> count r)"
  using assms by (auto simp: nextRetry_def Let_def nth_exponentialBackoff min_def nat_diff_distrib)

section \<open>The coordinator's state\<close>

text \<open>
  \<open>inProgress\<close> holds, for each running job, the worker whose \<^verbatim>\<open>getState\<close> the code stores. Of the
  channels, \<open>catchUpDoneCh\<close> is the number of the one in the field (each \<^verbatim>\<open>make\<close> is a new number), and
  \<open>closedChs\<close> the channels closed so far, in the order of the \<^verbatim>\<open>close\<close> calls; closing one twice panics.
\<close>

record ('h, 'e) coordinatorState =
  samplingRange :: u64
  inProgress :: "(int, ('h, 'e) worker) fmap"
  retryStrategy :: "duration list"
  failed :: "(u64, retryAttempt) fmap"
  inRetry :: "(u64, retryAttempt) fmap"
  nextJobID :: int
  nextHeight :: u64
  networkHead :: u64
  catchUpDone :: bool
  catchUpDoneCh :: nat
  closedChs :: "nat list"

definition newCoordinatorState :: "u64 \<Rightarrow> ('h, 'e) coordinatorState" where
  "newCoordinatorState SamplingRange =
     \<lparr>samplingRange = SamplingRange, inProgress = fmempty,
      retryStrategy = exponentialBackoff defaultBackoffInitialInterval defaultBackoffMultiplier defaultBackoffMaxRetryCount,
      failed = fmempty, inRetry = fmempty, nextJobID = 0, nextHeight = 0, networkHead = 0,
      catchUpDone = False, catchUpDoneCh = 0, closedChs = []\<rparr>"

definition checkDone :: "('h, 'e) coordinatorState \<Rightarrow> ('h, 'e) coordinatorState" where
  "checkDone s =
     (if mlen (inProgress s) = 0 \<and> mlen (failed s) = 0 \<and> nextHeight s > networkHead s then
        (if \<not> catchUpDone s then s\<lparr>catchUpDone := True, closedChs := closedChs s @ [catchUpDoneCh s]\<rparr>
         else s)
      else if catchUpDone s then s\<lparr>catchUpDone := False, catchUpDoneCh := catchUpDoneCh s + 1\<rparr>
      else s)"

section \<open>Results\<close>

definition handleRecentOrCatchupResult ::
    "(u64 \<Rightarrow> time) \<Rightarrow> ('h, 'e, 'z) result_scheme \<Rightarrow> ('h, 'e) coordinatorState \<Rightarrow> ('h, 'e) coordinatorState" where
  "handleRecentOrCatchupResult now res s =
     (let kept = fmfilter (\<lambda>h. h < jfrom res \<or> h > jto res
                            \<or> (case fmlookup (rfailed res) h of Some n \<Rightarrow> n \<noteq> 0 | None \<Rightarrow> False)) (failed s);
          again = fmmap_keys (\<lambda>h _. fst (nextRetry (retryStrategy s) zeroAttempt (now h))) (rfailed res)
      in s\<lparr>failed := kept ++\<^sub>f again\<rparr>)"

definition handleRetryResult ::
    "(u64 \<Rightarrow> time) \<Rightarrow> ('h, 'e, 'z) result_scheme \<Rightarrow> ('h, 'e) coordinatorState \<Rightarrow> ('h, 'e) coordinatorState" where
  "handleRetryResult now res s =
     (let again = fmmap_keys (\<lambda>h _. fst (nextRetry (retryStrategy s)
                     (case fmlookup (inRetry s) h of Some a \<Rightarrow> a | None \<Rightarrow> zeroAttempt) (now h))) (rfailed res)
      in s\<lparr>failed := failed s ++\<^sub>f again,
           inRetry := fmfilter (\<lambda>h. \<not> (jfrom res \<le> h \<and> h \<le> jto res)) (inRetry s)\<rparr>)"

definition handleResult ::
    "(u64 \<Rightarrow> time) \<Rightarrow> ('h, 'e, 'z) result_scheme \<Rightarrow> ('h, 'e) coordinatorState \<Rightarrow> ('h, 'e) coordinatorState" where
  "handleResult now res s =
     (let s1 = s\<lparr>inProgress := fmdrop (jid res) (inProgress s)\<rparr>;
          s2 = (case jtype res of
                  recent \<Rightarrow> handleRecentOrCatchupResult now res s1
                | catchup \<Rightarrow> handleRecentOrCatchupResult now res s1
                | retry \<Rightarrow> handleRetryResult now res s1)
      in checkDone s2)"

section \<open>Heads and jobs\<close>

definition isNewHead :: "u64 \<Rightarrow> ('h, 'e) coordinatorState \<Rightarrow> bool" where
  "isNewHead newHead s \<longleftrightarrow> \<not> newHead \<le> networkHead s"

definition updateHead :: "u64 \<Rightarrow> ('h, 'e) coordinatorState \<Rightarrow> ('h, 'e) coordinatorState" where
  "updateHead newHead s = checkDone (s\<lparr>networkHead := newHead\<rparr>)"

definition newJob ::
    "jobType \<Rightarrow> u64 \<Rightarrow> u64 \<Rightarrow> ('h, 'e) coordinatorState \<Rightarrow> 'h job \<times> ('h, 'e) coordinatorState" where
  "newJob t from to s =
     (let s' = s\<lparr>nextJobID := nextJobID s + 1\<rparr> in
      (\<lparr>jid = nextJobID s', jtype = t, jfrom = from, jto = to, jheader = None\<rparr>, s'))"

text \<open>\<open>Height\<close> is the header's \<^verbatim>\<open>Height\<close> method.\<close>

definition recentJob ::
    "('h \<Rightarrow> u64) \<Rightarrow> 'h \<Rightarrow> ('h, 'e) coordinatorState \<Rightarrow> 'h job \<times> ('h, 'e) coordinatorState" where
  "recentJob Height hdr s =
     (let s1 = (if nextHeight s = Height hdr then s\<lparr>nextHeight := nextHeight s + 1\<rparr> else s);
          s2 = s1\<lparr>nextJobID := nextJobID s1 + 1\<rparr> in
      (\<lparr>jid = nextJobID s2, jtype = recent, jfrom = Height hdr, jto = Height hdr, jheader = Some hdr\<rparr>, s2))"

definition catchupJob ::
    "('h, 'e) coordinatorState \<Rightarrow> ('h job \<times> ('h, 'e) coordinatorState) option" where
  "catchupJob s =
     (if nextHeight s > networkHead s then None
      else
        let to = min (nextHeight s + samplingRange s - 1) (networkHead s);
            (j, s') = newJob catchup (nextHeight s) to s
        in Some (j, s'\<lparr>nextHeight := to + 1\<rparr>))"

text \<open>\<open>order\<close> is the order in which the iteration visits the failed heights.\<close>

definition retryJob ::
    "u64 list \<Rightarrow> (u64 \<Rightarrow> time) \<Rightarrow> ('h, 'e) coordinatorState \<Rightarrow> ('h job \<times> ('h, 'e) coordinatorState) option" where
  "retryJob order now s =
     (case find (\<lambda>h. case fmlookup (failed s) h of Some a \<Rightarrow> canRetry (now h) a | None \<Rightarrow> False) order of
        None \<Rightarrow> None
      | Some h \<Rightarrow>
          let attempt = the (fmlookup (failed s) h);
              s1 = s\<lparr>failed := fmdrop h (failed s), inRetry := fmupd h attempt (inRetry s)\<rparr>
          in Some (newJob retry h h s1))"

definition nextJob ::
    "u64 list \<Rightarrow> (u64 \<Rightarrow> time) \<Rightarrow> ('h, 'e) coordinatorState \<Rightarrow> ('h job \<times> ('h, 'e) coordinatorState) option" where
  "nextJob order now s =
     (case retryJob order now s of Some r \<Rightarrow> Some r | None \<Rightarrow> catchupJob s)"

definition putInProgress ::
    "int \<Rightarrow> ('h, 'e) worker \<Rightarrow> ('h, 'e) coordinatorState \<Rightarrow> ('h, 'e) coordinatorState" where
  "putInProgress jobID w s = s\<lparr>inProgress := fmupd jobID w (inProgress s)\<rparr>"

text \<open>What a waiter for the end of the catch-up does, at the state it reads: return at once, or block
  on the channel that is in the field.\<close>

datatype wait_on = WaitReturns | WaitChan nat

definition waitCatchUp :: "('h, 'e) coordinatorState \<Rightarrow> wait_on" where
  "waitCatchUp s = (if catchUpDone s then WaitReturns else WaitChan (catchUpDoneCh s))"

end
