(* ===== verification/DasCoordinator.thy ===== *)
theory DasCoordinator
  imports DasState
begin

text \<open>
  The sampling coordinator: the statistics of \<^verbatim>\<open>das/stats.go\<close> and \<^verbatim>\<open>unsafeStats\<close>, the checkpoint of
  \<^verbatim>\<open>das/checkpoint.go\<close> and the event loop of \<^verbatim>\<open>das/coordinator.go\<close>.
\<close>

section \<open>Statistics\<close>

record 'e WorkerStats =
  ws_JobType :: jobType
  ws_Curr :: u64
  ws_From :: u64
  ws_To :: u64
  ws_ErrMsg :: "(u64 \<times> 'e sample_error) list"

record 'e SamplingStats =
  SampledChainHead :: u64
  CatchupHead :: u64
  NetworkHead :: u64
  Failed :: "(u64, int) fmap"
  Workers :: "'e WorkerStats list"
  Concurrency :: int
  CatchUpDone :: bool
  IsRunning :: bool

text \<open>\<open>bump m g\<close> adds, for each key of \<open>g\<close>, its number to the counter of the key in \<open>m\<close>; \<open>lowest\<close>
  lowers a height to the least key of a map.\<close>

definition bump :: "(u64, int) fmap \<Rightarrow> (u64, int) fmap \<Rightarrow> (u64, int) fmap" where
  "bump m g = m ++\<^sub>f fmmap_keys (\<lambda>h n. (case fmlookup m h of Some k \<Rightarrow> k | None \<Rightarrow> 0) + n) g"

definition lowest :: "(u64, 'v) fmap \<Rightarrow> u64 \<Rightarrow> u64" where
  "lowest m l = fold min (sorted_list_of_fset (fmdom m)) l"

fun stats_workers ::
    "('h, 'e) workerState list \<Rightarrow> u64 \<times> (u64, int) fmap \<times> 'e WorkerStats list
      \<Rightarrow> u64 \<times> (u64, int) fmap \<times> 'e WorkerStats list" where
  "stats_workers [] acc = acc"
| "stats_workers (w # ws) (low, fails, workers) =
     stats_workers ws
       (min (lowest (rfailed w) low) (wcurr w),
        bump fails (fmmap (\<lambda>_. 1) (rfailed w)),
        workers @ [\<lparr>ws_JobType = jtype w, ws_Curr = wcurr w, ws_From = jfrom w, ws_To = jto w, ws_ErrMsg = rerr w\<rparr>])"

text \<open>\<open>order\<close> is the order in which the iteration visits the running jobs.\<close>

definition unsafeStats :: "int list \<Rightarrow> ('h, 'e) coordinatorState \<Rightarrow> 'e SamplingStats" where
  "unsafeStats order s =
     (let ws = map (\<lambda>i. getState (the (fmlookup (inProgress s) i))) order;
          (low, fails, workers) = stats_workers ws (nextHeight s, fmempty, []);
          fails' = bump (bump fails (fmmap count (failed s))) (fmmap count (inRetry s))
      in \<lparr>SampledChainHead = lowest (failed s) low - 1, CatchupHead = nextHeight s - 1,
          NetworkHead = networkHead s, Failed = fails', Workers = workers,
          Concurrency = int (length workers), CatchUpDone = catchUpDone s,
          IsRunning = (length workers > 0 \<or> catchUpDone s)\<rparr>)"

definition totalSampled :: "'e SamplingStats \<Rightarrow> u64" where
  "totalSampled st =
     (let inProgress = (\<Sum>w\<leftarrow>Workers st. if ws_JobType w \<noteq> recent then ws_To w - ws_Curr w + 1 else 0)
      in CatchupHead st - inProgress - of_nat (mlen (Failed st)))"

fun workersByJobType :: "'e WorkerStats list \<Rightarrow> (jobType, int) fmap \<Rightarrow> (jobType, int) fmap" where
  "workersByJobType [] m = m"
| "workersByJobType (w # ws) m =
     workersByJobType ws (fmupd (ws_JobType w) ((case fmlookup m (ws_JobType w) of Some n \<Rightarrow> n | None \<Rightarrow> 0) + 1) m)"

section \<open>Checkpoints\<close>

record workerCheckpoint =
  wc_From :: u64
  wc_To :: u64
  wc_JobType :: jobType

record checkpoint =
  cp_SampleFrom :: u64
  cp_NetworkHead :: u64
  cp_Failed :: "(u64, int) fmap"
  cp_Workers :: "workerCheckpoint list"

definition newCheckpoint :: "'e SamplingStats \<Rightarrow> checkpoint" where
  "newCheckpoint st =
     (let keep = filter (\<lambda>w. ws_JobType w = catchup \<or> ws_JobType w = recent \<and> ws_Curr w \<le> CatchupHead st) (Workers st)
      in \<lparr>cp_SampleFrom = CatchupHead st + 1, cp_NetworkHead = NetworkHead st, cp_Failed = Failed st,
          cp_Workers = map (\<lambda>w. \<lparr>wc_From = ws_Curr w, wc_To = ws_To w, wc_JobType = catchup\<rparr>) keep\<rparr>)"

definition resumeFromCheckpoint ::
    "(u64 \<Rightarrow> time) \<Rightarrow> checkpoint \<Rightarrow> ('h, 'e) coordinatorState \<Rightarrow> ('h, 'e) coordinatorState" where
  "resumeFromCheckpoint now c s =
     s\<lparr>failed := failed s ++\<^sub>f fmmap_keys (\<lambda>h n. \<lparr>count = n, after = now h\<rparr>) (cp_Failed c),
       nextHeight := cp_SampleFrom c, networkHead := cp_NetworkHead c\<rparr>"

section \<open>The coordinator\<close>

record ('h, 'e) samplingCoordinator =
  concurrencyLimit :: int
  samplingTimeout :: duration
  st :: "('h, 'e) coordinatorState"

definition newSamplingCoordinator :: "int \<Rightarrow> duration \<Rightarrow> u64 \<Rightarrow> ('h, 'e) samplingCoordinator" where
  "newSamplingCoordinator ConcurrencyLimit SampleTimeout SamplingRange =
     \<lparr>concurrencyLimit = ConcurrencyLimit, samplingTimeout = SampleTimeout, st = newCoordinatorState SamplingRange\<rparr>"

definition concurrencyLimitReached :: "('h, 'e) samplingCoordinator \<Rightarrow> bool" where
  "concurrencyLimitReached sc \<longleftrightarrow> int (mlen (inProgress (st sc))) \<ge> concurrencyLimit sc"

definition recentJobsLimitReached :: "('h, 'e) samplingCoordinator \<Rightarrow> bool" where
  "recentJobsLimitReached sc \<longleftrightarrow> int (mlen (inProgress (st sc))) \<ge> 2 * concurrencyLimit sc"

definition runWorker :: "'h job \<Rightarrow> ('h, 'e) coordinatorState \<Rightarrow> ('h, 'e) coordinatorState" where
  "runWorker j s = putInProgress (jid j) (newWorker j) s"

text \<open>The inner loop of \<^verbatim>\<open>run\<close> that hands out jobs until the limit is reached or none is left. The order
  of the iteration over the failed heights and the clock may differ from turn to turn, so both are
  functions of the state.\<close>

fun fill_jobs ::
    "(('h, 'e) coordinatorState \<Rightarrow> u64 list) \<Rightarrow> (('h, 'e) coordinatorState \<Rightarrow> u64 \<Rightarrow> time) \<Rightarrow> nat
      \<Rightarrow> ('h, 'e) samplingCoordinator \<Rightarrow> ('h, 'e) samplingCoordinator option" where
  "fill_jobs order now fuel sc =
     (if concurrencyLimitReached sc then Some sc
      else case nextJob (order (st sc)) (now (st sc)) (st sc) of
        None \<Rightarrow> Some sc
      | Some (j, s) \<Rightarrow>
          (case fuel of
             0 \<Rightarrow> None
           | Suc f \<Rightarrow> fill_jobs order now f (sc\<lparr>st := runWorker j s\<rparr>)))"

declare fill_jobs.simps [simp del]

lemma fill_jobs_stop:
  "concurrencyLimitReached sc \<or> nextJob (order (st sc)) (now (st sc)) (st sc) = None \<Longrightarrow>
     fill_jobs order now fuel sc = Some sc"
  by (auto simp: fill_jobs.simps [of order now fuel])

lemma fill_jobs_turn:
  assumes "\<not> concurrencyLimitReached sc" "nextJob (order (st sc)) (now (st sc)) (st sc) = Some (j, s)"
  shows "fill_jobs order now 0 sc = None"
    and "fill_jobs order now (Suc fuel) sc = fill_jobs order now fuel (sc\<lparr>st := runWorker j s\<rparr>)"
  using assms by (simp_all add: fill_jobs.simps [of order now 0] fill_jobs.simps [of order now "Suc fuel"])

text \<open>What precedes the loop of \<^verbatim>\<open>run\<close>, and the two branches of its select that change the state.\<close>

fun resume_workers :: "workerCheckpoint list \<Rightarrow> ('h, 'e) coordinatorState \<Rightarrow> ('h, 'e) coordinatorState" where
  "resume_workers [] s = s"
| "resume_workers (wk # wks) s =
     (let (j, s') = newJob (wc_JobType wk) (wc_From wk) (wc_To wk) s in resume_workers wks (runWorker j s'))"

definition run_start ::
    "(u64 \<Rightarrow> time) \<Rightarrow> checkpoint \<Rightarrow> ('h, 'e) samplingCoordinator \<Rightarrow> ('h, 'e) samplingCoordinator" where
  "run_start now cp sc =
     sc\<lparr>st := checkDone (resume_workers (cp_Workers cp) (resumeFromCheckpoint now cp (st sc)))\<rparr>"

definition run_head :: "('h \<Rightarrow> u64) \<Rightarrow> 'h \<Rightarrow> ('h, 'e) samplingCoordinator \<Rightarrow> ('h, 'e) samplingCoordinator" where
  "run_head Height hdr sc =
     (if isNewHead (Height hdr) (st sc) then
        let s1 = (if \<not> recentJobsLimitReached sc then (let (j, s) = recentJob Height hdr (st sc) in runWorker j s)
                  else st sc)
        in sc\<lparr>st := updateHead (Height hdr) s1\<rparr>
      else sc)"

definition run_result ::
    "(u64 \<Rightarrow> time) \<Rightarrow> ('h, 'e, 'z) result_scheme \<Rightarrow> ('h, 'e) samplingCoordinator \<Rightarrow> ('h, 'e) samplingCoordinator" where
  "run_result now res sc = sc\<lparr>st := handleResult now res (st sc)\<rparr>"

definition getCheckpoint :: "int list \<Rightarrow> ('h, 'e) samplingCoordinator \<Rightarrow> checkpoint" where
  "getCheckpoint order sc = newCheckpoint (unsafeStats order (st sc))"

end
