(* ===== verification/DasSystem.thy ===== *)
theory DasSystem
  imports DasCoordinator
begin

text \<open>
  The coordinator and its workers running together, and the invariant that makes sampling complete:
  no height between the start of sampling and the network head is ever lost. A height is settled
  when a worker sampled it or found it outside the sampling window; the set of settled heights is
  kept beside the state, for the statements only.
\<close>

section \<open>The invariant\<close>

definition busy :: "('h, 'e) coordinatorState \<Rightarrow> u64 \<Rightarrow> bool" where
  "busy s h \<longleftrightarrow> (\<exists>i w. fmlookup (inProgress s) i = Some w \<and> jtype (wst w) \<noteq> retry
                    \<and> jfrom (wst w) \<le> h \<and> h \<le> jto (wst w))"

definition retrying :: "('h, 'e) coordinatorState \<Rightarrow> u64 \<Rightarrow> bool" where
  "retrying s h \<longleftrightarrow> (\<exists>i w. fmlookup (inProgress s) i = Some w \<and> jtype (wst w) = retry \<and> jfrom (wst w) = h)"

definition covered :: "('h, 'e) coordinatorState \<Rightarrow> u64 \<Rightarrow> bool" where
  "covered s h \<longleftrightarrow> nextHeight s \<le> h \<or> fmlookup (failed s) h \<noteq> None \<or> fmlookup (inRetry s) h \<noteq> None \<or> busy s h"

definition job_ok :: "u64 set \<Rightarrow> int \<Rightarrow> int \<Rightarrow> ('h, 'e) worker \<Rightarrow> bool" where
  "job_ok S n i w \<longleftrightarrow> i \<le> n \<and> jid (wst w) = i \<and> worker_wf S w
                      \<and> (jtype (wst w) = retry \<longrightarrow> jfrom (wst w) = jto (wst w))"

definition jobs_ok :: "u64 set \<Rightarrow> ('h, 'e) coordinatorState \<Rightarrow> bool" where
  "jobs_ok S s \<longleftrightarrow> (\<forall>i w. fmlookup (inProgress s) i = Some w \<longrightarrow> job_ok S (nextJobID s) i w)"

definition retry_ok :: "('h, 'e) coordinatorState \<Rightarrow> bool" where
  "retry_ok s \<longleftrightarrow> (\<forall>h. fmlookup (inRetry s) h \<noteq> None \<longrightarrow> retrying s h)"

definition cover_ok :: "u64 \<Rightarrow> u64 set \<Rightarrow> ('h, 'e) coordinatorState \<Rightarrow> bool" where
  "cover_ok lo S s \<longleftrightarrow> (\<forall>h. lo \<le> h \<longrightarrow> h \<le> networkHead s \<longrightarrow> h \<notin> S \<longrightarrow> covered s h)"

definition range_ok :: "('h, 'e) coordinatorState \<Rightarrow> bool" where
  "range_ok s \<longleftrightarrow> networkHead s < - 1 \<and> nextHeight s \<le> networkHead s + 1 \<and> 0 < samplingRange s
                  \<and> unat (networkHead s) + unat (samplingRange s) \<le> 2 ^ 64"

definition fails_ok :: "('h, 'e) coordinatorState \<Rightarrow> bool" where
  "fails_ok s \<longleftrightarrow> (\<forall>h. fmlookup (failed s) h \<noteq> None \<longrightarrow> h < - 1)"

definition das_inv :: "u64 \<Rightarrow> u64 set \<Rightarrow> ('h, 'e) coordinatorState \<Rightarrow> bool" where
  "das_inv lo S s \<longleftrightarrow> jobs_ok S s \<and> retry_ok s \<and> cover_ok lo S s \<and> range_ok s \<and> fails_ok s"

text \<open>When the catch-up is over, and the state of the channels that signal it: those made and
  replaced so far are closed, once each, and the current one is closed exactly when the flag is up.\<close>

definition idle :: "('h, 'e) coordinatorState \<Rightarrow> bool" where
  "idle s \<longleftrightarrow> inProgress s = fmempty \<and> failed s = fmempty \<and> networkHead s < nextHeight s"

definition chan_ok :: "('h, 'e) coordinatorState \<Rightarrow> bool" where
  "chan_ok s \<longleftrightarrow> distinct (closedChs s)
     \<and> set (closedChs s) = (if catchUpDone s then {..catchUpDoneCh s} else {..<catchUpDoneCh s})"

subsection \<open>The end of the catch-up\<close>

lemma checkDone_simps [simp]:
  "inProgress (checkDone s) = inProgress s" "failed (checkDone s) = failed s"
  "inRetry (checkDone s) = inRetry s" "nextHeight (checkDone s) = nextHeight s"
  "networkHead (checkDone s) = networkHead s" "nextJobID (checkDone s) = nextJobID s"
  "samplingRange (checkDone s) = samplingRange s" "retryStrategy (checkDone s) = retryStrategy s"
  by (simp_all add: checkDone_def)

lemma checkDone_flag: "catchUpDone (checkDone s) \<longleftrightarrow> idle s"
  unfolding checkDone_def idle_def mlen_0_iff by simp

lemma checkDone_chan: "chan_ok s \<Longrightarrow> chan_ok (checkDone s)"
  by (auto simp: checkDone_def chan_ok_def lessThan_Suc_atMost)

lemma das_inv_checkDone [simp]: "das_inv lo S (checkDone s) \<longleftrightarrow> das_inv lo S s"
  by (simp add: das_inv_def jobs_ok_def retry_ok_def cover_ok_def range_ok_def fails_ok_def covered_def busy_def retrying_def)

subsection \<open>Starting a worker\<close>

lemma runWorker_simps [simp]:
  "fmlookup (inProgress (runWorker j s)) i = (if i = jid j then Some (newWorker j) else fmlookup (inProgress s) i)"
  "failed (runWorker j s) = failed s" "inRetry (runWorker j s) = inRetry s"
  "nextHeight (runWorker j s) = nextHeight s" "networkHead (runWorker j s) = networkHead s"
  "nextJobID (runWorker j s) = nextJobID s" "samplingRange (runWorker j s) = samplingRange s"
  "catchUpDone (runWorker j s) = catchUpDone s" "catchUpDoneCh (runWorker j s) = catchUpDoneCh s"
  "closedChs (runWorker j s) = closedChs s"
  by (simp_all add: runWorker_def putInProgress_def)

text \<open>A job under the next number disturbs no running one.\<close>

lemma jobs_ok_fresh:
  assumes "jobs_ok S s" "nextJobID s < n" "fmlookup (inProgress s) i = Some w"
  shows "i \<noteq> n"
  using assms by (fastforce simp: jobs_ok_def job_ok_def)

lemma runWorker_jobs_ok:
  assumes s: "jobs_ok S s" and j: "inProgress s' = inProgress s" "nextJobID s' = nextJobID s + 1"
      "jid j = nextJobID s'" "jfrom j \<le> jto j" "jto j < - 1" "jtype j = retry \<Longrightarrow> jfrom j = jto j"
  shows "jobs_ok S (runWorker j s')"
  using s j newWorker_wf [of j S]
  by (fastforce simp: jobs_ok_def job_ok_def)

lemma runWorker_busy:
  assumes s: "jobs_ok S s" and j: "inProgress s' = inProgress s" "jid j = nextJobID s + 1"
  shows "busy (runWorker j s') h \<longleftrightarrow> busy s h \<or> jtype j \<noteq> retry \<and> jfrom j \<le> h \<and> h \<le> jto j"
    and "retrying (runWorker j s') h \<longleftrightarrow> retrying s h \<or> jtype j = retry \<and> jfrom j = h"
proof -
  have fresh: "i \<noteq> jid j" if "fmlookup (inProgress s) i = Some w" for i w
    using jobs_ok_fresh [OF s _ that, of "jid j"] j by simp
  show "busy (runWorker j s') h \<longleftrightarrow> busy s h \<or> jtype j \<noteq> retry \<and> jfrom j \<le> h \<and> h \<le> jto j"
    using j fresh unfolding busy_def by (auto split: if_splits)
  show "retrying (runWorker j s') h \<longleftrightarrow> retrying s h \<or> jtype j = retry \<and> jfrom j = h"
    using j fresh unfolding retrying_def by (auto split: if_splits)
qed


lemma newJob_eq:
  "newJob t from to s =
     (\<lparr>jid = nextJobID s + 1, jtype = t, jfrom = from, jto = to, jheader = None\<rparr>, s\<lparr>nextJobID := nextJobID s + 1\<rparr>)"
  by (simp add: newJob_def)

text \<open>The last height of a catch-up job does not wrap while the head leaves room for a whole range.\<close>

lemma catchup_to:
  assumes r: "range_ok s" and n: "nextHeight s \<le> networkHead s"
  defines "to \<equiv> min (nextHeight s + samplingRange s - 1) (networkHead s)"
  shows "nextHeight s \<le> to" "to \<le> networkHead s" "to < - 1" "to + 1 \<le> networkHead s + 1"
proof -
  let ?e = "nextHeight s + (samplingRange s - 1)"
  have "unat (samplingRange s - 1) = unat (samplingRange s) - 1"
    using r by (simp add: range_ok_def unat_sub word_le_nat_alt word_less_nat_alt)
  moreover have "unat (nextHeight s) \<le> unat (networkHead s)" using n by (simp add: word_le_nat_alt)
  moreover have "0 < unat (samplingRange s)" using r by (simp add: range_ok_def word_less_nat_alt)
  ultimately have "unat (nextHeight s) + unat (samplingRange s - 1) < 2 ^ 64"
    using r unfolding range_ok_def by linarith
  then have "unat ?e = unat (nextHeight s) + unat (samplingRange s - 1)" by (simp add: unat_word_ariths)
  then have e: "nextHeight s \<le> nextHeight s + samplingRange s - 1"
    by (simp add: word_le_nat_alt add_diff_eq)
  then show "nextHeight s \<le> to" "to \<le> networkHead s" using n by (simp_all add: to_def)
  then show "to < - 1" using r by (auto simp: range_ok_def)
  then show "to + 1 \<le> networkHead s + 1"
    using \<open>to \<le> networkHead s\<close> r u64_succ(2,3) [of "networkHead s"] u64_succ(2,3) [of to]
    by (simp add: range_ok_def order_le_less_trans)
qed

lemma catchupJob_inv:
  assumes inv: "das_inv lo S s" and c: "catchupJob s = Some (j, s')"
  shows "das_inv lo S (runWorker j s')"
proof -
  let ?to = "min (nextHeight s + samplingRange s - 1) (networkHead s)"
  have n: "nextHeight s \<le> networkHead s" using c by (simp add: catchupJob_def split: if_splits)
  have j: "j = \<lparr>jid = nextJobID s + 1, jtype = catchup, jfrom = nextHeight s, jto = ?to, jheader = None\<rparr>"
    and s': "s' = s\<lparr>nextJobID := nextJobID s + 1, nextHeight := ?to + 1\<rparr>"
    using c by (auto simp: catchupJob_def newJob_eq Let_def split: if_splits)
  have r: "range_ok s" and jobs: "jobs_ok S s" using inv by (simp_all add: das_inv_def)
  note to = catchup_to [OF r n]
  note b = runWorker_busy [OF jobs, of s' j] 
  have "jobs_ok S (runWorker j s')" using runWorker_jobs_ok [OF jobs, of s' j] to by (simp add: j s')
  moreover have "retry_ok (runWorker j s')" using inv b by (simp add: das_inv_def retry_ok_def j s')
  moreover have "cover_ok lo S (runWorker j s')"
    using inv b u64_succ(3) [OF to(3)] by (auto simp: das_inv_def cover_ok_def covered_def j s' not_less)
  moreover have "range_ok (runWorker j s')" using r to by (simp add: range_ok_def s')
  moreover have "fails_ok (runWorker j s')" using inv by (simp add: das_inv_def fails_ok_def s')
  ultimately show ?thesis by (simp add: das_inv_def)
qed

lemma retryJob_inv:
  assumes inv: "das_inv lo S s" and c: "retryJob order now s = Some (j, s')"
  shows "das_inv lo S (runWorker j s')"
proof -
  obtain h a where h: "fmlookup (failed s) h = Some a"
    and j: "j = \<lparr>jid = nextJobID s + 1, jtype = retry, jfrom = h, jto = h, jheader = None\<rparr>"
    and s': "s' = s\<lparr>failed := fmdrop h (failed s), inRetry := fmupd h a (inRetry s), nextJobID := nextJobID s + 1\<rparr>"
    using c by (auto simp: retryJob_def newJob_eq Let_def find_Some_iff split: option.splits)
  have jobs: "jobs_ok S s" and hm: "h < - 1" using inv h by (auto simp: das_inv_def fails_ok_def)
  note b = runWorker_busy [OF jobs, of s' j]
  have "jobs_ok S (runWorker j s')" using runWorker_jobs_ok [OF jobs, of s' j] hm by (simp add: j s')
  moreover have "retry_ok (runWorker j s')" using inv b by (auto simp: das_inv_def retry_ok_def j s')
  moreover have "cover_ok lo S (runWorker j s')"
    using inv b by (auto simp: das_inv_def cover_ok_def covered_def j s')
  moreover have "range_ok (runWorker j s')" using inv by (simp add: das_inv_def range_ok_def s')
  moreover have "fails_ok (runWorker j s')" using inv by (auto simp: das_inv_def fails_ok_def s')
  ultimately show ?thesis by (simp add: das_inv_def)
qed

lemma nextJob_inv:
  assumes inv: "das_inv lo S s" and j: "nextJob order now s = Some (j, s')"
  shows "das_inv lo S (runWorker j s')"
proof (cases "retryJob order now s")
  case None
  then show ?thesis using catchupJob_inv [OF inv] j by (simp add: nextJob_def)
next
  case (Some r)
  then show ?thesis using retryJob_inv [OF inv] j by (simp add: nextJob_def)
qed

text \<open>What holds when the dispatch loop ends, by induction over its turns.\<close>

lemma fill_jobs_induct:
  assumes fill: "fill_jobs order now fuel sc = Some sc'" and inv: "das_inv lo S (st sc)" and P: "P sc"
    and step: "\<And>sc j s. das_inv lo S (st sc) \<Longrightarrow> P sc \<Longrightarrow> \<not> concurrencyLimitReached sc \<Longrightarrow>
                 nextJob (order (st sc)) (now (st sc)) (st sc) = Some (j, s) \<Longrightarrow> P (sc\<lparr>st := runWorker j s\<rparr>)"
  shows "das_inv lo S (st sc') \<and> P sc'
           \<and> (concurrencyLimitReached sc' \<or> nextJob (order (st sc')) (now (st sc')) (st sc') = None)"
  using fill inv P
proof (induction fuel arbitrary: sc)
  case 0
  then have "concurrencyLimitReached sc \<or> nextJob (order (st sc)) (now (st sc)) (st sc) = None"
    using fill_jobs_turn(1) [of sc order now] by fastforce
  with 0 show ?case using fill_jobs_stop [of sc order now 0] by auto
next
  case (Suc fuel)
  show ?case
  proof (cases "concurrencyLimitReached sc \<or> nextJob (order (st sc)) (now (st sc)) (st sc) = None")
    case True
    then show ?thesis using Suc.prems fill_jobs_stop [of sc order now "Suc fuel"] by auto
  next
    case False
    then obtain j s where r: "nextJob (order (st sc)) (now (st sc)) (st sc) = Some (j, s)" by auto
    then show ?thesis
      using Suc.IH [of "sc\<lparr>st := runWorker j s\<rparr>"] Suc.prems nextJob_inv [OF Suc.prems(2) r] False step [of sc j s]
        fill_jobs_turn(2) [of sc order now j s fuel]
      by auto
  qed
qed

lemma fill_jobs_inv: "fill_jobs order now fuel sc = Some sc' \<Longrightarrow> das_inv lo S (st sc) \<Longrightarrow> das_inv lo S (st sc')"
  using fill_jobs_induct [of order now fuel sc sc' lo S "\<lambda>_. True"] by blast

subsection \<open>New heads\<close>

lemma run_head_inv:
  assumes inv: "das_inv lo S (st sc)" and h: "Height hdr < - 1"
    and r: "unat (Height hdr) + unat (samplingRange (st sc)) \<le> 2 ^ 64"
  shows "das_inv lo S (st (run_head Height hdr sc))"
proof (cases "isNewHead (Height hdr) (st sc)")
  case True
  let ?s = "st sc" and ?h = "Height hdr"
  let ?s1 = "(if nextHeight ?s = ?h then ?s\<lparr>nextHeight := nextHeight ?s + 1\<rparr> else ?s)\<lparr>nextJobID := nextJobID ?s + 1\<rparr>"
  let ?j = "\<lparr>jid = nextJobID ?s + 1, jtype = recent, jfrom = ?h, jto = ?h, jheader = Some hdr\<rparr>"
  have jobs: "jobs_ok S ?s" using inv by (simp add: das_inv_def)
  note b = runWorker_busy [OF jobs, of ?s1 ?j]
  have new: "networkHead ?s < ?h" using True by (simp add: isNewHead_def)
  have nx: "nextHeight ?s \<le> networkHead ?s + 1" "networkHead ?s < - 1" using inv by (simp_all add: das_inv_def range_ok_def)
  have nh: "nextHeight ?s \<le> ?h" using nx new u64_succ(3) [OF nx(2), of ?h] by (meson order_trans)
  have up: "networkHead ?s + 1 \<le> ?h + 1" "nextHeight ?s \<le> ?h + 1"
    using nh new nx u64_succ(3) [OF nx(2)] u64_succ(2) [OF h] by (auto simp: less_imp_le order_less_le_trans)
  have cov: "covered ?s g" if "lo \<le> g" "g \<notin> S" for g
  proof (cases "g \<le> networkHead ?s")
    case False
    then show ?thesis using nx u64_succ(3) [OF nx(2), of g] by (auto simp: covered_def)
  qed (use inv that in \<open>auto simp: das_inv_def cover_ok_def\<close>)
  have "das_inv lo S (?s\<lparr>networkHead := ?h\<rparr>)"
    using inv h r up cov
    by (auto simp: das_inv_def jobs_ok_def retry_ok_def cover_ok_def range_ok_def fails_ok_def covered_def busy_def retrying_def)
  moreover have "das_inv lo S ((runWorker ?j ?s1)\<lparr>networkHead := ?h\<rparr>)"
  proof -
    have "jobs_ok S (runWorker ?j ?s1)" using runWorker_jobs_ok [OF jobs, of ?s1 ?j] h by simp
    moreover have "retry_ok (runWorker ?j ?s1)" using inv b by (simp add: das_inv_def retry_ok_def)
    moreover have "covered (runWorker ?j ?s1) g" if "lo \<le> g" "g \<notin> S" for g
      using cov [OF that] b u64_succ(3) [OF h, of g] by (auto simp: covered_def order_le_less)
    ultimately show ?thesis using inv h r up
      by (auto simp: das_inv_def jobs_ok_def retry_ok_def cover_ok_def range_ok_def fails_ok_def covered_def busy_def retrying_def)
  qed
  moreover have "recentJob Height hdr ?s = (?j, ?s1)" by (simp add: recentJob_def Let_def)
  ultimately show ?thesis using True
    by (cases "recentJobsLimitReached sc")
      (simp_all add: run_head_def updateHead_def Let_def split del: if_split)
next
  case False
  then show ?thesis using inv by (simp add: run_head_def)
qed


subsection \<open>Results\<close>

text \<open>A worker that offers its result has settled every height of its job or reports it as failed.\<close>

lemma sending_reports:
  assumes "worker_wf S w" "phase w = Sending" "jfrom (wst w) \<le> h" "h \<le> jto (wst w)" "h \<notin> S"
  shows "fmlookup (rfailed (wst w)) h = Some 1"
  using assms u64_succ(2) [of "jto (wst w)" h] unfolding worker_wf_def by (metis not_None_eq)

lemma handleResult_simps [simp]:
  "inProgress (handleResult now res s) = fmdrop (jid res) (inProgress s)"
  "nextHeight (handleResult now res s) = nextHeight s" "networkHead (handleResult now res s) = networkHead s"
  "nextJobID (handleResult now res s) = nextJobID s" "samplingRange (handleResult now res s) = samplingRange s"
  by (simp_all add: handleResult_def handleRecentOrCatchupResult_def handleRetryResult_def Let_def split: jobType.split)

lemma handleResult_inRetry:
  "fmlookup (inRetry (handleResult now res s)) h =
     (if jtype res = retry \<and> jfrom res \<le> h \<and> h \<le> jto res then None else fmlookup (inRetry s) h)"
  by (simp add: handleResult_def handleRecentOrCatchupResult_def handleRetryResult_def Let_def split: jobType.split)

lemma handleResult_failed:
  "fmlookup (failed (handleResult now res s)) h \<noteq> None \<longleftrightarrow>
     fmlookup (rfailed res) h \<noteq> None
     \<or> fmlookup (failed s) h \<noteq> None \<and> (jtype res = retry \<or> h < jfrom res \<or> jto res < h)"
  by (auto simp: handleResult_def handleRecentOrCatchupResult_def handleRetryResult_def Let_def
      split: jobType.split)

lemma handleResult_inv:
  assumes inv: "das_inv lo S s" and w: "fmlookup (inProgress s) i = Some w" "phase w = Sending"
  shows "das_inv lo S (handleResult now (wst w) s)"
proof -
  let ?s = "handleResult now (wst w) s"
  have jobs: "jobs_ok S s" using inv by (simp add: das_inv_def)
  then have ok: "jid (wst w) = i" "worker_wf S w" using w by (auto simp: jobs_ok_def job_ok_def)
  have rep: "fmlookup (rfailed (wst w)) h \<noteq> None" if "jfrom (wst w) \<le> h" "h \<le> jto (wst w)" "h \<notin> S" for h
    using sending_reports [OF ok(2) w(2) that] by simp
  have "jobs_ok S ?s" using jobs by (simp add: jobs_ok_def)
  moreover have "retry_ok ?s"
  proof (unfold retry_ok_def, intro allI impI)
    fix h assume h: "fmlookup (inRetry ?s) h \<noteq> None"
    then obtain i' w' where w': "fmlookup (inProgress s) i' = Some w'" "jtype (wst w') = retry" "jfrom (wst w') = h"
      using inv by (auto simp: das_inv_def retry_ok_def retrying_def handleResult_inRetry split: if_splits)
    then have "jfrom (wst w') = jto (wst w')" using jobs by (auto simp: jobs_ok_def job_ok_def)
    then have "i' \<noteq> i" using h w w' by (auto simp: handleResult_inRetry split: if_splits)
    then show "retrying ?s h" using w' ok by (auto simp: retrying_def)
  qed
  moreover have "cover_ok lo S ?s"
  proof (unfold cover_ok_def, intro allI impI)
    fix h assume h: "lo \<le> h" "h \<le> networkHead ?s" "h \<notin> S"
    show "covered ?s h"
    proof (cases "fmlookup (rfailed (wst w)) h")
      case None
      then have out: "h < jfrom (wst w) \<or> jto (wst w) < h" using rep [of h] h by (metis not_less)
      have "covered s h" using inv h by (auto simp: das_inv_def cover_ok_def)
      moreover have "busy ?s h" if b: "busy s h"
      proof -
        from b obtain k v where k: "fmlookup (inProgress s) k = Some v" "jtype (wst v) \<noteq> retry"
            "jfrom (wst v) \<le> h" "h \<le> jto (wst v)"
          by (auto simp: busy_def)
        then have "k \<noteq> i" using w out by auto
        then show ?thesis using k ok by (auto simp: busy_def)
      qed
      ultimately show ?thesis using out
        unfolding covered_def handleResult_inRetry handleResult_failed by auto
    next
      case (Some n)
      then show ?thesis unfolding covered_def handleResult_failed by simp
    qed
  qed
  moreover have "range_ok ?s" using inv by (simp add: das_inv_def range_ok_def)
  moreover have "fails_ok ?s"
  proof (unfold fails_ok_def handleResult_failed, intro allI impI)
    fix h assume "fmlookup (rfailed (wst w)) h \<noteq> None \<or> fmlookup (failed s) h \<noteq> None
        \<and> (jtype (wst w) = retry \<or> h < jfrom (wst w) \<or> jto (wst w) < h)"
    then show "h < - 1"
      using inv worker_wf_failed [OF ok(2), of h] by (auto simp: das_inv_def fails_ok_def)
  qed
  ultimately show ?thesis by (simp add: das_inv_def)
qed

subsection \<open>Worker steps\<close>

definition updWorker :: "int \<Rightarrow> ('h, 'e) worker \<Rightarrow> ('h, 'e) coordinatorState \<Rightarrow> ('h, 'e) coordinatorState" where
  "updWorker i w s = s\<lparr>inProgress := fmupd i w (inProgress s)\<rparr>"

definition settles :: "'e sample_error option \<Rightarrow> ('h, 'e) worker \<Rightarrow> u64 set" where
  "settles err w = (if wpos w \<le> jto (wst w) \<and> err \<in> {None, Some OutsideSamplingWindow} then {wpos w} else {})"

lemma worker_step_inv:
  assumes inv: "das_inv lo S s" and w: "fmlookup (inProgress s) i = Some w"
  shows "das_inv lo (S \<union> settles err w) (updWorker i (worker_iter err w) s)"
proof -
  let ?s = "updWorker i (worker_iter err w) s" and ?S = "S \<union> settles err w"
  have "worker_wf S w" using inv w by (auto simp: das_inv_def jobs_ok_def job_ok_def)
  then have "worker_wf ?S (worker_iter err w)" by (rule worker_iter_wf) (auto simp: settles_def)
  then have "jobs_ok ?S ?s"
    using inv w worker_wf_mono [of S _ ?S] by (auto simp: das_inv_def jobs_ok_def job_ok_def updWorker_def)
  moreover have "busy ?s h = busy s h" for h
    unfolding busy_def updWorker_def
    using ex_fmupd [OF w, of "\<lambda>w. jtype (wst w) \<noteq> retry \<and> jfrom (wst w) \<le> h \<and> h \<le> jto (wst w)"] by simp
  moreover have "retrying ?s h = retrying s h" for h
    unfolding retrying_def updWorker_def
    using ex_fmupd [OF w, of "\<lambda>w. jtype (wst w) = retry \<and> jfrom (wst w) = h"] by simp
  ultimately show ?thesis using inv
    by (auto simp: das_inv_def retry_ok_def cover_ok_def covered_def range_ok_def fails_ok_def updWorker_def)
qed

section \<open>The running system\<close>

record ('h, 'e) das =
  coord :: "('h, 'e) samplingCoordinator"
  settled :: "u64 set"

text \<open>
  One step: a worker takes a turn of its loop, with any outcome of the sampling; or the coordinator
  takes a result or a head off a channel and then hands out jobs. The order in which the failed heights
  are visited is any enumeration of them. Heights stay far enough from the end of \<^verbatim>\<open>uint64\<close> for one more
  sampling range.
\<close>

definition enumerates :: "(('h, 'e) coordinatorState \<Rightarrow> u64 list) \<Rightarrow> bool" where
  "enumerates order \<longleftrightarrow> (\<forall>s. set (order s) = fmdom' (failed s))"

inductive das_step :: "('h \<Rightarrow> u64) \<Rightarrow> ('h, 'e) das \<Rightarrow> ('h, 'e) das \<Rightarrow> bool" for Height where
  work: "fmlookup (inProgress (st (coord d))) i = Some w \<Longrightarrow> phase w = Looping \<Longrightarrow>
     das_step Height d (d\<lparr>coord := (coord d)\<lparr>st := updWorker i (worker_iter err w) (st (coord d))\<rparr>,
                          settled := settled d \<union> settles err w\<rparr>)"
| deliver: "fmlookup (inProgress (st (coord d))) i = Some w \<Longrightarrow> phase w = Sending \<Longrightarrow> enumerates order \<Longrightarrow>
     fill_jobs order now fuel (run_result clock (wst w) (coord d)) = Some sc \<Longrightarrow>
     das_step Height d (d\<lparr>coord := sc\<rparr>)"
| head: "Height hdr < - 1 \<Longrightarrow> unat (Height hdr) + unat (samplingRange (st (coord d))) \<le> 2 ^ 64 \<Longrightarrow> enumerates order \<Longrightarrow>
     fill_jobs order now fuel (run_head Height hdr (coord d)) = Some sc \<Longrightarrow>
     das_step Height d (d\<lparr>coord := sc\<rparr>)"

inductive_cases das_stepE: "das_step Height d d'"

lemma das_step_inv:
  assumes "das_step Height d d'" "das_inv lo (settled d) (st (coord d))"
  shows "das_inv lo (settled d') (st (coord d'))"
  using assms
proof cases
  case (work i w err)
  then show ?thesis using worker_step_inv [OF assms(2)] by simp
next
  case (deliver i w order now fuel clock sc)
  then show ?thesis
    using fill_jobs_inv [of order now fuel "run_result clock (wst w) (coord d)" sc lo "settled d"] handleResult_inv [OF assms(2)]
    by (simp add: run_result_def)
next
  case (head hdr order now fuel sc)
  then show ?thesis
    using fill_jobs_inv [of order now fuel "run_head Height hdr (coord d)" sc lo "settled d"] run_head_inv [OF assms(2)]
    by simp
qed

lemma das_steps_inv:
  "(das_step Height)\<^sup>*\<^sup>* d d' \<Longrightarrow> das_inv lo (settled d) (st (coord d)) \<Longrightarrow> das_inv lo (settled d') (st (coord d'))"
  by (induction rule: rtranclp_induct) (auto dest: das_step_inv)

lemma das_step_settled: "das_step Height d d' \<Longrightarrow> settled d \<subseteq> settled d'"
  by (erule das_stepE) auto

lemma das_steps_settled: "(das_step Height)\<^sup>*\<^sup>* d d' \<Longrightarrow> settled d \<subseteq> settled d'"
  by (induction rule: rtranclp_induct) (auto dest: das_step_settled)

section \<open>The dispatch loop\<close>

lemma nextJob_inProgress:
  "nextJob order now s = Some (j, s') \<Longrightarrow> inProgress s' = inProgress s \<and> jid j = nextJobID s + 1
     \<and> catchUpDone s' = catchUpDone s \<and> catchUpDoneCh s' = catchUpDoneCh s \<and> closedChs s' = closedChs s"
  by (auto simp: nextJob_def retryJob_def catchupJob_def newJob_eq Let_def split: option.splits if_splits)

lemma nextJob_mlen:
  assumes "jobs_ok S s" "nextJob order now s = Some (j, s')"
  shows "mlen (inProgress (runWorker j s')) = Suc (mlen (inProgress s))"
proof -
  have "fmlookup (inProgress s) (jid j) = None"
    using jobs_ok_fresh [OF assms(1), of "jid j" "jid j"] nextJob_inProgress [OF assms(2)] by fastforce
  then show ?thesis using nextJob_inProgress [OF assms(2)]
    by (simp add: runWorker_def putInProgress_def mlen_fresh del: fmdom_fmupd)
qed

text \<open>The loop ends: each turn adds a worker, so as many turns as there are free places are enough.\<close>

lemma fill_jobs_total:
  assumes "das_inv lo S (st sc)" "nat (concurrencyLimit sc - int (mlen (inProgress (st sc)))) \<le> fuel"
  shows "\<exists>sc'. fill_jobs order now fuel sc = Some sc'"
  using assms
proof (induction fuel arbitrary: sc)
  case 0
  then show ?case using fill_jobs_stop [of sc order now 0] by (simp add: concurrencyLimitReached_def)
next
  case (Suc fuel)
  show ?case
  proof (cases "concurrencyLimitReached sc \<or> nextJob (order (st sc)) (now (st sc)) (st sc) = None")
    case True
    then show ?thesis using fill_jobs_stop by blast
  next
    case False
    then obtain j s where r: "nextJob (order (st sc)) (now (st sc)) (st sc) = Some (j, s)" by auto
    have "jobs_ok S (st sc)" using Suc.prems by (simp add: das_inv_def)
    then have "mlen (inProgress (runWorker j s)) = Suc (mlen (inProgress (st sc)))" using nextJob_mlen r by blast
    then show ?thesis
      using Suc.IH [of "sc\<lparr>st := runWorker j s\<rparr>"] Suc.prems nextJob_inv [OF Suc.prems(1) r] r False
      by (auto simp: fill_jobs_turn)
  qed
qed

lemma idle_nextJob: "idle s \<Longrightarrow> nextJob order now s = None"
  by (auto simp: nextJob_def retryJob_def catchupJob_def idle_def find_None_iff split: option.splits)

lemma runWorker_not_idle [simp]: "\<not> idle (runWorker j s)"
  by (simp add: idle_def runWorker_def putInProgress_def)

lemma nextJob_None:
  assumes "enumerates order" "nextJob (order s) now s = None"
  shows "networkHead s < nextHeight s" "fmlookup (failed s) h = Some a \<Longrightarrow> \<not> canRetry (now h) a"
proof -
  show "networkHead s < nextHeight s"
    using assms(2) by (auto simp: nextJob_def catchupJob_def Let_def newJob_eq split: option.splits if_splits)
  assume h: "fmlookup (failed s) h = Some a"
  then have "h \<in> set (order s)" using assms(1) by (auto simp: enumerates_def fmdom'_alt_def fmlookup_dom_iff)
  then show "\<not> canRetry (now h) a" using h assms(2)
    by (auto simp: nextJob_def retryJob_def Let_def newJob_eq find_None_iff split: option.splits)
qed

end
