(* ===== verification/DasSafety.thy ===== *)
theory DasSafety
  imports DasSystem
begin

text \<open>
  What a running coordinator guarantees at every turn of its loop (the catch-up flag, the channels
  behind it and the number of workers), what its statistics mean, and that a checkpoint taken at any
  moment loses no height.
\<close>

section \<open>The flag, the channels and the limits\<close>

definition loop_inv :: "int \<Rightarrow> ('h, 'e) samplingCoordinator \<Rightarrow> bool" where
  "loop_inv N sc \<longleftrightarrow> 0 < concurrencyLimit sc \<and> catchUpDone (st sc) = idle (st sc) \<and> chan_ok (st sc)
     \<and> int (mlen (inProgress (st sc))) \<le> max (2 * concurrencyLimit sc) N"

lemma fill_jobs_loop:
  assumes "fill_jobs order now fuel sc = Some sc'" "das_inv lo S (st sc)" "loop_inv N sc"
  shows "loop_inv N sc' \<and> concurrencyLimit sc' = concurrencyLimit sc
           \<and> (concurrencyLimitReached sc' \<or> nextJob (order (st sc')) (now (st sc')) (st sc') = None)"
proof -
  have "das_inv lo S (st sc') \<and> (loop_inv N sc' \<and> concurrencyLimit sc' = concurrencyLimit sc)
          \<and> (concurrencyLimitReached sc' \<or> nextJob (order (st sc')) (now (st sc')) (st sc') = None)"
  proof (rule fill_jobs_induct [OF assms(1,2)])
    show "loop_inv N sc \<and> concurrencyLimit sc = concurrencyLimit sc" using assms by simp
    fix sc1 j s
    assume inv: "das_inv lo S (st sc1)" and P: "loop_inv N sc1 \<and> concurrencyLimit sc1 = concurrencyLimit sc"
      and lim: "\<not> concurrencyLimitReached sc1"
      and nj: "nextJob (order (st sc1)) (now (st sc1)) (st sc1) = Some (j, s)"
    have "\<not> idle (st sc1)" using idle_nextJob [of "st sc1"] nj by auto
    moreover have "mlen (inProgress (runWorker j s)) = Suc (mlen (inProgress (st sc1)))"
      using nextJob_mlen [of S, OF _ nj] inv by (simp add: das_inv_def)
    ultimately show "loop_inv N (sc1\<lparr>st := runWorker j s\<rparr>) \<and> concurrencyLimit (sc1\<lparr>st := runWorker j s\<rparr>) = concurrencyLimit sc"
      using P lim nextJob_inProgress [OF nj] by (simp add: loop_inv_def chan_ok_def concurrencyLimitReached_def)
  qed
  then show ?thesis by simp
qed

lemma mlen_fmdrop_le: "mlen (fmdrop k m) \<le> mlen m"
  unfolding mlen_drop by simp

lemma idle_checkDone [simp]: "idle (checkDone s) = idle s"
  by (simp add: idle_def)

lemma handleResult_checkDone:
  obtains s2 where "handleResult now res s = checkDone s2" "catchUpDone s2 = catchUpDone s"
    "catchUpDoneCh s2 = catchUpDoneCh s" "closedChs s2 = closedChs s"
  by (rule that [of "let s1 = s\<lparr>inProgress := fmdrop (jid res) (inProgress s)\<rparr> in case jtype res of
                  recent \<Rightarrow> handleRecentOrCatchupResult now res s1
                | catchup \<Rightarrow> handleRecentOrCatchupResult now res s1
                | retry \<Rightarrow> handleRetryResult now res s1"])
    (simp_all add: handleResult_def Let_def handleRecentOrCatchupResult_def handleRetryResult_def split: jobType.split)

lemma run_result_loop:
  assumes "loop_inv N sc"
  shows "loop_inv N (run_result now res sc)"
proof -
  obtain s2 where s2: "handleResult now res (st sc) = checkDone s2" "catchUpDone s2 = catchUpDone (st sc)"
    "catchUpDoneCh s2 = catchUpDoneCh (st sc)" "closedChs s2 = closedChs (st sc)"
    by (rule handleResult_checkDone)
  have "chan_ok (checkDone s2)" using assms s2 by (intro checkDone_chan) (simp add: loop_inv_def chan_ok_def)
  moreover have "mlen (inProgress (checkDone s2)) \<le> mlen (inProgress (st sc))"
    unfolding s2(1) [symmetric] handleResult_simps by (rule mlen_fmdrop_le)
  ultimately show ?thesis using assms s2 by (simp add: loop_inv_def run_result_def checkDone_flag del: checkDone_simps)
qed

lemma run_head_loop:
  assumes l: "loop_inv N sc" and inv: "das_inv lo S (st sc)"
  shows "loop_inv N (run_head Height hdr sc) \<and> concurrencyLimit (run_head Height hdr sc) = concurrencyLimit sc"
proof (cases "isNewHead (Height hdr) (st sc)")
  case True
  let ?s1 = "if \<not> recentJobsLimitReached sc then (let (j, s) = recentJob Height hdr (st sc) in runWorker j s) else st sc"
  have r: "run_head Height hdr sc = sc\<lparr>st := checkDone (?s1\<lparr>networkHead := Height hdr\<rparr>)\<rparr>"
    using True by (simp add: run_head_def updateHead_def Let_def)
  have c: "chan_ok (?s1\<lparr>networkHead := Height hdr\<rparr>)"
    using l by (simp add: loop_inv_def chan_ok_def recentJob_def Let_def)
  have "int (mlen (inProgress ?s1)) \<le> max (2 * concurrencyLimit sc) N"
  proof (cases "recentJobsLimitReached sc")
    case False
    have "fmlookup (inProgress (st sc)) (nextJobID (st sc) + 1) = None"
      using jobs_ok_fresh [of S "st sc" "nextJobID (st sc) + 1" "nextJobID (st sc) + 1"] inv
      by (fastforce simp: das_inv_def)
    then have "mlen (inProgress ?s1) = Suc (mlen (inProgress (st sc)))"
      using False by (simp add: recentJob_def Let_def runWorker_def putInProgress_def mlen_fresh del: fmdom_fmupd)
    then show ?thesis using False by (simp add: recentJobsLimitReached_def)
  qed (use l in \<open>simp add: loop_inv_def\<close>)
  then show ?thesis
    using checkDone_chan [OF c] l unfolding r by (simp add: loop_inv_def checkDone_flag)
next
  case False
  then show ?thesis using l by (simp add: run_head_def)
qed

lemma das_step_loop:
  assumes "das_step Height d d'" "das_inv lo (settled d) (st (coord d))" "loop_inv N (coord d)"
  shows "loop_inv N (coord d') \<and> concurrencyLimit (coord d') = concurrencyLimit (coord d)"
  using assms(1)
proof cases
  case (work i w err)
  let ?m = "inProgress (st (coord d))"
  have "i |\<in>| fmdom ?m" using work by (simp add: fmdomI)
  then have "mlen (fmupd i (worker_iter err w) ?m) = mlen ?m" unfolding mlen_upd by simp
  moreover have "?m \<noteq> fmempty" using work by auto
  ultimately show ?thesis using work assms(3)
    by (simp add: loop_inv_def updWorker_def idle_def chan_ok_def del: fmdom_fmupd)
next
  case (deliver i w order now fuel clock sc)
  have "das_inv lo (settled d) (st (run_result clock (wst w) (coord d)))"
    using handleResult_inv [OF assms(2)] deliver by (simp add: run_result_def)
  from fill_jobs_loop [OF deliver(5) this run_result_loop [OF assms(3)]]
  show ?thesis using deliver by (simp add: run_result_def)
next
  case (head hdr order now fuel sc)
  have "das_inv lo (settled d) (st (run_head Height hdr (coord d)))"
    using run_head_inv [OF assms(2)] head by blast
  from fill_jobs_loop [OF head(5) this] run_head_loop [OF assms(3,2), of Height hdr]
  show ?thesis using head(1) by auto
qed

section \<open>Statistics\<close>

lemma fold_min_le: "fold min xs l \<le> (l :: u64) \<and> (\<forall>x \<in> set xs. fold min xs l \<le> x)"
proof (induction xs arbitrary: l)
  case (Cons a xs)
  show ?case using Cons [of "min a l"] by simp
qed simp

lemma lowest_le: "lowest m l \<le> l" "fmlookup m h = Some v \<Longrightarrow> lowest m l \<le> h"
  using fold_min_le [of "sorted_list_of_fset (fmdom m)" l] by (auto simp: lowest_def fmdomI)

lemma fmlookup_bump:
  "fmlookup (bump m g) h \<noteq> None \<longleftrightarrow> fmlookup m h \<noteq> None \<or> fmlookup g h \<noteq> None"
  by (auto simp: bump_def)

lemma stats_low_le: "fst (stats_workers ws (low, fails, workers)) \<le> low"
proof (induction ws arbitrary: low fails workers)
  case (Cons w ws)
  have "fst (stats_workers (w # ws) (low, fails, workers)) \<le> min (lowest (rfailed w) low) (wcurr w)"
    unfolding stats_workers.simps by (rule Cons)
  also have "\<dots> \<le> low" using lowest_le(1) by (rule order_trans [OF min.cobounded1])
  finally show ?case .
qed simp

lemma stats_low:
  assumes "w \<in> set ws"
  shows "fst (stats_workers ws (low, fails, workers)) \<le> wcurr w"
    and "fmlookup (rfailed w) h = Some n \<Longrightarrow> fst (stats_workers ws (low, fails, workers)) \<le> h"
proof -
  have *: "fst (stats_workers (w # ws) (low, fails, workers)) \<le> min (lowest (rfailed w) low) (wcurr w)"
    for w :: "('a, 'b) workerState" and ws low fails workers
    unfolding stats_workers.simps by (rule stats_low_le)
  show "fst (stats_workers ws (low, fails, workers)) \<le> wcurr w"
    using assms
  proof (induction ws arbitrary: low fails workers)
    case (Cons v ws)
    then show ?case using * [of v ws low fails workers] by (cases "w = v") auto
  qed simp
  show "fst (stats_workers ws (low, fails, workers)) \<le> h" if f: "fmlookup (rfailed w) h = Some n"
    using assms
  proof (induction ws arbitrary: low fails workers)
    case (Cons v ws)
    then show ?case
      using * [of v ws low fails workers] lowest_le(2) [OF f, of low] by (cases "w = v") auto
  qed simp
qed

lemma stats_fails:
  "fmlookup (fst (snd (stats_workers ws (low, fails, workers)))) h \<noteq> None \<longleftrightarrow>
     fmlookup fails h \<noteq> None \<or> (\<exists>w \<in> set ws. fmlookup (rfailed w) h \<noteq> None)"
proof (induction ws arbitrary: low fails workers)
  case (Cons w ws)
  show ?case using Cons [of "min (lowest (rfailed w) low) (wcurr w)" "bump fails (fmmap (\<lambda>_. 1) (rfailed w))"]
    unfolding fmlookup_bump by auto
qed simp

definition worker_stats :: "('h, 'e) workerState \<Rightarrow> 'e WorkerStats" where
  "worker_stats w = \<lparr>ws_JobType = jtype w, ws_Curr = wcurr w, ws_From = jfrom w, ws_To = jto w, ws_ErrMsg = rerr w\<rparr>"

lemma stats_list: "snd (snd (stats_workers ws (low, fails, workers))) = workers @ map worker_stats ws"
  by (induction ws arbitrary: low fails workers) (simp_all add: worker_stats_def)

text \<open>The fields of the statistics, for an order that visits every running job.\<close>

definition lists :: "int list \<Rightarrow> ('h, 'e) coordinatorState \<Rightarrow> bool" where
  "lists order s \<longleftrightarrow> distinct order \<and> set order = fmdom' (inProgress s)"

definition running :: "int list \<Rightarrow> ('h, 'e) coordinatorState \<Rightarrow> ('h, 'e) workerState list" where
  "running order s = map (\<lambda>i. getState (the (fmlookup (inProgress s) i))) order"

lemma unsafeStats_simps:
  "SampledChainHead (unsafeStats order s) =
     lowest (failed s) (fst (stats_workers (running order s) (nextHeight s, fmempty, []))) - 1"
  "CatchupHead (unsafeStats order s) = nextHeight s - 1"
  "NetworkHead (unsafeStats order s) = networkHead s"
  "Workers (unsafeStats order s) = map worker_stats (running order s)"
  "CatchUpDone (unsafeStats order s) = catchUpDone s"
  "Concurrency (unsafeStats order s) = int (length order)"
  "IsRunning (unsafeStats order s) \<longleftrightarrow> order \<noteq> [] \<or> catchUpDone s"
  by (simp_all add: unsafeStats_def running_def Let_def split_beta stats_list)

lemma unsafeStats_Failed:
  "fmlookup (Failed (unsafeStats order s)) h \<noteq> None \<longleftrightarrow>
     (\<exists>w \<in> set (running order s). fmlookup (rfailed w) h \<noteq> None) \<or> fmlookup (failed s) h \<noteq> None \<or> fmlookup (inRetry s) h \<noteq> None"
proof -
  have "Failed (unsafeStats order s) =
      bump (bump (fst (snd (stats_workers (running order s) (nextHeight s, fmempty, [])))) (fmmap count (failed s))) (fmmap count (inRetry s))"
    by (simp add: unsafeStats_def running_def Let_def split_beta)
  then show ?thesis by (simp only: fmlookup_bump stats_fails) auto
qed

lemma running_iff:
  assumes "lists order s"
  shows "w \<in> set (running order s) \<longleftrightarrow> (\<exists>i v. fmlookup (inProgress s) i = Some v \<and> w = wst v)"
proof
  assume "w \<in> set (running order s)"
  then obtain i where i: "i \<in> set order" "w = wst (the (fmlookup (inProgress s) i))"
    by (auto simp: running_def getState_def)
  then obtain v where "fmlookup (inProgress s) i = Some v"
    using assms by (auto simp: lists_def fmlookup_dom'_iff)
  then show "\<exists>i v. fmlookup (inProgress s) i = Some v \<and> w = wst v" using i by auto
next
  assume "\<exists>i v. fmlookup (inProgress s) i = Some v \<and> w = wst v"
  then obtain i v where i: "fmlookup (inProgress s) i = Some v" "w = wst v" by blast
  then have "i \<in> set order" using assms by (simp add: lists_def fmdom'I)
  then show "w \<in> set (running order s)" using i by (force simp: running_def getState_def)
qed

text \<open>The height below which everything is settled.\<close>

definition lowestPending :: "int list \<Rightarrow> ('h, 'e) coordinatorState \<Rightarrow> u64" where
  "lowestPending order s = lowest (failed s) (fst (stats_workers (running order s) (nextHeight s, fmempty, [])))"

lemma lowestPending_le:
  assumes l: "lists order s"
  shows "lowestPending order s \<le> nextHeight s" "fmlookup (failed s) h = Some a \<Longrightarrow> lowestPending order s \<le> h"
    and "fmlookup (inProgress s) i = Some w \<Longrightarrow> lowestPending order s \<le> wcurr (wst w)"
    and "fmlookup (inProgress s) i = Some w \<Longrightarrow> fmlookup (rfailed (wst w)) h = Some n \<Longrightarrow> lowestPending order s \<le> h"
proof -
  let ?ws = "running order s" and ?low = "fst (stats_workers (running order s) (nextHeight s, fmempty, []))"
  have le: "lowestPending order s \<le> ?low" by (simp add: lowestPending_def lowest_le)
  then show "lowestPending order s \<le> nextHeight s" using stats_low_le order_trans by blast
  show "fmlookup (failed s) h = Some a \<Longrightarrow> lowestPending order s \<le> h"
    by (simp add: lowestPending_def lowest_le)
  assume "fmlookup (inProgress s) i = Some w"
  then have w: "wst w \<in> set ?ws" using running_iff [OF l] by blast
  show "lowestPending order s \<le> wcurr (wst w)" using le stats_low(1) [OF w] order_trans by blast
  show "fmlookup (rfailed (wst w)) h = Some n \<Longrightarrow> lowestPending order s \<le> h"
    using le stats_low(2) [OF w] order_trans by blast
qed

lemma lowestPending_settled:
  assumes inv: "das_inv lo S s" and l: "lists order s" and h: "lo \<le> h" "h < lowestPending order s"
  shows "h \<in> S"
proof (rule ccontr)
  assume n: "h \<notin> S"
  note le = lowestPending_le [OF l]
  have "h < nextHeight s" using h(2) le(1) by (rule order_less_le_trans)
  then have "h \<le> networkHead s" using inv u64_succ(2) [of "networkHead s" h]
    by (auto simp: das_inv_def range_ok_def dest: order_less_le_trans)
  then have "covered s h" using inv h n by (auto simp: das_inv_def cover_ok_def)
  then consider "fmlookup (failed s) h \<noteq> None" | "retrying s h" | "busy s h"
    using \<open>h < nextHeight s\<close> inv by (auto simp: covered_def das_inv_def retry_ok_def)
  then show False
  proof cases
    case 1
    then show False using le(2) [of h] h by (auto simp: not_less [symmetric])
  next
    case 2
    then obtain i w where w: "fmlookup (inProgress s) i = Some w" "jfrom (wst w) = h" "jtype (wst w) = retry"
      by (auto simp: retrying_def)
    then have ok: "worker_wf S w" "jto (wst w) = h" using inv by (auto simp: das_inv_def jobs_ok_def job_ok_def)
    have "wcurr (wst w) = h" using worker_wf_curr [OF ok(1)] w ok by simp
    then show False using le(3) [OF w(1)] h by simp
  next
    case 3
    then obtain i w where w: "fmlookup (inProgress s) i = Some w" "jfrom (wst w) \<le> h" "h \<le> jto (wst w)"
      by (auto simp: busy_def)
    then have ok: "worker_wf S w" using inv by (auto simp: das_inv_def jobs_ok_def job_ok_def)
    have "h < wpos w" using le(3) [OF w(1)] h worker_wf_curr(3) [OF ok] by simp
    then have "fmlookup (rfailed (wst w)) h \<noteq> None" using ok w n by (auto simp: worker_wf_def)
    then show False using le(4) [OF w(1)] h by (auto simp: not_less [symmetric])
  qed
qed

section \<open>Checkpoints\<close>

text \<open>\<open>cp_ok R\<close>: a checkpoint from which a coordinator with sampling range \<open>R\<close> can start;
  \<open>cp_covers lo S\<close>: every height from \<open>lo\<close> to the head that is not in \<open>S\<close> is still to be sampled.\<close>

definition cp_ok :: "u64 \<Rightarrow> checkpoint \<Rightarrow> bool" where
  "cp_ok R c \<longleftrightarrow> 0 < R \<and> cp_NetworkHead c < - 1 \<and> cp_SampleFrom c \<le> cp_NetworkHead c + 1
     \<and> unat (cp_NetworkHead c) + unat R \<le> 2 ^ 64
     \<and> (\<forall>h. fmlookup (cp_Failed c) h \<noteq> None \<longrightarrow> h < - 1)
     \<and> (\<forall>w \<in> set (cp_Workers c). wc_From w \<le> wc_To w \<and> wc_To w < - 1 \<and> wc_JobType w = catchup)"

definition cp_covers :: "u64 \<Rightarrow> u64 set \<Rightarrow> checkpoint \<Rightarrow> bool" where
  "cp_covers lo S c \<longleftrightarrow> (\<forall>h. lo \<le> h \<longrightarrow> h \<le> cp_NetworkHead c \<longrightarrow> h \<notin> S \<longrightarrow>
     cp_SampleFrom c \<le> h \<or> fmlookup (cp_Failed c) h \<noteq> None
     \<or> (\<exists>w \<in> set (cp_Workers c). wc_From w \<le> h \<and> h \<le> wc_To w))"

lemma getCheckpoint_simps:
  "cp_SampleFrom (getCheckpoint order sc) = nextHeight (st sc)"
  "cp_NetworkHead (getCheckpoint order sc) = networkHead (st sc)"
  "cp_Failed (getCheckpoint order sc) = Failed (unsafeStats order (st sc))"
  "cp_Workers (getCheckpoint order sc) =
     map (\<lambda>w. \<lparr>wc_From = wcurr w, wc_To = jto w, wc_JobType = catchup\<rparr>)
       (filter (\<lambda>w. jtype w = catchup \<or> jtype w = recent \<and> wcurr w \<le> nextHeight (st sc) - 1) (running order (st sc)))"
  by (simp_all add: getCheckpoint_def newCheckpoint_def unsafeStats_simps filter_map o_def worker_stats_def)

lemma getCheckpoint_ok:
  assumes inv: "das_inv lo S (st sc)" and l: "lists order (st sc)"
  shows "cp_ok (samplingRange (st sc)) (getCheckpoint order sc)"
proof -
  have jobs: "worker_wf S v \<and> (jtype (wst v) = retry \<longrightarrow> jfrom (wst v) = jto (wst v))"
    if "fmlookup (inProgress (st sc)) i = Some v" for i v
    using that inv by (auto simp: das_inv_def jobs_ok_def job_ok_def)
  have "h < - 1" if "fmlookup (Failed (unsafeStats order (st sc))) h \<noteq> None" for h
  proof -
    from that consider w where "w \<in> set (running order (st sc))" "fmlookup (rfailed w) h \<noteq> None"
      | "fmlookup (failed (st sc)) h \<noteq> None" | "retrying (st sc) h"
      unfolding unsafeStats_Failed using inv unfolding das_inv_def retry_ok_def by blast
    then show ?thesis
    proof cases
      case 1
      then show ?thesis using running_iff [OF l] jobs worker_wf_failed(3) by (metis not_None_eq)
    next
      case 2
      then show ?thesis using inv by (simp add: das_inv_def fails_ok_def)
    next
      case 3
      then show ?thesis using jobs by (fastforce simp: retrying_def worker_wf_def)
    qed
  qed
  moreover have "wcurr w \<le> jto w \<and> jto w < - 1" if "w \<in> set (running order (st sc))" for w
    using that running_iff [OF l, of w] jobs worker_wf_curr(2) worker_wf_to by blast
  ultimately show ?thesis using inv
    by (auto simp: cp_ok_def getCheckpoint_simps das_inv_def range_ok_def)
qed

lemma getCheckpoint_covers:
  assumes inv: "das_inv lo S (st sc)" and l: "lists order (st sc)"
  shows "cp_covers lo S (getCheckpoint order sc)"
  unfolding cp_covers_def getCheckpoint_simps
proof (intro allI impI)
  fix h assume h: "lo \<le> h" "h \<le> networkHead (st sc)" "h \<notin> S"
  let ?F = "fmlookup (Failed (unsafeStats order (st sc))) h \<noteq> None"
  let ?W = "map (\<lambda>w. \<lparr>wc_From = wcurr w, wc_To = jto w, wc_JobType = catchup\<rparr>)
       (filter (\<lambda>w. jtype w = catchup \<or> jtype w = recent \<and> wcurr w \<le> nextHeight (st sc) - 1) (running order (st sc)))"
  consider "nextHeight (st sc) \<le> h" | ?F | "busy (st sc) h"
    using inv h unfolding unsafeStats_Failed by (auto simp: das_inv_def cover_ok_def covered_def)
  then show "nextHeight (st sc) \<le> h \<or> ?F \<or> (\<exists>w \<in> set ?W. wc_From w \<le> h \<and> h \<le> wc_To w)"
  proof cases
    case 3
    then obtain i v where v: "fmlookup (inProgress (st sc)) i = Some v" "jtype (wst v) \<noteq> retry"
        "jfrom (wst v) \<le> h" "h \<le> jto (wst v)"
      by (auto simp: busy_def)
    then have wf: "worker_wf S v" and r: "wst v \<in> set (running order (st sc))"
      using inv running_iff [OF l] by (auto simp: das_inv_def jobs_ok_def job_ok_def)
    show ?thesis
    proof (cases "wcurr (wst v) \<le> h")
      case True
      show ?thesis
      proof (cases "jtype (wst v) = catchup \<or> wcurr (wst v) \<le> nextHeight (st sc) - 1")
        case True
        then have "wst v \<in> set (filter (\<lambda>w. jtype w = catchup \<or> jtype w = recent \<and> wcurr w \<le> nextHeight (st sc) - 1) (running order (st sc)))"
          using r v(2) by (cases "jtype (wst v)") auto
        then show ?thesis using \<open>wcurr (wst v) \<le> h\<close> v(4) by force
      next
        case False
        then have "nextHeight (st sc) \<le> wcurr (wst v)" using word_pred_less_le by blast
        then show ?thesis using True order_trans by blast
      qed
    next
      case False
      then have "h < wpos v" using worker_wf_curr(3) [OF wf] by simp
      then have "fmlookup (rfailed (wst v)) h \<noteq> None" using wf v h by (auto simp: worker_wf_def)
      then show ?thesis unfolding unsafeStats_Failed using r by blast
    qed
  qed blast+
qed

subsection \<open>Starting from a checkpoint\<close>

lemma resume_workers_simps [simp]:
  "failed (resume_workers ws s) = failed s" "inRetry (resume_workers ws s) = inRetry s"
  "nextHeight (resume_workers ws s) = nextHeight s" "networkHead (resume_workers ws s) = networkHead s"
  "samplingRange (resume_workers ws s) = samplingRange s" "catchUpDone (resume_workers ws s) = catchUpDone s"
  "catchUpDoneCh (resume_workers ws s) = catchUpDoneCh s" "closedChs (resume_workers ws s) = closedChs s"
  by (induction ws arbitrary: s) (simp_all add: newJob_eq)

lemma resume_workers_jobs:
  assumes "jobs_ok S s" "\<forall>w \<in> set ws. wc_From w \<le> wc_To w \<and> wc_To w < - 1 \<and> wc_JobType w = catchup"
  shows "jobs_ok S (resume_workers ws s)
     \<and> (\<forall>h. busy (resume_workers ws s) h \<longleftrightarrow> busy s h \<or> (\<exists>w \<in> set ws. wc_From w \<le> h \<and> h \<le> wc_To w))
     \<and> mlen (inProgress (resume_workers ws s)) = mlen (inProgress s) + length ws"
  using assms
proof (induction ws arbitrary: s)
  case (Cons w ws)
  let ?s = "s\<lparr>nextJobID := nextJobID s + 1\<rparr>"
  let ?j = "\<lparr>jid = nextJobID s + 1, jtype = catchup, jfrom = wc_From w, jto = wc_To w, jheader = None\<rparr>"
  have w: "wc_From w \<le> wc_To w" "wc_To w < - 1" "wc_JobType w = catchup" using Cons.prems by auto
  then have unf: "resume_workers (w # ws) s = resume_workers ws (runWorker ?j ?s)" by (simp add: newJob_eq)
  have "jobs_ok S (runWorker ?j ?s)" using runWorker_jobs_ok [OF Cons.prems(1), of ?s ?j] w by simp
  moreover have "busy (runWorker ?j ?s) h \<longleftrightarrow> busy s h \<or> wc_From w \<le> h \<and> h \<le> wc_To w" for h
    using runWorker_busy(1) [OF Cons.prems(1), of ?s ?j h] by simp
  moreover have "fmlookup (inProgress s) (nextJobID s + 1) = None"
    using jobs_ok_fresh [OF Cons.prems(1), of "nextJobID s + 1" "nextJobID s + 1"] by fastforce
  then have "mlen (inProgress (runWorker ?j ?s)) = Suc (mlen (inProgress s))"
    by (simp add: runWorker_def putInProgress_def mlen_fresh del: fmdom_fmupd)
  ultimately show ?case using Cons.IH [of "runWorker ?j ?s"] Cons.prems(2) unfolding unf by auto
qed simp

lemma start_simps:
  "inProgress (resumeFromCheckpoint now c (newCoordinatorState R)) = fmempty"
  "inRetry (resumeFromCheckpoint now c (newCoordinatorState R)) = fmempty"
  "nextHeight (resumeFromCheckpoint now c (newCoordinatorState R)) = cp_SampleFrom c"
  "networkHead (resumeFromCheckpoint now c (newCoordinatorState R)) = cp_NetworkHead c"
  "samplingRange (resumeFromCheckpoint now c (newCoordinatorState R)) = R"
  "catchUpDone (resumeFromCheckpoint now c (newCoordinatorState R)) = False"
  "catchUpDoneCh (resumeFromCheckpoint now c (newCoordinatorState R)) = 0"
  "closedChs (resumeFromCheckpoint now c (newCoordinatorState R)) = []"
  "fmlookup (failed (resumeFromCheckpoint now c (newCoordinatorState R))) h = None \<longleftrightarrow> fmlookup (cp_Failed c) h = None"
  by (simp_all add: resumeFromCheckpoint_def newCoordinatorState_def)

lemma start_workers:
  fixes s :: "('h, 'e) coordinatorState"
  assumes ok: "cp_ok R c" and s: "s = resumeFromCheckpoint now c (newCoordinatorState R)"
  shows "jobs_ok S (resume_workers (cp_Workers c) s)"
    and "busy (resume_workers (cp_Workers c) s) h \<longleftrightarrow> (\<exists>w \<in> set (cp_Workers c). wc_From w \<le> h \<and> h \<le> wc_To w)"
    and "mlen (inProgress (resume_workers (cp_Workers c) s)) = length (cp_Workers c)"
proof -
  have j: "jobs_ok S s" and b: "\<not> busy s h" for h
    by (simp_all add: jobs_ok_def busy_def start_simps s)
  note r = resume_workers_jobs [OF j, of "cp_Workers c"]
  show "jobs_ok S (resume_workers (cp_Workers c) s)" using r ok by (simp add: cp_ok_def)
  show "busy (resume_workers (cp_Workers c) s) h \<longleftrightarrow> (\<exists>w \<in> set (cp_Workers c). wc_From w \<le> h \<and> h \<le> wc_To w)"
    using r ok b by (simp add: cp_ok_def)
  have "inProgress s = fmempty" by (simp add: s start_simps)
  then show "mlen (inProgress (resume_workers (cp_Workers c) s)) = length (cp_Workers c)"
    using r ok by (simp add: cp_ok_def)
qed

lemma run_start_inv:
  assumes ok: "cp_ok R c" and cov: "cp_covers lo S c"
  shows "das_inv lo S (st (run_start now c (newSamplingCoordinator L T R)))"
proof -
  have "das_inv lo S (resume_workers (cp_Workers c) (resumeFromCheckpoint now c (newCoordinatorState R)))"
    using cov ok unfolding cp_covers_def cp_ok_def
    by (auto simp: das_inv_def cover_ok_def covered_def retry_ok_def range_ok_def fails_ok_def start_simps
        start_workers(1,2) [OF ok refl] simp del: not_None_eq)
  then show ?thesis by (simp add: run_start_def newSamplingCoordinator_def)
qed

lemma run_start_loop:
  assumes ok: "cp_ok R c" and L: "0 < L"
  shows "loop_inv (int (length (cp_Workers c))) (run_start now c (newSamplingCoordinator L T R))"
proof -
  have "chan_ok (checkDone (resume_workers (cp_Workers c) (resumeFromCheckpoint now c (newCoordinatorState R))))"
    by (rule checkDone_chan) (simp add: chan_ok_def start_simps)
  then show ?thesis using L
    by (simp add: loop_inv_def run_start_def newSamplingCoordinator_def checkDone_flag start_workers(3) [OF ok refl])
qed

end
