(* ===== verification/DasService.thy ===== *)
theory DasService
  imports DasSafety
begin

text \<open>
  The DASer service around the coordinator: its parameters (\<^verbatim>\<open>das/options.go\<close>), the checkpoint store
  (\<^verbatim>\<open>das/store.go\<close>), the header subscriber (\<^verbatim>\<open>das/subscriber.go\<close>) and start, stop and the initial
  checkpoint (\<^verbatim>\<open>das/daser.go\<close>). The header store and the datastore are parameters: what they return is
  an argument of the operations. The datastore holds checkpoints rather than their JSON text.
\<close>

section \<open>Parameters\<close>

record Parameters =
  SamplingRange :: u64
  ConcurrencyLimit :: int
  BackgroundStoreInterval :: duration
  SampleTimeout :: duration

definition DefaultParameters :: Parameters where
  "DefaultParameters =
     \<lparr>SamplingRange = 16, ConcurrencyLimit = 16, BackgroundStoreInterval = 10 * 60 * 10 ^ 9, SampleTimeout = 0\<rparr>"

datatype option_error = ErrInvalidOption string string

definition Parameters_Validate :: "Parameters \<Rightarrow> option_error option" where
  "Parameters_Validate p =
     (if SamplingRange p \<le> 0 then Some (ErrInvalidOption ''SamplingRange'' ''negative or 0'')
      else if ConcurrencyLimit p \<le> 0 then Some (ErrInvalidOption ''ConcurrencyLimit'' ''negative or 0'')
      else if SampleTimeout p < 0 then Some (ErrInvalidOption ''SampleTimeout'' ''negative'')
      else None)"

definition WithSamplingRange :: "u64 \<Rightarrow> Parameters \<Rightarrow> Parameters" where
  "WithSamplingRange v p = p\<lparr>SamplingRange := v\<rparr>"

definition WithConcurrencyLimit :: "int \<Rightarrow> Parameters \<Rightarrow> Parameters" where
  "WithConcurrencyLimit v p = p\<lparr>ConcurrencyLimit := v\<rparr>"

definition WithBackgroundStoreInterval :: "duration \<Rightarrow> Parameters \<Rightarrow> Parameters" where
  "WithBackgroundStoreInterval v p = p\<lparr>BackgroundStoreInterval := v\<rparr>"

definition WithSampleTimeout :: "duration \<Rightarrow> Parameters \<Rightarrow> Parameters" where
  "WithSampleTimeout v p = p\<lparr>SampleTimeout := v\<rparr>"

section \<open>The initial checkpoint\<close>

datatype 'e ds_error = ErrNotFound | DsError 'e

definition checkpoint_trim :: "u64 \<Rightarrow> u64 \<Rightarrow> checkpoint \<Rightarrow> checkpoint" where
  "checkpoint_trim tail head cp =
     (let sampleFrom = (if cp_SampleFrom cp < tail then tail else cp_SampleFrom cp);
          networkHd = (if cp_NetworkHead cp < head then head else cp_NetworkHead cp);
          fails = fmfilter (\<lambda>height. \<not> height < tail) (cp_Failed cp);
          wrkrs = map (\<lambda>wrk. if wc_From wrk < tail then wrk\<lparr>wc_From := tail\<rparr> else wrk)
                    (filter (\<lambda>wrk. wc_To wrk \<ge> tail) (cp_Workers cp))
      in \<lparr>cp_SampleFrom = sampleFrom, cp_NetworkHead = networkHd, cp_Failed = fails,
          cp_Workers = (if length (cp_Workers cp) > 0 then wrkrs else cp_Workers cp)\<rparr>)"

definition DASer_checkpoint ::
    "'e + u64 \<Rightarrow> 'e + u64 \<Rightarrow> 'e ds_error + checkpoint \<Rightarrow> 'e + checkpoint" where
  "DASer_checkpoint tail head loaded =
     (case tail of Inl e \<Rightarrow> Inl e | Inr t \<Rightarrow>
       (case head of Inl e \<Rightarrow> Inl e | Inr h \<Rightarrow>
         (case loaded of
            Inl ErrNotFound \<Rightarrow> Inr \<lparr>cp_SampleFrom = t, cp_NetworkHead = h, cp_Failed = fmempty, cp_Workers = []\<rparr>
          | Inl (DsError e) \<Rightarrow> Inl e
          | Inr cp \<Rightarrow> Inr (checkpoint_trim t h cp))))"

lemma checkpoint_trim_ok:
  assumes cp: "cp_ok R cp" and h: "tail \<le> head" "head < - 1" "unat head + unat R \<le> 2 ^ 64"
  shows "cp_ok R (checkpoint_trim tail head cp)"
proof -
  have s: "cp_NetworkHead cp + 1 \<le> head + 1" if "cp_NetworkHead cp < head"
    using that u64_succ(2,3) [OF h(2)] u64_succ(3) [of "cp_NetworkHead cp"] cp
    by (auto simp: cp_ok_def less_imp_le)
  have t: "tail \<le> head + 1" "\<not> cp_NetworkHead cp < head \<Longrightarrow> tail \<le> cp_NetworkHead cp + 1"
    using h(1) u64_succ(1) [OF h(2)] u64_succ(1) [of "cp_NetworkHead cp"] cp
    by (auto simp: cp_ok_def not_less)
  show ?thesis using cp h s t unfolding cp_ok_def checkpoint_trim_def Let_def
    by (auto intro: order_trans)
qed

lemma cp_covers_mono: "cp_covers lo S cp \<Longrightarrow> S \<subseteq> S' \<Longrightarrow> lo \<le> lo' \<Longrightarrow> cp_covers lo' S' cp"
  unfolding cp_covers_def by (meson order_trans subsetD)

lemma checkpoint_trim_covers:
  assumes cp: "cp_ok R cp" "cp_covers lo S cp"
  shows "cp_covers (max lo tail) S (checkpoint_trim tail head cp)"
  unfolding cp_covers_def
proof (intro allI impI)
  fix h assume h: "max lo tail \<le> h" "h \<le> cp_NetworkHead (checkpoint_trim tail head cp)" "h \<notin> S"
  let ?c = "checkpoint_trim tail head cp"
  have "\<not> h < tail" using h(1) by auto
  then have c: "cp_SampleFrom ?c = max tail (cp_SampleFrom cp)" "fmlookup (cp_Failed ?c) h = fmlookup (cp_Failed cp) h"
    by (auto simp: checkpoint_trim_def Let_def max_def)
  show "cp_SampleFrom ?c \<le> h \<or> fmlookup (cp_Failed ?c) h \<noteq> None
      \<or> (\<exists>w \<in> set (cp_Workers ?c). wc_From w \<le> h \<and> h \<le> wc_To w)"
  proof (cases "h \<le> cp_NetworkHead cp")
    case True
    then consider "cp_SampleFrom cp \<le> h" | "fmlookup (cp_Failed cp) h \<noteq> None"
      | w where "w \<in> set (cp_Workers cp)" "wc_From w \<le> h" "h \<le> wc_To w"
      using cp h unfolding cp_covers_def by auto
    then show ?thesis
    proof cases
      case 3
      let ?w = "if wc_From w < tail then w\<lparr>wc_From := tail\<rparr> else w"
      have "tail \<le> wc_To w" using 3 h by auto
      then have "?w \<in> set (cp_Workers ?c)" using 3 by (auto simp: checkpoint_trim_def Let_def)
      moreover have "wc_From ?w \<le> h" "h \<le> wc_To ?w" using 3 h by auto
      ultimately show ?thesis by blast
    qed (use h c in auto)
  next
    case False
    then have "cp_SampleFrom cp \<le> h" using cp u64_succ(3) [of "cp_NetworkHead cp" h]
      by (auto simp: cp_ok_def not_le intro: order_trans)
    then show ?thesis using h c by simp
  qed
qed

lemma DASer_checkpoint_fresh:
  assumes "tail \<le> head" "head < - 1" "unat head + unat R \<le> 2 ^ 64" "0 < R"
    and "DASer_checkpoint (Inr tail) (Inr head) (Inl ErrNotFound) = Inr cp"
  shows "cp_ok R cp" "cp_covers tail S cp"
  using assms u64_succ(1) [OF assms(2)]
  by (auto simp: DASer_checkpoint_def cp_ok_def cp_covers_def)

section \<open>The checkpoint store\<close>

text \<open>\<open>disk\<close> is the checkpoint under the key, if any; \<open>err\<close> the error of the datastore, if it fails.\<close>

definition checkpointStore_load :: "'e option \<Rightarrow> checkpoint option \<Rightarrow> 'e ds_error + checkpoint" where
  "checkpointStore_load err disk =
     (case err of Some e \<Rightarrow> Inl (DsError e)
      | None \<Rightarrow> (case disk of None \<Rightarrow> Inl ErrNotFound | Some cp \<Rightarrow> Inr cp))"

definition checkpointStore_store :: "'e option \<Rightarrow> checkpoint \<Rightarrow> checkpoint option \<Rightarrow> 'e option \<times> checkpoint option" where
  "checkpointStore_store err cp disk =
     (case err of Some e \<Rightarrow> (Some e, disk) | None \<Rightarrow> (None, Some cp))"

text \<open>The loop of \<^verbatim>\<open>runBackgroundStore\<close> over the ticks until the context is done; a tick comes with what
  \<^verbatim>\<open>getCheckpoint\<close> returns and the error of the datastore.\<close>

fun backgroundStore_loop ::
    "(('e + checkpoint) \<times> 'e option) list \<Rightarrow> u64 \<Rightarrow> checkpoint option \<Rightarrow> checkpoint option" where
  "backgroundStore_loop [] prev disk = disk"
| "backgroundStore_loop ((res, err) # ticks) prev disk =
     (case res of
        Inl _ \<Rightarrow> backgroundStore_loop ticks prev disk
      | Inr cp \<Rightarrow>
          if cp_SampleFrom cp > prev then
            backgroundStore_loop ticks (cp_SampleFrom cp) (snd (checkpointStore_store err cp disk))
          else backgroundStore_loop ticks prev disk)"

definition runBackgroundStore ::
    "duration \<Rightarrow> (('e + checkpoint) \<times> 'e option) list \<Rightarrow> checkpoint option \<Rightarrow> checkpoint option" where
  "runBackgroundStore storeInterval ticks disk =
     (if storeInterval = 0 then disk else backgroundStore_loop ticks 0 disk)"

text \<open>What is on disk was there before or was taken at a tick.\<close>

lemma runBackgroundStore_sound:
  "runBackgroundStore iv ticks disk = Some cp \<Longrightarrow> disk = Some cp \<or> (\<exists>err. (Inr cp, err) \<in> set ticks)"
proof -
  have "backgroundStore_loop ticks prev disk = Some cp \<Longrightarrow> disk = Some cp \<or> (\<exists>err. (Inr cp, err) \<in> set ticks)" for prev
    by (induction ticks prev disk rule: backgroundStore_loop.induct)
      (auto simp: checkpointStore_store_def split: sum.splits if_splits option.splits)
  then show "runBackgroundStore iv ticks disk = Some cp \<Longrightarrow> disk = Some cp \<or> (\<exists>err. (Inr cp, err) \<in> set ticks)"
    by (auto simp: runBackgroundStore_def split: if_splits)
qed

section \<open>The subscriber\<close>

text \<open>The headers handed to the coordinator, for a sequence of results of \<^verbatim>\<open>NextHeader\<close>; the flag says
  that the loop has returned.\<close>

fun subscriber_run :: "('e sample_error + 'h) list \<Rightarrow> 'h list \<times> bool" where
  "subscriber_run [] = ([], False)"
| "subscriber_run (Inl e # rest) = (if e = Canceled then ([], True) else subscriber_run rest)"
| "subscriber_run (Inr h # rest) = (let (hs, d) = subscriber_run rest in (h # hs, d))"

section \<open>Starting and stopping\<close>

text \<open>\<open>dcancel\<close> says whether the cancel function has been set, \<open>dstarted\<close> is the checkpoint the coordinator
  was started from, and \<open>ddisk\<close> what the checkpoint store holds. Calling a nil cancel function panics.\<close>

record DASer =
  dparams :: Parameters
  drunning :: bool
  dcancel :: bool
  dstarted :: "checkpoint option"
  ddisk :: "checkpoint option"

definition NewDASer :: "(Parameters \<Rightarrow> Parameters) list \<Rightarrow> checkpoint option \<Rightarrow> option_error + DASer" where
  "NewDASer options disk =
     (let p = fold (\<lambda>applyOpt q. applyOpt q) options DefaultParameters in
      case Parameters_Validate p of
        Some e \<Rightarrow> Inl e
      | None \<Rightarrow> Inr \<lparr>dparams = p, drunning = False, dcancel = False, dstarted = None, ddisk = disk\<rparr>)"

datatype 'e start_error = AlreadyStarted | StartFailed 'e

definition DASer_Start :: "'e + checkpoint \<Rightarrow> 'e option \<Rightarrow> DASer \<Rightarrow> 'e start_error option \<times> DASer" where
  "DASer_Start cp subscribe d =
     (if drunning d then (Some AlreadyStarted, d)
      else
        let d1 = d\<lparr>drunning := True\<rparr> in
        case cp of
          Inl e \<Rightarrow> (Some (StartFailed e), d1)
        | Inr c \<Rightarrow>
            (case subscribe of
               Some e \<Rightarrow> (Some (StartFailed e), d1)
             | None \<Rightarrow> (None, d1\<lparr>dcancel := True, dstarted := Some c\<rparr>)))"

datatype 'e stop_result = StopOk | StopForced 'e | StopPanics

definition zeroCheckpoint :: checkpoint where
  "zeroCheckpoint = \<lparr>cp_SampleFrom = 0, cp_NetworkHead = 0, cp_Failed = fmempty, cp_Workers = []\<rparr>"

text \<open>\<open>first\<close> is what \<^verbatim>\<open>getCheckpoint\<close> returns while the coordinator may still run, \<open>final\<close> the checkpoint
  of its last state; \<open>err1\<close>, \<open>err2\<close> are the errors of the two stores, the rest those of the waits.\<close>

definition DASer_Stop ::
    "'e + checkpoint \<Rightarrow> 'e option \<Rightarrow> 'e option \<Rightarrow> checkpoint \<Rightarrow> 'e option \<Rightarrow> 'e option \<Rightarrow> 'e option
      \<Rightarrow> DASer \<Rightarrow> 'e stop_result \<times> DASer" where
  "DASer_Stop first err1 samplerWait final err2 storeWait subscriberWait d =
     (if \<not> drunning d then (StopOk, d)
      else
        let cp = (case first of Inl _ \<Rightarrow> zeroCheckpoint | Inr c \<Rightarrow> c);
            d1 = d\<lparr>drunning := False, ddisk := snd (checkpointStore_store err1 cp (ddisk d))\<rparr> in
        if \<not> dcancel d then (StopPanics, d1)
        else case samplerWait of
          Some e \<Rightarrow> (StopForced e, d1)
        | None \<Rightarrow>
            let d2 = d1\<lparr>ddisk := snd (checkpointStore_store err2 final (ddisk d1))\<rparr> in
            case storeWait of
              Some e \<Rightarrow> (StopForced e, d2)
            | None \<Rightarrow> (case subscriberWait of Some e \<Rightarrow> (StopForced e, d2) | None \<Rightarrow> (StopOk, d2)))"

end
