(* ===== verification/DasProperties.thy ===== *)
theory DasProperties
  imports DasService
begin

text \<open>
  The properties of the sampling service, from a checkpoint to any state it reaches, and one run of it
  in full: two heights are sampled by one worker and the catch-up ends.
\<close>

section \<open>A run\<close>

definition ex_cp :: checkpoint where
  "ex_cp = \<lparr>cp_SampleFrom = 1, cp_NetworkHead = 2, cp_Failed = fmempty, cp_Workers = []\<rparr>"

definition ex_job :: "u64 job" where
  "ex_job = \<lparr>jid = 1, jtype = catchup, jfrom = 1, jto = 2, jheader = None\<rparr>"

definition ex_state :: "(u64, unit) worker \<Rightarrow> (u64, unit) coordinatorState" where
  "ex_state w = (newCoordinatorState 16)\<lparr>inProgress := fmupd 1 w fmempty, nextJobID := 1, nextHeight := 3, networkHead := 2\<rparr>"

definition ex_d :: "(u64, unit) worker \<Rightarrow> u64 set \<Rightarrow> (u64, unit) das" where
  "ex_d w S = \<lparr>coord = \<lparr>concurrencyLimit = 1, samplingTimeout = 0, st = ex_state w\<rparr>, settled = S\<rparr>"

definition ex_w :: "u64 \<Rightarrow> u64 \<Rightarrow> wphase \<Rightarrow> (u64, unit) worker" where
  "ex_w c p ph = (newWorker ex_job)\<lparr>wst := (wst (newWorker ex_job))\<lparr>wcurr := c\<rparr>, wpos := p, phase := ph\<rparr>"

definition ex_done :: "(u64, unit) das" where
  "ex_done = \<lparr>coord = \<lparr>concurrencyLimit = 1, samplingTimeout = 0,
     st = (newCoordinatorState 16)\<lparr>nextJobID := 1, nextHeight := 3, networkHead := 2, catchUpDone := True, closedChs := [0]\<rparr>\<rparr>,
     settled = {1, 2}\<rparr>"

lemma ex_start:
  "fill_jobs (\<lambda>_. []) (\<lambda>_ _. 0) 1 (run_start (\<lambda>_. 0) ex_cp (newSamplingCoordinator 1 0 16)) = Some (coord (ex_d (newWorker ex_job) {}))"
  by (simp add: fill_jobs.simps run_start_def ex_cp_def newSamplingCoordinator_def resumeFromCheckpoint_def
      newCoordinatorState_def checkDone_def ex_d_def ex_state_def nextJob_def retryJob_def catchupJob_def newJob_def
      concurrencyLimitReached_def runWorker_def putInProgress_def ex_job_def Let_def)

lemmas ex_defs = ex_cp_def ex_job_def ex_state_def ex_d_def ex_w_def ex_done_def newWorker_def newCoordinatorState_def

lemma ex_work:
  assumes "worker_iter None (ex_w c p Looping) = w" "S \<union> settles None (ex_w c p Looping) = S'"
  shows "das_step id (ex_d (ex_w c p Looping) S) (ex_d w S')"
proof -
  let ?w = "ex_w c p Looping"
  have "ex_d w S' =
      (ex_d ?w S)\<lparr>coord := (coord (ex_d ?w S))\<lparr>st := updWorker 1 (worker_iter None ?w) (st (coord (ex_d ?w S)))\<rparr>,
         settled := settled (ex_d ?w S) \<union> settles None ?w\<rparr>"
    using assms by (simp add: ex_d_def ex_state_def updWorker_def)
  then show ?thesis using work [of "ex_d ?w S" 1 ?w id None] by (simp add: ex_d_def ex_state_def ex_w_def)
qed

lemma ex_deliver: "das_step id (ex_d (ex_w 2 3 Sending) {1, 2}) ex_done"
proof -
  let ?order = "\<lambda>s. sorted_list_of_fset (fmdom (failed s))" and ?d = "ex_d (ex_w 2 3 Sending) {1, 2}"
  have "handleResult (\<lambda>_. 0) (wst (ex_w 2 3 Sending)) (st (coord ?d)) = st (coord ex_done)"
    by (simp add: handleResult_def handleRecentOrCatchupResult_def checkDone_def Let_def ex_defs)
      (rule fmap_ext, simp)
  then have r: "run_result (\<lambda>_. 0) (wst (ex_w 2 3 Sending)) (coord ?d) = coord ex_done"
    by (simp add: run_result_def ex_d_def ex_done_def)
  have "fill_jobs ?order (\<lambda>_ _. 0) 0 (coord ex_done) = Some (coord ex_done)"
    by (rule fill_jobs_stop) (simp add: idle_nextJob idle_def ex_defs)
  moreover have "enumerates ?order" by (simp add: enumerates_def fmdom'_alt_def)
  ultimately have "das_step id ?d (?d\<lparr>coord := coord ex_done\<rparr>)"
    using deliver [of ?d 1 "ex_w 2 3 Sending" ?order "\<lambda>_ _. 0" 0 "\<lambda>_. 0" "coord ex_done" id] r
    by (simp add: ex_d_def ex_state_def ex_w_def)
  then show ?thesis by (simp add: ex_d_def ex_done_def)
qed

lemma ex_run_1: "(das_step id)\<^sup>*\<^sup>* \<lparr>coord = coord (ex_d (newWorker ex_job) {}), settled = {}\<rparr> (ex_d (ex_w 1 2 Looping) {1})"
proof -
  have "das_step id (ex_d (ex_w 1 1 Looping) {}) (ex_d (ex_w 1 2 Looping) {1})"
    by (rule ex_work) (simp_all add: worker_iter_def setResult_def settles_def ex_defs)
  moreover have "ex_d (ex_w 1 1 Looping) {} = \<lparr>coord = coord (ex_d (newWorker ex_job) {}), settled = {}\<rparr>"
    by (simp add: ex_defs)
  ultimately show ?thesis by (simp add: r_into_rtranclp)
qed

lemma ex_run_3: "(das_step id)\<^sup>*\<^sup>* (ex_d (ex_w 1 2 Looping) {1}) (ex_d (ex_w 2 3 Sending) {1, 2})"
proof -
  have 2: "das_step id (ex_d (ex_w 1 2 Looping) {1}) (ex_d (ex_w 2 3 Looping) {1, 2})"
    by (rule ex_work) (simp_all add: worker_iter_def setResult_def settles_def ex_defs insert_commute)
  have 3: "das_step id (ex_d (ex_w 2 3 Looping) {1, 2}) (ex_d (ex_w 2 3 Sending) {1, 2})"
    by (rule ex_work) (simp_all add: worker_iter_def setResult_def settles_def ex_defs)
  show ?thesis using 2 3 by (meson r_into_rtranclp rtranclp_trans)
qed

lemma ex_run_2: "(das_step id)\<^sup>*\<^sup>* (ex_d (ex_w 1 2 Looping) {1}) ex_done"
  using ex_run_3 ex_deliver by (rule rtranclp.rtrancl_into_rtrancl)

lemmas ex_run_sending = rtranclp_trans [OF ex_run_1 ex_run_3]
lemmas ex_run = rtranclp_trans [OF ex_run_1 ex_run_2]

lemma ex_cp_ok: "cp_ok 16 ex_cp" "cp_covers 1 {} ex_cp"
  by (auto simp: cp_ok_def cp_covers_def ex_cp_def)

lemmas ex_from_start = ex_cp_ok ex_start

section \<open>Properties\<close>

text \<open>What every state of a run from a checkpoint satisfies.\<close>

lemma das_run_inv:
  assumes "cp_ok R cp" "cp_covers lo S cp"
    and "fill_jobs order now fuel (run_start clock cp (newSamplingCoordinator L T R)) = Some sc"
    and "(das_step Height)\<^sup>*\<^sup>* \<lparr>coord = sc, settled = S\<rparr> d"
  shows "das_inv lo (settled d) (st (coord d))"
  using das_steps_inv [OF assms(4)] fill_jobs_inv [OF assms(3) run_start_inv [OF assms(1,2)]] by simp

lemma das_run_loop:
  assumes start: "cp_ok R cp" "cp_covers lo S cp"
      "fill_jobs order now fuel (run_start clock cp (newSamplingCoordinator L T R)) = Some sc"
    and steps: "(das_step Height)\<^sup>*\<^sup>* \<lparr>coord = sc, settled = S\<rparr> d" and L: "0 < L"
  shows "loop_inv (int (length (cp_Workers cp))) (coord d) \<and> concurrencyLimit (coord d) = L"
  using steps
proof (induction rule: rtranclp_induct)
  case base
  have "concurrencyLimit (run_start clock cp (newSamplingCoordinator L T R)) = L"
    by (simp add: run_start_def newSamplingCoordinator_def)
  then show ?case
    using fill_jobs_loop [OF start(3) run_start_inv [OF start(1,2)] run_start_loop [OF start(1) L]] by simp
next
  case (step d d')
  then show ?case using das_step_loop [OF step(2) das_run_inv [OF start step(1)]] by blast
qed

text \<open>C1. No height is lost. From a checkpoint that accounts for every height, in any interleaving of
  worker turns, results, new heads, failures and retries, each height between the start of sampling and
  the network head that is not settled yet is still to be handed out, waits in the failed map, is being
  retried, or belongs to a running catch-up or recent job.\<close>

theorem das_no_height_lost:
  assumes "cp_ok R cp" "cp_covers lo S cp"
    and "fill_jobs order now fuel (run_start clock cp (newSamplingCoordinator L T R)) = Some sc"
    and "(das_step Height)\<^sup>*\<^sup>* \<lparr>coord = sc, settled = S\<rparr> d"
    and "lo \<le> h" "h \<le> networkHead (st (coord d))" "h \<notin> settled d"
  shows "covered (st (coord d)) h"
  using das_run_inv [OF assms(1-4)] assms(5-7) by (auto simp: das_inv_def cover_ok_def)

theorem das_no_height_lost_witness:
  "covered (ex_state (ex_w 1 2 Looping)) 2 \<and> (2 :: u64) \<notin> {1}"
  using das_no_height_lost [OF ex_from_start ex_run_1, of 2] by (simp add: ex_defs)

text \<open>C9. The end of the catch-up is real: whenever the coordinator waits for an event, its flag is up
  exactly when no worker runs, nothing has failed and no height is left to hand out, and then every height
  up to the network head is settled.\<close>

theorem das_catchup_done:
  assumes "cp_ok R cp" "cp_covers lo S cp"
    and "fill_jobs order now fuel (run_start clock cp (newSamplingCoordinator L T R)) = Some sc"
    and "(das_step Height)\<^sup>*\<^sup>* \<lparr>coord = sc, settled = S\<rparr> d" and "0 < L"
  shows "(catchUpDone (st (coord d)) \<longleftrightarrow> idle (st (coord d)))
       \<and> (catchUpDone (st (coord d)) \<longrightarrow> {lo..networkHead (st (coord d))} \<subseteq> settled d)"
proof -
  note inv = das_run_inv [OF assms(1-4)]
  have flag: "catchUpDone (st (coord d)) \<longleftrightarrow> idle (st (coord d))"
    using das_run_loop [OF assms] by (simp add: loop_inv_def)
  have "h \<in> settled d" if "idle (st (coord d))" "lo \<le> h" "h \<le> networkHead (st (coord d))" for h
  proof (rule ccontr)
    assume "h \<notin> settled d"
    then have "covered (st (coord d)) h" using inv that by (auto simp: das_inv_def cover_ok_def)
    moreover have "\<not> busy (st (coord d)) h" "\<not> retrying (st (coord d)) h" using that(1) by (simp_all add: idle_def busy_def retrying_def)
    ultimately show False using inv that by (auto simp: covered_def das_inv_def retry_ok_def idle_def)
  qed
  then show ?thesis using flag by auto
qed

theorem das_catchup_done_witness:
  "catchUpDone (st (coord ex_done)) \<and> {1..2} \<subseteq> settled ex_done"
  using das_catchup_done [OF ex_from_start ex_run] by (simp add: ex_defs)

text \<open>C18. The head of the sampled chain that the statistics report is right: every height from the start
  of sampling up to it is settled, in whatever order the running jobs were visited.\<close>

theorem das_sampled_chain_head:
  assumes "cp_ok R cp" "cp_covers lo S cp"
    and "fill_jobs order now fuel (run_start clock cp (newSamplingCoordinator L T R)) = Some sc"
    and "(das_step Height)\<^sup>*\<^sup>* \<lparr>coord = sc, settled = S\<rparr> d"
    and "lists ids (st (coord d))" "lo \<le> h" "h < SampledChainHead (unsafeStats ids (st (coord d))) + 1"
  shows "h \<in> settled d"
  using lowestPending_settled [OF das_run_inv [OF assms(1-4)] assms(5,6)] assms(7)
  by (simp add: unsafeStats_simps lowestPending_def)

theorem das_sampled_chain_head_witness:
  "SampledChainHead (unsafeStats [] (st (coord ex_done))) = 2 \<and> 2 \<in> settled ex_done"
proof -
  have "SampledChainHead (unsafeStats [] (st (coord ex_done))) = 2"
    by (simp add: unsafeStats_def lowest_def ex_defs)
  then show ?thesis
    using das_sampled_chain_head [OF ex_from_start ex_run, of "[]" 2]
    by (simp add: lists_def ex_defs)
qed

text \<open>C14. A restart loses no height. The service may be stopped or crash at any later state \<open>d'\<close>; the
  checkpoint taken at \<open>d\<close>, trimmed to the tail and head of the header store, is one a coordinator can
  start from, and after the start every height from the tail on that is not settled is covered.\<close>

theorem das_restart_loses_nothing:
  fixes d :: "('h, 'e) das"
  assumes "cp_ok R cp" "cp_covers lo S cp"
    and "fill_jobs order now fuel (run_start clock cp (newSamplingCoordinator L T R)) = Some sc"
    and "(das_step Height)\<^sup>*\<^sup>* \<lparr>coord = sc, settled = S\<rparr> d"
    and ids: "lists ids (st (coord d))" and later: "(das_step Height)\<^sup>*\<^sup>* d d'"
    and hd: "tail \<le> head" "head < - 1" "unat head + unat (samplingRange (st (coord d))) \<le> 2 ^ 64"
    and cp': "DASer_checkpoint (Inr tail) (Inr head) (Inr (getCheckpoint ids (coord d))) = Inr cp'"
  shows "cp_ok (samplingRange (st (coord d))) cp'
       \<and> das_inv (max lo tail) (settled d') (st (run_start clock' cp' (newSamplingCoordinator L' T' (samplingRange (st (coord d))) :: ('h, 'e) samplingCoordinator)))"
proof -
  note inv = das_run_inv [OF assms(1-4)]
  have cp: "cp' = checkpoint_trim tail head (getCheckpoint ids (coord d))" using cp' by (simp add: DASer_checkpoint_def)
  note ok = getCheckpoint_ok [OF inv ids]
  have "cp_covers (max lo tail) (settled d') cp'"
    using checkpoint_trim_covers [OF ok getCheckpoint_covers [OF inv ids], of tail head] das_steps_settled [OF later]
    unfolding cp by (rule cp_covers_mono) simp
  moreover have "cp_ok (samplingRange (st (coord d))) cp'" unfolding cp by (rule checkpoint_trim_ok [OF ok hd])
  ultimately show ?thesis using run_start_inv by blast
qed

definition ex_cp' :: checkpoint where
  "ex_cp' = \<lparr>cp_SampleFrom = 3, cp_NetworkHead = 5, cp_Failed = fmempty, cp_Workers = [\<lparr>wc_From = 2, wc_To = 2, wc_JobType = catchup\<rparr>]\<rparr>"

lemma ex_checkpoint:
  "DASer_checkpoint (Inr 2) (Inr 5) (Inr (getCheckpoint [1] (coord (ex_d (ex_w 1 2 Looping) {1})))) = (Inr ex_cp' :: unit + checkpoint)"
  by (simp add: DASer_checkpoint_def checkpoint_trim_def getCheckpoint_def newCheckpoint_def unsafeStats_def getState_def
      bump_def lowest_def ex_cp'_def ex_defs)
    (rule fmap_ext, simp)

theorem das_restart_loses_nothing_witness:
  "das_inv 2 {1, 2} (st (run_start (\<lambda>_. 7) ex_cp' (newSamplingCoordinator 1 0 16 :: (u64, unit) samplingCoordinator)))"
  using das_restart_loses_nothing [OF ex_from_start ex_run_1 _ ex_run_2 _ _ _ ex_checkpoint, of "\<lambda>_. 7" 1 0]
  by (simp add: lists_def ex_defs)



text \<open>C20. After a result, the loop that hands out jobs ends, within as many turns as the limit allows; and
  when it ends with places left, no height below the network head is left to hand out and every failed
  height is still backing off.\<close>

theorem das_dispatch_ends:
  assumes start: "cp_ok R cp" "cp_covers lo S cp"
      "fill_jobs order now fuel (run_start clock cp (newSamplingCoordinator L T R)) = Some sc"
      "(das_step Height)\<^sup>*\<^sup>* \<lparr>coord = sc, settled = S\<rparr> d" "0 < L"
    and w: "fmlookup (inProgress (st (coord d))) i = Some w" "phase w = Sending" and o': "enumerates order'"
  shows "\<exists>sc'. fill_jobs order' now' (nat L) (run_result clock' (wst w) (coord d)) = Some sc'
       \<and> (concurrencyLimitReached sc' \<or> networkHead (st sc') < nextHeight (st sc')
            \<and> (\<forall>h a. fmlookup (failed (st sc')) h = Some a \<longrightarrow> \<not> canRetry (now' (st sc') h) a))"
proof -
  let ?sc = "run_result clock' (wst w) (coord d)"
  have inv: "das_inv lo (settled d) (st ?sc)"
    using handleResult_inv [OF das_run_inv [OF start(1-4)] w] by (simp add: run_result_def)
  have lp: "loop_inv (int (length (cp_Workers cp))) ?sc" using das_run_loop [OF start] run_result_loop by blast
  have lim: "concurrencyLimit ?sc = L" using das_run_loop [OF start] by (simp add: run_result_def)
  have "nat (concurrencyLimit ?sc - int (mlen (inProgress (st ?sc)))) \<le> nat L" unfolding lim by linarith
  from fill_jobs_total [OF inv this] obtain sc' where sc': "fill_jobs order' now' (nat L) ?sc = Some sc'" by blast
  note nj = fill_jobs_loop [OF sc' inv lp, THEN conjunct2, THEN conjunct2]
  show ?thesis
  proof (intro exI conjI)
    show "fill_jobs order' now' (nat L) ?sc = Some sc'" by (fact sc')
    show "concurrencyLimitReached sc' \<or> networkHead (st sc') < nextHeight (st sc')
            \<and> (\<forall>h a. fmlookup (failed (st sc')) h = Some a \<longrightarrow> \<not> canRetry (now' (st sc') h) a)"
      using nj nextJob_None [OF o', of "st sc'" "now' (st sc')"] by auto
  qed
qed

theorem das_dispatch_ends_witness:
  "\<exists>sc'. fill_jobs (\<lambda>s. sorted_list_of_fset (fmdom (failed s))) (\<lambda>_ _. 5) 1
          (run_result (\<lambda>_. 0) (wst (ex_w 2 3 Sending)) (coord (ex_d (ex_w 2 3 Sending) {1, 2}))) = Some sc'"
  using das_dispatch_ends [OF ex_from_start ex_run_sending, of 1 "ex_w 2 3 Sending" "\<lambda>s. sorted_list_of_fset (fmdom (failed s))" "\<lambda>_ _. 5" "\<lambda>_. 0"]
  by (auto simp: enumerates_def fmdom'_alt_def ex_d_def ex_state_def ex_w_def)

text \<open>C21. A worker that is not cancelled ends, and reports as failed exactly the heights of its job whose
  sampling failed; heights outside the sampling window count as done.\<close>

theorem das_worker_reports:
  assumes "jfrom j \<le> jto j" "jto j < - 1"
    and "\<forall>h. jfrom j \<le> h \<longrightarrow> h \<le> jto j \<longrightarrow> sample h \<noteq> Some Canceled"
    and "unat (jto j) + 2 - unat (jfrom j) \<le> fuel"
  shows "\<exists>w. worker_run sample fuel (newWorker j) = Some w \<and> phase w = Sending \<and> wcurr (wst w) = jto j
           \<and> (\<forall>h. fmlookup (rfailed (wst w)) h =
                    (if jfrom j \<le> h \<and> h \<le> jto j \<and> (\<exists>e. sample h = Some (SampleFailed e)) then Some 1 else None))"
proof -
  have "h \<notin> sampled_by sample \<longleftrightarrow> (\<exists>e. sample h = Some (SampleFailed e)) \<or> sample h = Some Canceled" for h
    by (cases "sample h"; cases "the (sample h)") (auto simp: sampled_by_def)
  moreover have "(jfrom j \<le> h \<and> h \<le> jto j \<and> ((\<exists>e. sample h = Some (SampleFailed e)) \<or> sample h = Some Canceled))
      = (jfrom j \<le> h \<and> h \<le> jto j \<and> (\<exists>e. sample h = Some (SampleFailed e)))" for h
    using assms(3) by blast
  ultimately show ?thesis using worker_run_result [OF assms] by simp
qed

theorem das_worker_reports_witness:
  "\<exists>w. worker_run (\<lambda>h. if h = 2 then Some (SampleFailed ()) else None) 4 (newWorker ex_job) = Some w
     \<and> fmlookup (rfailed (wst w)) 2 = Some 1 \<and> fmlookup (rfailed (wst w)) 1 = None"
proof -
  let ?s = "\<lambda>h. if h = 2 then Some (SampleFailed ()) else (None :: unit sample_error option)"
  have "\<forall>h. jfrom ex_job \<le> h \<longrightarrow> h \<le> jto ex_job \<longrightarrow> ?s h \<noteq> Some Canceled" by simp
  then obtain w where "worker_run ?s 4 (newWorker ex_job) = Some w"
    "\<forall>h. fmlookup (rfailed (wst w)) h =
       (if jfrom ex_job \<le> h \<and> h \<le> jto ex_job \<and> (\<exists>e. ?s h = Some (SampleFailed e)) then Some 1 else None)"
    using das_worker_reports [of ex_job ?s 4] by (auto simp: ex_job_def)
  then show ?thesis by (auto simp: ex_job_def)
qed

text \<open>Retries back off exponentially: with the intervals the coordinator makes, an attempt after \<open>k\<close>
  failed ones waits a minute times \<open>4 ^ k\<close>, and from the fourth attempt on 64 minutes.\<close>

theorem das_backoff:
  assumes "0 \<le> count r"
  shows "nextRetry (retryStrategy (newCoordinatorState R)) r now =
           (\<lparr>count = count r + 1, after = now + 60 * 10 ^ 9 * 4 ^ min (nat (count r)) 3\<rparr>, 4 \<le> count r)"
  using nextRetry_exponential [of 4 r "60 * 10 ^ 9" 4 now] assms
  by (simp add: newCoordinatorState_def defaultBackoffInitialInterval_def defaultBackoffMultiplier_def defaultBackoffMaxRetryCount_def)

theorem das_backoff_witness:
  "nextRetry (retryStrategy (newCoordinatorState 16)) \<lparr>count = 2, after = 5\<rparr> 100 =
     (\<lparr>count = 3, after = 100 + 60 * 10 ^ 9 * 16\<rparr>, False)"
  using das_backoff [of "\<lparr>count = 2, after = 5\<rparr>" 16 100] by simp

section \<open>Where the code departs from its intent\<close>

text \<open>A sampling range that validation accepts can wrap: at a range of the greatest \<^verbatim>\<open>uint64\<close> the catch-up
  job for heights 10 to 20 ends before it begins, and the next height to hand out moves back, so the
  coordinator hands out empty jobs without end.\<close>

theorem das_sampling_range_wraps:
  "Parameters_Validate (WithSamplingRange (- 1) DefaultParameters) = None
   \<and> (\<exists>j s'. catchupJob ((newCoordinatorState (- 1))\<lparr>nextHeight := 10, networkHead := 20\<rparr>) = Some (j, s')
        \<and> jfrom j = 10 \<and> jto j = 8 \<and> nextHeight s' = 9)"
  by (simp add: Parameters_Validate_def WithSamplingRange_def DefaultParameters_def catchupJob_def newJob_def
      newCoordinatorState_def)

text \<open>C40. A start that fails leaves the service marked as running: a second start is refused, and stop
  overwrites the stored checkpoint with an empty one and then calls a cancel function that was never set.\<close>

theorem das_failed_start:
  fixes e e' :: 'e
  assumes "\<not> drunning d" "\<not> dcancel d" "DASer_Start cp sub d = (Some (StartFailed e), d1)"
  shows "DASer_Start cp' sub' d1 = (Some AlreadyStarted, d1)
       \<and> (\<exists>d2. DASer_Stop (Inl e') None w1 final err2 w2 w3 d1 = (StopPanics, d2) \<and> ddisk d2 = Some zeroCheckpoint)"
  using assms by (auto simp: DASer_Start_def DASer_Stop_def checkpointStore_store_def Let_def split: sum.splits option.splits if_splits)

definition ex_daser :: DASer where
  "ex_daser = \<lparr>dparams = DefaultParameters, drunning = False, dcancel = False, dstarted = None, ddisk = Some ex_cp\<rparr>"

theorem das_failed_start_witness:
  "\<exists>d2. DASer_Stop (Inl ()) None None ex_cp None None None (snd (DASer_Start (Inl ()) None ex_daser)) = (StopPanics, d2)"
  using das_failed_start [of ex_daser "Inl ()" None "()" "snd (DASer_Start (Inl ()) None ex_daser)" "Inl ()" None "()" None ex_cp None None None]
  by (auto simp: ex_daser_def DASer_Start_def)

end
