(* ===== verification/Wire.thy ===== *)
theory Wire
  imports Prelude
begin

text \<open>
  The contract every fixed-size wire identifier of \<^verbatim>\<open>share/shwap\<close> keeps, and what its users get
  from it. An identifier has a size, an encoder (\<^verbatim>\<open>MarshalBinary\<close>) and a decoder
  (\<^verbatim>\<open>...FromBinary\<close>); \<open>readID\<close> is the body all \<^verbatim>\<open>ReadFrom\<close> methods share. The locale \<open>wire_codec\<close>
  states the laws of the two functions, its lemmas say what a stream of identifiers does.
\<close>

text \<open>The errors of the identifiers, as far as a caller can tell them apart.\<close>

datatype shwap_error =
    ErrIO io_error            \<comment> \<open>the error of \<^verbatim>\<open>io.ReadFull\<close>\<close>
  | ErrDataLength             \<comment> \<open>\<^verbatim>\<open>invalid ... data length\<close>\<close>
  | ErrInvalidID              \<comment> \<open>wraps \<^verbatim>\<open>shwap.ErrInvalidID\<close>\<close>
  | ErrOutOfBounds            \<comment> \<open>wraps \<^verbatim>\<open>shwap.ErrOutOfBounds\<close>\<close>
  | ErrZeroEDS                \<comment> \<open>\<^verbatim>\<open>provided EDS size is zero\<close>\<close>
  | ErrRange                  \<comment> \<open>\<^verbatim>\<open>invalid range\<close>, \<^verbatim>\<open>invalid start/end index\<close>\<close>
  | ErrNamespace              \<comment> \<open>the namespace bytes are refused\<close>

definition readID ::
    "nat \<Rightarrow> (byte list \<Rightarrow> shwap_error + 'a) \<Rightarrow> byte list \<Rightarrow> nat \<times> (shwap_error + 'a) \<times> byte list" where
  "readID sz dec r =
     (case ReadFull r sz of
        (n, Inl e, r') \<Rightarrow> (n, Inl (ErrIO e), r')
      | (n, Inr data, r') \<Rightarrow>
          (if n \<noteq> sz then (n, Inl ErrDataLength, r')
           else case dec data of
                  Inl e \<Rightarrow> (n, Inl e, r')
                | Inr x \<Rightarrow> (n, Inr x, r')))"

text \<open>Reading \<open>k\<close> identifiers one after the other, as a server loop over one stream would.\<close>

fun readIDs ::
    "nat \<Rightarrow> (byte list \<Rightarrow> shwap_error + 'a) \<Rightarrow> nat \<Rightarrow> byte list \<Rightarrow> (shwap_error + 'a list) \<times> byte list" where
  "readIDs sz dec 0 r = (Inr [], r)"
| "readIDs sz dec (Suc k) r =
     (case readID sz dec r of
        (n, Inl e, r') \<Rightarrow> (Inl e, r')
      | (n, Inr x, r') \<Rightarrow>
          (case readIDs sz dec k r' of
             (Inl e, r'') \<Rightarrow> (Inl e, r'')
           | (Inr xs, r'') \<Rightarrow> (Inr (x # xs), r'')))"

locale wire_codec =
  fixes sz :: nat
    and enc :: "'a \<Rightarrow> byte list"
    and dec :: "byte list \<Rightarrow> shwap_error + 'a"
    and ok :: "'a \<Rightarrow> bool"
  assumes enc_length: "ok x \<Longrightarrow> length (enc x) = sz"
    and dec_enc: "ok x \<Longrightarrow> dec (enc x) = Inr x"
    and dec_Inr: "dec bs = Inr x \<Longrightarrow> ok x \<and> enc x = bs"
begin

lemma dec_iff: "dec bs = Inr x \<longleftrightarrow> ok x \<and> enc x = bs"
  using dec_enc dec_Inr by blast

lemma enc_inj: "ok x \<Longrightarrow> ok y \<Longrightarrow> enc x = enc y \<Longrightarrow> x = y"
  by (metis dec_enc sum.inject(2))

lemma dec_length: "dec bs = Inr x \<Longrightarrow> length bs = sz"
  using dec_Inr enc_length by blast

lemma read_write: "ok x \<Longrightarrow> readID sz dec (enc x @ rest) = (sz, Inr x, rest)"
  by (simp add: readID_def enc_length dec_enc)

lemma read_short:
  assumes "length r < sz"
  shows "\<exists>e. readID sz dec r = (length r, Inl (ErrIO e), [])"
  using ReadFull_short [OF assms] by (auto simp: readID_def)

lemma read_Inr:
  assumes "readID sz dec r = (n, Inr x, r')"
  shows "n = sz \<and> ok x \<and> r = enc x @ r'"
proof (cases "sz \<le> length r")
  case True
  with assms have "dec (take sz r) = Inr x" "n = sz" "r' = drop sz r"
    by (auto simp: readID_def ReadFull_def split: sum.splits)
  then show ?thesis by (simp add: dec_iff)
next
  case False
  with assms show ?thesis using read_short [of r] by auto
qed

lemma read_all:
  "list_all ok xs \<Longrightarrow> readIDs sz dec (length xs) (concat (map enc xs) @ rest) = (Inr xs, rest)"
  by (induction xs) (auto simp: read_write)

lemma concat_enc_inj:
  "list_all ok xs \<Longrightarrow> list_all ok ys \<Longrightarrow> length xs = length ys \<Longrightarrow>
   concat (map enc xs) = concat (map enc ys) \<Longrightarrow> xs = ys"
  using read_all [of xs "[]"] read_all [of ys "[]"] by simp

end

end
