(* ===== verification/ShwapIDs.thy ===== *)
theory ShwapIDs
  imports Wire
begin

text \<open>
  The identifiers of \<^verbatim>\<open>share/shwap\<close>: \<^verbatim>\<open>EdsID\<close>, \<^verbatim>\<open>RowID\<close>, \<^verbatim>\<open>SampleID\<close>, \<^verbatim>\<open>NamespaceDataID\<close>,
  \<^verbatim>\<open>RowNamespaceDataID\<close> and the two versions of \<^verbatim>\<open>RangeNamespaceDataID\<close>. A Go struct that embeds
  another is a record with the embedded struct as its first field. A constructor that returns the
  zero value with an error returns \<open>Inl\<close>; one that returns the value it built together with the
  error of its validation returns both.
\<close>

section \<open>EdsID\<close>

definition EdsIDSize :: nat where
  "EdsIDSize = 8"

record EdsID =
  height :: u64

definition EdsID_Validate :: "EdsID \<Rightarrow> shwap_error option" where
  "EdsID_Validate eid = (if height eid = 0 then Some ErrInvalidID else None)"

definition NewEdsID :: "u64 \<Rightarrow> EdsID \<times> shwap_error option" where
  "NewEdsID h = (let eid = \<lparr>height = h\<rparr> in (eid, EdsID_Validate eid))"

definition EdsIDFromBinary :: "byte list \<Rightarrow> shwap_error + EdsID" where
  "EdsIDFromBinary data =
     (if length data \<noteq> EdsIDSize then Inl ErrDataLength
      else let eid = \<lparr>height = be_get data\<rparr> in
           case EdsID_Validate eid of Some e \<Rightarrow> Inl e | None \<Rightarrow> Inr eid)"

definition EdsID_Equals :: "EdsID \<Rightarrow> EdsID \<Rightarrow> bool" where
  "EdsID_Equals eid other = (height eid = height other)"

definition EdsID_AppendBinary :: "EdsID \<Rightarrow> byte list \<Rightarrow> byte list" where
  "EdsID_AppendBinary eid data = data @ be_put 8 (height eid)"

definition EdsID_MarshalBinary :: "EdsID \<Rightarrow> byte list" where
  "EdsID_MarshalBinary eid = EdsID_AppendBinary eid []"

text \<open>Writers are the bytes written to them so far.\<close>

definition EdsID_WriteTo :: "EdsID \<Rightarrow> byte list \<Rightarrow> nat \<times> byte list" where
  "EdsID_WriteTo eid w = (let data = EdsID_MarshalBinary eid in (length data, w @ data))"

definition EdsID_ReadFrom :: "byte list \<Rightarrow> nat \<times> (shwap_error + EdsID) \<times> byte list" where
  "EdsID_ReadFrom r = readID EdsIDSize EdsIDFromBinary r"

section \<open>RowID\<close>

definition RowIDSize :: nat where
  "RowIDSize = EdsIDSize + 2"

record RowID =
  rid_EdsID :: EdsID
  RowIndex :: int

definition RowID_Validate :: "RowID \<Rightarrow> shwap_error option" where
  "RowID_Validate rid =
     (if RowIndex rid < 0 then Some ErrInvalidID else EdsID_Validate (rid_EdsID rid))"

definition RowID_Verify :: "RowID \<Rightarrow> int \<Rightarrow> shwap_error option" where
  "RowID_Verify rid edsSize =
     (if edsSize = 0 then Some ErrZeroEDS
      else if RowIndex rid \<ge> edsSize then Some ErrOutOfBounds
      else RowID_Validate rid)"

definition NewRowID :: "u64 \<Rightarrow> int \<Rightarrow> int \<Rightarrow> shwap_error + RowID" where
  "NewRowID h rowIdx edsSize =
     (let rid = \<lparr>rid_EdsID = \<lparr>height = h\<rparr>, RowIndex = rowIdx\<rparr> in
      case RowID_Verify rid edsSize of Some e \<Rightarrow> Inl e | None \<Rightarrow> Inr rid)"

definition RowIDFromBinary :: "byte list \<Rightarrow> shwap_error + RowID" where
  "RowIDFromBinary data =
     (if length data \<noteq> RowIDSize then Inl ErrDataLength
      else case EdsIDFromBinary (take EdsIDSize data) of
        Inl e \<Rightarrow> Inl e
      | Inr eid \<Rightarrow>
          let rid = \<lparr>rid_EdsID = eid, RowIndex = uint (be_get (drop EdsIDSize data) :: u16)\<rparr> in
          case RowID_Validate rid of Some e \<Rightarrow> Inl e | None \<Rightarrow> Inr rid)"

definition RowID_Equals :: "RowID \<Rightarrow> RowID \<Rightarrow> bool" where
  "RowID_Equals rid other =
     (EdsID_Equals (rid_EdsID rid) (rid_EdsID other) \<and> RowIndex rid = RowIndex other)"

definition RowID_AppendBinary :: "RowID \<Rightarrow> byte list \<Rightarrow> byte list" where
  "RowID_AppendBinary rid data =
     EdsID_AppendBinary (rid_EdsID rid) data @ be_put 2 (word_of_int (RowIndex rid) :: u16)"

definition RowID_MarshalBinary :: "RowID \<Rightarrow> byte list" where
  "RowID_MarshalBinary rid = RowID_AppendBinary rid []"

definition RowID_WriteTo :: "RowID \<Rightarrow> byte list \<Rightarrow> nat \<times> byte list" where
  "RowID_WriteTo rid w = (let data = RowID_MarshalBinary rid in (length data, w @ data))"

definition RowID_ReadFrom :: "byte list \<Rightarrow> nat \<times> (shwap_error + RowID) \<times> byte list" where
  "RowID_ReadFrom r = readID RowIDSize RowIDFromBinary r"

section \<open>SampleID and sample coordinates\<close>

definition SampleIDSize :: nat where
  "SampleIDSize = RowIDSize + 2"

record SampleCoords =
  Row :: int
  Col :: int

definition SampleCoordsAs1DIndex :: "SampleCoords \<Rightarrow> int \<Rightarrow> shwap_error + int" where
  "SampleCoordsAs1DIndex idx edsSize =
     (if Row idx < 0 \<or> Col idx < 0 then Inl ErrInvalidID
      else if Row idx \<ge> edsSize \<or> Col idx \<ge> edsSize then Inl ErrOutOfBounds
      else Inr (Row idx * edsSize + Col idx))"

definition SampleCoordsFrom1DIndex :: "int \<Rightarrow> int \<Rightarrow> shwap_error + SampleCoords" where
  "SampleCoordsFrom1DIndex idx squareSize =
     (if idx < 0 \<or> idx \<ge> squareSize * squareSize then Inl ErrOutOfBounds
      else Inr \<lparr>Row = idx sdiv squareSize, Col = idx smod squareSize\<rparr>)"

record SampleID =
  sid_RowID :: RowID
  ShareIndex :: int

definition SampleID_Validate :: "SampleID \<Rightarrow> shwap_error option" where
  "SampleID_Validate sid =
     (if ShareIndex sid < 0 then Some ErrInvalidID else RowID_Validate (sid_RowID sid))"

definition SampleID_Verify :: "SampleID \<Rightarrow> int \<Rightarrow> shwap_error option" where
  "SampleID_Verify sid edsSize =
     (case RowID_Verify (sid_RowID sid) edsSize of
        Some e \<Rightarrow> Some e
      | None \<Rightarrow> if ShareIndex sid \<ge> edsSize then Some ErrOutOfBounds else SampleID_Validate sid)"

definition NewSampleID :: "u64 \<Rightarrow> SampleCoords \<Rightarrow> int \<Rightarrow> shwap_error + SampleID" where
  "NewSampleID h idx edsSize =
     (let sid = \<lparr>sid_RowID = \<lparr>rid_EdsID = \<lparr>height = h\<rparr>, RowIndex = Row idx\<rparr>, ShareIndex = Col idx\<rparr> in
      case SampleID_Verify sid edsSize of Some e \<Rightarrow> Inl e | None \<Rightarrow> Inr sid)"

definition SampleIDFromBinary :: "byte list \<Rightarrow> shwap_error + SampleID" where
  "SampleIDFromBinary data =
     (if length data \<noteq> SampleIDSize then Inl ErrDataLength
      else case RowIDFromBinary (take RowIDSize data) of
        Inl e \<Rightarrow> Inl e
      | Inr rid \<Rightarrow>
          let sid = \<lparr>sid_RowID = rid, ShareIndex = uint (be_get (drop RowIDSize data) :: u16)\<rparr> in
          case SampleID_Validate sid of Some e \<Rightarrow> Inl e | None \<Rightarrow> Inr sid)"

definition SampleID_Equals :: "SampleID \<Rightarrow> SampleID \<Rightarrow> bool" where
  "SampleID_Equals sid other =
     (RowID_Equals (sid_RowID sid) (sid_RowID other) \<and> ShareIndex sid = ShareIndex other)"

definition SampleID_AppendBinary :: "SampleID \<Rightarrow> byte list \<Rightarrow> byte list" where
  "SampleID_AppendBinary sid data =
     RowID_AppendBinary (sid_RowID sid) data @ be_put 2 (word_of_int (ShareIndex sid) :: u16)"

definition SampleID_MarshalBinary :: "SampleID \<Rightarrow> byte list" where
  "SampleID_MarshalBinary sid = SampleID_AppendBinary sid []"

definition SampleID_WriteTo :: "SampleID \<Rightarrow> byte list \<Rightarrow> nat \<times> byte list" where
  "SampleID_WriteTo sid w = (let data = SampleID_MarshalBinary sid in (length data, w @ data))"

definition SampleID_ReadFrom :: "byte list \<Rightarrow> nat \<times> (shwap_error + SampleID) \<times> byte list" where
  "SampleID_ReadFrom r = readID SampleIDSize SampleIDFromBinary r"

section \<open>The codecs of EdsID, RowID and SampleID keep the wire contract\<close>

lemmas EdsID_codec_defs = EdsIDFromBinary_def EdsID_MarshalBinary_def EdsID_AppendBinary_def
  EdsID_Validate_def EdsIDSize_def

lemma length_EdsID_MarshalBinary [simp, codec_simps]: "length (EdsID_MarshalBinary x) = EdsIDSize"
  by (simp add: EdsID_codec_defs)

interpretation eds: wire_codec EdsIDSize EdsID_MarshalBinary EdsIDFromBinary
  "\<lambda>eid. EdsID_Validate eid = None"
proof unfold_locales
  fix x show "length (EdsID_MarshalBinary x) = EdsIDSize" by simp
next
  fix x assume "EdsID_Validate x = None"
  then show "EdsIDFromBinary (EdsID_MarshalBinary x) = Inr x"
    by (simp add: EdsID_codec_defs be_get_put_full split: if_splits)
next
  fix bs x assume "EdsIDFromBinary bs = Inr x"
  then show "EdsID_Validate x = None \<and> EdsID_MarshalBinary x = bs"
    by (auto simp: EdsID_codec_defs be_put_get Let_def split: if_splits)
qed

lemma RowID_MarshalBinary_eq:
  "RowID_MarshalBinary rid
   = EdsID_MarshalBinary (rid_EdsID rid) @ be_put 2 (word_of_int (RowIndex rid) :: u16)"
  by (simp add: RowID_MarshalBinary_def RowID_AppendBinary_def EdsID_MarshalBinary_def)

lemma length_RowID_MarshalBinary [simp, codec_simps]: "length (RowID_MarshalBinary x) = RowIDSize"
  by (simp add: RowID_MarshalBinary_eq RowIDSize_def)

text \<open>The encoding keeps 16 bits of the row index: the identifiers it is faithful on.\<close>

definition RowID_fits :: "RowID \<Rightarrow> bool" where
  "RowID_fits rid \<longleftrightarrow> RowID_Validate rid = None \<and> RowIndex rid < 2 ^ 16"

interpretation row: wire_codec RowIDSize RowID_MarshalBinary RowIDFromBinary RowID_fits
proof unfold_locales
  fix x show "length (RowID_MarshalBinary x) = RowIDSize" by simp
next
  fix x assume "RowID_fits x"
  then have "EdsID_Validate (rid_EdsID x) = None" "0 \<le> RowIndex x" "RowIndex x < 2 ^ 16"
    by (auto simp: RowID_fits_def RowID_Validate_def split: if_splits)
  then show "RowIDFromBinary (RowID_MarshalBinary x) = Inr x"
    by (simp add: RowIDFromBinary_def RowID_MarshalBinary_eq RowIDSize_def RowID_Validate_def
        eds.dec_enc be_int_fits Let_def)
next
  fix bs x assume a: "RowIDFromBinary bs = Inr x"
  then obtain eid where e: "EdsIDFromBinary (take EdsIDSize bs) = Inr eid" "length bs = RowIDSize"
    and x: "x = \<lparr>rid_EdsID = eid, RowIndex = uint (be_get (drop EdsIDSize bs) :: u16)\<rparr>"
    and v: "RowID_Validate x = None"
    by (auto simp: RowIDFromBinary_def Let_def split: if_splits sum.splits option.splits)
  have "EdsID_MarshalBinary eid = take EdsIDSize bs" using e(1) by (simp add: eds.dec_iff)
  then show "RowID_fits x \<and> RowID_MarshalBinary x = bs"
    using v e(2) uint_lt2p [of "be_get (drop EdsIDSize bs) :: u16"]
    by (simp add: x RowID_fits_def RowID_MarshalBinary_eq be_put_get RowIDSize_def)
qed

lemma SampleID_MarshalBinary_eq:
  "SampleID_MarshalBinary sid
   = RowID_MarshalBinary (sid_RowID sid) @ be_put 2 (word_of_int (ShareIndex sid) :: u16)"
  by (simp add: SampleID_MarshalBinary_def SampleID_AppendBinary_def RowID_MarshalBinary_def)

lemma length_SampleID_MarshalBinary [simp, codec_simps]:
  "length (SampleID_MarshalBinary x) = SampleIDSize"
  by (simp add: SampleID_MarshalBinary_eq SampleIDSize_def)

definition SampleID_fits :: "SampleID \<Rightarrow> bool" where
  "SampleID_fits sid \<longleftrightarrow> SampleID_Validate sid = None \<and>
     RowIndex (sid_RowID sid) < 2 ^ 16 \<and> ShareIndex sid < 2 ^ 16"

interpretation sample: wire_codec SampleIDSize SampleID_MarshalBinary SampleIDFromBinary SampleID_fits
proof unfold_locales
  fix x show "length (SampleID_MarshalBinary x) = SampleIDSize" by simp
next
  fix x assume "SampleID_fits x"
  then have "RowID_fits (sid_RowID x)" "0 \<le> ShareIndex x" "ShareIndex x < 2 ^ 16"
    by (auto simp: SampleID_fits_def RowID_fits_def SampleID_Validate_def split: if_splits)
  then show "SampleIDFromBinary (SampleID_MarshalBinary x) = Inr x"
    by (simp add: SampleIDFromBinary_def SampleID_MarshalBinary_eq SampleIDSize_def
        SampleID_Validate_def RowID_fits_def row.dec_enc be_int_fits Let_def)
next
  fix bs x assume a: "SampleIDFromBinary bs = Inr x"
  then obtain rid where r: "RowIDFromBinary (take RowIDSize bs) = Inr rid" "length bs = SampleIDSize"
    and x: "x = \<lparr>sid_RowID = rid, ShareIndex = uint (be_get (drop RowIDSize bs) :: u16)\<rparr>"
    and v: "SampleID_Validate x = None"
    by (auto simp: SampleIDFromBinary_def Let_def split: if_splits sum.splits option.splits)
  have "RowID_fits rid" "RowID_MarshalBinary rid = take RowIDSize bs"
    using r(1) by (simp_all add: row.dec_iff)
  then show "SampleID_fits x \<and> SampleID_MarshalBinary x = bs"
    using v r(2) uint_lt2p [of "be_get (drop RowIDSize bs) :: u16"]
    by (simp add: x SampleID_fits_def RowID_fits_def SampleID_MarshalBinary_eq be_put_get SampleIDSize_def)
qed

section \<open>What the constructors return can be sent and read back\<close>

lemma NewRowID_iff:
  "NewRowID h i edsSize = Inr rid \<longleftrightarrow>
     rid = \<lparr>rid_EdsID = \<lparr>height = h\<rparr>, RowIndex = i\<rparr> \<and> h \<noteq> 0 \<and> 0 \<le> i \<and> i < edsSize"
  by (auto simp: NewRowID_def RowID_Verify_def RowID_Validate_def EdsID_Validate_def Let_def
      split: option.splits if_splits)

lemma NewSampleID_iff:
  "NewSampleID h idx edsSize = Inr sid \<longleftrightarrow>
     sid = \<lparr>sid_RowID = \<lparr>rid_EdsID = \<lparr>height = h\<rparr>, RowIndex = Row idx\<rparr>, ShareIndex = Col idx\<rparr> \<and>
     h \<noteq> 0 \<and> 0 \<le> Row idx \<and> Row idx < edsSize \<and> 0 \<le> Col idx \<and> Col idx < edsSize"
  by (auto simp: NewSampleID_def SampleID_Verify_def SampleID_Validate_def RowID_Verify_def
      RowID_Validate_def EdsID_Validate_def Let_def split: option.splits if_splits)

lemma NewSampleID_fits:
  "NewSampleID h idx edsSize = Inr sid \<Longrightarrow> edsSize \<le> 2 ^ 16 \<Longrightarrow> SampleID_fits sid"
  by (auto simp: NewSampleID_iff SampleID_fits_def SampleID_Validate_def RowID_Validate_def
      EdsID_Validate_def)

lemma Equals_iff [simp]:
  "EdsID_Equals e e' \<longleftrightarrow> e = e'" "RowID_Equals r r' \<longleftrightarrow> r = r'" "SampleID_Equals s s' \<longleftrightarrow> s = s'"
  by (auto simp: EdsID_Equals_def RowID_Equals_def SampleID_Equals_def)

section \<open>Sample coordinates are positions of the square, row by row\<close>

lemma coords_of_index:
  fixes n r c :: int
  assumes "0 \<le> r" "r < n" "0 \<le> c" "c < n"
  shows "0 \<le> r * n + c" "r * n + c < n * n" "(r * n + c) sdiv n = r" "(r * n + c) smod n = c"
proof -
  show ge: "0 \<le> r * n + c" using assms by simp
  have "r * n + c < (r + 1) * n" using assms by (simp add: algebra_simps)
  also have "\<dots> \<le> n * n" using assms by (intro mult_right_mono) auto
  finally show "r * n + c < n * n" .
  show "(r * n + c) sdiv n = r" "(r * n + c) smod n = c"
    using ge assms by (simp_all add: go_div_nonneg)
qed

lemma index_of_coords:
  fixes n i :: int
  assumes "0 \<le> i" "i < n * n" "0 \<le> n"
  shows "0 \<le> i sdiv n" "i sdiv n < n" "0 \<le> i smod n" "i smod n < n" "i sdiv n * n + i smod n = i"
proof -
  have n: "0 < n" using assms by (cases "n = 0") auto
  note d = go_div_nonneg [OF assms(1) n]
  show "0 \<le> i sdiv n" using d assms n by (simp add: pos_imp_zdiv_nonneg_iff)
  have "n * (i div n) \<le> i" using n minus_mod_eq_mult_div [of i n] pos_mod_sign [of n i] by linarith
  also have "\<dots> < n * n" using assms by simp
  finally show "i sdiv n < n" using d n by simp
  show "0 \<le> i smod n" "i smod n < n" using d n by auto
  show "i sdiv n * n + i smod n = i" using d by simp
qed

end
