(* ===== verification/NamespaceIDs.thy ===== *)
theory NamespaceIDs
  imports ShwapIDs
begin

text \<open>
  \<^verbatim>\<open>NamespaceDataID\<close> and \<^verbatim>\<open>RowNamespaceDataID\<close> (\<^verbatim>\<open>share/shwap\<close>). Namespaces come from the package
  \<^verbatim>\<open>go-square/share\<close>: its functions are the argument \<open>L\<close> of the definitions, and what the code
  relies on is \<open>nslib_ok L\<close>, that a namespace made from bytes holds exactly those bytes and that
  there are \<^verbatim>\<open>NamespaceSize\<close> of them.
\<close>

record 'ns nslib =
  NamespaceSize :: nat
  NewNamespaceFromBytes :: "byte list \<Rightarrow> 'ns option"
  Bytes :: "'ns \<Rightarrow> byte list"
  ValidateForData :: "'ns \<Rightarrow> bool"

definition nslib_ok :: "'ns nslib \<Rightarrow> bool" where
  "nslib_ok L \<longleftrightarrow>
     (\<forall>b n. NewNamespaceFromBytes L b = Some n \<longrightarrow> Bytes L n = b \<and> length b = NamespaceSize L)"

text \<open>The namespaces the package can build.\<close>

definition ns_built :: "'ns nslib \<Rightarrow> 'ns \<Rightarrow> bool" where
  "ns_built L n \<longleftrightarrow> NewNamespaceFromBytes L (Bytes L n) = Some n"

lemma ns_built_length: "nslib_ok L \<Longrightarrow> ns_built L n \<Longrightarrow> length (Bytes L n) = NamespaceSize L"
  unfolding nslib_ok_def ns_built_def by blast

lemma ns_builtI: "nslib_ok L \<Longrightarrow> NewNamespaceFromBytes L b = Some n \<Longrightarrow> ns_built L n \<and> Bytes L n = b"
  unfolding nslib_ok_def ns_built_def by metis

section \<open>NamespaceDataID\<close>

definition NamespaceDataIDSize :: "'ns nslib \<Rightarrow> nat" where
  "NamespaceDataIDSize L = EdsIDSize + NamespaceSize L"

record 'ns NamespaceDataID =
  ndid_EdsID :: EdsID
  ndid_DataNamespace :: 'ns

definition NamespaceDataID_Validate :: "'ns nslib \<Rightarrow> 'ns NamespaceDataID \<Rightarrow> shwap_error option" where
  "NamespaceDataID_Validate L ndid =
     (case EdsID_Validate (ndid_EdsID ndid) of
        Some e \<Rightarrow> Some e
      | None \<Rightarrow> if \<not> ValidateForData L (ndid_DataNamespace ndid) then Some ErrInvalidID else None)"

definition NewNamespaceDataID :: "'ns nslib \<Rightarrow> u64 \<Rightarrow> 'ns \<Rightarrow> shwap_error + 'ns NamespaceDataID" where
  "NewNamespaceDataID L h namespace =
     (let ndid = \<lparr>ndid_EdsID = \<lparr>height = h\<rparr>, ndid_DataNamespace = namespace\<rparr> in
      case NamespaceDataID_Validate L ndid of Some e \<Rightarrow> Inl e | None \<Rightarrow> Inr ndid)"

definition NamespaceDataIDFromBinary :: "'ns nslib \<Rightarrow> byte list \<Rightarrow> shwap_error + 'ns NamespaceDataID" where
  "NamespaceDataIDFromBinary L data =
     (if length data \<noteq> NamespaceDataIDSize L then Inl ErrDataLength
      else case EdsIDFromBinary (take EdsIDSize data) of
        Inl e \<Rightarrow> Inl e
      | Inr edsID \<Rightarrow>
          (case NewNamespaceFromBytes L (drop EdsIDSize data) of
             None \<Rightarrow> Inl ErrNamespace
           | Some ns \<Rightarrow>
               let ndid = \<lparr>ndid_EdsID = edsID, ndid_DataNamespace = ns\<rparr> in
               case NamespaceDataID_Validate L ndid of Some e \<Rightarrow> Inl e | None \<Rightarrow> Inr ndid))"

definition NamespaceDataID_Equals :: "'ns nslib \<Rightarrow> 'ns NamespaceDataID \<Rightarrow> 'ns NamespaceDataID \<Rightarrow> bool" where
  "NamespaceDataID_Equals L ndid other =
     (EdsID_Equals (ndid_EdsID ndid) (ndid_EdsID other) \<and>
      Bytes L (ndid_DataNamespace ndid) = Bytes L (ndid_DataNamespace other))"

definition NamespaceDataID_AppendBinary :: "'ns nslib \<Rightarrow> 'ns NamespaceDataID \<Rightarrow> byte list \<Rightarrow> byte list" where
  "NamespaceDataID_AppendBinary L ndid data =
     EdsID_AppendBinary (ndid_EdsID ndid) data @ Bytes L (ndid_DataNamespace ndid)"

definition NamespaceDataID_MarshalBinary :: "'ns nslib \<Rightarrow> 'ns NamespaceDataID \<Rightarrow> byte list" where
  "NamespaceDataID_MarshalBinary L ndid = NamespaceDataID_AppendBinary L ndid []"

definition NamespaceDataID_WriteTo :: "'ns nslib \<Rightarrow> 'ns NamespaceDataID \<Rightarrow> byte list \<Rightarrow> nat \<times> byte list" where
  "NamespaceDataID_WriteTo L ndid w =
     (let data = NamespaceDataID_MarshalBinary L ndid in (length data, w @ data))"

definition NamespaceDataID_ReadFrom ::
    "'ns nslib \<Rightarrow> byte list \<Rightarrow> nat \<times> (shwap_error + 'ns NamespaceDataID) \<times> byte list" where
  "NamespaceDataID_ReadFrom L r = readID (NamespaceDataIDSize L) (NamespaceDataIDFromBinary L) r"

section \<open>RowNamespaceDataID\<close>

definition RowNamespaceDataIDSize :: "'ns nslib \<Rightarrow> nat" where
  "RowNamespaceDataIDSize L = RowIDSize + NamespaceSize L"

record 'ns RowNamespaceDataID =
  rndid_RowID :: RowID
  rndid_DataNamespace :: 'ns

definition RowNamespaceDataID_Validate :: "'ns nslib \<Rightarrow> 'ns RowNamespaceDataID \<Rightarrow> shwap_error option" where
  "RowNamespaceDataID_Validate L rndid =
     (case RowID_Validate (rndid_RowID rndid) of
        Some e \<Rightarrow> Some e
      | None \<Rightarrow> if \<not> ValidateForData L (rndid_DataNamespace rndid) then Some ErrInvalidID else None)"

definition RowNamespaceDataID_Verify :: "'ns nslib \<Rightarrow> 'ns RowNamespaceDataID \<Rightarrow> int \<Rightarrow> shwap_error option" where
  "RowNamespaceDataID_Verify L rndid edsSize =
     (case RowID_Verify (rndid_RowID rndid) edsSize of
        Some e \<Rightarrow> Some e
      | None \<Rightarrow> RowNamespaceDataID_Validate L rndid)"

definition NewRowNamespaceDataID ::
    "'ns nslib \<Rightarrow> u64 \<Rightarrow> int \<Rightarrow> 'ns \<Rightarrow> int \<Rightarrow> shwap_error + 'ns RowNamespaceDataID" where
  "NewRowNamespaceDataID L h rowIdx namespace edsSize =
     (let did = \<lparr>rndid_RowID = \<lparr>rid_EdsID = \<lparr>height = h\<rparr>, RowIndex = rowIdx\<rparr>,
                 rndid_DataNamespace = namespace\<rparr> in
      case RowNamespaceDataID_Verify L did edsSize of Some e \<Rightarrow> Inl e | None \<Rightarrow> Inr did)"

definition RowNamespaceDataIDFromBinary ::
    "'ns nslib \<Rightarrow> byte list \<Rightarrow> shwap_error + 'ns RowNamespaceDataID" where
  "RowNamespaceDataIDFromBinary L data =
     (if length data \<noteq> RowNamespaceDataIDSize L then Inl ErrDataLength
      else case RowIDFromBinary (take RowIDSize data) of
        Inl e \<Rightarrow> Inl e
      | Inr rid \<Rightarrow>
          (case NewNamespaceFromBytes L (drop RowIDSize data) of
             None \<Rightarrow> Inl ErrNamespace
           | Some ns \<Rightarrow> Inr \<lparr>rndid_RowID = rid, rndid_DataNamespace = ns\<rparr>))"

definition RowNamespaceDataID_Equals ::
    "'ns nslib \<Rightarrow> 'ns RowNamespaceDataID \<Rightarrow> 'ns RowNamespaceDataID \<Rightarrow> bool" where
  "RowNamespaceDataID_Equals L rndid other =
     (RowID_Equals (rndid_RowID rndid) (rndid_RowID other) \<and>
      Bytes L (rndid_DataNamespace rndid) = Bytes L (rndid_DataNamespace other))"

definition RowNamespaceDataID_AppendBinary ::
    "'ns nslib \<Rightarrow> 'ns RowNamespaceDataID \<Rightarrow> byte list \<Rightarrow> byte list" where
  "RowNamespaceDataID_AppendBinary L rndid data =
     RowID_AppendBinary (rndid_RowID rndid) data @ Bytes L (rndid_DataNamespace rndid)"

definition RowNamespaceDataID_MarshalBinary :: "'ns nslib \<Rightarrow> 'ns RowNamespaceDataID \<Rightarrow> byte list" where
  "RowNamespaceDataID_MarshalBinary L rndid = RowNamespaceDataID_AppendBinary L rndid []"

definition RowNamespaceDataID_WriteTo ::
    "'ns nslib \<Rightarrow> 'ns RowNamespaceDataID \<Rightarrow> byte list \<Rightarrow> nat \<times> byte list" where
  "RowNamespaceDataID_WriteTo L rndid w =
     (let data = RowNamespaceDataID_MarshalBinary L rndid in (length data, w @ data))"

definition RowNamespaceDataID_ReadFrom ::
    "'ns nslib \<Rightarrow> byte list \<Rightarrow> nat \<times> (shwap_error + 'ns RowNamespaceDataID) \<times> byte list" where
  "RowNamespaceDataID_ReadFrom L r = readID (RowNamespaceDataIDSize L) (RowNamespaceDataIDFromBinary L) r"

section \<open>Both keep the wire contract, for any namespace package that keeps its own\<close>

definition NamespaceDataID_fits :: "'ns nslib \<Rightarrow> 'ns NamespaceDataID \<Rightarrow> bool" where
  "NamespaceDataID_fits L ndid \<longleftrightarrow>
     NamespaceDataID_Validate L ndid = None \<and> ns_built L (ndid_DataNamespace ndid)"

definition RowNamespaceDataID_fits :: "'ns nslib \<Rightarrow> 'ns RowNamespaceDataID \<Rightarrow> bool" where
  "RowNamespaceDataID_fits L rndid \<longleftrightarrow>
     RowID_fits (rndid_RowID rndid) \<and> ns_built L (rndid_DataNamespace rndid)"

lemma NamespaceDataID_MarshalBinary_eq:
  "NamespaceDataID_MarshalBinary L ndid
   = EdsID_MarshalBinary (ndid_EdsID ndid) @ Bytes L (ndid_DataNamespace ndid)"
  by (simp add: NamespaceDataID_MarshalBinary_def NamespaceDataID_AppendBinary_def EdsID_MarshalBinary_def)

lemma RowNamespaceDataID_MarshalBinary_eq:
  "RowNamespaceDataID_MarshalBinary L rndid
   = RowID_MarshalBinary (rndid_RowID rndid) @ Bytes L (rndid_DataNamespace rndid)"
  by (simp add: RowNamespaceDataID_MarshalBinary_def RowNamespaceDataID_AppendBinary_def RowID_MarshalBinary_def)

lemma NamespaceDataIDFromBinary_Inr:
  assumes L: "nslib_ok L" and a: "NamespaceDataIDFromBinary L bs = Inr x"
  shows "NamespaceDataID_fits L x \<and> NamespaceDataID_MarshalBinary L x = bs"
proof -
  have len: "length bs = NamespaceDataIDSize L"
    using a by (simp add: NamespaceDataIDFromBinary_def split: if_splits)
  obtain eid where e: "EdsIDFromBinary (take EdsIDSize bs) = Inr eid"
    using a len by (cases "EdsIDFromBinary (take EdsIDSize bs)") (simp_all add: NamespaceDataIDFromBinary_def)
  obtain ns where ns: "NewNamespaceFromBytes L (drop EdsIDSize bs) = Some ns"
    using a len e by (cases "NewNamespaceFromBytes L (drop EdsIDSize bs)")
      (simp_all add: NamespaceDataIDFromBinary_def)
  let ?x = "\<lparr>ndid_EdsID = eid, ndid_DataNamespace = ns\<rparr>"
  have "(case NamespaceDataID_Validate L ?x of Some e \<Rightarrow> Inl e | None \<Rightarrow> Inr ?x) = Inr x"
    using a len e ns by (simp add: NamespaceDataIDFromBinary_def Let_def)
  then have x: "?x = x" and v: "NamespaceDataID_Validate L ?x = None"
    by (cases "NamespaceDataID_Validate L ?x"; simp)+
  have "EdsID_MarshalBinary eid = take EdsIDSize bs" using e by (simp add: eds.dec_iff)
  then show ?thesis
    using v ns_builtI [OF L ns] by (simp add: x [symmetric] NamespaceDataID_fits_def NamespaceDataID_MarshalBinary_eq)
qed

lemma NamespaceDataID_codec:
  assumes L: "nslib_ok L"
  shows "wire_codec (NamespaceDataIDSize L) (NamespaceDataID_MarshalBinary L)
           (NamespaceDataIDFromBinary L) (NamespaceDataID_fits L)"
proof
  fix x assume "NamespaceDataID_fits L x"
  then show "length (NamespaceDataID_MarshalBinary L x) = NamespaceDataIDSize L"
    using L by (simp add: NamespaceDataID_MarshalBinary_eq NamespaceDataIDSize_def
        NamespaceDataID_fits_def ns_built_length)
next
  fix x assume f: "NamespaceDataID_fits L x"
  obtain eid ns where x: "x = \<lparr>ndid_EdsID = eid, ndid_DataNamespace = ns\<rparr>" by (cases x)
  have e: "EdsID_Validate eid = None" and v: "NamespaceDataID_Validate L x = None" and n: "ns_built L ns"
    using f by (auto simp: x NamespaceDataID_fits_def NamespaceDataID_Validate_def split: option.splits)
  have m: "NamespaceDataID_MarshalBinary L x = EdsID_MarshalBinary eid @ Bytes L ns"
    by (simp add: x NamespaceDataID_MarshalBinary_eq)
  have "NewNamespaceFromBytes L (Bytes L ns) = Some ns" using n by (simp only: ns_built_def)
  then show "NamespaceDataIDFromBinary L (NamespaceDataID_MarshalBinary L x) = Inr x"
    unfolding m NamespaceDataIDFromBinary_def using v [unfolded x]
    by (simp add: NamespaceDataIDSize_def ns_built_length [OF L n] eds.dec_enc [OF e] Let_def x)
qed (rule NamespaceDataIDFromBinary_Inr [OF L])

lemma RowNamespaceDataIDFromBinary_Inr:
  assumes L: "nslib_ok L" and a: "RowNamespaceDataIDFromBinary L bs = Inr x"
  shows "RowNamespaceDataID_fits L x \<and> RowNamespaceDataID_MarshalBinary L x = bs"
proof -
  from a obtain rid ns where r: "RowIDFromBinary (take RowIDSize bs) = Inr rid"
    and ns: "NewNamespaceFromBytes L (drop RowIDSize bs) = Some ns"
    and x: "x = \<lparr>rndid_RowID = rid, rndid_DataNamespace = ns\<rparr>"
    by (auto simp: RowNamespaceDataIDFromBinary_def split: if_splits sum.splits option.splits)
  have "RowID_fits rid" "RowID_MarshalBinary rid = take RowIDSize bs" using r by (simp_all add: row.dec_iff)
  then show ?thesis
    using ns_builtI [OF L ns] by (simp add: x RowNamespaceDataID_fits_def RowNamespaceDataID_MarshalBinary_eq)
qed

lemma RowNamespaceDataID_codec:
  assumes L: "nslib_ok L"
  shows "wire_codec (RowNamespaceDataIDSize L) (RowNamespaceDataID_MarshalBinary L)
           (RowNamespaceDataIDFromBinary L) (RowNamespaceDataID_fits L)"
proof
  fix x assume f: "RowNamespaceDataID_fits L x"
  then show "length (RowNamespaceDataID_MarshalBinary L x) = RowNamespaceDataIDSize L"
    using L by (simp add: RowNamespaceDataID_MarshalBinary_eq RowNamespaceDataIDSize_def
        RowNamespaceDataID_fits_def ns_built_length)
  have r: "RowID_fits (rndid_RowID x)" and n: "ns_built L (rndid_DataNamespace x)"
    using f by (auto simp: RowNamespaceDataID_fits_def)
  have "NewNamespaceFromBytes L (Bytes L (rndid_DataNamespace x)) = Some (rndid_DataNamespace x)"
    using n by (simp only: ns_built_def)
  with r ns_built_length [OF L n]
  show "RowNamespaceDataIDFromBinary L (RowNamespaceDataID_MarshalBinary L x) = Inr x"
    by (simp add: RowNamespaceDataIDFromBinary_def RowNamespaceDataID_MarshalBinary_eq
        RowNamespaceDataIDSize_def row.dec_enc)
qed (rule RowNamespaceDataIDFromBinary_Inr [OF L])

end
