(* ===== verification/RangeIDs.thy ===== *)
theory RangeIDs
  imports ShwapIDs
begin

text \<open>
  \<^verbatim>\<open>RangeNamespaceDataID\<close> and its first version \<^verbatim>\<open>RangeNamespaceDataIDV0\<close> (\<^verbatim>\<open>share/shwap\<close>): a block
  height and a half-open range of original shares. Version 0 writes the two indexes in 16 bits,
  the current one in 32. The last section is how a request for a range is cut at the rows of the
  square when it is served.
\<close>

section \<open>RangeNamespaceDataID\<close>

definition RangeNamespaceDataIDSize :: nat where
  "RangeNamespaceDataIDSize = EdsIDSize + 8"

record RangeNamespaceDataID =
  rngid_EdsID :: EdsID
  From :: int
  To :: int

definition zeroRangeNamespaceDataID :: RangeNamespaceDataID where
  "zeroRangeNamespaceDataID = \<lparr>rngid_EdsID = \<lparr>height = 0\<rparr>, From = 0, To = 0\<rparr>"

definition RangeNamespaceDataID_Validate :: "RangeNamespaceDataID \<Rightarrow> shwap_error option" where
  "RangeNamespaceDataID_Validate rngid =
     (case EdsID_Validate (rngid_EdsID rngid) of
        Some e \<Rightarrow> Some e
      | None \<Rightarrow>
          if From rngid < 0 then Some ErrInvalidID
          else if To rngid \<le> 0 then Some ErrInvalidID
          else if From rngid \<ge> To rngid then Some ErrRange
          else None)"

definition RangeNamespaceDataID_Verify :: "RangeNamespaceDataID \<Rightarrow> int \<Rightarrow> shwap_error option" where
  "RangeNamespaceDataID_Verify rngid odsSize =
     (case RangeNamespaceDataID_Validate rngid of
        Some e \<Rightarrow> Some e
      | None \<Rightarrow>
          let sharesAmount = odsSize * odsSize in
          if From rngid \<ge> sharesAmount then Some ErrRange
          else if To rngid > sharesAmount then Some ErrRange
          else None)"

definition NewRangeNamespaceDataID :: "EdsID \<Rightarrow> int \<Rightarrow> int \<Rightarrow> int \<Rightarrow> shwap_error + RangeNamespaceDataID" where
  "NewRangeNamespaceDataID edsID from to odsSize =
     (let rngid = \<lparr>rngid_EdsID = edsID, From = from, To = to\<rparr> in
      case RangeNamespaceDataID_Verify rngid odsSize of Some e \<Rightarrow> Inl e | None \<Rightarrow> Inr rngid)"

text \<open>Returns the identifier it decoded together with the error of its validation.\<close>

definition RangeNamespaceDataIDFromBinary :: "byte list \<Rightarrow> RangeNamespaceDataID \<times> shwap_error option" where
  "RangeNamespaceDataIDFromBinary data =
     (if length data \<noteq> RangeNamespaceDataIDSize then (zeroRangeNamespaceDataID, Some ErrDataLength)
      else case EdsIDFromBinary (take EdsIDSize data) of
        Inl e \<Rightarrow> (zeroRangeNamespaceDataID, Some e)
      | Inr edsID \<Rightarrow>
          let rngID = \<lparr>rngid_EdsID = edsID,
                       From = uint (be_get (take 4 (drop EdsIDSize data)) :: u32),
                       To = uint (be_get (take 4 (drop (EdsIDSize + 4) data)) :: u32)\<rparr> in
          (rngID, RangeNamespaceDataID_Validate rngID))"

definition RangeNamespaceDataID_appendTo :: "RangeNamespaceDataID \<Rightarrow> byte list \<Rightarrow> byte list" where
  "RangeNamespaceDataID_appendTo rngid data =
     EdsID_AppendBinary (rngid_EdsID rngid) data
       @ be_put 4 (word_of_int (From rngid) :: u32) @ be_put 4 (word_of_int (To rngid) :: u32)"

definition RangeNamespaceDataID_MarshalBinary :: "RangeNamespaceDataID \<Rightarrow> byte list" where
  "RangeNamespaceDataID_MarshalBinary rngid = RangeNamespaceDataID_appendTo rngid []"

text \<open>A pair of a value and an error, as a caller that drops the value on error sees it.\<close>

definition go_result :: "'a \<times> 'e option \<Rightarrow> 'e + 'a" where
  "go_result r = (case snd r of Some e \<Rightarrow> Inl e | None \<Rightarrow> Inr (fst r))"

definition RangeNamespaceDataID_ReadFrom ::
    "byte list \<Rightarrow> nat \<times> (shwap_error + RangeNamespaceDataID) \<times> byte list" where
  "RangeNamespaceDataID_ReadFrom r =
     readID RangeNamespaceDataIDSize (\<lambda>data. go_result (RangeNamespaceDataIDFromBinary data)) r"

text \<open>Unlike the other identifiers, a range is validated before it is written.\<close>

definition RangeNamespaceDataID_WriteTo ::
    "RangeNamespaceDataID \<Rightarrow> byte list \<Rightarrow> (shwap_error + nat) \<times> byte list" where
  "RangeNamespaceDataID_WriteTo rngid w =
     (case RangeNamespaceDataID_Validate rngid of
        Some e \<Rightarrow> (Inl e, w)
      | None \<Rightarrow> let data = RangeNamespaceDataID_MarshalBinary rngid in (Inr (length data), w @ data))"

definition RangeNamespaceDataID_Equals :: "RangeNamespaceDataID \<Rightarrow> RangeNamespaceDataID \<Rightarrow> bool" where
  "RangeNamespaceDataID_Equals rngid other =
     (EdsID_Equals (rngid_EdsID rngid) (rngid_EdsID other) \<and> From rngid = From other \<and> To rngid = To other)"

section \<open>RangeNamespaceDataIDV0\<close>

definition RangeNamespaceDataIDV0Size :: nat where
  "RangeNamespaceDataIDV0Size = EdsIDSize + 4"

definition NewRangeNamespaceDataIDV0 :: "EdsID \<Rightarrow> int \<Rightarrow> int \<Rightarrow> int \<Rightarrow> shwap_error + RangeNamespaceDataID" where
  "NewRangeNamespaceDataIDV0 edsID from to odsSize = NewRangeNamespaceDataID edsID from to odsSize"

definition RangeNamespaceDataIDV0FromBinary :: "byte list \<Rightarrow> RangeNamespaceDataID \<times> shwap_error option" where
  "RangeNamespaceDataIDV0FromBinary data =
     (if length data \<noteq> RangeNamespaceDataIDV0Size then (zeroRangeNamespaceDataID, Some ErrDataLength)
      else case EdsIDFromBinary (take EdsIDSize data) of
        Inl e \<Rightarrow> (zeroRangeNamespaceDataID, Some e)
      | Inr edsID \<Rightarrow>
          let rngID = \<lparr>rngid_EdsID = edsID,
                       From = uint (be_get (take 2 (drop EdsIDSize data)) :: u16),
                       To = uint (be_get (take 2 (drop (EdsIDSize + 2) data)) :: u16)\<rparr> in
          (rngID, RangeNamespaceDataID_Validate rngID))"

definition RangeNamespaceDataIDV0_appendTo :: "RangeNamespaceDataID \<Rightarrow> byte list \<Rightarrow> byte list" where
  "RangeNamespaceDataIDV0_appendTo rngid data =
     EdsID_AppendBinary (rngid_EdsID rngid) data
       @ be_put 2 (word_of_int (From rngid) :: u16) @ be_put 2 (word_of_int (To rngid) :: u16)"

definition RangeNamespaceDataIDV0_MarshalBinary :: "RangeNamespaceDataID \<Rightarrow> byte list" where
  "RangeNamespaceDataIDV0_MarshalBinary rngid = RangeNamespaceDataIDV0_appendTo rngid []"

definition RangeNamespaceDataIDV0_ReadFrom ::
    "byte list \<Rightarrow> nat \<times> (shwap_error + RangeNamespaceDataID) \<times> byte list" where
  "RangeNamespaceDataIDV0_ReadFrom r =
     readID RangeNamespaceDataIDV0Size (\<lambda>data. go_result (RangeNamespaceDataIDV0FromBinary data)) r"

definition RangeNamespaceDataIDV0_WriteTo :: "RangeNamespaceDataID \<Rightarrow> byte list \<Rightarrow> nat \<times> byte list" where
  "RangeNamespaceDataIDV0_WriteTo rngid w =
     (let data = RangeNamespaceDataIDV0_MarshalBinary rngid in (length data, w @ data))"

section \<open>Both keep the wire contract on the ranges their width can hold\<close>

lemma Range_Validate_None [simp]:
  "RangeNamespaceDataID_Validate x = None \<longleftrightarrow>
     EdsID_Validate (rngid_EdsID x) = None \<and> 0 \<le> From x \<and> From x < To x"
  by (auto simp: RangeNamespaceDataID_Validate_def split: option.splits)

lemma Range_Verify_None:
  "RangeNamespaceDataID_Verify x odsSize = None \<longleftrightarrow>
     RangeNamespaceDataID_Validate x = None \<and> To x \<le> odsSize * odsSize"
  using Range_Validate_None [of x]
  by (cases "RangeNamespaceDataID_Validate x")
    (auto simp: RangeNamespaceDataID_Verify_def Let_def simp del: Range_Validate_None)

lemma go_result_Inr: "go_result r = Inr x \<longleftrightarrow> r = (x, None)"
  by (cases r) (auto simp: go_result_def split: option.splits)

lemma Range_MarshalBinary_eq:
  "RangeNamespaceDataID_MarshalBinary x = EdsID_MarshalBinary (rngid_EdsID x)
     @ be_put 4 (word_of_int (From x) :: u32) @ be_put 4 (word_of_int (To x) :: u32)"
  by (simp add: RangeNamespaceDataID_MarshalBinary_def RangeNamespaceDataID_appendTo_def EdsID_MarshalBinary_def)

lemma RangeV0_MarshalBinary_eq:
  "RangeNamespaceDataIDV0_MarshalBinary x = EdsID_MarshalBinary (rngid_EdsID x)
     @ be_put 2 (word_of_int (From x) :: u16) @ be_put 2 (word_of_int (To x) :: u16)"
  by (simp add: RangeNamespaceDataIDV0_MarshalBinary_def RangeNamespaceDataIDV0_appendTo_def EdsID_MarshalBinary_def)

text \<open>Decoding what was encoded, whatever the indexes are: they come back modulo their width.\<close>

lemma Range_FromBinary_Marshal:
  assumes "EdsID_Validate (rngid_EdsID x) = None"
  shows "RangeNamespaceDataIDFromBinary (RangeNamespaceDataID_MarshalBinary x) =
     (let y = x\<lparr>From := From x mod 2 ^ 32, To := To x mod 2 ^ 32\<rparr> in (y, RangeNamespaceDataID_Validate y))"
  using assms
  by (cases x) (simp add: RangeNamespaceDataIDFromBinary_def Range_MarshalBinary_eq RangeNamespaceDataIDSize_def
      eds.dec_enc be_int_wraps Let_def)

lemma RangeV0_FromBinary_Marshal:
  assumes "EdsID_Validate (rngid_EdsID x) = None"
  shows "RangeNamespaceDataIDV0FromBinary (RangeNamespaceDataIDV0_MarshalBinary x) =
     (let y = x\<lparr>From := From x mod 2 ^ 16, To := To x mod 2 ^ 16\<rparr> in (y, RangeNamespaceDataID_Validate y))"
  using assms
  by (cases x) (simp add: RangeNamespaceDataIDV0FromBinary_def RangeV0_MarshalBinary_eq RangeNamespaceDataIDV0Size_def
      eds.dec_enc be_int_wraps Let_def)

lemma two_fields:
  fixes bs :: "byte list"
  assumes "length bs = n + (m + m)"
  shows "take n bs @ take m (drop n bs) @ take m (drop (n + m) bs) = bs"
  using assms by (metis add.commute append_take_drop_id drop_drop length_drop add_diff_cancel_left' take_all_iff order_refl)

definition Range_fits :: "RangeNamespaceDataID \<Rightarrow> bool" where
  "Range_fits x \<longleftrightarrow> RangeNamespaceDataID_Validate x = None \<and> To x < 2 ^ 32"

definition RangeV0_fits :: "RangeNamespaceDataID \<Rightarrow> bool" where
  "RangeV0_fits x \<longleftrightarrow> RangeNamespaceDataID_Validate x = None \<and> To x < 2 ^ 16"

interpretation range: wire_codec RangeNamespaceDataIDSize RangeNamespaceDataID_MarshalBinary
  "\<lambda>data. go_result (RangeNamespaceDataIDFromBinary data)" Range_fits
proof unfold_locales
  fix x show "length (RangeNamespaceDataID_MarshalBinary x) = RangeNamespaceDataIDSize"
    by (simp add: Range_MarshalBinary_eq RangeNamespaceDataIDSize_def)
next
  fix x assume f: "Range_fits x"
  then have "x\<lparr>From := From x mod 2 ^ 32, To := To x mod 2 ^ 32\<rparr> = x"
    by (cases x) (simp add: Range_fits_def)
  with f show "go_result (RangeNamespaceDataIDFromBinary (RangeNamespaceDataID_MarshalBinary x)) = Inr x"
    by (simp add: Range_FromBinary_Marshal Range_fits_def Let_def go_result_Inr)
next
  fix bs x assume "go_result (RangeNamespaceDataIDFromBinary bs) = Inr x"
  then obtain eid where e: "EdsIDFromBinary (take EdsIDSize bs) = Inr eid"
    and len: "length bs = RangeNamespaceDataIDSize"
    and x: "x = \<lparr>rngid_EdsID = eid, From = uint (be_get (take 4 (drop EdsIDSize bs)) :: u32),
                 To = uint (be_get (take 4 (drop (EdsIDSize + 4) bs)) :: u32)\<rparr>"
    and v: "RangeNamespaceDataID_Validate x = None"
    by (auto simp: go_result_Inr RangeNamespaceDataIDFromBinary_def Let_def split: if_splits sum.splits)
  have "EdsID_MarshalBinary eid = take EdsIDSize bs" using e by (simp add: eds.dec_iff)
  then show "Range_fits x \<and> RangeNamespaceDataID_MarshalBinary x = bs"
    using v len two_fields [of bs EdsIDSize 4]
      uint_lt2p [of "be_get (take 4 (drop (EdsIDSize + 4) bs)) :: u32"]
    by (simp add: x Range_fits_def Range_MarshalBinary_eq be_put_get RangeNamespaceDataIDSize_def)
qed

interpretation rangeV0: wire_codec RangeNamespaceDataIDV0Size RangeNamespaceDataIDV0_MarshalBinary
  "\<lambda>data. go_result (RangeNamespaceDataIDV0FromBinary data)" RangeV0_fits
proof unfold_locales
  fix x show "length (RangeNamespaceDataIDV0_MarshalBinary x) = RangeNamespaceDataIDV0Size"
    by (simp add: RangeV0_MarshalBinary_eq RangeNamespaceDataIDV0Size_def)
next
  fix x assume f: "RangeV0_fits x"
  then have "x\<lparr>From := From x mod 2 ^ 16, To := To x mod 2 ^ 16\<rparr> = x"
    by (cases x) (simp add: RangeV0_fits_def)
  with f show "go_result (RangeNamespaceDataIDV0FromBinary (RangeNamespaceDataIDV0_MarshalBinary x)) = Inr x"
    by (simp add: RangeV0_FromBinary_Marshal RangeV0_fits_def Let_def go_result_Inr)
next
  fix bs x assume "go_result (RangeNamespaceDataIDV0FromBinary bs) = Inr x"
  then obtain eid where e: "EdsIDFromBinary (take EdsIDSize bs) = Inr eid"
    and len: "length bs = RangeNamespaceDataIDV0Size"
    and x: "x = \<lparr>rngid_EdsID = eid, From = uint (be_get (take 2 (drop EdsIDSize bs)) :: u16),
                 To = uint (be_get (take 2 (drop (EdsIDSize + 2) bs)) :: u16)\<rparr>"
    and v: "RangeNamespaceDataID_Validate x = None"
    by (auto simp: go_result_Inr RangeNamespaceDataIDV0FromBinary_def Let_def split: if_splits sum.splits)
  have "EdsID_MarshalBinary eid = take EdsIDSize bs" using e by (simp add: eds.dec_iff)
  then show "RangeV0_fits x \<and> RangeNamespaceDataIDV0_MarshalBinary x = bs"
    using v len two_fields [of bs EdsIDSize 2]
      uint_lt2p [of "be_get (take 2 (drop (EdsIDSize + 2) bs)) :: u16"]
    by (simp add: x RangeV0_fits_def RangeV0_MarshalBinary_eq be_put_get RangeNamespaceDataIDV0Size_def)
qed

end
