(* ===== verification/RowStream.thy ===== *)
theory RowStream
  imports RangeIDs
begin

text \<open>
  The lazily built response of a multi-row request: \<^verbatim>\<open>rowStreamReader\<close> of
  \<^verbatim>\<open>share/shwap/row_stream.go\<close>, and the range request that cuts its range at the rows of the
  square and streams one row at a time.
\<close>

section \<open>The reader\<close>

text \<open>The closure \<open>next\<close> of the reader may keep variables of its own, \<open>'c\<close>; it returns the row already
  written out. \<open>ctx\<close> is the error of the context at the time of the call, if it was cancelled.\<close>

record ('c, 'e) rowStreamReader =
  rows :: nat
  pos :: nat
  buf :: "byte list"
  rerr :: "'e option"
  env :: 'c

datatype 'e read_error = ReadEOF | ReadErr 'e

definition rs_load ::
    "('c \<Rightarrow> nat \<Rightarrow> ('e + byte list) \<times> 'c) \<Rightarrow> 'e option \<Rightarrow> ('c, 'e) rowStreamReader
      \<Rightarrow> 'e option \<times> ('c, 'e) rowStreamReader" where
  "rs_load next ctx r =
     (case ctx of
        Some e \<Rightarrow> (Some e, r)
      | None \<Rightarrow>
          (case next (env r) (pos r) of
             (Inl e, c) \<Rightarrow> (Some e, r\<lparr>env := c\<rparr>)
           | (Inr row, c) \<Rightarrow> (None, r\<lparr>env := c, buf := row, pos := pos r + 1\<rparr>)))"

definition newRowStreamReader ::
    "('c \<Rightarrow> nat \<Rightarrow> ('e + byte list) \<times> 'c) \<Rightarrow> 'e option \<Rightarrow> nat \<Rightarrow> 'c
      \<Rightarrow> 'e + ('c, 'e) rowStreamReader" where
  "newRowStreamReader next ctx n c =
     (let r = \<lparr>rows = n, pos = 0, buf = [], rerr = None, env = c\<rparr> in
      if n > 0 then (case rs_load next ctx r of (Some e, _) \<Rightarrow> Inl e | (None, r') \<Rightarrow> Inr r')
      else Inr r)"

text \<open>\<^verbatim>\<open>bytes.Buffer.Read\<close> into a buffer of \<open>k > 0\<close> bytes: an empty buffer is at its end.\<close>

definition buf_read ::
    "nat \<Rightarrow> ('c, 'e) rowStreamReader \<Rightarrow> byte list \<times> 'e read_error option \<times> ('c, 'e) rowStreamReader" where
  "buf_read k r =
     (if buf r = [] then ([], Some ReadEOF, r)
      else (take k (buf r), None, r\<lparr>buf := drop k (buf r)\<rparr>))"

definition rs_Read ::
    "('c \<Rightarrow> nat \<Rightarrow> ('e + byte list) \<times> 'c) \<Rightarrow> 'e option \<Rightarrow> nat \<Rightarrow> ('c, 'e) rowStreamReader
      \<Rightarrow> byte list \<times> 'e read_error option \<times> ('c, 'e) rowStreamReader" where
  "rs_Read next ctx k r =
     (if k = 0 then ([], None, r)
      else case rerr r of
        Some e \<Rightarrow> ([], Some (ReadErr e), r)
      | None \<Rightarrow>
          if buf r = [] then
            if pos r = rows r then ([], Some ReadEOF, r)
            else (case rs_load next ctx r of
                    (Some e, r') \<Rightarrow> ([], Some (ReadErr e), r'\<lparr>rerr := Some e\<rparr>)
                  | (None, r') \<Rightarrow> buf_read k r')
          else buf_read k r)"

text \<open>A client that reads \<open>k\<close> bytes at a time until the reader reports an error or its end.\<close>

fun rs_drain ::
    "('c \<Rightarrow> nat \<Rightarrow> ('e + byte list) \<times> 'c) \<Rightarrow> nat \<Rightarrow> nat \<Rightarrow> ('c, 'e) rowStreamReader
      \<Rightarrow> (byte list \<times> 'e read_error) option" where
  "rs_drain next k 0 r = None"
| "rs_drain next k (Suc fuel) r =
     (case rs_Read next None k r of
        (bs, Some e, r') \<Rightarrow> Some (bs, e)
      | (bs, None, r') \<Rightarrow> map_option (\<lambda>(cs, e). (bs @ cs, e)) (rs_drain next k fuel r'))"

section \<open>What a client reads\<close>

text \<open>Rows that \<open>next\<close> can produce from position \<open>p\<close> on, until it fails.\<close>

inductive produces ::
    "('c \<Rightarrow> nat \<Rightarrow> ('e + byte list) \<times> 'c) \<Rightarrow> nat \<Rightarrow> 'c \<Rightarrow> nat \<Rightarrow> byte list list \<Rightarrow> bool" for "next" n where
  end_of_rows: "produces next n c n []"
| next_row: "p < n \<Longrightarrow> next c p = (Inr row, c') \<Longrightarrow> row \<noteq> [] \<Longrightarrow> produces next n c' (Suc p) rs
         \<Longrightarrow> produces next n c p (row # rs)"

inductive_cases produces_NilE: "produces next n c p []"
inductive_cases produces_ConsE: "produces next n c p (row # rs)"

lemma rs_drain_produces:
  assumes "produces next (rows r) (env r) (pos r) rs" "rerr r = None" "0 < k"
    and "length (buf r @ concat rs) < fuel"
  shows "rs_drain next k fuel r = Some (buf r @ concat rs, ReadEOF)"
  using assms
proof (induction fuel arbitrary: r rs)
  case 0
  then show ?case by simp
next
  case (Suc fuel)
  consider (buf) "buf r \<noteq> []" | (row) row rs' where "buf r = []" "rs = row # rs'"
    | (eof) "buf r = []" "rs = []"
    by (cases rs) auto
  then show ?case
  proof cases
    case buf
    let ?r = "r\<lparr>buf := drop k (buf r)\<rparr>"
    have "rs_drain next k fuel ?r = Some (drop k (buf r) @ concat rs, ReadEOF)"
      using Suc.IH [of ?r rs] Suc.prems buf by (cases "buf r"; cases k) auto
    then show ?thesis using buf Suc.prems by (simp add: rs_Read_def buf_read_def)
  next
    case row
    then obtain c' where n: "next (env r) (pos r) = (Inr row, c')" "pos r < rows r" "row \<noteq> []"
      and p: "produces next (rows r) c' (Suc (pos r)) rs'"
      using Suc.prems by (auto elim: produces_ConsE)
    let ?r = "r\<lparr>env := c', pos := Suc (pos r), buf := drop k row\<rparr>"
    have "rs_drain next k fuel ?r = Some (drop k row @ concat rs', ReadEOF)"
      using Suc.IH [of ?r rs'] Suc.prems row n p by (cases row; cases k) auto
    then show ?thesis using row n Suc.prems by (simp add: rs_Read_def rs_load_def buf_read_def)
  next
    case eof
    then have "pos r = rows r" using Suc.prems by (auto elim: produces_NilE)
    with eof Suc.prems show ?thesis by (simp add: rs_Read_def)
  qed
qed

text \<open>The reader as a whole: made by \<^verbatim>\<open>newRowStreamReader\<close> and read with any buffer size, it delivers
  every row once, in order, and then ends.\<close>

lemma newRowStreamReader_drain:
  assumes p: "produces next n c 0 rs" and k: "0 < k" and r: "newRowStreamReader next None n c = Inr r"
    and f: "length (concat rs) < fuel"
  shows "rs_drain next k fuel r = Some (concat rs, ReadEOF)"
proof (cases "n = 0")
  case True
  then have "rs = []" using p by (auto elim: produces.cases)
  then show ?thesis using True r f rs_drain_produces [of "next" r rs k fuel] p k
    by (auto simp: newRowStreamReader_def)
next
  case False
  with p obtain row rs' c' where rs: "rs = row # rs'" "next c 0 = (Inr row, c')"
      "produces next n c' (Suc 0) rs'"
    by (auto elim: produces.cases)
  then have "r = \<lparr>rows = n, pos = 1, buf = row, rerr = None, env = c'\<rparr>"
    using r False by (simp add: newRowStreamReader_def rs_load_def)
  then show ?thesis using rs_drain_produces [of "next" r rs' k fuel] rs k f by simp
qed

lemma newRowStreamReader_total: "produces next n c 0 rs \<Longrightarrow> \<exists>r. newRowStreamReader next None n c = Inr r"
  by (auto simp: newRowStreamReader_def rs_load_def elim: produces.cases)

section \<open>Serving a range of shares\<close>

text \<open>The errors of a range response: the range does not fit the square, the accessor fails, two rows
  are of different namespaces, or the accessor returned no share where the code indexes one.\<close>

datatype 'e range_error = RangeInvalid shwap_error | RangeAccessor 'e | RangeMismatch int | RangePanic

definition range_row_bounds :: "RangeNamespaceDataID \<Rightarrow> int \<Rightarrow> int \<Rightarrow> int \<times> int" where
  "range_row_bounds rngid odsSize row =
     (max (From rngid) (row * odsSize), min (To rngid) ((row + 1) * odsSize))"

text \<open>The accessor is a parameter: \<open>accSize\<close> is \<^verbatim>\<open>acc.Size\<close>, \<open>accRange\<close> is \<^verbatim>\<open>acc.RangeNamespaceData\<close> (the rows
  of shares and the proof of the first one), \<open>nsOf\<close> the namespace of a share and \<open>writeRow\<close> the bytes
  \<^verbatim>\<open>RowNamespaceData.WriteTo\<close> writes.\<close>

definition range_next ::
    "(int \<Rightarrow> int \<Rightarrow> 'e + ('sh list list \<times> 'p option)) \<Rightarrow> ('sh \<Rightarrow> 'ns) \<Rightarrow> ('sh list \<times> 'p option \<Rightarrow> byte list)
      \<Rightarrow> RangeNamespaceDataID \<Rightarrow> int \<Rightarrow> int \<Rightarrow> 'ns option \<Rightarrow> nat
      \<Rightarrow> ('e range_error + byte list) \<times> 'ns option" where
  "range_next accRange nsOf writeRow rngid odsSize firstRow namespace i =
     (let row = firstRow + int i; (from, to) = range_row_bounds rngid odsSize row in
      case accRange from to of
        Inl e \<Rightarrow> (Inl (RangeAccessor e), namespace)
      | Inr (sharess, proof) \<Rightarrow>
          (case sharess of
             (sh # shs) # _ \<Rightarrow>
               if i = 0 then (Inr (writeRow (sh # shs, proof)), Some (nsOf sh))
               else if namespace \<noteq> Some (nsOf sh) then (Inl (RangeMismatch row), namespace)
               else (Inr (writeRow (sh # shs, proof)), namespace)
           | _ \<Rightarrow> (Inl RangePanic, namespace)))"

definition RangeNamespaceDataID_ResponseReader ::
    "'e + int \<Rightarrow> (int \<Rightarrow> int \<Rightarrow> 'e + ('sh list list \<times> 'p option)) \<Rightarrow> ('sh \<Rightarrow> 'ns)
      \<Rightarrow> ('sh list \<times> 'p option \<Rightarrow> byte list) \<Rightarrow> 'e range_error option \<Rightarrow> RangeNamespaceDataID
      \<Rightarrow> 'e range_error + ('ns option, 'e range_error) rowStreamReader" where
  "RangeNamespaceDataID_ResponseReader accSize accRange nsOf writeRow ctx rngid =
     (case accSize of
        Inl e \<Rightarrow> Inl (RangeAccessor e)
      | Inr edsSize \<Rightarrow>
          let odsSize = edsSize sdiv 2 in
          case RangeNamespaceDataID_Verify rngid odsSize of
            Some e \<Rightarrow> Inl (RangeInvalid e)
          | None \<Rightarrow>
              let firstRow = From rngid sdiv odsSize; lastRow = (To rngid - 1) sdiv odsSize in
              newRowStreamReader (range_next accRange nsOf writeRow rngid odsSize firstRow) ctx
                (nat (lastRow - firstRow + 1)) None)"

subsection \<open>The rows of a range tile it\<close>

definition range_cut :: "RangeNamespaceDataID \<Rightarrow> int \<Rightarrow> nat \<Rightarrow> nat" where
  "range_cut rngid ods i =
     nat (if i = 0 then From rngid
          else if int i = (To rngid - 1) div ods - From rngid div ods + 1 then To rngid
          else (From rngid div ods + int i) * ods)"

lemma div_bounds:
  fixes a n :: int
  assumes "0 < n"
  shows "a div n * n \<le> a" "a < (a div n + 1) * n"
proof -
  have e: "(a div n + 1) * n = a div n * n + n" by (simp add: algebra_simps)
  have "a div n * n + a mod n = a" by simp
  moreover have "0 \<le> a mod n" "a mod n < n" using assms by simp_all
  ultimately show "a div n * n \<le> a" "a < (a div n + 1) * n" unfolding e by linarith+
qed

text \<open>The number of rows a range touches, and the bounds of each of them as consecutive cuts.\<close>

definition range_rows :: "RangeNamespaceDataID \<Rightarrow> int \<Rightarrow> nat" where
  "range_rows rngid ods = nat ((To rngid - 1) div ods - From rngid div ods + 1)"

lemma range_row_bounds_cut:
  assumes v: "0 \<le> From rngid" "From rngid < To rngid" and ods: "0 < ods"
    and i: "i < range_rows rngid ods"
  shows "range_row_bounds rngid ods (From rngid div ods + int i)
         = (int (range_cut rngid ods i), int (range_cut rngid ods (Suc i)))"
    and "range_cut rngid ods i < range_cut rngid ods (Suc i)"
    and "range_cut rngid ods (Suc i) \<le> nat ((From rngid div ods + int i + 1) * ods)"
proof -
  let ?f = "From rngid div ods" and ?l = "(To rngid - 1) div ods"
  note F = div_bounds [OF ods, of "From rngid"] and T = div_bounds [OF ods, of "To rngid - 1"]
  have f0: "0 \<le> ?f" using v ods by (simp add: pos_imp_zdiv_nonneg_iff)
  have il: "?f + int i \<le> ?l" using i by (simp add: range_rows_def)
  have up: "(?f + int i) * ods \<le> ?l * ods" using il ods by (intro mult_right_mono) auto
  have lo: "(?f + 1) * ods \<le> (?f + int i) * ods" if "i \<noteq> 0" using that ods by (intro mult_right_mono) auto
  have pos: "0 \<le> (?f + int i) * ods" using f0 ods by simp
  have low: "max (From rngid) ((?f + int i) * ods) = int (range_cut rngid ods i)"
  proof (cases "i = 0")
    case True
    then show ?thesis using F v by (simp add: range_cut_def)
  next
    case False
    then have "int i \<noteq> ?l - ?f + 1" using il by simp
    with False show ?thesis using F lo pos by (simp add: range_cut_def)
  qed
  have high: "min (To rngid) ((?f + int i + 1) * ods) = int (range_cut rngid ods (Suc i))"
  proof (cases "?f + int i = ?l")
    case True
    then show ?thesis using T v by (simp add: range_cut_def algebra_simps)
  next
    case False
    then have "(?f + int i + 1) * ods \<le> ?l * ods" using il ods by (intro mult_right_mono) auto
    with False show ?thesis using T pos ods by (simp add: range_cut_def algebra_simps)
  qed
  show "range_row_bounds rngid ods (?f + int i) = (int (range_cut rngid ods i), int (range_cut rngid ods (Suc i)))"
    using low high by (simp add: range_row_bounds_def)
  have "max (From rngid) ((?f + int i) * ods) < min (To rngid) ((?f + int i + 1) * ods)"
  proof -
    have "(?f + int i) * ods < To rngid" using up T by linarith
    moreover have "From rngid < (?f + int i + 1) * ods"
    proof -
      have "(?f + 1) * ods \<le> (?f + int i + 1) * ods" using ods by (intro mult_right_mono) auto
      then show ?thesis using F by linarith
    qed
    ultimately show ?thesis using v ods by (simp add: algebra_simps)
  qed
  then show "range_cut rngid ods i < range_cut rngid ods (Suc i)" using low high by linarith
  have "int (range_cut rngid ods (Suc i)) \<le> (?f + int i + 1) * ods" using high by linarith
  then show "range_cut rngid ods (Suc i) \<le> nat ((?f + int i + 1) * ods)" by linarith
qed

lemma range_cut_mono: "i \<le> j \<Longrightarrow> j \<le> range_rows rngid ods \<Longrightarrow> 0 \<le> From rngid \<Longrightarrow> From rngid < To rngid
    \<Longrightarrow> 0 < ods \<Longrightarrow> range_cut rngid ods i \<le> range_cut rngid ods j"
proof (induction rule: dec_induct)
  case (step j)
  then show ?case using range_row_bounds_cut(2) [of rngid ods j] by simp
qed simp

lemma range_rows_pos:
  assumes "From rngid < To rngid" "0 < ods"
  shows "0 < range_rows rngid ods"
  using zdiv_mono1 [of "From rngid" "To rngid - 1" ods] assms by (simp add: range_rows_def)

lemma range_cut_ends:
  assumes "From rngid < To rngid" "0 < ods"
  shows "range_cut rngid ods 0 = nat (From rngid)"
    and "range_cut rngid ods (range_rows rngid ods) = nat (To rngid)"
  using range_rows_pos [OF assms] by (simp_all add: range_cut_def range_rows_def)

text \<open>The shares of the \<open>j\<close>-th row of the response; together they are the shares of the range.\<close>

definition range_seg :: "RangeNamespaceDataID \<Rightarrow> int \<Rightarrow> 'sh list \<Rightarrow> nat \<Rightarrow> 'sh list" where
  "range_seg rngid ods sq j = slice (range_cut rngid ods j) (range_cut rngid ods (Suc j)) sq"

lemma range_seg_tile:
  assumes "0 \<le> From rngid" "From rngid < To rngid" "0 < ods"
  shows "concat (map (range_seg rngid ods sq) [0..<range_rows rngid ods])
         = slice (nat (From rngid)) (nat (To rngid)) sq"
  unfolding range_seg_def
  using concat_slices [of "range_rows rngid ods" "range_cut rngid ods" sq]
    range_row_bounds_cut(2) [OF assms] range_cut_ends [OF assms(2,3)]
  by (simp add: less_imp_le)

definition range_resp ::
    "('sh list \<times> 'p option \<Rightarrow> byte list) \<Rightarrow> (int \<Rightarrow> int \<Rightarrow> 'p option) \<Rightarrow> RangeNamespaceDataID \<Rightarrow> int
      \<Rightarrow> 'sh list \<Rightarrow> nat \<Rightarrow> byte list" where
  "range_resp writeRow prf rngid ods sq j =
     writeRow (range_seg rngid ods sq j,
               prf (int (range_cut rngid ods j)) (int (range_cut rngid ods (Suc j))))"

lemma range_produces:
  assumes v: "0 \<le> From rngid" "From rngid < To rngid" "To rngid \<le> ods * ods" and ods: "0 < ods"
    and acc: "\<And>f t. 0 \<le> f \<Longrightarrow> f < t \<Longrightarrow> t \<le> ods * ods \<Longrightarrow>
                accRange f t = Inr ([slice (nat f) (nat t) sq], prf f t)"
    and sq: "length sq = nat (ods * ods)"
    and ns: "\<And>sh. sh \<in> set (slice (nat (From rngid)) (nat (To rngid)) sq) \<Longrightarrow> nsOf sh = ns"
    and w: "\<And>x. writeRow x \<noteq> []"
    and i: "i \<le> range_rows rngid ods"
  shows "produces (range_next accRange nsOf writeRow rngid ods (From rngid div ods))
           (range_rows rngid ods) (if i = 0 then None else Some ns) i
           (map (range_resp writeRow prf rngid ods sq) [i..<range_rows rngid ods])"
  using i
proof (induction rule: inc_induct)
  case base
  show ?case by (simp add: end_of_rows)
next
  case (step i)
  let ?n = "range_rows rngid ods" and ?c = "range_cut rngid ods"
  note b = range_row_bounds_cut [OF v(1,2) ods, of i]
  have le: "?c (Suc i) \<le> nat (To rngid)"
    using range_cut_mono [of "Suc i" ?n rngid ods] range_cut_ends(2) [OF v(2) ods] step.hyps v ods by simp
  have le': "?c (Suc i) \<le> length sq" using le v sq by linarith
  have acc': "accRange (int (?c i)) (int (?c (Suc i)))
      = Inr ([range_seg rngid ods sq i], prf (int (?c i)) (int (?c (Suc i))))"
    using acc [of "int (?c i)" "int (?c (Suc i))"] b step.hyps le v by (simp add: range_seg_def)
  have "length (range_seg rngid ods sq i) = ?c (Suc i) - ?c i"
    using le' by (simp add: range_seg_def length_slice)
  then obtain sh shs where seg: "range_seg rngid ods sq i = sh # shs"
    using b(2) step.hyps by (cases "range_seg rngid ods sq i") auto
  have "sh \<in> set (concat (map (range_seg rngid ods sq) [0..<?n]))" using seg step.hyps by force
  then have "nsOf sh = ns" using ns range_seg_tile [OF v(1,2) ods, of sq] by simp
  then have "range_next accRange nsOf writeRow rngid ods (From rngid div ods) (if i = 0 then None else Some ns) i
      = (Inr (range_resp writeRow prf rngid ods sq i), Some ns)"
    using b(1) step.hyps acc' seg by (simp add: range_next_def range_resp_def)
  then show ?case using step w
    by (simp add: upt_conv_Cons next_row range_resp_def)
qed

lemma range_served:
  assumes ver: "RangeNamespaceDataID_Verify rngid ods = None"
    and acc: "\<And>f t. 0 \<le> f \<Longrightarrow> f < t \<Longrightarrow> t \<le> ods * ods \<Longrightarrow>
                accRange f t = Inr ([slice (nat f) (nat t) sq], prf f t)"
    and sq: "length sq = nat (ods * ods)" and ods: "0 < ods"
    and ns: "\<And>sh. sh \<in> set (slice (nat (From rngid)) (nat (To rngid)) sq) \<Longrightarrow> nsOf sh = ns"
    and w: "\<And>x. writeRow x \<noteq> []" and k: "0 < k"
  shows "\<exists>r. RangeNamespaceDataID_ResponseReader (Inr (2 * ods)) accRange nsOf writeRow None rngid = Inr r
           \<and> (let out = concat (map (range_resp writeRow prf rngid ods sq) [0..<range_rows rngid ods]) in
              \<forall>fuel > length out.
                rs_drain (range_next accRange nsOf writeRow rngid ods (From rngid div ods)) k fuel r
                  = Some (out, ReadEOF))"
    and "concat (map (range_seg rngid ods sq) [0..<range_rows rngid ods])
           = slice (nat (From rngid)) (nat (To rngid)) sq"
proof -
  have v: "0 \<le> From rngid" "From rngid < To rngid" "To rngid \<le> ods * ods"
    using ver by (auto simp: Range_Verify_None Range_Validate_None)
  then show "concat (map (range_seg rngid ods sq) [0..<range_rows rngid ods])
           = slice (nat (From rngid)) (nat (To rngid)) sq"
    using range_seg_tile ods by blast
  let ?next = "range_next accRange nsOf writeRow rngid ods (From rngid div ods)"
  have p: "produces ?next (range_rows rngid ods) None 0
      (map (range_resp writeRow prf rngid ods sq) [0..<range_rows rngid ods])"
    using range_produces [where i = 0, OF v ods acc sq ns w] by simp
  from newRowStreamReader_total [OF p] obtain r
    where r: "newRowStreamReader ?next None (range_rows rngid ods) None = Inr r" ..
  have "RangeNamespaceDataID_ResponseReader (Inr (2 * ods)) accRange nsOf writeRow None rngid = Inr r"
    using r ver v ods
    by (simp add: RangeNamespaceDataID_ResponseReader_def range_rows_def go_div_nonneg)
  then show "\<exists>r. RangeNamespaceDataID_ResponseReader (Inr (2 * ods)) accRange nsOf writeRow None rngid = Inr r
           \<and> (let out = concat (map (range_resp writeRow prf rngid ods sq) [0..<range_rows rngid ods]) in
              \<forall>fuel > length out. rs_drain ?next k fuel r = Some (out, ReadEOF))"
    using newRowStreamReader_drain [OF p k r] by (auto simp: Let_def)
qed

end
