(* ===== verification/ShwapProperties.thy ===== *)
theory ShwapProperties
  imports NamespaceIDs RowStream
begin

text \<open>The properties of the share exchange identifiers and of the responses streamed row by row.\<close>

text \<open>C38. Sample identifiers survive the wire: the bytes that decode are exactly the encodings of the
  valid identifiers whose indexes fit 16 bits, and each decodes to the identifier it encodes.\<close>

theorem sample_id_codec:
  "SampleIDFromBinary bs = Inr sid \<longleftrightarrow>
     SampleID_Validate sid = None \<and> RowIndex (sid_RowID sid) < 2 ^ 16 \<and> ShareIndex sid < 2 ^ 16
     \<and> SampleID_MarshalBinary sid = bs"
  unfolding sample.dec_iff by (auto simp: SampleID_fits_def)

text \<open>Identifiers need no separator: sample identifiers for squares of up to 65536 shares a side,
  written one after the other, are read back one by one and leave the rest of the stream untouched.\<close>

theorem sample_ids_stream:
  assumes "list_all (\<lambda>sid. \<exists>h idx edsSize. NewSampleID h idx edsSize = Inr sid \<and> edsSize \<le> 2 ^ 16) sids"
  shows "readIDs SampleIDSize SampleIDFromBinary (length sids) (concat (map SampleID_MarshalBinary sids) @ rest) = (Inr sids, rest)"
  using assms NewSampleID_fits by (intro sample.read_all) (auto simp: list_all_iff)

theorem sample_ids_stream_witness:
  "readIDs SampleIDSize SampleIDFromBinary 2
     (concat (map SampleID_MarshalBinary
       [\<lparr>sid_RowID = \<lparr>rid_EdsID = \<lparr>height = 7\<rparr>, RowIndex = 3\<rparr>, ShareIndex = 1\<rparr>,
        \<lparr>sid_RowID = \<lparr>rid_EdsID = \<lparr>height = 8\<rparr>, RowIndex = 0\<rparr>, ShareIndex = 2\<rparr>]) @ [42])
   = (Inr [\<lparr>sid_RowID = \<lparr>rid_EdsID = \<lparr>height = 7\<rparr>, RowIndex = 3\<rparr>, ShareIndex = 1\<rparr>,
           \<lparr>sid_RowID = \<lparr>rid_EdsID = \<lparr>height = 8\<rparr>, RowIndex = 0\<rparr>, ShareIndex = 2\<rparr>], [42])"
proof -
  have "\<exists>h idx edsSize. NewSampleID h idx edsSize = Inr \<lparr>sid_RowID = \<lparr>rid_EdsID = \<lparr>height = 7\<rparr>, RowIndex = 3\<rparr>, ShareIndex = 1\<rparr> \<and> edsSize \<le> 2 ^ 16"
    by (intro exI [of _ 7] exI [of _ "\<lparr>Row = 3, Col = 1\<rparr>"] exI [of _ 4]) (simp add: NewSampleID_iff)
  moreover have "\<exists>h idx edsSize. NewSampleID h idx edsSize = Inr \<lparr>sid_RowID = \<lparr>rid_EdsID = \<lparr>height = 8\<rparr>, RowIndex = 0\<rparr>, ShareIndex = 2\<rparr> \<and> edsSize \<le> 2 ^ 16"
    by (intro exI [of _ 8] exI [of _ "\<lparr>Row = 0, Col = 2\<rparr>"] exI [of _ 4]) (simp add: NewSampleID_iff)
  ultimately have "list_all (\<lambda>sid. \<exists>h idx edsSize. NewSampleID h idx edsSize = Inr sid \<and> edsSize \<le> 2 ^ 16)
      [\<lparr>sid_RowID = \<lparr>rid_EdsID = \<lparr>height = 7\<rparr>, RowIndex = 3\<rparr>, ShareIndex = 1\<rparr>,
       \<lparr>sid_RowID = \<lparr>rid_EdsID = \<lparr>height = 8\<rparr>, RowIndex = 0\<rparr>, ShareIndex = 2\<rparr>]"
    by (simp only: list.pred_inject simp_thms)
  from sample_ids_stream [OF this, of "[42]"] show ?thesis by (simp add: numeral_2_eq_2)
qed

text \<open>The coordinates of a sample and its position in the square, counted row by row, determine each
  other: both conversions accept exactly what lies in the square, and each undoes the other.\<close>

theorem sample_coords_bijection:
  assumes "0 \<le> n"
  shows "(SampleCoordsAs1DIndex c n = Inr i) \<longleftrightarrow> (SampleCoordsFrom1DIndex i n = Inr c)"
proof
  assume "SampleCoordsAs1DIndex c n = Inr i"
  then have c: "0 \<le> Row c" "Row c < n" "0 \<le> Col c" "Col c < n" "i = Row c * n + Col c"
    by (auto simp: SampleCoordsAs1DIndex_def split: if_splits)
  then show "SampleCoordsFrom1DIndex i n = Inr c"
    using coords_of_index [OF c(1-4)] c(5) by (simp add: SampleCoordsFrom1DIndex_def not_less)
next
  assume "SampleCoordsFrom1DIndex i n = Inr c"
  then have i: "0 \<le> i" "i < n * n" and c: "c = \<lparr>Row = i sdiv n, Col = i smod n\<rparr>"
    by (auto simp: SampleCoordsFrom1DIndex_def split: if_splits)
  show "SampleCoordsAs1DIndex c n = Inr i"
    using index_of_coords [OF i assms] by (simp add: SampleCoordsAs1DIndex_def c not_less not_le)
qed

theorem sample_coords_bijection_witness:
  "(SampleCoordsAs1DIndex \<lparr>Row = 2, Col = 3\<rparr> 4 = Inr 11) \<longleftrightarrow> (SampleCoordsFrom1DIndex 11 4 = Inr \<lparr>Row = 2, Col = 3\<rparr>)"
  by (rule sample_coords_bijection) simp

text \<open>Row namespace identifiers survive the wire, for any namespace package whose namespaces are the
  bytes they were made from: decoding accepts exactly the encodings and undoes them.\<close>

theorem row_namespace_id_codec:
  assumes "nslib_ok L"
  shows "RowNamespaceDataIDFromBinary L bs = Inr x \<longleftrightarrow>
           RowID_fits (rndid_RowID x) \<and> ns_built L (rndid_DataNamespace x) \<and> RowNamespaceDataID_MarshalBinary L x = bs"
  using wire_codec.dec_iff [OF RowNamespaceDataID_codec [OF assms]] by (auto simp: RowNamespaceDataID_fits_def)

text \<open>Namespaces as lists of two bytes.\<close>

definition ex_nslib :: "byte list nslib" where
  "ex_nslib = \<lparr>NamespaceSize = 2, NewNamespaceFromBytes = (\<lambda>b. if length b = 2 then Some b else None),
               Bytes = id, ValidateForData = (\<lambda>_. True)\<rparr>"

theorem row_namespace_id_codec_witness:
  "RowNamespaceDataIDFromBinary ex_nslib (RowNamespaceDataID_MarshalBinary ex_nslib
     \<lparr>rndid_RowID = \<lparr>rid_EdsID = \<lparr>height = 9\<rparr>, RowIndex = 1\<rparr>, rndid_DataNamespace = [1, 2]\<rparr>)
   = Inr \<lparr>rndid_RowID = \<lparr>rid_EdsID = \<lparr>height = 9\<rparr>, RowIndex = 1\<rparr>, rndid_DataNamespace = [1, 2]\<rparr>"
proof -
  have "nslib_ok ex_nslib" by (simp add: nslib_ok_def ex_nslib_def)
  from row_namespace_id_codec [OF this] show ?thesis
    by (simp add: RowID_fits_def RowID_Validate_def EdsID_Validate_def ns_built_def ex_nslib_def)
qed







end
