(* ===== verification/Pruner.thy ===== *)
theory Pruner
  imports Prelude
begin

text \<open>
  The pruner service (\<^verbatim>\<open>pruner/service.go\<close>, \<^verbatim>\<open>find.go\<close>, \<^verbatim>\<open>checkpoint.go\<close>, \<^verbatim>\<open>params.go\<close>): finding the headers
  that left the availability window, pruning their blocks in batches, and the checkpoint that says how far
  it got and which heights failed. The header store is a parameter, a snapshot of what it returns; so are
  the outcomes of pruning a block. Heights pruned so far are kept beside the state, for the statements.
\<close>

section \<open>Headers, the header store and the checkpoint\<close>

record hdr =
  Height :: u64
  Time :: time

record 'e hstore =
  hs_Head :: "'e + hdr"
  hs_Tail :: "'e + hdr"
  hs_GetByHeight :: "u64 \<Rightarrow> 'e + hdr"
  hs_GetRangeByHeight :: "hdr \<Rightarrow> u64 \<Rightarrow> 'e + hdr list"

record pcheckpoint =
  LastPrunedHeight :: u64
  FailedHeaders :: "u64 fset"

definition pruner_newCheckpoint :: "u64 \<Rightarrow> pcheckpoint" where
  "pruner_newCheckpoint lastPruned = \<lparr>LastPrunedHeight = lastPruned, FailedHeaders = {||}\<rparr>"

text \<open>Indexing the last element of an empty slice panics.\<close>

datatype 'e prune_error = StoreErr 'e | Panics

section \<open>Finding pruneable headers\<close>

definition maxHeadersPerLoop :: nat where "maxHeadersPerLoop = 512"

definition calculateEstimatedCutoff :: "'e hstore \<Rightarrow> duration \<Rightarrow> hdr \<Rightarrow> time \<Rightarrow> 'e + u64" where
  "calculateEstimatedCutoff hs blockTime lastPruned pruneCutoff =
     (let estimatedRange = (word_of_int ((pruneCutoff - Time lastPruned) sdiv blockTime) :: u64);
          est = Height lastPruned + estimatedRange in
      case hs_Head hs of
        Inl e \<Rightarrow> Inl e
      | Inr head \<Rightarrow>
          let est1 = (if Height head < est then Height head else est) in
          Inr (if est1 - Height lastPruned > of_nat maxHeadersPerLoop
               then Height lastPruned + of_nat maxHeadersPerLoop else est1))"

function find_extend :: "'e hstore \<Rightarrow> time \<Rightarrow> hdr list \<Rightarrow> 'e prune_error + hdr list" where
  "find_extend hs pruneCutoff headers =
     (if length headers > maxHeadersPerLoop then Inr (take maxHeadersPerLoop headers)
      else if headers = [] then Inl Panics
      else if Time (last headers) > pruneCutoff then Inr headers
      else case hs_GetByHeight hs (Height (last headers) + 1) of
        Inl e \<Rightarrow> Inl (StoreErr e)
      | Inr nextHeader \<Rightarrow> find_extend hs pruneCutoff (headers @ [nextHeader]))"
  by pat_completeness auto
termination by (relation "measure (\<lambda>(_, _, headers). Suc maxHeadersPerLoop - length headers)") auto

declare find_extend.simps [simp del]

text \<open>The headers before the first that is newer than the cutoff.\<close>

definition find_prefix :: "time \<Rightarrow> hdr list \<Rightarrow> hdr list" where
  "find_prefix pruneCutoff headers = takeWhile (\<lambda>h. \<not> Time h > pruneCutoff) headers"

definition findPruneableHeaders ::
    "'e hstore \<Rightarrow> duration \<Rightarrow> duration \<Rightarrow> hdr \<Rightarrow> 'e prune_error + hdr list" where
  "findPruneableHeaders hs window blockTime lastPruned =
     (case hs_Head hs of
        Inl e \<Rightarrow> Inl (StoreErr e)
      | Inr head \<Rightarrow>
          let pruneCutoff = Time head - window in
          if \<not> Time lastPruned < pruneCutoff then Inr []
          else case calculateEstimatedCutoff hs blockTime lastPruned pruneCutoff of
            Inl e \<Rightarrow> Inl (StoreErr e)
          | Inr est \<Rightarrow>
              if Height lastPruned \<ge> est then Inr []
              else case hs_GetRangeByHeight hs lastPruned (est + 1) of
                Inl e \<Rightarrow> Inl (StoreErr e)
              | Inr hdrs \<Rightarrow>
                  let headers = (if Height lastPruned = 1 then lastPruned # hdrs else hdrs) in
                  case find_extend hs pruneCutoff headers of
                    Inl e \<Rightarrow> Inl e
                  | Inr headers' \<Rightarrow> Inr (find_prefix pruneCutoff headers'))"

section \<open>The service\<close>

text \<open>\<open>chkpt\<close> is the checkpoint in memory, \<open>stored\<close> the one on disk, \<open>pruned\<close> the heights whose blocks were
  pruned, \<open>stopped\<close> whether the context of the service is done.\<close>

record service =
  window :: duration
  blockTime :: duration
  chkpt :: "pcheckpoint option"
  stored :: "pcheckpoint option"
  stopped :: bool
  pruned :: "u64 set"

definition storeCheckpoint :: "'e option \<Rightarrow> service \<Rightarrow> 'e option \<times> service" where
  "storeCheckpoint err s = (case err of Some e \<Rightarrow> (Some e, s) | None \<Rightarrow> (None, s\<lparr>stored := chkpt s\<rparr>))"

definition resetCheckpoint :: "'e hstore \<Rightarrow> 'e option \<Rightarrow> service \<Rightarrow> 'e option \<times> service" where
  "resetCheckpoint hs putErr s =
     (case hs_Tail hs of
        Inl e \<Rightarrow> (Some e, s)
      | Inr tail \<Rightarrow> storeCheckpoint putErr (s\<lparr>chkpt := Some (pruner_newCheckpoint (Height tail))\<rparr>))"

text \<open>\<open>getErr\<close> is the error of the datastore on reading, other than that nothing is stored.\<close>

definition loadCheckpoint :: "'e hstore \<Rightarrow> 'e option \<Rightarrow> 'e option \<Rightarrow> service \<Rightarrow> 'e option \<times> service" where
  "loadCheckpoint hs getErr putErr s =
     (if chkpt s \<noteq> None then (None, s)
      else case getErr of
        Some e \<Rightarrow> (Some e, s)
      | None \<Rightarrow>
          (case stored s of
             None \<Rightarrow> resetCheckpoint hs putErr s
           | Some cp \<Rightarrow> (None, s\<lparr>chkpt := Some cp\<rparr>)))"

definition updateCheckpoint :: "'e option \<Rightarrow> u64 \<Rightarrow> u64 fset \<Rightarrow> service \<Rightarrow> 'e option \<times> service" where
  "updateCheckpoint putErr lastPrunedHeight failedHeights s =
     storeCheckpoint putErr
       (s\<lparr>chkpt := map_option (\<lambda>cp. \<lparr>LastPrunedHeight = lastPrunedHeight,
                                      FailedHeaders = FailedHeaders cp |\<union>| failedHeights\<rparr>) (chkpt s)\<rparr>)"

text \<open>Needs a checkpoint in memory, like every operation that runs after \<^verbatim>\<open>loadCheckpoint\<close>.\<close>

definition lastPruned :: "'e hstore \<Rightarrow> service \<Rightarrow> ('e + hdr) \<times> service" where
  "lastPruned hs s =
     (case hs_Tail hs of
        Inl e \<Rightarrow> (Inl e, s)
      | Inr tail \<Rightarrow>
          let cp = the (chkpt s) in
          if Height tail < LastPrunedHeight cp then (hs_GetByHeight hs (LastPrunedHeight cp), s)
          else (Inr tail, s\<lparr>chkpt := Some \<lparr>LastPrunedHeight = Height tail,
                             FailedHeaders = ffilter (\<lambda>h. \<not> h < Height tail) (FailedHeaders cp)\<rparr>\<rparr>))"

text \<open>\<open>ok h\<close> says whether pruning the block of header \<open>h\<close> succeeds. \<open>order\<close> is the order in which the
  iteration visits the failed heights.\<close>

fun retryFailed :: "'e hstore \<Rightarrow> (hdr \<Rightarrow> bool) \<Rightarrow> u64 list \<Rightarrow> service \<Rightarrow> service" where
  "retryFailed hs ok [] s = s"
| "retryFailed hs ok (f # order) s =
     (case hs_GetByHeight hs f of
        Inl e \<Rightarrow> retryFailed hs ok order s
      | Inr h \<Rightarrow>
          if \<not> ok h then retryFailed hs ok order s
          else retryFailed hs ok order
                 (s\<lparr>chkpt := map_option (\<lambda>cp. cp\<lparr>FailedHeaders := FailedHeaders cp |-| {|f|}\<rparr>) (chkpt s),
                    pruned := insert (Height h) (pruned s)\<rparr>))"

text \<open>One batch: the last header pruned, the set of failed heights and the heights pruned.\<close>

fun prune_batch :: "(hdr \<Rightarrow> bool) \<Rightarrow> hdr list \<Rightarrow> hdr \<times> u64 fset \<times> u64 set \<Rightarrow> hdr \<times> u64 fset \<times> u64 set" where
  "prune_batch ok [] acc = acc"
| "prune_batch ok (eh # rest) (lst, failedSet, ps) =
     (if ok eh then prune_batch ok rest (eh, failedSet, insert (Height eh) ps)
      else prune_batch ok rest (lst, finsert (Height eh) failedSet, ps))"

text \<open>The loop of \<^verbatim>\<open>prune\<close>. The arguments indexed by the turn are what the outside does in it: the outcomes
  of pruning, the error of storing the checkpoint, and whether the service is being stopped.\<close>

fun prune_loop ::
    "'e hstore \<Rightarrow> (nat \<Rightarrow> hdr \<Rightarrow> bool) \<Rightarrow> (nat \<Rightarrow> 'e option) \<Rightarrow> (nat \<Rightarrow> bool) \<Rightarrow> nat \<Rightarrow> nat \<Rightarrow> hdr \<Rightarrow> service
      \<Rightarrow> service option" where
  "prune_loop hs ok putErr stop fuel i lst s =
     (if stop i then Some s
      else case findPruneableHeaders hs (window s) (blockTime s) lst of
        Inl e \<Rightarrow> Some s
      | Inr [] \<Rightarrow> Some s
      | Inr headers \<Rightarrow>
          let (lst', failedSet, ps) = prune_batch (ok i) headers (lst, {||}, pruned s);
              (err, s') = updateCheckpoint (putErr i) (Height lst') failedSet (s\<lparr>pruned := ps\<rparr>) in
          if err \<noteq> None then Some s'
          else if length headers < maxHeadersPerLoop then Some s'
          else if lst' = lst then Some s'
          else case fuel of 0 \<Rightarrow> None | Suc f \<Rightarrow> prune_loop hs ok putErr stop f (Suc i) lst' s')"

declare prune_loop.simps [simp del]

definition prune ::
    "'e hstore \<Rightarrow> (hdr \<Rightarrow> bool) \<Rightarrow> u64 list \<Rightarrow> (nat \<Rightarrow> hdr \<Rightarrow> bool) \<Rightarrow> (nat \<Rightarrow> 'e option) \<Rightarrow> (nat \<Rightarrow> bool) \<Rightarrow> nat
      \<Rightarrow> service \<Rightarrow> service option" where
  "prune hs retryOk order ok putErr stop fuel s =
     (case lastPruned hs s of
        (Inl e, s1) \<Rightarrow> Some s1
      | (Inr lst, s1) \<Rightarrow> prune_loop hs ok putErr stop fuel 0 lst (retryFailed hs retryOk order s1))"

datatype 'e delete_error = ServiceClosed | DeleteStore 'e | DeletePrune

text \<open>\<open>other\<close> is what the rest of the service may do to the state while the lock is released, between the
  two critical sections.\<close>

definition pruneOnHeaderDelete ::
    "'e hstore \<Rightarrow> 'e option \<Rightarrow> 'e option \<Rightarrow> (hdr \<Rightarrow> bool) \<Rightarrow> (service \<Rightarrow> service) \<Rightarrow> u64 \<Rightarrow> service
      \<Rightarrow> 'e delete_error option \<times> service" where
  "pruneOnHeaderDelete hs getErr putErr ok other height s =
     (if stopped s then (Some ServiceClosed, s)
      else case loadCheckpoint hs getErr putErr s of
        (Some e, s1) \<Rightarrow> (Some (DeleteStore e), s1)
      | (None, s1) \<Rightarrow>
          let s2 = s1\<lparr>chkpt := map_option (\<lambda>cp. cp\<lparr>FailedHeaders := FailedHeaders cp |-| {|height|}\<rparr>) (chkpt s1)\<rparr> in
          if height \<le> LastPrunedHeight (the (chkpt s2)) then (None, s2)
          else case hs_GetByHeight hs height of
            Inl e \<Rightarrow> (Some (DeleteStore e), s2)
          | Inr eh \<Rightarrow>
              if \<not> ok eh then (Some DeletePrune, s2)
              else
                let s3 = other (s2\<lparr>pruned := insert (Height eh) (pruned s2)\<rparr>) in
                if height \<le> LastPrunedHeight (the (chkpt s3)) then (None, s3)
                else (None, s3\<lparr>chkpt := map_option (\<lambda>cp. cp\<lparr>LastPrunedHeight := height\<rparr>) (chkpt s3)\<rparr>))"

section \<open>Parameters, start and stop\<close>

record Params =
  pruneCycle :: duration

definition Params_Validate :: "Params \<Rightarrow> bool" where
  "Params_Validate p \<longleftrightarrow> pruneCycle p \<noteq> 0"

definition DefaultParams :: Params where
  "DefaultParams = \<lparr>pruneCycle = 30 * 10 ^ 9\<rparr>"

definition WithPruneCycle :: "duration \<Rightarrow> Params \<Rightarrow> Params" where
  "WithPruneCycle cycle p = p\<lparr>pruneCycle := cycle\<rparr>"

definition NewService :: "duration \<Rightarrow> duration \<Rightarrow> (Params \<Rightarrow> Params) list \<Rightarrow> pcheckpoint option \<Rightarrow> service option" where
  "NewService win bt opts disk =
     (let params = fold (\<lambda>opt p. opt p) opts DefaultParams in
      if \<not> Params_Validate params then None
      else Some \<lparr>window = win, blockTime = bt, chkpt = None, stored = disk, stopped = False, pruned = {}\<rparr>)"

definition Service_LastPruned :: "'e hstore \<Rightarrow> 'e option \<Rightarrow> 'e option \<Rightarrow> service \<Rightarrow> ('e + u64) \<times> service" where
  "Service_LastPruned hs getErr putErr s =
     (case loadCheckpoint hs getErr putErr s of
        (Some e, s1) \<Rightarrow> (Inl e, s1)
      | (None, s1) \<Rightarrow> (Inr (LastPrunedHeight (the (chkpt s1))), s1))"

text \<open>\<open>timeout\<close> says that the loop did not end within the context's deadline.\<close>

definition Service_Stop :: "bool \<Rightarrow> 'e option \<Rightarrow> service \<Rightarrow> bool \<times> service" where
  "Service_Stop timeout putErr s =
     (let s1 = s\<lparr>stopped := True\<rparr> in
      if timeout then (False, s1)
      else case storeCheckpoint putErr s1 of (Some e, s2) \<Rightarrow> (False, s2) | (None, s2) \<Rightarrow> (True, s2))"

definition Service_Start :: "'e hstore \<Rightarrow> 'e option \<Rightarrow> 'e option \<Rightarrow> service \<Rightarrow> 'e option \<times> service" where
  "Service_Start hs getErr putErr s =
     (case loadCheckpoint hs getErr putErr s of
        (Some e, s1) \<Rightarrow> (Some e, s1)
      | (None, s1) \<Rightarrow> (None, s1\<lparr>stopped := False\<rparr>))"

definition Service_ResetCheckpoint :: "'e hstore \<Rightarrow> 'e option \<Rightarrow> service \<Rightarrow> 'e option \<times> service" where
  "Service_ResetCheckpoint hs putErr s = resetCheckpoint hs putErr s"

text \<open>The background loop: one round per tick, until the service is stopped. A turn carries what the outside does in it:
  the header store it sees, the outcomes of pruning, and whether the context is done when it waits for the tick.\<close>

record 'e turn =
  tn_store :: "'e hstore"
  tn_retryOk :: "hdr \<Rightarrow> bool"
  tn_order :: "u64 list"
  tn_ok :: "nat \<Rightarrow> hdr \<Rightarrow> bool"
  tn_putErr :: "nat \<Rightarrow> 'e option"
  tn_stop :: "nat \<Rightarrow> bool"
  tn_done :: bool

fun Service_run :: "nat \<Rightarrow> 'e turn list \<Rightarrow> service \<Rightarrow> service option" where
  "Service_run fuel [] s = Some s"
| "Service_run fuel (r # rs) s =
     (case prune (tn_store r) (tn_retryOk r) (tn_order r) (tn_ok r) (tn_putErr r) (tn_stop r) fuel s of
        None \<Rightarrow> None
      | Some s' \<Rightarrow> if tn_done r then Some s' else Service_run fuel rs s')"

end
