(* ===== verification/PrunerProofs.thy ===== *)
theory PrunerProofs
  imports Pruner
begin

text \<open>What the pruner guarantees over a header store that holds a chain without gaps.\<close>

section \<open>The header store's contract\<close>

text \<open>Heights from \<open>a\<close> up to but not including \<open>b\<close>.\<close>

definition hts :: "u64 \<Rightarrow> u64 \<Rightarrow> u64 list" where
  "hts a b = map of_nat [unat a..<unat b]"

lemma set_hts [simp]: "h \<in> set (hts a b) \<longleftrightarrow> a \<le> h \<and> h < b"
proof
  assume "h \<in> set (hts a b)"
  then obtain i where "h = of_nat i" "unat a \<le> i" "i < unat b" by (auto simp: hts_def)
  moreover have "unat (of_nat i :: u64) = i"
    using \<open>i < unat b\<close> order_less_trans [OF _ unat_bound] by (intro unat_of_nat_u64) simp
  ultimately show "a \<le> h \<and> h < b" by (simp add: word_le_nat_alt word_less_nat_alt)
next
  assume "a \<le> h \<and> h < b"
  then show "h \<in> set (hts a b)"
    unfolding hts_def by (auto simp: word_le_nat_alt word_less_nat_alt intro!: image_eqI [of _ _ "unat h"])
qed

lemma hts_snoc: "a \<le> b \<Longrightarrow> b < - 1 \<Longrightarrow> hts a b @ [b] = hts a (b + 1)"
  by (simp add: hts_def unat_u64_succ word_le_nat_alt)

lemma hts_Cons: "a < b \<Longrightarrow> hts a b = a # hts (a + 1) b"
proof -
  assume "a < b"
  moreover from this have "a < - 1" by (metis word_n1_ge order_less_le_trans)
  ultimately show ?thesis by (simp add: hts_def unat_u64_succ word_less_nat_alt upt_conv_Cons)
qed

lemma length_hts [simp]: "length (hts a b) = unat b - unat a"
  by (simp add: hts_def)

text \<open>\<open>at\<close> is the chain; the store holds it from \<open>t\<close> to \<open>headH\<close>. \<^verbatim>\<open>GetRangeByHeight\<close> returns the headers after
  its first argument, up to but not including its second.\<close>

definition chain_ok :: "'e hstore \<Rightarrow> u64 \<Rightarrow> u64 \<Rightarrow> (u64 \<Rightarrow> hdr) \<Rightarrow> bool" where
  "chain_ok hs t headH at \<longleftrightarrow>
     hs_Tail hs = Inr (at t) \<and> hs_Head hs = Inr (at headH) \<and> 0 < t \<and> t \<le> headH \<and> headH < 2 ^ 62
     \<and> (\<forall>h. Height (at h) = h \<and> 0 \<le> Time (at h) \<and> Time (at h) < 2 ^ 63)
     \<and> (\<forall>h. t \<le> h \<longrightarrow> h \<le> headH \<longrightarrow> hs_GetByHeight hs h = Inr (at h))
     \<and> (\<forall>h x. hs_GetByHeight hs h = Inr x \<longrightarrow> t \<le> h \<and> h \<le> headH)
     \<and> (\<forall>l to. t \<le> l \<longrightarrow> l < to \<longrightarrow> to \<le> headH + 1 \<longrightarrow> hs_GetRangeByHeight hs (at l) to = Inr (map at (hts (l + 1) to)))"

lemma chain_simps:
  assumes "chain_ok hs t headH at"
  shows "hs_Tail hs = Inr (at t)" "hs_Head hs = Inr (at headH)" "t \<le> headH" "headH < 2 ^ 62" "Height (at h) = h"
    "0 \<le> Time (at h)" "Time (at h) < 2 ^ 63" "t \<le> h \<Longrightarrow> h \<le> headH \<Longrightarrow> hs_GetByHeight hs h = Inr (at h)"
    "t \<le> l \<Longrightarrow> l < to \<Longrightarrow> to \<le> headH + 1 \<Longrightarrow> hs_GetRangeByHeight hs (at l) to = Inr (map at (hts (l + 1) to))"
  using assms unfolding chain_ok_def by blast+

lemma chain_get:
  assumes "chain_ok hs t headH at" "hs_GetByHeight hs h = Inr x"
  shows "t \<le> h" "h \<le> headH" "x = at h"
proof -
  show "t \<le> h" "h \<le> headH" using assms unfolding chain_ok_def by blast+
  then show "x = at h" using chain_simps(8) [OF assms(1)] assms(2) by simp
qed

lemma chain_hd: "chain_ok hs t headH at \<Longrightarrow> headH < - 1"
  by (rule order_less_trans [OF chain_simps(4)]) simp_all

lemma at_inj: "chain_ok hs t headH at \<Longrightarrow> at a = at b \<longleftrightarrow> a = b"
  by (metis chain_simps(5))

section \<open>Finding headers\<close>

lemma find_extend_length: "find_extend hs c headers = Inr hdrs \<Longrightarrow> length hdrs \<le> maxHeadersPerLoop"
proof (induction hs c headers rule: find_extend.induct)
  case (1 hs c headers)
  then show ?case
    by (auto simp: find_extend.simps [of hs c headers] split: if_splits sum.splits)
qed

lemma find_cases:
  assumes "findPruneableHeaders hs w bt lst = Inr hdrs" "hs_Head hs = Inr head"
  obtains "hdrs = []" | headers headers' where
      "find_extend hs (Time head - w) headers = Inr headers'" "hdrs = find_prefix (Time head - w) headers'"
  using assms by (auto simp: findPruneableHeaders_def Let_def split: if_splits sum.splits)

lemma find_length: "findPruneableHeaders hs w bt lst = Inr hdrs \<Longrightarrow> hs_Head hs = Inr head \<Longrightarrow> length hdrs \<le> maxHeadersPerLoop"
  by (erule (1) find_cases)
    (auto simp: find_prefix_def dest!: find_extend_length intro: le_trans [OF length_takeWhile_le])

lemma find_safe:
  "findPruneableHeaders hs w bt lst = Inr hdrs \<Longrightarrow> hs_Head hs = Inr head \<Longrightarrow> h \<in> set hdrs \<Longrightarrow> Time h \<le> Time head - w"
  by (erule (1) find_cases) (auto simp: find_prefix_def dest!: set_takeWhileD)

text \<open>Over a chain, what is found is a stretch of it.\<close>

definition stretch :: "(u64 \<Rightarrow> hdr) \<Rightarrow> nat \<Rightarrow> nat \<Rightarrow> hdr list" where
  "stretch at i j = map (\<lambda>k. at (of_nat k)) [i..<j]"

lemma last_stretch: "i < j \<Longrightarrow> last (stretch at i j) = at (of_nat (j - 1))"
  by (simp add: stretch_def last_map)

lemma stretch_empty [simp]: "stretch at i j = [] \<longleftrightarrow> j \<le> i"
  by (auto simp: stretch_def)

lemma take_stretch: "n \<le> j - i \<Longrightarrow> take n (stretch at i j) = stretch at i (i + n)"
  by (cases "i \<le> j") (auto simp: stretch_def take_map take_upt)

lemma stretch_snoc: "i \<le> j \<Longrightarrow> stretch at i j @ [at (of_nat j)] = stretch at i (Suc j)"
  by (simp add: stretch_def)

lemma takeWhile_stretch: "\<exists>k. i \<le> k \<and> k \<le> max i j \<and> takeWhile P (stretch at i j) = stretch at i k"
proof -
  let ?n = "length (takeWhile P (stretch at i j))"
  have "?n \<le> j - i" using length_takeWhile_le [of P "stretch at i j"] by (simp add: stretch_def)
  moreover have "takeWhile P (stretch at i j) = take ?n (stretch at i j)" by (rule takeWhile_eq_take)
  ultimately have "takeWhile P (stretch at i j) = stretch at i (i + ?n)"
    using take_stretch [of ?n j i at] by simp
  then show ?thesis using \<open>?n \<le> j - i\<close> by (intro exI [of _ "i + ?n"]) auto
qed

lemma find_extend_stretch:
  assumes "find_extend hs c headers = Inr hdrs" "chain_ok hs t headH at"
    and "headers = stretch at i j" "i < j" "unat t \<le> i" "j \<le> Suc (unat headH)"
  shows "\<exists>k. i < k \<and> k \<le> Suc (unat headH) \<and> hdrs = stretch at i k"
  using assms
proof (induction hs c headers arbitrary: j rule: find_extend.induct)
  case (1 hs c headers)
  note ch = \<open>chain_ok hs t headH at\<close>
  show ?case
  proof (cases "length headers > maxHeadersPerLoop")
    case True
    then have "hdrs = take maxHeadersPerLoop headers"
      using \<open>find_extend hs c headers = Inr hdrs\<close> by (simp add: find_extend.simps [of hs c headers])
    moreover have "i + maxHeadersPerLoop \<le> j" using True \<open>headers = _\<close> by (simp add: stretch_def)
    ultimately have "hdrs = stretch at i (i + maxHeadersPerLoop)" using \<open>headers = _\<close>
      by (simp add: stretch_def take_map take_upt)
    then show ?thesis using \<open>i + maxHeadersPerLoop \<le> j\<close> \<open>j \<le> _\<close>
      by (intro exI [of _ "i + maxHeadersPerLoop"]) (simp add: maxHeadersPerLoop_def)
  next
    case small: False
    have ne: "headers \<noteq> []" using 1 by simp
    show ?thesis
    proof (cases "Time (last headers) > c")
      case True
      then have "hdrs = headers" using "1.prems"(1) small ne by (simp add: find_extend.simps [of hs c headers])
      then show ?thesis using "1.prems" by blast
    next
      case False
      have j: "j - 1 < 2 ^ 64" "Suc (j - 1) = j" using 1 unat_bound [of headH] by linarith+
      have "Height (last headers) = of_nat (j - 1)"
        using "1.prems"(3,4) chain_simps(5) [OF ch] by (simp only: last_stretch)
      then have next': "Height (last headers) + 1 = of_nat j" using j(2) by (metis of_nat_Suc add.commute)
      obtain x where x: "hs_GetByHeight hs (of_nat j) = Inr x"
        using "1.prems"(1) small ne False next' by (auto simp: find_extend.simps [of hs c headers] split: sum.splits)
      have "j < 2 ^ 64" using \<open>j \<le> _\<close> chain_hd [OF ch] unat_bound [of "headH + 1"] unat_u64_succ [of headH] by linarith
      then have "unat (of_nat j :: u64) = j" by (rule unat_of_nat_u64)
      then have le: "j \<le> unat headH" using chain_get(2) [OF ch x] by (simp add: word_le_nat_alt)
      have "find_extend hs c (headers @ [x]) = Inr hdrs"
        using "1.prems"(1) small ne False x next' by (simp add: find_extend.simps [of hs c headers])
      moreover have "headers @ [x] = stretch at i (Suc j)"
        using "1.prems"(3,4) chain_get(3) [OF ch x] stretch_snoc [of i j at] by simp
      ultimately show ?thesis
        using "1.IH" [OF small ne False, of x "Suc j"] x next' ch "1.prems"(4,5) le by simp
    qed
  qed
qed

lemma estimated_range:
  assumes "0 < bt" "0 \<le> d" "d < 2 ^ 63"
  shows "unat (word_of_int (d sdiv bt) :: u64) < 2 ^ 63"
proof -
  have "d div bt \<le> d" using zdiv_mono2 [of d 1 bt] assms by simp
  then have "0 \<le> d sdiv bt" "d sdiv bt < 2 ^ 63"
    using assms go_div_nonneg [of d bt] by (auto simp: pos_imp_zdiv_nonneg_iff)
  then show ?thesis by (simp add: unsigned_of_int nat_less_iff take_bit_int_eq_self)
qed

lemma estimated_bound:
  assumes ch: "chain_ok hs t headH at" and bt: "0 < bt" and w: "0 \<le> w" and L: "L \<le> headH"
    and c: "Time (at L) < Time (at headH) - w"
    and est: "calculateEstimatedCutoff hs bt (at L) (Time (at headH) - w) = Inr est"
  shows "est \<le> headH"
proof -
  let ?r = "word_of_int ((Time (at headH) - w - Time (at L)) sdiv bt) :: u64"
  have "Time (at headH) - w - Time (at L) < 2 ^ 63" using chain_simps(7) [OF ch, of headH] chain_simps(6) [OF ch, of L] w
    by linarith
  then have r: "unat ?r < 2 ^ 63" using estimated_range [OF bt] c by simp
  have hl: "unat headH < 2 ^ 62" using chain_simps(4) [OF ch] by (simp add: word_less_nat_alt)
  have "unat L + unat ?r < 2 ^ 64" using r hl L by (simp add: word_le_nat_alt)
  then have e0: "unat (L + ?r) = unat L + unat ?r" by (simp add: unat_word_ariths)
  define e1 where "e1 = (if headH < L + ?r then headH else L + ?r)"
  have e1: "L \<le> e1" "e1 \<le> headH" using e0 L by (auto simp: e1_def word_le_nat_alt word_less_nat_alt)
  have "est = (if e1 - L > of_nat maxHeadersPerLoop then L + of_nat maxHeadersPerLoop else e1)"
    using est [symmetric]
    unfolding calculateEstimatedCutoff_def Let_def chain_simps(2) [OF ch] chain_simps(5) [OF ch] sum.case e1_def
    by (simp only: sum.inject)
  moreover have "L + 512 \<le> e1" if "512 < e1 - L"
  proof -
    have "unat e1 - unat L > 512" using that e1(1) by (simp add: word_less_nat_alt unat_sub)
    then show ?thesis using e1(2) hl by (simp add: word_le_nat_alt unat_word_ariths)
  qed
  ultimately show ?thesis using e1 by (auto simp: maxHeadersPerLoop_def)
qed

lemma hts_stretch: "map at (hts a b) = stretch at (unat a) (unat b)"
  by (simp add: hts_def stretch_def)

text \<open>The heights of a batch start after the last pruned one, or at 1.\<close>

definition batch_start :: "u64 \<Rightarrow> nat" where
  "batch_start L = (if L = 1 then 1 else Suc (unat L))"

lemma batch_start_mono: "L \<le> L' \<Longrightarrow> batch_start L \<le> batch_start L'"
  by (auto simp: batch_start_def word_le_nat_alt word_unat_eq_iff)

lemma find_eq:
  assumes ch: "chain_ok hs t headH at" and bt: "0 < bt" and w: "0 \<le> w" and L: "t \<le> L" "L \<le> headH"
    and est: "calculateEstimatedCutoff hs bt (at L) (Time (at headH) - w) = Inr est"
    and c: "Time (at L) < Time (at headH) - w" and lt: "L < est"
  shows "findPruneableHeaders hs w bt (at L) = map_sum id (find_prefix (Time (at headH) - w))
           (find_extend hs (Time (at headH) - w) (stretch at (batch_start L) (Suc (unat est))))"
    "batch_start L < Suc (unat est)" "unat t \<le> batch_start L" "Suc (unat est) \<le> Suc (unat headH)"
proof -
  note hd = chain_hd [OF ch]
  have le: "est \<le> headH" using estimated_bound [OF ch bt w L(2) c est] .
  have s: "unat (L + 1) = Suc (unat L)" "unat (est + 1) = Suc (unat est)" "est + 1 \<le> headH + 1" "L < est + 1"
    using unat_u64_succ [of L] unat_u64_succ [of est] unat_u64_succ [of headH] hd lt le L
    by (auto simp: word_le_nat_alt word_less_nat_alt)
  have rng: "hs_GetRangeByHeight hs (at L) (est + 1) = Inr (stretch at (Suc (unat L)) (Suc (unat est)))"
    using chain_simps(9) [OF ch L(1) s(4,3)] s(1,2) by (simp add: hts_stretch)
  have st: "(if Height (at L) = 1 then at L # stretch at (Suc (unat L)) (Suc (unat est)) else stretch at (Suc (unat L)) (Suc (unat est)))
      = stretch at (batch_start L) (Suc (unat est))"
    using lt chain_simps(5) [OF ch] by (auto simp: batch_start_def stretch_def upt_conv_Cons word_less_nat_alt)
  show "findPruneableHeaders hs w bt (at L) = map_sum id (find_prefix (Time (at headH) - w))
      (find_extend hs (Time (at headH) - w) (stretch at (batch_start L) (Suc (unat est))))"
    unfolding findPruneableHeaders_def Let_def chain_simps(2) [OF ch] sum.case est rng st
    using c lt chain_simps(5) [OF ch] by (auto split: sum.splits)
  show "batch_start L < Suc (unat est)" "unat t \<le> batch_start L" "Suc (unat est) \<le> Suc (unat headH)"
    using lt le L by (auto simp: batch_start_def word_less_nat_alt word_le_nat_alt)
qed

lemma find_stretch:
  assumes ch: "chain_ok hs t headH at" and bt: "0 < bt" and w: "0 \<le> w" and L: "t \<le> L" "L \<le> headH"
    and f: "findPruneableHeaders hs w bt (at L) = Inr hdrs"
  shows "\<exists>k. batch_start L \<le> k \<and> k \<le> Suc (unat headH) \<and> hdrs = stretch at (batch_start L) k"
proof (cases "hdrs = []")
  case True
  then have "hdrs = stretch at (batch_start L) (batch_start L)" by (simp add: stretch_def)
  moreover have "batch_start L \<le> Suc (unat headH)" using L by (simp add: batch_start_def word_le_nat_alt)
  ultimately show ?thesis by blast
next
  case False
  let ?c = "Time (at headH) - w"
  obtain est where est: "calculateEstimatedCutoff hs bt (at L) ?c = Inr est" "Time (at L) < ?c" "L < est"
    using f False chain_simps(2,5) [OF ch]
    by (auto simp: findPruneableHeaders_def Let_def not_le split: sum.splits if_splits)
  note eq = find_eq [OF ch bt w L est]
  obtain headers' where x: "find_extend hs ?c (stretch at (batch_start L) (Suc (unat est))) = Inr headers'"
      and h: "hdrs = find_prefix ?c headers'"
    using f eq(1) by (cases "find_extend hs ?c (stretch at (batch_start L) (Suc (unat est)))") auto
  from find_extend_stretch [OF x ch refl eq(2-4)] obtain k where
    k: "batch_start L < k" "k \<le> Suc (unat headH)" "headers' = stretch at (batch_start L) k" by blast
  obtain k' where "batch_start L \<le> k'" "k' \<le> max (batch_start L) k" "hdrs = stretch at (batch_start L) k'"
    using takeWhile_stretch [where i = "batch_start L" and j = k and at = at and P = "\<lambda>h. \<not> Time h > ?c"] h k(3) unfolding find_prefix_def by blast
  then show ?thesis using k by (intro exI [of _ k']) auto
qed

section \<open>A pruning round\<close>

lemma prune_batch_spec:
  assumes "prune_batch ok hdrs (lst, F, P) = (lst', F', P')"
  shows "P' = P \<union> Height ` {h \<in> set hdrs. ok h} \<and> fset F' = fset F \<union> Height ` {h \<in> set hdrs. \<not> ok h}
       \<and> (lst' = lst \<or> lst' \<in> set hdrs \<and> ok lst')"
  using assms
proof (induction hdrs arbitrary: lst F P)
  case (Cons h hdrs)
  show ?case using Cons.IH Cons.prems by (cases "ok h") (simp; fastforce)+
qed simp

text \<open>Every height after \<open>lo\<close> up to the last pruned one was pruned or is recorded as failed.\<close>

definition accounted :: "u64 \<Rightarrow> u64 \<Rightarrow> service \<Rightarrow> bool" where
  "accounted lo L s \<longleftrightarrow> (\<exists>cp. chkpt s = Some cp \<and> LastPrunedHeight cp = L
     \<and> (\<forall>h. lo < h \<longrightarrow> h \<le> L \<longrightarrow> h \<in> pruned s \<or> h |\<in>| FailedHeaders cp))"

lemma updateCheckpoint_simps:
  assumes "updateCheckpoint putErr L F s = (err, s')"
  shows "chkpt s' = map_option (\<lambda>cp. \<lparr>LastPrunedHeight = L, FailedHeaders = FailedHeaders cp |\<union>| F\<rparr>) (chkpt s)"
    "pruned s' = pruned s" "window s' = window s" "blockTime s' = blockTime s"
  using assms by (auto simp: updateCheckpoint_def storeCheckpoint_def split: option.splits)

lemma stretch_heights:
  assumes ch: "chain_ok hs t headH at" and k: "k \<le> Suc (unat headH)"
  shows "x \<in> set (stretch at i k) \<longleftrightarrow> x = at (Height x) \<and> i \<le> unat (Height x) \<and> unat (Height x) < k"
proof
  assume "x \<in> set (stretch at i k)"
  then obtain j where j: "i \<le> j" "j < k" "x = at (of_nat j)" by (auto simp: stretch_def)
  then have "j < 2 ^ 64" using k unat_bound [of headH] by linarith
  then have "unat (of_nat j :: u64) = j" by (rule unat_of_nat_u64)
  then show "x = at (Height x) \<and> i \<le> unat (Height x) \<and> unat (Height x) < k"
    using j chain_simps(5) [OF ch] by simp
next
  assume x: "x = at (Height x) \<and> i \<le> unat (Height x) \<and> unat (Height x) < k"
  then have "x = at (of_nat (unat (Height x)))" by simp
  then show "x \<in> set (stretch at i k)" using x unfolding stretch_def by (auto intro!: image_eqI [of _ _ "unat (Height x)"])
qed

lemma prune_turn:
  assumes ch: "chain_ok hs t headH at" and p: "0 < blockTime s" "0 \<le> window s" and L: "t \<le> L" "L \<le> headH"
    and acc: "accounted lo L s"
    and f: "findPruneableHeaders hs (window s) (blockTime s) (at L) = Inr hdrs"
    and b: "prune_batch ok hdrs (at L, {||}, pruned s) = (lst, F, P)"
    and u: "updateCheckpoint putErr (Height lst) F (s\<lparr>pruned := P\<rparr>) = (err, s')"
  shows "\<exists>L'. lst = at L' \<and> L \<le> L' \<and> L' \<le> headH \<and> accounted lo L' s' \<and> window s' = window s \<and> blockTime s' = blockTime s
           \<and> pruned s' \<subseteq> pruned s \<union> {h. batch_start L \<le> unat h \<and> Time (at h) \<le> Time (at headH) - window s}"
proof -
  obtain k where k: "batch_start L \<le> k" "k \<le> Suc (unat headH)" "hdrs = stretch at (batch_start L) k"
    using find_stretch [OF ch p L f] by blast
  note hs = stretch_heights [OF ch k(2), of _ "batch_start L"]
  note spec = prune_batch_spec [OF b]
  define L' where "L' = Height lst"
  have lst: "lst = at L'" "L \<le> L'" "L' \<le> headH"
    using spec hs k L chain_simps(5) [OF ch]
    by (auto simp: L'_def batch_start_def word_le_nat_alt split: if_splits)
  obtain cp where cp: "chkpt s = Some cp" "LastPrunedHeight cp = L"
      "\<And>h. lo < h \<Longrightarrow> h \<le> L \<Longrightarrow> h \<in> pruned s \<or> h |\<in>| FailedHeaders cp"
    using acc by (auto simp: accounted_def)
  have "h \<in> P \<or> h |\<in>| FailedHeaders cp |\<union>| F" if h: "lo < h" "h \<le> L'" for h
  proof (cases "h \<le> L")
    case True
    then show ?thesis using cp(3) [OF h(1)] spec by auto
  next
    case False
    then have "lst \<in> set hdrs" using spec h lst(1) chain_simps(5) [OF ch] by (metis L'_def)
    then have "unat L' < k" using hs k(3) by (simp add: L'_def)
    moreover have "batch_start L \<le> unat h" using False by (auto simp: batch_start_def word_le_nat_alt)
    ultimately have "at h \<in> set hdrs" using h hs [of "at h"] k(3) chain_simps(5) [OF ch] by (simp add: word_le_nat_alt)
    then have "h \<in> P \<or> h \<in> fset F" using spec chain_simps(5) [OF ch, of h] by (metis (mono_tags, lifting) Un_iff image_eqI mem_Collect_eq)
    then show ?thesis by auto
  qed
  then have "accounted lo L' s'" using updateCheckpoint_simps [OF u] cp by (simp add: accounted_def L'_def)
  moreover have "pruned s' \<subseteq> pruned s \<union> {h. batch_start L \<le> unat h \<and> Time (at h) \<le> Time (at headH) - window s}"
    using updateCheckpoint_simps(2) [OF u] spec find_safe [OF f chain_simps(2) [OF ch]] hs k(3) by auto
  ultimately show ?thesis using lst updateCheckpoint_simps(3,4) [OF u] by auto
qed

text \<open>What a run of the loop from \<open>L\<close> keeps: it gets to some later height, and prunes only what left the window.\<close>

definition advances :: "(u64 \<Rightarrow> hdr) \<Rightarrow> u64 \<Rightarrow> u64 \<Rightarrow> u64 \<Rightarrow> service \<Rightarrow> service \<Rightarrow> bool" where
  "advances at headH lo L s s' \<longleftrightarrow> (\<exists>L' \<ge> L. L' \<le> headH \<and> accounted lo L' s') \<and> window s' = window s \<and> blockTime s' = blockTime s
     \<and> pruned s' \<subseteq> pruned s \<union> {h. batch_start L \<le> unat h \<and> Time (at h) \<le> Time (at headH) - window s}"

lemma advances_refl: "accounted lo L s \<Longrightarrow> L \<le> headH \<Longrightarrow> advances at headH lo L s s"
  by (auto simp: advances_def)

lemma advances_trans:
  assumes a: "advances at headH lo L' s1 s2" and L: "L \<le> L'" and w: "window s1 = window s" "blockTime s1 = blockTime s"
    and p: "pruned s1 \<subseteq> pruned s \<union> {h. batch_start L \<le> unat h \<and> Time (at h) \<le> Time (at headH) - window s}"
  shows "advances at headH lo L s s2"
proof -
  have "pruned s2 \<subseteq> pruned s1 \<union> {h. batch_start L' \<le> unat h \<and> Time (at h) \<le> Time (at headH) - window s}"
    using a w unfolding advances_def by simp
  then have "pruned s2 \<subseteq> pruned s \<union> {h. batch_start L \<le> unat h \<and> Time (at h) \<le> Time (at headH) - window s}"
    using p batch_start_mono [OF L] by fastforce
  moreover obtain M where "L' \<le> M" "M \<le> headH" "accounted lo M s2" using a unfolding advances_def by blast
  ultimately show ?thesis using a w L unfolding advances_def by (metis order_trans)
qed

lemma prune_loop_cases:
  obtains (stop) "prune_loop hs ok putErr stop fuel i lst0 s = Some s"
  | (turn) hdrs lst F P err s1 where
      "findPruneableHeaders hs (window s) (blockTime s) lst0 = Inr hdrs"
      "prune_batch (ok i) hdrs (lst0, {||}, pruned s) = (lst, F, P)"
      "updateCheckpoint (putErr i) (Height lst) F (s\<lparr>pruned := P\<rparr>) = (err, s1)"
      "prune_loop hs ok putErr stop fuel i lst0 s = Some s1 \<or>
         lst \<noteq> lst0 \<and> prune_loop hs ok putErr stop fuel i lst0 s =
           (case fuel of 0 \<Rightarrow> None | Suc f \<Rightarrow> prune_loop hs ok putErr stop f (Suc i) lst s1)"
proof (cases "stop i \<or> (\<forall>hdrs. findPruneableHeaders hs (window s) (blockTime s) lst0 = Inr hdrs \<longrightarrow> hdrs = [])")
  case True
  then have "prune_loop hs ok putErr stop fuel i lst0 s = Some s"
    by (auto simp: prune_loop.simps [of _ _ _ _ fuel] split: sum.splits list.splits)
  then show ?thesis by (rule that(1))
next
  case False
  then obtain h hdrs where f: "findPruneableHeaders hs (window s) (blockTime s) lst0 = Inr (h # hdrs)" "\<not> stop i"
    by (metis neq_Nil_conv)
  obtain lst F P where b: "prune_batch (ok i) (h # hdrs) (lst0, {||}, pruned s) = (lst, F, P)" by (metis prod_cases3)
  obtain err s1 where u: "updateCheckpoint (putErr i) (Height lst) F (s\<lparr>pruned := P\<rparr>) = (err, s1)" by fastforce
  show ?thesis using f b u
    by (intro that(2) [OF f(1) b u]) (simp add: prune_loop.simps [of _ _ _ _ fuel] del: prune_batch.simps)
qed

lemma prune_loop_advances:
  assumes "chain_ok hs t headH at" "0 < blockTime s" "0 \<le> window s" "t \<le> L" "L \<le> headH" "accounted lo L s"
    and "unat headH - unat L \<le> fuel"
  shows "\<exists>s'. prune_loop hs ok putErr stop fuel i (at L) s = Some s' \<and> advances at headH lo L s s'"
  using assms
proof (induction fuel arbitrary: i L s)
  case (0 i L s)
  show ?case
  proof (cases rule: prune_loop_cases [of hs ok putErr stop 0 i "at L" s])
    case stop
    then show ?thesis using advances_refl 0 by blast
  next
    case (turn hdrs lst F P err s1)
    note t = prune_turn [OF "0.prems"(1-6) turn(1-3)]
    then have "lst = at L" using "0.prems"(5,7) by (metis diff_is_0_eq le_zero_eq order_antisym word_le_nat_alt)
    then show ?thesis using turn(4) t by (auto simp: advances_def)
  qed
next
  case (Suc fuel i L s)
  show ?case
  proof (cases rule: prune_loop_cases [of hs ok putErr stop "Suc fuel" i "at L" s])
    case stop
    then show ?thesis using advances_refl Suc.prems by blast
  next
    case (turn hdrs lst F P err s1)
    obtain L' where L': "lst = at L'" "L \<le> L'" "L' \<le> headH" "accounted lo L' s1" "window s1 = window s" "blockTime s1 = blockTime s"
        "pruned s1 \<subseteq> pruned s \<union> {h. batch_start L \<le> unat h \<and> Time (at h) \<le> Time (at headH) - window s}"
      using prune_turn [OF Suc.prems(1-6) turn(1-3)] by blast
    show ?thesis
    proof (cases "prune_loop hs ok putErr stop (Suc fuel) i (at L) s = Some s1")
      case True
      then show ?thesis using advances_trans [OF advances_refl [OF L'(4,3)] L'(2,5,6,7)] by blast
    next
      case False
      then have r: "L \<noteq> L'" "prune_loop hs ok putErr stop (Suc fuel) i (at L) s = prune_loop hs ok putErr stop fuel (Suc i) (at L') s1"
        using turn(4) L'(1) by auto
      then have "unat headH - unat L' \<le> fuel" using Suc.prems(7) L'(2) by (simp add: word_le_nat_alt word_unat_eq_iff)
      then obtain s' where "prune_loop hs ok putErr stop fuel (Suc i) (at L') s1 = Some s'" "advances at headH lo L' s1 s'"
        using Suc.IH [of s1 L' "Suc i"] Suc.prems(1-4) L' by (metis order_trans)
      then show ?thesis using r(2) advances_trans [OF _ L'(2,5,6,7)] by metis
    qed
  qed
qed

lemma retryFailed_spec:
  assumes ch: "chain_ok hs t headH at" and cp: "chkpt s = Some cp"
  shows "\<exists>cp'. chkpt (retryFailed hs ok order s) = Some cp' \<and> LastPrunedHeight cp' = LastPrunedHeight cp
      \<and> window (retryFailed hs ok order s) = window s \<and> blockTime (retryFailed hs ok order s) = blockTime s
      \<and> (\<forall>h. h |\<in>| FailedHeaders cp \<longrightarrow> h \<in> pruned (retryFailed hs ok order s) \<or> h |\<in>| FailedHeaders cp')
      \<and> pruned s \<subseteq> pruned (retryFailed hs ok order s) \<and> pruned (retryFailed hs ok order s) \<subseteq> pruned s \<union> set order"
  using cp
proof (induction order arbitrary: s cp)
  case (Cons f order)
  show ?case
  proof (cases "\<exists>h. hs_GetByHeight hs f = Inr h \<and> ok h")
    case True
    then obtain h where h: "hs_GetByHeight hs f = Inr h" "ok h" by blast
    then have hf: "Height h = f" using chain_get(3) [OF ch h(1)] chain_simps(5) [OF ch] by simp
    have e: "retryFailed hs ok (f # order) s = retryFailed hs ok order
        (s\<lparr>chkpt := Some (cp\<lparr>FailedHeaders := FailedHeaders cp |-| {|f|}\<rparr>), pruned := insert f (pruned s)\<rparr>)"
      using h hf Cons.prems by simp
    show ?thesis unfolding e
      using Cons.IH [of "s\<lparr>chkpt := Some (cp\<lparr>FailedHeaders := FailedHeaders cp |-| {|f|}\<rparr>), pruned := insert f (pruned s)\<rparr>"]
      by auto
  next
    case False
    then have "retryFailed hs ok (f # order) s = retryFailed hs ok order s" by (auto split: sum.splits)
    then show ?thesis using Cons.IH [OF Cons.prems] by auto
  qed
qed simp

lemma lastPruned_spec:
  assumes ch: "chain_ok hs t headH at" and acc: "accounted lo L s" and lo: "lo \<le> t" and L: "L \<le> headH"
  shows "\<exists>s'. lastPruned hs s = (Inr (at (max t L)), s') \<and> accounted t (max t L) s' \<and> pruned s' = pruned s
           \<and> window s' = window s \<and> blockTime s' = blockTime s"
  using acc lo L chain_simps(1,3,5,8) [OF ch]
  by (auto simp: lastPruned_def accounted_def Let_def max_def)

end
