(* ===== verification/PrunerProperties.thy ===== *)
theory PrunerProperties
  imports PrunerProofs
begin

text \<open>
  What the pruner guarantees: a round terminates, prunes only what left the availability window or had failed
  before, loses no height, and, when nothing fails, catches up with the window.
\<close>

section \<open>Catching up\<close>

lemma find_extend_total:
  assumes "chain_ok hs t headH at" "c < Time (at headH)"
    and "headers = stretch at i j" "i < j" "unat t \<le> i" "j \<le> Suc (unat headH)"
  shows "\<exists>hdrs. find_extend hs c headers = Inr hdrs \<and> (length hdrs = maxHeadersPerLoop \<or> Time (last hdrs) > c)"
  using assms
proof (induction hs c headers arbitrary: j rule: find_extend.induct)
  case (1 hs c headers)
  note ch = \<open>chain_ok hs t headH at\<close>
  have ne: "headers \<noteq> []" using 1 by simp
  show ?case
  proof (cases "length headers > maxHeadersPerLoop \<or> Time (last headers) > c")
    case True
    then show ?thesis using ne by (auto simp: find_extend.simps [of hs c headers])
  next
    case False
    then have small: "\<not> length headers > maxHeadersPerLoop" "\<not> Time (last headers) > c" by auto
    have j: "Suc (j - 1) = j" "j < 2 ^ 64" using "1.prems"(4,6) unat_bound [of headH] chain_simps(4) [OF ch]
      by (auto simp: word_less_nat_alt)
    have last': "last headers = at (of_nat (j - 1))" using "1.prems"(3,4) by (simp only: last_stretch)
    have nxt: "Height (last headers) + 1 = of_nat j" using last' chain_simps(5) [OF ch] j(1) by (metis of_nat_Suc add.commute)
    have "of_nat (j - 1) \<noteq> headH" using small(2) last' "1.prems"(2) by auto
    then have "j \<noteq> Suc (unat headH)" by auto
    then have le: "j \<le> unat headH" using "1.prems"(6) by linarith
    have "unat (of_nat j :: u64) = j" using j(2) by (rule unat_of_nat_u64)
    then have x: "hs_GetByHeight hs (of_nat j) = Inr (at (of_nat j))"
      using chain_simps(8) [OF ch, of "of_nat j"] "1.prems"(4,5) le by (simp add: word_le_nat_alt)
    have "headers @ [at (of_nat j)] = stretch at i (Suc j)" using "1.prems"(3,4) stretch_snoc [of i j at] by simp
    moreover have "find_extend hs c headers = find_extend hs c (headers @ [at (of_nat j)])"
      using x nxt small ne by (simp add: find_extend.simps [of hs c headers])
    ultimately show ?thesis using "1.IH" [OF small(1) ne small(2), of "at (of_nat j)" "Suc j"] x nxt "1.prems" le
      by simp
  qed
qed

text \<open>Up to \<open>L\<close> is caught up: the next header is newer than the cutoff, or \<open>L\<close> is within a block time of it.\<close>

definition caught_up :: "(u64 \<Rightarrow> hdr) \<Rightarrow> time \<Rightarrow> duration \<Rightarrow> u64 \<Rightarrow> bool" where
  "caught_up at c bt L \<longleftrightarrow> c < Time (at (L + 1)) \<or> c - Time (at L) < bt"

lemma estimate_stuck:
  assumes ch: "chain_ok hs t headH at" and bt: "0 < bt" and w: "0 < w" and L: "L \<le> headH"
    and c: "Time (at L) < Time (at headH) - w"
    and est: "calculateEstimatedCutoff hs bt (at L) (Time (at headH) - w) = Inr est" "est \<le> L"
  shows "Time (at headH) - w - Time (at L) < bt"
proof (rule ccontr)
  let ?d = "Time (at headH) - w - Time (at L)"
  let ?r = "word_of_int (?d sdiv bt) :: u64"
  assume "\<not> ?d < bt"
  then have "1 \<le> ?d div bt" using bt by (simp add: pos_le_divide_eq pos_imp_zdiv_pos_iff int_one_le_iff_zero_less)
  moreover have "?d div bt \<le> ?d" using zdiv_mono2 [of ?d 1 bt] bt c by simp
  moreover have "?d < 2 ^ 63" using chain_simps(7) [OF ch, of headH] chain_simps(6) [OF ch, of L] w by linarith
  ultimately have d: "1 \<le> ?d sdiv bt" "?d sdiv bt < 2 ^ 63" using go_div_nonneg [of ?d bt] bt c by auto
  then have r: "unat ?r < 2 ^ 63" "0 < unat ?r" by (simp_all add: unsigned_of_int nat_less_iff take_bit_int_eq_self)
  have hl: "unat headH < 2 ^ 62" using chain_simps(4) [OF ch] by (simp add: word_less_nat_alt)
  have "L \<noteq> headH" using c w by auto
  then have lt: "L < headH" using L by simp
  have "unat L + unat ?r < 2 ^ 64" using r hl L by (simp add: word_le_nat_alt)
  then have e0: "L < L + ?r" using r(2) by (simp add: word_less_nat_alt unat_word_ariths)
  define e1 where "e1 = (if headH < L + ?r then headH else L + ?r)"
  have e1: "L < e1" "e1 \<le> headH" using e0 lt by (auto simp: e1_def)
  have "est = (if e1 - L > of_nat maxHeadersPerLoop then L + of_nat maxHeadersPerLoop else e1)"
    using est(1) [symmetric]
    unfolding calculateEstimatedCutoff_def Let_def chain_simps(2) [OF ch] chain_simps(5) [OF ch] sum.case e1_def
    by (simp only: sum.inject)
  moreover have "L < L + 512" using lt hl by (simp add: word_less_nat_alt unat_word_ariths)
  ultimately have "L < est" using e1 by (auto simp: maxHeadersPerLoop_def)
  then show False using est(2) by simp
qed

lemma find_prefix_stretch:
  assumes "headers = stretch at i k" "i < k"
  shows "\<exists>k'. i \<le> k' \<and> k' \<le> k \<and> find_prefix c headers = stretch at i k' \<and> (k' < k \<longrightarrow> c < Time (at (of_nat k')))
           \<and> (k' = k \<longrightarrow> \<not> c < Time (last headers))"
proof -
  let ?P = "\<lambda>h. \<not> c < Time h"
  let ?n = "length (takeWhile ?P headers)"
  have len: "length headers = k - i" using assms(1) by (simp add: stretch_def)
  then have n: "?n \<le> k - i" using length_takeWhile_le [of ?P headers] by simp
  have "find_prefix c headers = take ?n headers" unfolding find_prefix_def by (rule takeWhile_eq_take)
  also have "\<dots> = stretch at i (i + ?n)" unfolding assms(1) by (rule take_stretch) (use n assms(1) in simp)
  finally have eq: "find_prefix c headers = stretch at i (i + ?n)" .
  have "c < Time (at (of_nat (i + ?n)))" if "i + ?n < k"
  proof -
    have "?n < length headers" using that len by simp
    then have "\<not> ?P (headers ! ?n)" by (rule nth_length_takeWhile)
    moreover have "headers ! ?n = at (of_nat (i + ?n))" using that assms by (simp add: stretch_def)
    ultimately show ?thesis by simp
  qed
  moreover have "\<not> c < Time (last headers)" if "i + ?n = k"
  proof -
    have "takeWhile ?P headers = headers" using that len takeWhile_eq_take [of ?P headers] by simp
    moreover have "headers \<noteq> []" using assms by simp
    ultimately show ?thesis by (metis last_in_set set_takeWhileD)
  qed
  ultimately show ?thesis using n eq assms(2) by (intro exI [of _ "i + ?n"]) auto
qed

lemma find_progress:
  assumes ch: "chain_ok hs t headH at" and bt: "0 < bt" and w: "0 < w" and L: "t \<le> L" "L \<le> headH"
  defines "c \<equiv> Time (at headH) - w"
  obtains (caught) "findPruneableHeaders hs w bt (at L) = Inr []" "caught_up at c bt L"
  | (found) k where "findPruneableHeaders hs w bt (at L) = Inr (stretch at (batch_start L) k)"
      "batch_start L < k" "k \<le> Suc (unat headH)"
      "k - batch_start L = maxHeadersPerLoop \<or> c < Time (at (of_nat k))"
proof -
  obtain est where est: "calculateEstimatedCutoff hs bt (at L) c = Inr est"
    using chain_simps(2) [OF ch] by (simp add: calculateEstimatedCutoff_def Let_def)
  consider "\<not> Time (at L) < c" | "Time (at L) < c" "est \<le> L" | "Time (at L) < c" "L < est" by fastforce
  then show ?thesis
  proof cases
    case 1
    then show ?thesis using bt chain_simps(2) [OF ch]
      by (intro caught) (auto simp: findPruneableHeaders_def Let_def caught_up_def c_def)
  next
    case 2
    then show ?thesis using estimate_stuck [OF ch bt w L(2)] est chain_simps(2,5) [OF ch]
      by (intro caught) (auto simp: findPruneableHeaders_def Let_def caught_up_def c_def)
  next
    case 3
    have w': "0 \<le> w" using w by simp
    note eq = find_eq [OF ch bt w' L est [unfolded c_def] 3 [unfolded c_def], folded c_def]
    obtain headers where h: "find_extend hs c (stretch at (batch_start L) (Suc (unat est))) = Inr headers"
        "length headers = maxHeadersPerLoop \<or> Time (last headers) > c"
      using find_extend_total [OF ch _ refl eq(2-4), of c] w c_def by auto
    obtain k where k: "batch_start L < k" "k \<le> Suc (unat headH)" "headers = stretch at (batch_start L) k"
      using find_extend_stretch [OF h(1) ch refl eq(2-4)] by blast
    obtain k' where k': "batch_start L \<le> k'" "k' \<le> k" "find_prefix c headers = stretch at (batch_start L) k'"
        "k' < k \<longrightarrow> c < Time (at (of_nat k'))" "k' = k \<longrightarrow> \<not> c < Time (last headers)"
      using find_prefix_stretch [OF k(3,1)] by blast
    have f: "findPruneableHeaders hs w bt (at L) = Inr (stretch at (batch_start L) k')" using eq(1) h(1) k'(3) by simp
    show ?thesis
    proof (cases "batch_start L = k'")
      case True
      have "L \<noteq> 1" using k(1) k'(4) 3(1) True by (auto simp: batch_start_def)
      then have "c < Time (at (L + 1))" using True k(1) k'(4) by (auto simp: batch_start_def add.commute)
      then show ?thesis using f True by (intro caught) (auto simp: caught_up_def stretch_def)
    next
      case False
      then show ?thesis using f k' k h(2) by (intro found [of k']) (auto simp: stretch_def)
    qed
  qed
qed

lemma prune_batch_all:
  "prune_batch (\<lambda>_. True) hdrs (lst, F, P) = (if hdrs = [] then lst else last hdrs, F, P \<union> Height ` set hdrs)"
  by (induction hdrs arbitrary: lst P) auto

text \<open>One turn in which every block is pruned.\<close>

lemma prune_loop_all:
  assumes f: "findPruneableHeaders hs (window s) (blockTime s) lst = Inr hdrs" and ne: "hdrs \<noteq> []"
  defines "s1 \<equiv> snd (updateCheckpoint (None :: 'e option) (Height (last hdrs)) {||} (s\<lparr>pruned := pruned s \<union> Height ` set hdrs\<rparr>))"
  shows "prune_loop (hs :: 'e hstore) (\<lambda>_ _. True) (\<lambda>_. None) (\<lambda>_. False) fuel i lst s =
    (if length hdrs < maxHeadersPerLoop \<or> last hdrs = lst then Some s1
     else case fuel of 0 \<Rightarrow> None | Suc f \<Rightarrow> prune_loop hs (\<lambda>_ _. True) (\<lambda>_. None) (\<lambda>_. False) f (Suc i) (last hdrs) s1)"
proof -
  obtain h rest where h: "hdrs = h # rest" using ne by (cases hdrs) auto
  have b: "prune_batch (\<lambda>_. True) hdrs (lst, {||}, pruned s) = (last hdrs, {||}, pruned s \<union> Height ` set hdrs)"
    using ne by (simp only: prune_batch_all if_False)
  have u: "updateCheckpoint (None :: 'e option) (Height (last hdrs)) {||} (s\<lparr>pruned := pruned s \<union> Height ` set hdrs\<rparr>) = (None, s1)"
    by (simp add: s1_def updateCheckpoint_def storeCheckpoint_def)
  show ?thesis
    unfolding prune_loop.simps [of _ _ _ _ fuel] f h sum.case list.case
    unfolding h [symmetric] b Let_def prod.case u by simp
qed

lemma prune_loop_caught_up:
  fixes hs :: "'e hstore"
  assumes "chain_ok hs t headH at" "0 < blockTime s" "0 < window s" "t \<le> L" "L \<le> headH" "accounted lo L s"
    and "prune_loop hs (\<lambda>_ _. True) (\<lambda>_. None) (\<lambda>_. False) fuel i (at L) s = Some s'"
  shows "\<exists>cp. chkpt s' = Some cp \<and> caught_up at (Time (at headH) - window s) (blockTime s) (LastPrunedHeight cp)"
  using assms
proof (induction fuel arbitrary: i L s rule: less_induct)
  case (less fuel i L s)
  note ch = less.prems(1) and p = less.prems(2)
  have w: "0 \<le> window s" using less.prems(3) by simp
  show ?case
  proof (cases rule: find_progress [OF less.prems(1-5), case_names caught found])
    case caught
    then have "s' = s" using less.prems(7) by (simp add: prune_loop.simps [of _ _ _ _ fuel])
    then show ?thesis using caught(2) less.prems(6) by (auto simp: accounted_def)
  next
    case (found k)
    define hdrs where "hdrs = stretch at (batch_start L) k"
    define s1 where "s1 = snd (updateCheckpoint (None :: 'e option) (Height (last hdrs)) {||} (s\<lparr>pruned := pruned s \<union> Height ` set hdrs\<rparr>))"
    define L1 :: u64 where "L1 = of_nat (k - 1)"
    have ne: "hdrs \<noteq> []" using found(2) by (simp add: hdrs_def)
    have k: "k - 1 < 2 ^ 64" "Suc (k - 1) = k" using found(2,3) unat_bound [of headH] by linarith+
    then have uL1: "unat L1 = k - 1" "L1 + 1 = of_nat k" unfolding L1_def using unat_of_nat_u64 by (blast, metis of_nat_Suc add.commute)
    have last': "last hdrs = at L1" unfolding hdrs_def L1_def using found(2) by (rule last_stretch)
    have b: "prune_batch (\<lambda>_. True) hdrs (at L, {||}, pruned s) = (last hdrs, {||}, pruned s \<union> Height ` set hdrs)"
      using ne by (simp only: prune_batch_all if_False)
    have u: "updateCheckpoint (None :: 'e option) (Height (last hdrs)) {||} (s\<lparr>pruned := pruned s \<union> Height ` set hdrs\<rparr>) = (None, s1)"
      by (simp add: s1_def updateCheckpoint_def storeCheckpoint_def)
    have t: "L \<le> L1" "L1 \<le> headH" "accounted lo L1 s1" "window s1 = window s" "blockTime s1 = blockTime s"
      using prune_turn [OF ch p w less.prems(4-6) found(1) b [unfolded hdrs_def] u [unfolded hdrs_def]] last' at_inj [OF ch]
      unfolding hdrs_def by auto
    note step = prune_loop_all [OF found(1), folded hdrs_def, folded s1_def, OF ne, of fuel i]
    show ?thesis
    proof (cases "length hdrs < maxHeadersPerLoop \<or> last hdrs = at L")
      case True
      have "length hdrs = k - batch_start L" by (simp add: hdrs_def stretch_def)
      moreover have "k - batch_start L \<noteq> maxHeadersPerLoop" if "last hdrs = at L"
        using that last' at_inj [OF ch, of L1 L] uL1 by (auto simp: batch_start_def maxHeadersPerLoop_def)
      ultimately have "Time (at headH) - window s < Time (at (L1 + 1))" using True found(4) uL1(2) by auto
      moreover have "s' = s1" using step True less.prems(7) by simp
      ultimately show ?thesis using t(3) by (auto simp: accounted_def caught_up_def)
    next
      case False
      then obtain f where f: "fuel = Suc f" "prune_loop hs (\<lambda>_ _. True) (\<lambda>_. None) (\<lambda>_. False) f (Suc i) (at L1) s1 = Some s'"
        using step less.prems(7) last' by (cases fuel) auto
      show ?thesis using less.IH [of f s1 L1 "Suc i"] f ch t less.prems(2-4) by auto
    qed
  qed
qed

section \<open>A round of pruning\<close>

lemma prune_steps:
  assumes ch: "chain_ok hs t headH at" and acc: "accounted lo L s" and lo: "lo \<le> t" and L: "L \<le> headH"
  obtains s1 where "prune hs retryOk order ok putErr stop fuel s = prune_loop hs ok putErr stop fuel 0 (at (max t L)) s1"
    "accounted t (max t L) s1" "window s1 = window s" "blockTime s1 = blockTime s"
    "pruned s \<subseteq> pruned s1" "pruned s1 \<subseteq> pruned s \<union> set order" "t \<le> max t L" "max t L \<le> headH"
proof -
  obtain s0 where s0: "lastPruned hs s = (Inr (at (max t L)), s0)" "accounted t (max t L) s0" "pruned s0 = pruned s"
      "window s0 = window s" "blockTime s0 = blockTime s"
    using lastPruned_spec [OF ch acc lo L] by blast
  obtain cp where cp: "chkpt s0 = Some cp" using s0(2) by (auto simp: accounted_def)
  note r = retryFailed_spec [OF ch cp, of retryOk order]
  have "accounted t (max t L) (retryFailed hs retryOk order s0)"
    using s0(2) r cp unfolding accounted_def by fastforce
  then show ?thesis using r s0 L chain_simps(3) [OF ch]
    by (intro that [of "retryFailed hs retryOk order s0"]) (auto simp: prune_def)
qed

lemma retryFailed_clears:
  assumes "chkpt s = Some cp"
  shows "\<exists>cp'. chkpt (retryFailed hs ok order s) = Some cp' \<and> LastPrunedHeight cp' = LastPrunedHeight cp
    \<and> (\<forall>h. h |\<in>| FailedHeaders cp' \<longleftrightarrow> h |\<in>| FailedHeaders cp \<and> \<not> (h \<in> set order \<and> (\<exists>x. hs_GetByHeight hs h = Inr x \<and> ok x)))"
  using assms
proof (induction order arbitrary: s cp)
  case (Cons f order)
  show ?case
  proof (cases "\<exists>h. hs_GetByHeight hs f = Inr h \<and> ok h")
    case True
    then obtain h where h: "hs_GetByHeight hs f = Inr h" "ok h" by blast
    have e: "retryFailed hs ok (f # order) s = retryFailed hs ok order
        (s\<lparr>chkpt := Some (cp\<lparr>FailedHeaders := FailedHeaders cp |-| {|f|}\<rparr>), pruned := insert (Height h) (pruned s)\<rparr>)"
      using h Cons.prems by simp
    show ?thesis unfolding e
      using Cons.IH [of "s\<lparr>chkpt := Some (cp\<lparr>FailedHeaders := FailedHeaders cp |-| {|f|}\<rparr>), pruned := insert (Height h) (pruned s)\<rparr>"] True
      by auto
  next
    case False
    then have "retryFailed hs ok (f # order) s = retryFailed hs ok order s" by (auto split: sum.splits)
    then show ?thesis using Cons.IH [OF Cons.prems] False by auto
  qed
qed simp



section \<open>Properties\<close>



text \<open>C23. When nothing fails and the service is not stopped, a round catches up with the window: the header after
  the last pruned one is newer than the cutoff, or the last pruned one is within a block time of it.\<close>

theorem prune_round_catches_up:
  assumes "chain_ok hs t headH at" "0 < blockTime s" "0 < window s" "accounted lo L s" "lo \<le> t" "L \<le> headH" "unat headH \<le> fuel"
  shows "\<exists>s' L'. prune hs retryOk order (\<lambda>_ _. True) (\<lambda>_. None) (\<lambda>_. False) fuel s = Some s' \<and> accounted t L' s'
     \<and> caught_up at (Time (at headH) - window s) (blockTime s) L'"
proof -
  obtain s1 where s1: "prune hs retryOk order (\<lambda>_ _. True) (\<lambda>_. None) (\<lambda>_. False) fuel s =
      prune_loop hs (\<lambda>_ _. True) (\<lambda>_. None) (\<lambda>_. False) fuel 0 (at (max t L)) s1"
    "accounted t (max t L) s1" "window s1 = window s" "blockTime s1 = blockTime s" "t \<le> max t L" "max t L \<le> headH"
    by (rule prune_steps [OF assms(1,4-6)])
  obtain s' where s': "prune_loop hs (\<lambda>_ _. True) (\<lambda>_. None) (\<lambda>_. False) fuel 0 (at (max t L)) s1 = Some s'"
      "advances at headH t (max t L) s1 s'"
    using prune_loop_advances [OF assms(1) _ _ s1(5,6,2) le_trans [OF diff_le_self assms(7)], of "\<lambda>_ _. True" "\<lambda>_. None" "\<lambda>_. False" 0]
      assms(2,3) s1(3,4)
    by auto
  moreover have "\<exists>cp. chkpt s' = Some cp \<and> caught_up at (Time (at headH) - window s1) (blockTime s1) (LastPrunedHeight cp)"
    using prune_loop_caught_up [OF assms(1) _ _ s1(5,6,2) s'(1)] assms(2,3) s1(3,4) by simp
  ultimately show ?thesis using s1(1,3,4) by (auto simp: advances_def accounted_def)
qed

text \<open>A retry takes off the failed set exactly the heights whose header the store has and whose block is now
  pruned; the last pruned height stays.\<close>

theorem retryFailed_exact:
  assumes "chkpt s = Some cp" "set order = fset (FailedHeaders cp)"
  shows "\<exists>cp'. chkpt (retryFailed hs ok order s) = Some cp' \<and> LastPrunedHeight cp' = LastPrunedHeight cp
    \<and> FailedHeaders cp' = ffilter (\<lambda>h. case hs_GetByHeight hs h of Inl _ \<Rightarrow> True | Inr x \<Rightarrow> \<not> ok x) (FailedHeaders cp)"
proof -
  obtain cp' where "chkpt (retryFailed hs ok order s) = Some cp'" "LastPrunedHeight cp' = LastPrunedHeight cp"
    "\<And>h. h |\<in>| FailedHeaders cp' \<longleftrightarrow> h |\<in>| FailedHeaders cp \<and> \<not> (h \<in> set order \<and> (\<exists>x. hs_GetByHeight hs h = Inr x \<and> ok x))"
    using retryFailed_clears [OF assms(1), of hs ok order] by blast
  moreover from this(3) have "FailedHeaders cp' = ffilter (\<lambda>h. case hs_GetByHeight hs h of Inl _ \<Rightarrow> True | Inr x \<Rightarrow> \<not> ok x) (FailedHeaders cp)"
    using assms(2) by (intro fset_eqI) (auto split: sum.splits)
  ultimately show ?thesis by blast
qed


text \<open>The first height of a fresh checkpoint is not pruned. With nothing stored, the pruner starts from the
  tail of the header store as if the tail's block had been pruned: deleting the tail's header then succeeds
  without pruning its block, and a round of pruning over a chain whose tail is above 1 leaves it too.\<close>

theorem fresh_checkpoint_skips_tail:
  assumes "chain_ok hs t headH at" "0 < blockTime s" "0 \<le> window s" "chkpt s = None" "stored s = None" "\<not> stopped s" "1 < t"
    and "unat headH \<le> fuel" "t \<notin> pruned s"
  shows "(\<exists>s'. pruneOnHeaderDelete hs None None retryOk other t s = (None, s') \<and> t \<notin> pruned s')
    \<and> (\<exists>s1 s'. loadCheckpoint hs None None s = (None, s1) \<and> prune hs retryOk [] ok putErr stop fuel s1 = Some s' \<and> t \<notin> pruned s')"
proof -
  have th: "hs_Tail hs = Inr (at t)" "Height (at t) = t" using chain_simps(1,5) [OF assms(1)] by auto
  then have del: "\<exists>s'. pruneOnHeaderDelete hs None None retryOk other t s = (None, s') \<and> t \<notin> pruned s'"
    using assms by (auto simp: pruneOnHeaderDelete_def loadCheckpoint_def resetCheckpoint_def storeCheckpoint_def pruner_newCheckpoint_def Let_def)
  define s1 where "s1 = s\<lparr>chkpt := Some (pruner_newCheckpoint t), stored := Some (pruner_newCheckpoint t)\<rparr>"
  have ld: "loadCheckpoint hs None None s = (None, s1)"
    using assms th by (auto simp: s1_def loadCheckpoint_def resetCheckpoint_def storeCheckpoint_def)
  have acc: "accounted t t s1" by (auto simp: accounted_def s1_def pruner_newCheckpoint_def)
  obtain s2 where s2: "prune hs retryOk [] ok putErr stop fuel s1 = prune_loop hs ok putErr stop fuel 0 (at (max t t)) s2"
    "accounted t (max t t) s2" "window s2 = window s1" "blockTime s2 = blockTime s1"
    "pruned s1 \<subseteq> pruned s2" "pruned s2 \<subseteq> pruned s1 \<union> set []" "t \<le> max t t" "max t t \<le> headH"
    by (rule prune_steps [OF assms(1) acc order_refl chain_simps(3) [OF assms(1)]])
  obtain s' where s': "prune_loop hs ok putErr stop fuel 0 (at (max t t)) s2 = Some s'" "advances at headH t (max t t) s2 s'"
    using prune_loop_advances [OF assms(1) _ _ s2(7,8,2) le_trans [OF diff_le_self assms(8)], of ok putErr stop 0] assms(2,3) s2(3,4)
    by (auto simp: s1_def)
  have "\<not> batch_start t \<le> unat t" using assms(7) by (auto simp: batch_start_def)
  then have "t \<notin> pruned s'" using s'(2) s2(6) assms(9) by (auto simp: advances_def s1_def)
  then show ?thesis using del ld s2(1) s'(1) by auto
qed

section \<open>The properties on a small chain\<close>

definition demo_at :: "u64 \<Rightarrow> hdr" where
  "demo_at h = \<lparr>Height = h, Time = int (unat (min h 10))\<rparr>"

definition demo_store :: "u64 \<Rightarrow> u64 \<Rightarrow> unit hstore" where
  "demo_store t headH = \<lparr>hs_Head = Inr (demo_at headH), hs_Tail = Inr (demo_at t),
     hs_GetByHeight = (\<lambda>h. if t \<le> h \<and> h \<le> headH then Inr (demo_at h) else Inl ()),
     hs_GetRangeByHeight = (\<lambda>l to. Inr (map demo_at (hts (Height l + 1) to)))\<rparr>"

definition demo_service :: "u64 \<Rightarrow> u64 list \<Rightarrow> u64 set \<Rightarrow> service" where
  "demo_service L F P = (let cp = Some \<lparr>LastPrunedHeight = L, FailedHeaders = fset_of_list F\<rparr> in
     \<lparr>window = 2, blockTime = 1, chkpt = cp, stored = cp, stopped = False, pruned = P\<rparr>)"

lemma demo_chain: "0 < t \<Longrightarrow> t \<le> headH \<Longrightarrow> headH < 2 ^ 62 \<Longrightarrow> chain_ok (demo_store t headH) t headH demo_at"
proof -
  have "unat (min h 10 :: u64) \<le> unat (10 :: u64)" for h by (simp only: word_le_nat_alt [symmetric] min.cobounded2)
  then have "int (unat (min h 10 :: u64)) < 2 ^ 63" for h by (rule order_le_less_trans [OF of_nat_mono]) simp
  then show "0 < t \<Longrightarrow> t \<le> headH \<Longrightarrow> headH < 2 ^ 62 \<Longrightarrow> ?thesis"
    unfolding chain_ok_def demo_store_def by (simp add: demo_at_def)
qed

lemma demo_window [simp]: "window (demo_service L F P) = 2" "blockTime (demo_service L F P) = 1"
    "chkpt (demo_service L F P) = Some \<lparr>LastPrunedHeight = L, FailedHeaders = fset_of_list F\<rparr>" "pruned (demo_service L F P) = P"
  by (simp_all add: demo_service_def Let_def)

lemma demo_accounted: "accounted 1 3 (demo_service 3 [2] {3})"
proof -
  have "h = 2 \<or> h = 3" if "1 < h" "h \<le> 3" for h :: u64
    using that by (auto simp: word_less_nat_alt word_le_nat_alt word_unat_eq_iff)
  then show ?thesis by (fastforce simp: accounted_def)
qed


theorem prune_round_catches_up_witness:
  "\<exists>s' L'. prune (demo_store 1 6) (\<lambda>_. True) [2] (\<lambda>_ _. True) (\<lambda>_. None) (\<lambda>_. False) 6 (demo_service 3 [2] {3}) = Some s'
     \<and> accounted 1 L' s' \<and> caught_up demo_at (Time (demo_at 6) - 2) 1 L'"
  using prune_round_catches_up [OF demo_chain [of 1 6] _ _ demo_accounted, of 6 "\<lambda>_. True" "[2]"] by simp

theorem retryFailed_exact_witness:
  "\<exists>cp'. chkpt (retryFailed (demo_store 1 6) (\<lambda>_. True) [2] (demo_service 3 [2] {3})) = Some cp' \<and> FailedHeaders cp' = {||}"
  using retryFailed_exact [of "demo_service 3 [2] {3}" _ "[2]" "demo_store 1 6" "\<lambda>_. True"]
  by (fastforce simp: demo_store_def)


theorem fresh_checkpoint_skips_tail_witness:
  "\<exists>s'. pruneOnHeaderDelete (demo_store 2 6) None None (\<lambda>_. True) id 2 ((demo_service 2 [] {})\<lparr>chkpt := None, stored := None\<rparr>) = (None, s')
      \<and> 2 \<notin> pruned s'"
  using fresh_checkpoint_skips_tail [OF demo_chain [of 2 6], of "(demo_service 2 [] {})\<lparr>chkpt := None, stored := None\<rparr>" 6 "\<lambda>_. True" id]
  by (simp add: demo_service_def Let_def)



end
