(* ===== verification/PeerPool.thy ===== *)
theory PeerPool
  imports Prelude Complex_Main
begin

text \<open>
  The peer pools of the shrex client (\<^verbatim>\<open>share/shwap/p2p/shrex/peers\<close>): the cooldown queue (\<^verbatim>\<open>timedqueue.go\<close>),
  the throughput scores (\<^verbatim>\<open>score.go\<close>) and the pool itself (\<^verbatim>\<open>pool.go\<close>). The clock and the draws of the random
  generator are arguments; the LRU cache that holds the scores is a parameter. Scores are real numbers: the
  rounding of \<^verbatim>\<open>float64\<close> is left out.
\<close>

type_synonym peerID = string

section \<open>The cooldown queue\<close>

record item =
  item_ID :: peerID
  createdAt :: time

text \<open>\<open>after\<close> is the moment at which the timer of the queue fires.\<close>

record timedQueue =
  items :: "item list"
  ttl :: duration
  after :: "time option"

definition newTimedQueue :: "duration \<Rightarrow> timedQueue" where
  "newTimedQueue d = \<lparr>items = [], ttl = d, after = None\<rparr>"

definition schedule :: "time \<Rightarrow> timedQueue \<Rightarrow> timedQueue" where
  "schedule now q =
     (let q1 = q\<lparr>after := None\<rparr> in
      case items q of
        [] \<Rightarrow> q1
      | i # _ \<Rightarrow> q1\<lparr>after := Some (now + (ttl q - (now - createdAt i)))\<rparr>)"

text \<open>The loop of \<^verbatim>\<open>releaseExpired\<close>: how many items expired, and the owner's state after the callbacks.\<close>

fun releaseExpired_loop :: "time \<Rightarrow> duration \<Rightarrow> (peerID \<Rightarrow> 's \<Rightarrow> 's) \<Rightarrow> item list \<Rightarrow> nat \<Rightarrow> 's \<Rightarrow> nat \<times> 's" where
  "releaseExpired_loop now d onPop [] n s = (n, s)"
| "releaseExpired_loop now d onPop (i # is) n s =
     (if now - createdAt i < d then (n, s)
      else releaseExpired_loop now d onPop is (Suc n) (onPop (item_ID i) s))"

definition releaseExpired :: "time \<Rightarrow> (peerID \<Rightarrow> 's \<Rightarrow> 's) \<Rightarrow> timedQueue \<Rightarrow> 's \<Rightarrow> timedQueue \<times> 's" where
  "releaseExpired now onPop q s =
     (let (n, s') = releaseExpired_loop now (ttl q) onPop (items q) 0 s in
      (schedule now (q\<lparr>items := drop n (items q)\<rparr>), s'))"

definition tq_push :: "time \<Rightarrow> peerID \<Rightarrow> timedQueue \<Rightarrow> timedQueue" where
  "tq_push now peerID q =
     (let q1 = q\<lparr>items := items q @ [\<lparr>item_ID = peerID, createdAt = now\<rparr>]\<rparr> in
      if length (items q1) = 1 then schedule now q1 else q1)"

fun tq_remove_loop :: "peerID \<Rightarrow> item list \<Rightarrow> item list" where
  "tq_remove_loop peerID [] = []"
| "tq_remove_loop peerID (entry # is) = (if item_ID entry = peerID then is else entry # tq_remove_loop peerID is)"

definition tq_remove :: "time \<Rightarrow> peerID \<Rightarrow> timedQueue \<Rightarrow> timedQueue" where
  "tq_remove now peerID q =
     (let q1 = q\<lparr>items := tq_remove_loop peerID (items q)\<rparr> in
      if items q \<noteq> [] \<and> item_ID (hd (items q)) = peerID then schedule now q1 else q1)"

definition tq_len :: "timedQueue \<Rightarrow> nat" where
  "tq_len q = length (items q)"

section \<open>Throughput scores\<close>

definition defaultPeerScore :: real where "defaultPeerScore = 10 * 2 ^ 20"

definition peerScoreAlpha :: real where "peerScoreAlpha = 1 / 4"

definition peerScoreDecay :: real where "peerScoreDecay = 8 / 10"

record TransferStats =
  Bytes :: int
  Duration :: duration

record peerStat =
  score :: real
  measured :: bool

text \<open>The LRU cache: looking up changes the order of eviction, so it returns the cache too.\<close>

record 'c lru =
  lru_Get :: "peerID \<Rightarrow> 'c \<Rightarrow> peerStat option \<times> 'c"
  lru_Add :: "peerID \<Rightarrow> peerStat \<Rightarrow> 'c \<Rightarrow> 'c"

definition peerStats_score :: "'c lru \<Rightarrow> peerID \<Rightarrow> 'c \<Rightarrow> (real \<times> bool) \<times> 'c" where
  "peerStats_score L peerID c =
     (case lru_Get L peerID c of
        (None, c') \<Rightarrow> ((0, False), c')
      | (Some stat, c') \<Rightarrow> ((score stat, measured stat), c'))"

definition selectPeer :: "'c lru \<Rightarrow> peerID \<Rightarrow> peerID \<Rightarrow> 'c \<Rightarrow> peerID \<times> 'c" where
  "selectPeer L first second c =
     (let (firstStat, c1) = lru_Get L first c;
          (secondStat, c2) = lru_Get L second c1;
          selected =
            (case (firstStat, secondStat) of
               (Some _, None) \<Rightarrow> second
             | (Some f, Some s) \<Rightarrow> if score s > score f then second else first
             | _ \<Rightarrow> first);
          selectedKnown = (if selected = second then secondStat \<noteq> None else firstStat \<noteq> None) in
      (selected, if \<not> selectedKnown then lru_Add L selected \<lparr>score = defaultPeerScore, measured = False\<rparr> c2 else c2))"

definition updateStats :: "'c lru \<Rightarrow> peerID \<Rightarrow> TransferStats \<Rightarrow> 'c \<Rightarrow> 'c" where
  "updateStats L peerID stats c =
     (if Bytes stats \<le> 0 \<or> Duration stats \<le> 0 then c
      else
        let rate = real_of_int (Bytes stats) / (real_of_int (Duration stats) / 10 ^ 9);
            (prev, c1) = lru_Get L peerID c in
        case prev of
          None \<Rightarrow> lru_Add L peerID \<lparr>score = rate, measured = True\<rparr> c1
        | Some p \<Rightarrow>
            if \<not> measured p then lru_Add L peerID \<lparr>score = rate, measured = True\<rparr> c1
            else lru_Add L peerID (p\<lparr>score := score p + peerScoreAlpha * (rate - score p)\<rparr>) c1)"

definition decreaseScore :: "'c lru \<Rightarrow> peerID \<Rightarrow> 'c \<Rightarrow> 'c" where
  "decreaseScore L peerID c =
     (let (stat, c1) = lru_Get L peerID c;
          base = (case stat of None \<Rightarrow> defaultPeerScore | Some p \<Rightarrow> score p) in
      lru_Add L peerID \<lparr>score = base * peerScoreDecay, measured = True\<rparr> c1)"

section \<open>The pool\<close>

datatype status = active | cooldown | removed

text \<open>Channels are numbers; \<open>closedChs\<close> are those closed, \<open>freshCh\<close> is the next to be made. The field
  \<^verbatim>\<open>cooldown\<close> of the source is \<open>cooldownQ\<close>.\<close>

record pool =
  peersList :: "peerID list"
  statuses :: "(peerID, status) fmap"
  cooldownQ :: timedQueue
  activeCount :: int
  hasPeer :: bool
  hasPeerCh :: nat
  closedChs :: "nat fset"
  freshCh :: nat
  cleanupThreshold :: int

definition defaultCleanupThreshold :: int where "defaultCleanupThreshold = 2"

definition newPool :: "duration \<Rightarrow> pool" where
  "newPool peerCooldownTime =
     \<lparr>peersList = [], statuses = fmempty, cooldownQ = newTimedQueue peerCooldownTime, activeCount = 0, hasPeer = False,
      hasPeerCh = 0, closedChs = {||}, freshCh = 1, cleanupThreshold = defaultCleanupThreshold\<rparr>"

text \<open>Indexing a Go map by a missing key gives the zero value, \<open>active\<close>.\<close>

definition status_of :: "pool \<Rightarrow> peerID \<Rightarrow> status" where
  "status_of p x = (case fmlookup (statuses p) x of None \<Rightarrow> active | Some st \<Rightarrow> st)"

definition activeFrom :: "pool \<Rightarrow> nat \<Rightarrow> (peerID \<times> nat) option" where
  "activeFrom p idx =
     (let l = length (peersList p) in
      map_option (\<lambda>j. (peersList p ! j, j))
        (find (\<lambda>j. status_of p (peersList p ! j) = active) (map (\<lambda>i. (idx + i) mod l) [0..<l])))"

text \<open>\<open>r1\<close> and \<open>r2\<close> are the two draws of the random generator, taken modulo the length of the list. A
  failed second call of \<^verbatim>\<open>activeFrom\<close> gives the empty string.\<close>

definition tryGet :: "'c lru \<Rightarrow> nat \<Rightarrow> nat \<Rightarrow> pool \<Rightarrow> 'c \<Rightarrow> peerID option \<times> 'c" where
  "tryGet L r1 r2 p c =
     (if activeCount p = 0 then (None, c)
      else case activeFrom p (r1 mod length (peersList p)) of
        None \<Rightarrow> (None, c)
      | Some (first, idx) \<Rightarrow>
          if activeCount p = 1 then (Some first, c)
          else
            let peer_at = (\<lambda>k. case activeFrom p k of None \<Rightarrow> '''' | Some (x, _) \<Rightarrow> x);
                draw = peer_at (r2 mod length (peersList p));
                second = (if draw = first then peer_at (idx + 1) else draw);
                (selected, c') = selectPeer L first second c in
            (Some selected, c'))"

text \<open>Closing a closed channel panics: the result is \<open>None\<close>.\<close>

definition checkHasPeers :: "pool \<Rightarrow> pool option" where
  "checkHasPeers p =
     (if activeCount p > 0 \<and> \<not> hasPeer p then
        (if hasPeerCh p |\<in>| closedChs p then None
         else Some (p\<lparr>hasPeer := True, closedChs := finsert (hasPeerCh p) (closedChs p)\<rparr>))
      else if activeCount p = 0 \<and> hasPeer p then
        Some (p\<lparr>hasPeerCh := freshCh p, freshCh := Suc (freshCh p), hasPeer := False\<rparr>)
      else Some p)"

definition add_peer :: "peerID \<Rightarrow> pool \<Rightarrow> pool" where
  "add_peer peerID p =
     (case fmlookup (statuses p) peerID of
        Some st \<Rightarrow>
          if st \<noteq> removed then p
          else p\<lparr>statuses := fmupd peerID active (statuses p), activeCount := activeCount p + 1\<rparr>
      | None \<Rightarrow>
          p\<lparr>peersList := peersList p @ [peerID], statuses := fmupd peerID active (statuses p),
            activeCount := activeCount p + 1\<rparr>)"

definition pool_add :: "peerID list \<Rightarrow> pool \<Rightarrow> pool option" where
  "pool_add peers p = checkHasPeers (fold add_peer peers p)"

definition remove_peer :: "time \<Rightarrow> peerID \<Rightarrow> pool \<Rightarrow> pool" where
  "remove_peer now peerID p =
     (case fmlookup (statuses p) peerID of
        None \<Rightarrow> p
      | Some st \<Rightarrow>
          if st = removed then p
          else
            let p1 = p\<lparr>statuses := fmupd peerID removed (statuses p), cooldownQ := tq_remove now peerID (cooldownQ p)\<rparr> in
            if st = active then p1\<lparr>activeCount := activeCount p1 - 1\<rparr> else p1)"

fun cleanup_loop :: "peerID list \<Rightarrow> peerID list \<Rightarrow> pool \<Rightarrow> pool" where
  "cleanup_loop [] newList p = p\<lparr>peersList := newList\<rparr>"
| "cleanup_loop (peerID # rest) newList p =
     (if status_of p peerID \<noteq> removed then cleanup_loop rest (newList @ [peerID]) p
      else cleanup_loop rest newList (p\<lparr>statuses := fmdrop peerID (statuses p)\<rparr>))"

definition cleanup :: "pool \<Rightarrow> pool" where
  "cleanup p = cleanup_loop (peersList p) [] p"

definition pool_remove :: "time \<Rightarrow> peerID list \<Rightarrow> pool \<Rightarrow> pool option" where
  "pool_remove now peers p =
     (let p1 = fold (remove_peer now) peers p in
      checkHasPeers (if int (length (peersList p1)) \<ge> activeCount p1 + cleanupThreshold p1 then cleanup p1 else p1))"

definition pool_has :: "peerID \<Rightarrow> pool \<Rightarrow> bool" where
  "pool_has peer p = (case fmlookup (statuses p) peer of None \<Rightarrow> False | Some st \<Rightarrow> st \<noteq> removed)"

text \<open>\<open>order\<close> is the order in which the map is iterated.\<close>

definition pool_peers :: "peerID list \<Rightarrow> pool \<Rightarrow> peerID list" where
  "pool_peers order p = filter (\<lambda>x. fmlookup (statuses p) x \<noteq> Some removed) order"

definition peersSnapshot :: "pool \<Rightarrow> peerID list" where
  "peersSnapshot p = peersList p"

definition putOnCooldown :: "time \<Rightarrow> peerID \<Rightarrow> pool \<Rightarrow> pool option" where
  "putOnCooldown now peerID p =
     (if fmlookup (statuses p) peerID = Some active then
        checkHasPeers (p\<lparr>cooldownQ := tq_push now peerID (cooldownQ p), statuses := fmupd peerID cooldown (statuses p),
                         activeCount := activeCount p - 1\<rparr>)
      else Some p)"

definition release_peer :: "peerID \<Rightarrow> pool \<Rightarrow> pool" where
  "release_peer peerID p = p\<lparr>statuses := fmupd peerID active (statuses p), activeCount := activeCount p + 1\<rparr>"

definition releaseCooldown :: "time \<Rightarrow> pool \<Rightarrow> pool option" where
  "releaseCooldown now p =
     (let (q, p1) = releaseExpired now release_peer (cooldownQ p) p in
      checkHasPeers (p1\<lparr>cooldownQ := q\<rparr>))"

definition cooldownLen :: "pool \<Rightarrow> nat" where
  "cooldownLen p = tq_len (cooldownQ p)"

definition pool_len :: "pool \<Rightarrow> int" where
  "pool_len p = activeCount p"

text \<open>A caller of \<^verbatim>\<open>next\<close>: it tries to get a peer; failing that, it reads the current channel and waits for
  it to be closed, then tries again.\<close>

datatype waiter = Trying | Failed | WaitingFor nat | Got peerID

definition next_try :: "'c lru \<Rightarrow> nat \<Rightarrow> nat \<Rightarrow> pool \<Rightarrow> 'c \<Rightarrow> waiter \<times> 'c" where
  "next_try L r1 r2 p c = (case tryGet L r1 r2 p c of (Some x, c') \<Rightarrow> (Got x, c') | (None, c') \<Rightarrow> (Failed, c'))"

definition next_read :: "pool \<Rightarrow> waiter" where
  "next_read p = WaitingFor (hasPeerCh p)"

definition next_wake :: "pool \<Rightarrow> nat \<Rightarrow> waiter" where
  "next_wake p ch = (if ch |\<in>| closedChs p then Trying else WaitingFor ch)"

end
