(* ===== verification/PeerPoolProofs.thy ===== *)
theory PeerPoolProofs
  imports PeerPool
begin

text \<open>
  The pool refines a map from peers to whether they are absent, available, or cooling down since some
  moment. The invariant ties the list, the statuses, the counter, the cooldown queue with its timer, and the
  channel on which callers wait.
\<close>

section \<open>The cooldown queue\<close>

definition q_entries :: "timedQueue \<Rightarrow> (peerID \<times> time) list" where
  "q_entries q = map (\<lambda>i. (item_ID i, createdAt i)) (items q)"

text \<open>Up to time \<open>T\<close>: the oldest item comes first, every peer is there once, and the timer fires when the oldest expires.\<close>

definition q_ok :: "time \<Rightarrow> timedQueue \<Rightarrow> bool" where
  "q_ok T q \<longleftrightarrow> sorted (map createdAt (items q)) \<and> (\<forall>i \<in> set (items q). createdAt i \<le> T) \<and> distinct (map item_ID (items q))
     \<and> after q = (case items q of [] \<Rightarrow> None | i # _ \<Rightarrow> Some (createdAt i + ttl q))"

lemma schedule_simps [simp]:
  "items (schedule now q) = items q" "ttl (schedule now q) = ttl q"
  "after (schedule now q) = (case items q of [] \<Rightarrow> None | i # _ \<Rightarrow> Some (createdAt i + ttl q))"
  by (auto simp: schedule_def Let_def split: list.splits)

lemma q_ok_later: "q_ok T q \<Longrightarrow> T \<le> T' \<Longrightarrow> q_ok T' q"
  by (auto simp: q_ok_def)

lemma tq_push_ok:
  assumes "q_ok T q" "T \<le> now" "x \<notin> item_ID ` set (items q)"
  shows "q_ok now (tq_push now x q)" "items (tq_push now x q) = items q @ [\<lparr>item_ID = x, createdAt = now\<rparr>]" "ttl (tq_push now x q) = ttl q"
  using assms by (cases "items q"; auto simp: tq_push_def q_ok_def Let_def sorted_append intro: order_trans)+

lemma tq_remove_items:
  assumes "distinct (map item_ID is)"
  shows "tq_remove_loop x is = filter (\<lambda>i. item_ID i \<noteq> x) is"
  using assms
proof (induction "is")
  case (Cons i "is")
  have "item_ID i = x \<Longrightarrow> filter (\<lambda>i. item_ID i \<noteq> x) is = is" using Cons.prems by (intro filter_True) (auto simp: image_iff)
  then show ?case using Cons by auto
qed simp

lemma tq_remove_ok:
  assumes "q_ok T q"
  shows "q_ok T (tq_remove now x q)" "items (tq_remove now x q) = filter (\<lambda>i. item_ID i \<noteq> x) (items q)" "ttl (tq_remove now x q) = ttl q"
proof -
  show it: "items (tq_remove now x q) = filter (\<lambda>i. item_ID i \<noteq> x) (items q)" and t: "ttl (tq_remove now x q) = ttl q"
    using assms by (auto simp: tq_remove_def Let_def tq_remove_items q_ok_def)
  have "after (tq_remove now x q) = (case items (tq_remove now x q) of [] \<Rightarrow> None | i # _ \<Rightarrow> Some (createdAt i + ttl q))"
    using assms by (cases "items q") (auto simp: tq_remove_def Let_def q_ok_def tq_remove_items split: list.splits)
  then show "q_ok T (tq_remove now x q)"
    using assms unfolding q_ok_def it t by (auto simp: distinct_map sorted_filter inj_on_def)
qed

lemma releaseExpired_loop_fold:
  "releaseExpired_loop now d onPop is n s =
     (let ex = takeWhile (\<lambda>i. \<not> now - createdAt i < d) is in (n + length ex, fold onPop (map item_ID ex) s))"
  by (induction "is" arbitrary: n s) (auto simp: Let_def)

lemma sorted_takeWhile_filter:
  assumes "sorted (map createdAt is)"
  shows "takeWhile (\<lambda>i. \<not> now - createdAt i < d) is = filter (\<lambda>i. \<not> now - createdAt i < d) is"
    "dropWhile (\<lambda>i. \<not> now - createdAt i < d) is = filter (\<lambda>i. now - createdAt i < d) is"
proof -
  show "takeWhile (\<lambda>i. \<not> now - createdAt i < d) is = filter (\<lambda>i. \<not> now - createdAt i < d) is"
    using assms by (induction "is") (auto intro!: filter_False [symmetric])
  show "dropWhile (\<lambda>i. \<not> now - createdAt i < d) is = filter (\<lambda>i. now - createdAt i < d) is"
    using assms by (induction "is") (auto intro!: filter_True [symmetric])
qed

lemma releaseExpired_spec:
  fixes now :: time
  assumes "q_ok T q"
  defines "ex \<equiv> filter (\<lambda>i. \<not> now - createdAt i < ttl q) (items q)"
  shows "\<exists>q'. releaseExpired now onPop q s = (q', fold onPop (map item_ID ex) s) \<and> q_ok T q' \<and> ttl q' = ttl q
     \<and> items q' = filter (\<lambda>i. now - createdAt i < ttl q) (items q)"
proof -
  have srt: "sorted (map createdAt (items q))" using assms(1) by (simp add: q_ok_def)
  note f = sorted_takeWhile_filter [OF srt, of now "ttl q"]
  have d: "drop (length ex) (items q) = filter (\<lambda>i. now - createdAt i < ttl q) (items q)"
    using f unfolding ex_def by (metis dropWhile_eq_drop)
  have "releaseExpired now onPop q s = (schedule now (q\<lparr>items := drop (length ex) (items q)\<rparr>), fold onPop (map item_ID ex) s)"
    by (simp add: releaseExpired_def releaseExpired_loop_fold Let_def f(1) ex_def)
  then show ?thesis using assms(1) d by (auto simp: q_ok_def distinct_map sorted_filter inj_on_def split: list.splits)
qed

section \<open>The abstract pool and the invariant\<close>

datatype apeer = Absent | Avail | Cooling time

definition since :: "timedQueue \<Rightarrow> peerID \<Rightarrow> time" where
  "since q x = the (map_of (q_entries q) x)"

definition abs_pool :: "pool \<Rightarrow> peerID \<Rightarrow> apeer" where
  "abs_pool p x = (case fmlookup (statuses p) x of
     Some active \<Rightarrow> Avail | Some cooldown \<Rightarrow> Cooling (since (cooldownQ p) x) | _ \<Rightarrow> Absent)"

definition act :: "pool \<Rightarrow> peerID set" where
  "act p = {x. fmlookup (statuses p) x = Some active}"

definition books_ok :: "time \<Rightarrow> pool \<Rightarrow> bool" where
  "books_ok T p \<longleftrightarrow> distinct (peersList p) \<and> set (peersList p) = fset (fmdom (statuses p)) \<and> activeCount p = int (card (act p))
     \<and> q_ok T (cooldownQ p) \<and> item_ID ` set (items (cooldownQ p)) = {x. fmlookup (statuses p) x = Some cooldown}"

text \<open>Every channel made so far is closed, but for the current one while there is no peer.\<close>

definition chans_ok :: "pool \<Rightarrow> bool" where
  "chans_ok p \<longleftrightarrow> hasPeerCh p < freshCh p \<and> (\<forall>ch. ch |\<in>| closedChs p \<longleftrightarrow> ch < freshCh p \<and> (ch \<noteq> hasPeerCh p \<or> hasPeer p))"

definition pool_inv :: "time \<Rightarrow> pool \<Rightarrow> bool" where
  "pool_inv T p \<longleftrightarrow> books_ok T p \<and> chans_ok p \<and> (hasPeer p \<longleftrightarrow> act p \<noteq> {})"

definition same_chans :: "pool \<Rightarrow> pool \<Rightarrow> bool" where
  "same_chans p p' \<longleftrightarrow> hasPeer p' = hasPeer p \<and> hasPeerCh p' = hasPeerCh p \<and> closedChs p' = closedChs p \<and> freshCh p' = freshCh p
     \<and> ttl (cooldownQ p') = ttl (cooldownQ p)"

lemma same_chans_trans: "same_chans p q \<Longrightarrow> same_chans q r \<Longrightarrow> same_chans p r"
  by (simp add: same_chans_def)

lemma same_chans_ok: "same_chans p p' \<Longrightarrow> chans_ok p' = chans_ok p"
  by (simp add: same_chans_def chans_ok_def)

lemma finite_act [simp]: "finite (act p)"
  by (rule finite_subset [of _ "fset (fmdom (statuses p))"]) (auto simp: act_def fmdomI)

lemma act_abs: "x \<in> act p \<longleftrightarrow> abs_pool p x = Avail"
  by (auto simp: act_def abs_pool_def split: option.splits status.splits)

lemma books_count: "books_ok T p \<Longrightarrow> activeCount p > 0 \<longleftrightarrow> act p \<noteq> {}" "books_ok T p \<Longrightarrow> activeCount p = 0 \<longleftrightarrow> act p = {}"
  by (auto simp: books_ok_def card_gt_0_iff)

lemma books_later: "books_ok T p \<Longrightarrow> T \<le> T' \<Longrightarrow> books_ok T' p"
  by (auto simp: books_ok_def q_ok_later)

lemma checkHasPeers_ok:
  assumes "books_ok T p" "chans_ok p"
  shows "\<exists>p'. checkHasPeers p = Some p' \<and> pool_inv T p' \<and> abs_pool p' = abs_pool p \<and> ttl (cooldownQ p') = ttl (cooldownQ p)"
proof -
  note c = books_count [OF assms(1)]
  have e: "abs_pool (p\<lparr>hasPeer := a, closedChs := b\<rparr>) = abs_pool p" "act (p\<lparr>hasPeer := a, closedChs := b\<rparr>) = act p"
    "abs_pool (p\<lparr>hasPeerCh := d, freshCh := f, hasPeer := a\<rparr>) = abs_pool p" "act (p\<lparr>hasPeerCh := d, freshCh := f, hasPeer := a\<rparr>) = act p" for a b d f
    by (auto simp: abs_pool_def act_def fun_eq_iff split: option.splits status.splits)
  consider "act p \<noteq> {}" "\<not> hasPeer p" | "act p = {}" "hasPeer p" | "hasPeer p \<longleftrightarrow> act p \<noteq> {}" by blast
  then show ?thesis
  proof cases
    case 1
    then have "checkHasPeers p = Some (p\<lparr>hasPeer := True, closedChs := finsert (hasPeerCh p) (closedChs p)\<rparr>)"
      using c assms(2) by (auto simp: checkHasPeers_def chans_ok_def)
    then show ?thesis using assms 1 e by (auto simp: pool_inv_def chans_ok_def books_ok_def)
  next
    case 2
    then have "checkHasPeers p = Some (p\<lparr>hasPeerCh := freshCh p, freshCh := Suc (freshCh p), hasPeer := False\<rparr>)"
      using c by (auto simp: checkHasPeers_def)
    then show ?thesis using assms 2 e by (auto simp: pool_inv_def chans_ok_def books_ok_def less_Suc_eq)
  next
    case 3
    then have "checkHasPeers p = Some p" using c by (auto simp: checkHasPeers_def)
    then show ?thesis using assms 3 by (auto simp: pool_inv_def)
  qed
qed

section \<open>The operations refine their specifications\<close>

definition a_add :: "peerID \<Rightarrow> (peerID \<Rightarrow> apeer) \<Rightarrow> peerID \<Rightarrow> apeer" where
  "a_add x a = (if a x = Absent then a(x := Avail) else a)"

lemma activate_ok:
  assumes "books_ok T p" "abs_pool p x = Absent" "p' = p\<lparr>peersList := xs, statuses := fmupd x active (statuses p), activeCount := activeCount p + 1\<rparr>"
    and "distinct xs" "set xs = insert x (set (peersList p))"
  shows "books_ok T p'" "abs_pool p' = (abs_pool p)(x := Avail)" "same_chans p p'"
proof -
  have "act p' = insert x (act p)" "x \<notin> act p" using assms(2,3) by (auto simp: act_def act_abs abs_pool_def)
  then have "card (act p') = Suc (card (act p))" by simp
  moreover have "fmlookup (statuses p) x \<noteq> Some cooldown" using assms(2) by (auto simp: abs_pool_def)
  ultimately show "books_ok T p'" using assms by (auto simp: books_ok_def)
  show "abs_pool p' = (abs_pool p)(x := Avail)" using assms(3) by (auto simp: abs_pool_def fun_eq_iff split: option.splits status.splits)
  show "same_chans p p'" using assms(3) by (simp add: same_chans_def)
qed

lemma add_peer_ok:
  assumes "books_ok T p"
  shows "books_ok T (add_peer x p) \<and> abs_pool (add_peer x p) = a_add x (abs_pool p) \<and> same_chans p (add_peer x p)"
proof (cases "fmlookup (statuses p) x")
  case None
  then have "abs_pool p x = Absent" "x \<notin> set (peersList p)"
    using assms by (auto simp: abs_pool_def books_ok_def fmdom_notI)
  then show ?thesis using activate_ok [OF assms, of x "add_peer x p" "peersList p @ [x]"] assms None
    by (auto simp: add_peer_def a_add_def books_ok_def)
next
  case (Some st)
  show ?thesis
  proof (cases "st = removed")
    case True
    then have "abs_pool p x = Absent" "x \<in> set (peersList p)"
      using assms Some by (auto simp: abs_pool_def books_ok_def fmdomI)
    moreover have "add_peer x p = p\<lparr>peersList := peersList p, statuses := fmupd x active (statuses p), activeCount := activeCount p + 1\<rparr>"
      using Some True by (simp add: add_peer_def)
    ultimately show ?thesis using activate_ok [OF assms, of x "add_peer x p" "peersList p"] assms
      by (auto simp: a_add_def books_ok_def insert_absorb)
  next
    case False
    then have "abs_pool p x \<noteq> Absent" using Some by (cases st) (auto simp: abs_pool_def)
    then show ?thesis using False Some assms by (simp add: add_peer_def a_add_def same_chans_def)
  qed
qed

lemma fold_ok:
  assumes "\<And>x p. books_ok T p \<Longrightarrow> books_ok T (f x p) \<and> abs_pool (f x p) = g x (abs_pool p) \<and> same_chans p (f x p)"
    and "books_ok T p"
  shows "books_ok T (fold f xs p) \<and> abs_pool (fold f xs p) = fold g xs (abs_pool p) \<and> same_chans p (fold f xs p)"
  using assms(2)
proof (induction xs arbitrary: p)
  case (Cons x xs)
  then show ?case using assms(1) [of p x] Cons.IH [of "f x p"] same_chans_trans by (auto; blast)
qed (simp add: same_chans_def)

lemma pool_add_ok:
  assumes "pool_inv T p"
  shows "\<exists>p'. pool_add xs p = Some p' \<and> pool_inv T p' \<and> abs_pool p' = fold a_add xs (abs_pool p) \<and> ttl (cooldownQ p') = ttl (cooldownQ p)"
proof -
  have "books_ok T (fold add_peer xs p) \<and> abs_pool (fold add_peer xs p) = fold a_add xs (abs_pool p) \<and> same_chans p (fold add_peer xs p)"
    using assms by (intro fold_ok add_peer_ok) (auto simp: pool_inv_def)
  then show ?thesis
    using checkHasPeers_ok [of T "fold add_peer xs p"] same_chans_ok [of p "fold add_peer xs p"] assms
    by (auto simp: pool_add_def pool_inv_def same_chans_def)
qed

definition a_remove :: "peerID \<Rightarrow> (peerID \<Rightarrow> apeer) \<Rightarrow> peerID \<Rightarrow> apeer" where
  "a_remove x a = a(x := Absent)"

lemma since_item: "q_ok T q \<Longrightarrow> i \<in> set (items q) \<Longrightarrow> since q (item_ID i) = createdAt i"
proof -
  assume q: "q_ok T q" "i \<in> set (items q)"
  have "distinct (map fst (q_entries q))" using q(1) by (simp add: q_ok_def q_entries_def comp_def)
  moreover have "(item_ID i, createdAt i) \<in> set (q_entries q)" using q(2) by (auto simp: q_entries_def)
  ultimately show ?thesis by (simp add: since_def)
qed

lemma since_subset:
  assumes "q_ok T q" "q_ok T' q'" "set (items q') \<subseteq> set (items q)" "x \<in> item_ID ` set (items q')"
  shows "since q' x = since q x"
proof -
  obtain i where "i \<in> set (items q')" "x = item_ID i" using assms(4) by blast
  then show ?thesis using since_item [OF assms(1)] since_item [OF assms(2)] assms(3) by auto
qed

lemma remove_peer_ok:
  assumes "books_ok T p"
  shows "books_ok T (remove_peer now x p) \<and> abs_pool (remove_peer now x p) = a_remove x (abs_pool p) \<and> same_chans p (remove_peer now x p)"
proof (cases "pool_has x p")
  case False
  then have "remove_peer now x p = p" "abs_pool p x = Absent"
    by (auto simp: remove_peer_def pool_has_def abs_pool_def split: option.splits)
  then show ?thesis using assms by (auto simp: a_remove_def same_chans_def fun_eq_iff)
next
  case True
  then obtain st where st: "fmlookup (statuses p) x = Some st" "st \<noteq> removed" by (auto simp: pool_has_def split: option.splits)
  have q: "q_ok T (cooldownQ p)" using assms by (simp add: books_ok_def)
  define p' where "p' = remove_peer now x p"
  have f: "statuses p' = fmupd x removed (statuses p)" "cooldownQ p' = tq_remove now x (cooldownQ p)" "peersList p' = peersList p"
    "activeCount p' = (if st = active then activeCount p - 1 else activeCount p)"
    using st by (auto simp: p'_def remove_peer_def Let_def)
  have a: "act p' = act p - {x}" using f by (auto simp: act_def)
  have cd: "item_ID ` set (items (cooldownQ p')) = {y. fmlookup (statuses p') y = Some cooldown}"
    using assms f tq_remove_ok(2) [OF q] by (auto simp: books_ok_def)
  have xl: "insert x (fset (fmdom (statuses p))) = fset (fmdom (statuses p))" using st(1) by (auto simp: fmdomI)
  have "x \<in> act p \<longleftrightarrow> st = active" using st by (simp add: act_def)
  then have "activeCount p' = int (card (act p'))" using assms f(4) a card_gt_0_iff [of "act p"]
    by (auto simp: books_ok_def of_nat_diff)
  then have "books_ok T p'" using assms f cd xl tq_remove_ok(1) [OF q, of now x] by (simp add: books_ok_def)
  moreover have "abs_pool p' = a_remove x (abs_pool p)"
  proof
    fix y
    have "since (cooldownQ p') y = since (cooldownQ p) y" if "fmlookup (statuses p) y = Some cooldown" "y \<noteq> x"
    proof (rule since_subset [OF q])
      show "q_ok T (cooldownQ p')" using f(2) tq_remove_ok(1) [OF q] by simp
      show "set (items (cooldownQ p')) \<subseteq> set (items (cooldownQ p))" using f(2) tq_remove_ok(2) [OF q] by auto
      show "y \<in> item_ID ` set (items (cooldownQ p'))" using cd that f(1) by auto
    qed
    then show "abs_pool p' y = a_remove x (abs_pool p) y"
      using f(1) by (auto simp: abs_pool_def a_remove_def split: option.splits status.splits)
  qed
  moreover have "same_chans p p'" using st tq_remove_ok(3) [OF q] by (auto simp: p'_def remove_peer_def same_chans_def Let_def)
  ultimately show ?thesis by (simp add: p'_def)
qed

lemma cleanup_loop_spec:
  assumes "distinct rest"
  shows "cleanup_loop rest newList p = p\<lparr>peersList := newList @ filter (\<lambda>x. status_of p x \<noteq> removed) rest,
    statuses := fmfilter (\<lambda>x. \<not> (x \<in> set rest \<and> status_of p x = removed)) (statuses p)\<rparr>"
  using assms
proof (induction rest arbitrary: newList p)
  case Nil
  then show ?case by (auto intro: fmap_ext)
next
  case (Cons y rest)
  have y: "y \<notin> set rest" using Cons.prems by simp
  show ?case
  proof (cases "status_of p y = removed")
    case True
    let ?p = "p\<lparr>statuses := fmdrop y (statuses p)\<rparr>"
    have e: "status_of ?p x = status_of p x" if "x \<in> set rest" for x using that y by (auto simp: status_of_def)
    have "filter (\<lambda>x. status_of ?p x \<noteq> removed) rest = filter (\<lambda>x. status_of p x \<noteq> removed) rest"
      using e by (intro filter_cong) auto
    moreover have "fmfilter (\<lambda>x. \<not> (x \<in> set rest \<and> status_of ?p x = removed)) (statuses ?p) =
        fmfilter (\<lambda>x. \<not> (x \<in> set (y # rest) \<and> status_of p x = removed)) (statuses p)"
      by (rule fmap_ext) (use e True in auto)
    ultimately show ?thesis using Cons.IH [of newList ?p] Cons.prems True by (simp del: set_simps)
  next
    case False
    have "fmfilter (\<lambda>x. \<not> (x \<in> set rest \<and> status_of p x = removed)) (statuses p) =
        fmfilter (\<lambda>x. \<not> (x \<in> set (y # rest) \<and> status_of p x = removed)) (statuses p)"
      by (rule fmap_ext) (use False in auto)
    then show ?thesis using Cons.IH [of "newList @ [y]" p] Cons.prems False by simp
  qed
qed

lemma cleanup_ok:
  assumes "books_ok T p"
  shows "books_ok T (cleanup p) \<and> abs_pool (cleanup p) = abs_pool p \<and> same_chans p (cleanup p)"
proof -
  define S where "S = fmfilter (\<lambda>x. \<not> (x \<in> set (peersList p) \<and> status_of p x = removed)) (statuses p)"
  have c: "cleanup p = p\<lparr>peersList := filter (\<lambda>x. status_of p x \<noteq> removed) (peersList p), statuses := S\<rparr>"
    using cleanup_loop_spec [of "peersList p" "[]" p] assms by (simp add: cleanup_def books_ok_def S_def)
  have l: "fmlookup S x = (if fmlookup (statuses p) x = Some removed then None else fmlookup (statuses p) x)" for x
    using assms by (auto simp: S_def books_ok_def status_of_def fmdomI)
  have "fset (fmdom S) = {x. fmlookup S x \<noteq> None}" by (auto simp: fmlookup_dom_iff)
  also have "\<dots> = set (filter (\<lambda>x. status_of p x \<noteq> removed) (peersList p))"
    using assms by (auto simp: l books_ok_def status_of_def fmlookup_dom_iff split: option.splits)
  finally have d: "fset (fmdom S) = set (filter (\<lambda>x. status_of p x \<noteq> removed) (peersList p))" .
  have "act (cleanup p) = act p" "{x. fmlookup S x = Some cooldown} = {x. fmlookup (statuses p) x = Some cooldown}"
    using l by (auto simp: act_def c)
  then have "books_ok T (cleanup p)" using assms d by (auto simp: books_ok_def c)
  moreover have "abs_pool (cleanup p) = abs_pool p"
    using l by (auto simp: abs_pool_def c fun_eq_iff split: option.splits status.splits)
  ultimately show ?thesis by (simp add: c same_chans_def)
qed

lemma pool_remove_ok:
  assumes "pool_inv T p"
  shows "\<exists>p'. pool_remove now xs p = Some p' \<and> pool_inv T p' \<and> abs_pool p' = fold a_remove xs (abs_pool p) \<and> ttl (cooldownQ p') = ttl (cooldownQ p)"
proof -
  define p1 where "p1 = fold (remove_peer now) xs p"
  define p2 where "p2 = (if int (length (peersList p1)) \<ge> activeCount p1 + cleanupThreshold p1 then cleanup p1 else p1)"
  have 1: "books_ok T p1 \<and> abs_pool p1 = fold a_remove xs (abs_pool p) \<and> same_chans p p1"
    unfolding p1_def using assms by (intro fold_ok remove_peer_ok) (auto simp: pool_inv_def)
  then have 2: "books_ok T p2" "abs_pool p2 = abs_pool p1" "same_chans p p2"
    using cleanup_ok [of T p1] same_chans_trans [of p p1 "cleanup p1"] by (auto simp: p2_def)
  then have "chans_ok p2" using assms same_chans_ok by (simp add: pool_inv_def)
  then show ?thesis using checkHasPeers_ok [OF 2(1)] 1 2
    by (auto simp: pool_remove_def Let_def p1_def [symmetric] p2_def [symmetric] same_chans_def)
qed

definition a_cool :: "time \<Rightarrow> peerID \<Rightarrow> (peerID \<Rightarrow> apeer) \<Rightarrow> peerID \<Rightarrow> apeer" where
  "a_cool now x a = (if a x = Avail then a(x := Cooling now) else a)"

lemma putOnCooldown_ok:
  assumes "pool_inv T p" "T \<le> now"
  shows "\<exists>p'. putOnCooldown now x p = Some p' \<and> pool_inv now p' \<and> abs_pool p' = a_cool now x (abs_pool p) \<and> ttl (cooldownQ p') = ttl (cooldownQ p)"
proof (cases "fmlookup (statuses p) x = Some active")
  case False
  then have "abs_pool p x \<noteq> Avail" by (auto simp: act_abs [symmetric] act_def)
  then show ?thesis using False assms books_later by (auto simp: putOnCooldown_def a_cool_def pool_inv_def)
next
  case True
  have b: "books_ok T p" and q: "q_ok T (cooldownQ p)" using assms by (auto simp: pool_inv_def books_ok_def)
  have x: "x \<notin> item_ID ` set (items (cooldownQ p))" "x \<in> act p" using b True by (auto simp: books_ok_def act_def)
  define p1 where "p1 = p\<lparr>cooldownQ := tq_push now x (cooldownQ p), statuses := fmupd x cooldown (statuses p), activeCount := activeCount p - 1\<rparr>"
  note push = tq_push_ok [OF q assms(2) x(1)]
  have a: "act p1 = act p - {x}" by (auto simp: act_def p1_def)
  have "insert x (fset (fmdom (statuses p))) = fset (fmdom (statuses p))" using True by (auto simp: fmdomI)
  moreover have "activeCount p1 = int (card (act p1))" using b a x(2) card_gt_0_iff [of "act p"] by (auto simp: books_ok_def p1_def of_nat_diff)
  ultimately have b1: "books_ok now p1" using b push by (auto simp: books_ok_def p1_def)
  have since: "since (cooldownQ p1) y = (if y = x then now else since (cooldownQ p) y)" if "y = x \<or> y \<in> item_ID ` set (items (cooldownQ p))" for y
    using that since_item [OF push(1)] since_item [OF push(1), of "\<lparr>item_ID = x, createdAt = now\<rparr>"] since_item [OF q] x(1) push(2)
    by (auto simp: p1_def)
  have "abs_pool p1 = (abs_pool p)(x := Cooling now)"
  proof
    fix y
    have "fmlookup (statuses p) y = Some cooldown \<Longrightarrow> y \<in> item_ID ` set (items (cooldownQ p))" using b by (auto simp: books_ok_def)
    then show "abs_pool p1 y = ((abs_pool p)(x := Cooling now)) y"
      using since [of y] by (auto simp: abs_pool_def p1_def split: option.splits status.splits)
  qed
  moreover have "chans_ok p1" using assms by (simp add: pool_inv_def chans_ok_def p1_def)
  moreover have "abs_pool p x = Avail" using x(2) by (simp add: act_abs)
  ultimately show ?thesis using checkHasPeers_ok [OF b1] True push(3) by (auto simp: putOnCooldown_def p1_def a_cool_def)
qed

definition a_release :: "time \<Rightarrow> duration \<Rightarrow> (peerID \<Rightarrow> apeer) \<Rightarrow> peerID \<Rightarrow> apeer" where
  "a_release now d a x = (case a x of Cooling t \<Rightarrow> if now - t < d then Cooling t else Avail | s \<Rightarrow> s)"

lemma filter_since:
  assumes "q_ok T q"
  shows "x \<in> item_ID ` {i \<in> set (items q). P (createdAt i)} \<longleftrightarrow> x \<in> item_ID ` set (items q) \<and> P (since q x)"
proof
  assume "x \<in> item_ID ` {i \<in> set (items q). P (createdAt i)}"
  then show "x \<in> item_ID ` set (items q) \<and> P (since q x)" using since_item [OF assms] by auto
next
  assume "x \<in> item_ID ` set (items q) \<and> P (since q x)"
  then obtain i where "i \<in> set (items q)" "x = item_ID i" "P (since q x)" by blast
  then show "x \<in> item_ID ` {i \<in> set (items q). P (createdAt i)}" using since_item [OF assms, of i] by simp
qed

lemma fold_activate:
  assumes "distinct xs"
  shows "\<exists>p'. fold release_peer xs p = p'
     \<and> (\<forall>y. fmlookup (statuses p') y = (if y \<in> set xs then Some active else fmlookup (statuses p) y))
     \<and> activeCount p' = activeCount p + int (length xs) \<and> peersList p' = peersList p \<and> same_chans p p'"
  using assms by (induction xs arbitrary: p) (auto simp: same_chans_def release_peer_def)

lemma releaseCooldown_ok:
  assumes "pool_inv T p" "T \<le> now"
  shows "\<exists>p'. releaseCooldown now p = Some p' \<and> pool_inv now p' \<and> abs_pool p' = a_release now (ttl (cooldownQ p)) (abs_pool p)
     \<and> ttl (cooldownQ p') = ttl (cooldownQ p)"
proof -
  have b: "books_ok T p" and q: "q_ok T (cooldownQ p)" using assms by (auto simp: pool_inv_def books_ok_def)
  let ?d = "ttl (cooldownQ p)" and ?q = "cooldownQ p"
  define ex where "ex = map item_ID (filter (\<lambda>i. \<not> now - createdAt i < ?d) (items ?q))"
  obtain q' where q': "releaseExpired now release_peer ?q p =
      (q', fold release_peer ex p)"
      "q_ok T q'" "ttl q' = ?d" "items q' = filter (\<lambda>i. now - createdAt i < ?d) (items ?q)"
    using releaseExpired_spec [OF q, of now release_peer p] unfolding ex_def by blast
  have di: "distinct (map item_ID (items ?q))" and cd: "item_ID ` set (items ?q) = {x. fmlookup (statuses p) x = Some cooldown}"
    using q b by (auto simp: q_ok_def books_ok_def)
  then have ex: "distinct ex" "set ex \<subseteq> {x. fmlookup (statuses p) x = Some cooldown}"
    by (auto simp: ex_def distinct_map inj_on_def)
  have mem: "x \<in> set ex \<longleftrightarrow> fmlookup (statuses p) x = Some cooldown \<and> \<not> now - since ?q x < ?d"
    "x \<in> item_ID ` set (items q') \<longleftrightarrow> fmlookup (statuses p) x = Some cooldown \<and> now - since ?q x < ?d" for x
    using filter_since [OF q, where P = "\<lambda>t. \<not> now - t < ?d"] filter_since [OF q, where P = "\<lambda>t. now - t < ?d"] cd q'(4)
    by (simp_all add: ex_def)
  obtain p1 where p1: "fold release_peer ex p = p1"
      "\<And>y. fmlookup (statuses p1) y = (if y \<in> set ex then Some active else fmlookup (statuses p) y)"
      "activeCount p1 = activeCount p + int (length ex)" "peersList p1 = peersList p" "same_chans p p1"
    using fold_activate [OF ex(1), of p] by blast
  define p2 where "p2 = p1\<lparr>cooldownQ := q'\<rparr>"
  have a: "act p2 = act p \<union> set ex" "act p \<inter> set ex = {}" using p1(2) ex(2) by (auto simp: act_def p2_def)
  have "card (act p2) = card (act p) + length ex" using a ex(1) by (simp add: card_Un_disjoint distinct_card)
  moreover have "fset (fmdom (statuses p1)) = fset (fmdom (statuses p))"
    using p1(2) ex(2) by (auto simp: fmlookup_dom_iff split: if_splits)
  moreover have "item_ID ` set (items q') = {x. fmlookup (statuses p1) x = Some cooldown}"
    using p1(2) mem by (auto split: if_splits)
  ultimately have b2: "books_ok now p2" using b p1 q'(2) assms(2) q_ok_later by (auto simp: books_ok_def p2_def)
  have ch: "chans_ok p2" using p1(5) assms(1) by (simp add: pool_inv_def chans_ok_def same_chans_def p2_def)
  have "abs_pool p2 x = a_release now ?d (abs_pool p) x" for x
    using p1(2) [of x] mem [of x] since_subset [OF q q'(2), of x] q'(4)
    by (auto simp: abs_pool_def a_release_def p2_def split: option.splits status.splits if_splits)
  then have "abs_pool p2 = a_release now ?d (abs_pool p)" by blast
  then show ?thesis using checkHasPeers_ok [OF b2 ch] q' p1(1) by (auto simp: releaseCooldown_def p2_def)
qed

lemmas pool_ops_ok = pool_add_ok pool_remove_ok putOnCooldown_ok releaseCooldown_ok

lemma newPool_ok: "pool_inv T (newPool d)" "abs_pool (newPool d) = (\<lambda>_. Absent)" "ttl (cooldownQ (newPool d)) = d"
  by (auto simp: pool_inv_def books_ok_def chans_ok_def newPool_def newTimedQueue_def q_ok_def act_def abs_pool_def)

lemma pool_inv_later: "pool_inv T p \<Longrightarrow> T \<le> T' \<Longrightarrow> pool_inv T' p"
  using books_later by (auto simp: pool_inv_def)

section \<open>Handing out peers\<close>

lemma rotate_onto: "k < l \<Longrightarrow> \<exists>i < l. (idx + i) mod l = (k :: nat)"
proof -
  assume k: "k < l"
  have "(idx + (k + (l - idx mod l)) mod l) mod l = (idx + (k + (l - idx mod l))) mod l" by (simp add: mod_simps)
  also have "\<dots> = (idx mod l + (k + (l - idx mod l))) mod l" by (simp add: mod_simps)
  also have "idx mod l + (k + (l - idx mod l)) = k + l" using k mod_less_divisor [of l idx] by linarith
  also have "(k + l) mod l = k" using k by simp
  finally show ?thesis using k by (intro exI [of _ "(k + (l - idx mod l)) mod l"]) simp
qed

lemma rotate_last: "idx < l \<Longrightarrow> i < l \<Longrightarrow> (Suc idx + i) mod l = idx \<Longrightarrow> i = l - 1"
  by (cases "Suc idx + i < l") (auto simp: mod_if split: if_splits)

lemma activeFrom_Some:
  assumes "books_ok T p" "activeFrom p idx = Some (x, j)"
  shows "x \<in> act p" "j < length (peersList p)" "x = peersList p ! j"
proof -
  let ?l = "length (peersList p)"
  have f: "find (\<lambda>j. status_of p (peersList p ! j) = active) (map (\<lambda>i. (idx + i) mod ?l) [0..<?l]) = Some j" and x: "x = peersList p ! j"
    using assms(2) by (auto simp: activeFrom_def Let_def)
  then have j: "status_of p (peersList p ! j) = active" "j < ?l" by (auto simp: find_Some_iff intro!: mod_less_divisor)
  then have "fmlookup (statuses p) (peersList p ! j) \<noteq> None" using assms(1) nth_mem [OF j(2)] by (auto simp: books_ok_def fmlookup_dom_iff)
  then show "x \<in> act p" "j < ?l" "x = peersList p ! j" using j x by (auto simp: act_def status_of_def split: option.splits)
qed

lemma activeFrom_finds:
  assumes b: "books_ok T p" and y: "y \<in> act p"
  shows "\<exists>x j. activeFrom p idx = Some (x, j)"
proof (rule ccontr)
  let ?l = "length (peersList p)"
  assume "\<not> ?thesis"
  then have n: "find (\<lambda>j. status_of p (peersList p ! j) = active) (map (\<lambda>i. (idx + i) mod ?l) [0..<?l]) = None"
    by (auto simp: activeFrom_def Let_def)
  have "y \<in> set (peersList p)" using b y by (auto simp: books_ok_def act_def fmdomI)
  then obtain k where k: "k < ?l" "peersList p ! k = y" by (auto simp: in_set_conv_nth)
  then obtain i where "i < ?l" "(idx + i) mod ?l = k" using rotate_onto by blast
  moreover have "status_of p y = active" using y by (simp add: act_def status_of_def)
  ultimately show False using n k by (force simp: find_None_iff)
qed

text \<open>From the position after an active peer, another one is found if there is one.\<close>

lemma activeFrom_next:
  assumes b: "books_ok T p" and idx: "idx < length (peersList p)" and y: "y \<in> act p" "y \<noteq> peersList p ! idx"
  shows "\<exists>x j. activeFrom p (idx + 1) = Some (x, j) \<and> x \<noteq> peersList p ! idx"
proof -
  let ?l = "length (peersList p)"
  obtain x j where f: "activeFrom p (idx + 1) = Some (x, j)" using activeFrom_finds [OF b y(1)] by blast
  note s = activeFrom_Some [OF b f]
  have "find (\<lambda>j. status_of p (peersList p ! j) = active) (map (\<lambda>i. (idx + 1 + i) mod ?l) [0..<?l]) = Some j"
    using f by (auto simp: activeFrom_def Let_def)
  then obtain i where i: "i < ?l" "(Suc idx + i) mod ?l = j" "\<And>i'. i' < i \<Longrightarrow> status_of p (peersList p ! ((Suc idx + i') mod ?l)) \<noteq> active"
    by (auto simp: find_Some_iff)
  have "j \<noteq> idx"
  proof
    assume "j = idx"
    then have il: "i = ?l - 1" using rotate_last [OF idx i(1)] i(2) by simp
    have "y \<in> set (peersList p)" using b y by (auto simp: books_ok_def act_def fmdomI)
    then obtain k where k: "k < ?l" "peersList p ! k = y" by (auto simp: in_set_conv_nth)
    then obtain i' where i': "i' < ?l" "(Suc idx + i') mod ?l = k" using rotate_onto by blast
    then have "i' \<noteq> i" using i(2) k(2) y(2) \<open>j = idx\<close> by auto
    then have "i' < i" using il i'(1) by simp
    moreover have "status_of p y = active" using y(1) by (simp add: act_def status_of_def)
    ultimately show False using i(3) i'(2) k(2) by blast
  qed
  then show ?thesis using f s b idx by (auto simp: books_ok_def nth_eq_iff_index_eq)
qed

lemma selectPeer_cases: "fst (selectPeer L x y c) = x \<or> fst (selectPeer L x y c) = y"
  by (auto simp: selectPeer_def Let_def split: prod.splits option.splits)

text \<open>With two or more peers available, the two candidates differ.\<close>

lemma tryGet_cases:
  assumes "books_ok T p"
  obtains (none) "tryGet L r1 r2 p c = (None, c)" "act p = {}"
  | (one) x where "tryGet L r1 r2 p c = (Some x, c)" "act p = {x}"
  | (two) x y z c' where "tryGet L r1 r2 p c = (Some z, c')" "x \<noteq> y" "x \<in> act p" "y \<in> act p" "selectPeer L x y c = (z, c')" "z \<in> act p"
proof (cases "act p = {}")
  case True
  then have "tryGet L r1 r2 p c = (None, c)" using books_count(2) [OF assms] by (simp add: tryGet_def)
  then show ?thesis using True that(1) by blast
next
  case False
  then obtain first idx where f: "activeFrom p (r1 mod length (peersList p)) = Some (first, idx)" using activeFrom_finds [OF assms] by blast
  note f' = activeFrom_Some [OF assms f]
  show ?thesis
  proof (cases "activeCount p = 1")
    case True
    then have "card (act p) = 1" using assms by (simp add: books_ok_def)
    then obtain z where z: "act p = {z}" by (rule card_1_singletonE)
    have "first \<in> {z}" using f'(1) unfolding z .
    then have "act p = {first}" using z by simp
    then show ?thesis using that(2) f True by (simp add: tryGet_def)
  next
    case one: False
    define peer_at where "peer_at = (\<lambda>k. case activeFrom p k of None \<Rightarrow> '''' | Some (x, _) \<Rightarrow> x)"
    define second where "second = (let draw = peer_at (r2 mod length (peersList p)) in if draw = first then peer_at (idx + 1) else draw)"
    have pa: "peer_at k \<in> act p" for k
      using activeFrom_finds [OF assms f'(1), of k] activeFrom_Some [OF assms, of k] by (auto simp: peer_at_def)
    have "\<not> act p \<subseteq> {first}" using one f'(1) assms by (auto simp: books_ok_def subset_singleton_iff)
    then obtain y where y: "y \<in> act p" "y \<noteq> peersList p ! idx" using f'(3) by auto
    then have "peer_at (idx + 1) \<noteq> first" using activeFrom_next [OF assms f'(2) y] f'(3) by (auto simp: peer_at_def)
    then have s: "second \<in> act p" "first \<noteq> second" using pa by (auto simp: second_def Let_def)
    have t: "tryGet L r1 r2 p c = (case selectPeer L first second c of (x, c') \<Rightarrow> (Some x, c'))"
      using f one False books_count(2) [OF assms] by (simp add: tryGet_def second_def peer_at_def Let_def)
    obtain z c' where z: "selectPeer L first second c = (z, c')" by fastforce
    have "z \<in> act p" using selectPeer_cases [of L first second c] z s(1) f'(1) by auto
    then show ?thesis using that(3) t z s f'(1) by simp
  qed
qed

end
