(* ===== verification/PeerPoolProperties.thy ===== *)
theory PeerPoolProperties
  imports PeerPoolProofs
begin

text \<open>
  What a peer pool promises: it behaves as a map from peers to their availability, hands out an available peer
  whenever there is one, wakes every caller that waits for one, and lets every peer cool down for no longer than
  the cooldown time. What the scores promise: priority for unknown peers, once, and positive scores.
\<close>

section \<open>The pool as a simulation\<close>

datatype pool_op = OpAdd "peerID list" | OpRemove "peerID list" | OpCool peerID | OpRelease

definition pool_step :: "time \<times> pool_op \<Rightarrow> time \<times> pool \<Rightarrow> (time \<times> pool) option" where
  "pool_step x s = map_option (Pair (fst x)) (case snd x of
     OpAdd xs \<Rightarrow> pool_add xs (snd s) | OpRemove xs \<Rightarrow> pool_remove (fst x) xs (snd s)
   | OpCool y \<Rightarrow> putOnCooldown (fst x) y (snd s) | OpRelease \<Rightarrow> releaseCooldown (fst x) (snd s))"

definition pool_spec :: "duration \<Rightarrow> time \<times> pool_op \<Rightarrow> (peerID \<Rightarrow> apeer) \<Rightarrow> peerID \<Rightarrow> apeer" where
  "pool_spec d x = (case snd x of
     OpAdd xs \<Rightarrow> fold a_add xs | OpRemove xs \<Rightarrow> fold a_remove xs
   | OpCool y \<Rightarrow> a_cool (fst x) y | OpRelease \<Rightarrow> a_release (fst x) d)"

interpretation ps: simulation pool_step "pool_spec d" "\<lambda>s. abs_pool (snd s)"
    "\<lambda>s. pool_inv (fst s) (snd s) \<and> ttl (cooldownQ (snd s)) = d" "\<lambda>x s. fst s \<le> fst x" for d
proof
  fix s :: "time \<times> pool" and x :: "time \<times> pool_op"
  assume s: "pool_inv (fst s) (snd s) \<and> ttl (cooldownQ (snd s)) = d" "fst s \<le> fst x"
  then have i: "pool_inv (fst x) (snd s)" using pool_inv_later by blast
  show "\<exists>s'. pool_step x s = Some s' \<and> (pool_inv (fst s') (snd s') \<and> ttl (cooldownQ (snd s')) = d)
      \<and> abs_pool (snd s') = pool_spec d x (abs_pool (snd s))"
    using pool_add_ok [OF i] pool_remove_ok [OF i, of "fst x"] putOnCooldown_ok [OF i order_refl] releaseCooldown_ok [OF i order_refl] s(1)
    by (cases "snd x") (fastforce simp: pool_step_def pool_spec_def)+
qed

lemma allowed_sorted:
  "sorted (T # map fst ops) \<Longrightarrow> allowed (\<lambda>x s. fst s \<le> fst x) pool_step ops (T, p)"
proof (induction ops arbitrary: T p)
  case (Cons x ops)
  have "\<And>s'. pool_step x (T, p) = Some s' \<Longrightarrow> fst s' = fst x" by (auto simp: pool_step_def)
  then show ?case using Cons by (auto split: option.splits)
qed simp

text \<open>What the code relies on of the LRU cache, seen through the entries it holds: a lookup returns the entry and drops
  none, an addition stores it, and may evict others.\<close>

definition lru_ok :: "'c lru \<Rightarrow> ('c \<Rightarrow> peerID \<Rightarrow> peerStat option) \<Rightarrow> bool" where
  "lru_ok L view \<longleftrightarrow> (\<forall>k c. fst (lru_Get L k c) = view c k \<and> view (snd (lru_Get L k c)) = view c)
     \<and> (\<forall>k v c. view (lru_Add L k v c) k = Some v)
     \<and> (\<forall>k k' v c. k' \<noteq> k \<longrightarrow> view (lru_Add L k v c) k' \<in> {view c k', None})"

lemma lru_simps:
  assumes "lru_ok L view"
  shows "lru_Get L k c = (r, c') \<Longrightarrow> r = view c k \<and> view c' = view c" "view (lru_Add L k v c) k = Some v"
    "view (lru_Add L k v c) k' = Some w \<Longrightarrow> k' \<noteq> k \<Longrightarrow> view c k' = Some w"
proof -
  show "lru_Get L k c = (r, c') \<Longrightarrow> r = view c k \<and> view c' = view c"
    using assms unfolding lru_ok_def by (metis fst_conv snd_conv)
  show "view (lru_Add L k v c) k = Some v" using assms unfolding lru_ok_def by blast
  show "view (lru_Add L k v c) k' = Some w \<Longrightarrow> k' \<noteq> k \<Longrightarrow> view c k' = Some w"
    using assms unfolding lru_ok_def by (metis empty_iff insert_iff option.distinct(1))
qed

definition positive :: "(peerID \<Rightarrow> peerStat option) \<Rightarrow> bool" where
  "positive v \<longleftrightarrow> (\<forall>k st. v k = Some st \<longrightarrow> 0 < score st)"

lemma positive_add:
  assumes "lru_ok L view" "positive (view c)" "0 < score st"
  shows "positive (view (lru_Add L k st c))"
  unfolding positive_def
proof (intro allI impI)
  fix k' w
  assume w: "view (lru_Add L k st c) k' = Some w"
  show "0 < score w"
    using w assms lru_simps(2) [OF assms(1), of k st c] lru_simps(3) [OF assms(1) w] by (cases "k' = k") (auto simp: positive_def)
qed

lemma positive_get:
  assumes "lru_ok L view" "positive (view c)" "lru_Get L k c = (r, c')"
  shows "positive (view c')" "r = Some st \<Longrightarrow> 0 < score st"
  using lru_simps(1) [OF assms(1,3)] assms(2) by (auto simp: positive_def)

section \<open>Properties\<close>

text \<open>C7. Any sequence of additions, removals, cooldowns and expiries, at times that do not go back, runs without
  closing a channel twice, and the pool does exactly what the map from peers to their availability does: an added peer
  becomes available if it was absent, a removed one absent, one put on cooldown cools from that moment if it was
  available, and an expiry makes available exactly those whose cooldown time has passed. Garbage collection
  of removed peers is invisible.\<close>

theorem pool_refines:
  assumes "sorted (T # map fst ops)" "pool_inv T p"
  shows "\<exists>T' p'. run_ops pool_step ops (T, p) = Some (T', p') \<and> pool_inv T' p'
    \<and> abs_pool p' = fold (pool_spec (ttl (cooldownQ p))) ops (abs_pool p)"
  using ps.runs [of "(T, p)" "ttl (cooldownQ p)" ops] allowed_sorted [OF assms(1), of p] assms(2) by auto

text \<open>The pool hands out a peer exactly when one is available, and hands out an available one. With two or more
  available, the choice is between two different peers.\<close>

theorem tryGet_correct:
  assumes "pool_inv T p"
  shows "case tryGet L r1 r2 p c of
      (None, c') \<Rightarrow> c' = c \<and> (\<forall>x. abs_pool p x \<noteq> Avail)
    | (Some x, c') \<Rightarrow> abs_pool p x = Avail \<and>
        ((\<forall>y. abs_pool p y = Avail \<longrightarrow> y = x) \<or>
         (\<exists>first second. first \<noteq> second \<and> abs_pool p first = Avail \<and> abs_pool p second = Avail \<and> (x, c') = selectPeer L first second c))"
proof -
  have b: "books_ok T p" using assms by (simp add: pool_inv_def)
  show ?thesis
  proof (cases rule: tryGet_cases [OF b, of L r1 r2 c, case_names none one two])
    case none
    then show ?thesis using act_abs [of _ p] by simp
  next
    case (one x)
    then have uniq: "\<forall>y. abs_pool p y = Avail \<longrightarrow> y = x" and av: "abs_pool p x = Avail" using act_abs [of _ p] by blast+
    show ?thesis unfolding one(1) prod.case option.case using av uniq by (intro conjI disjI1)
  next
    case (two x y z c')
    then have "abs_pool p x = Avail" "abs_pool p y = Avail" "abs_pool p z = Avail" using act_abs by simp_all
    then show ?thesis unfolding two(1) prod.case option.case using two(2,5) by metis
  qed
qed


text \<open>Every cooldown ends: while a peer cools down, the timer of the pool is set, to a moment no later than
  the end of that peer's cooldown; an expiry at that moment makes some peer available, and one at the end of
  the peer's cooldown or later makes the peer available.\<close>

theorem cooldown_ends:
  assumes "pool_inv T p" "abs_pool p x = Cooling t"
  shows "\<exists>m. after (cooldownQ p) = Some m \<and> m \<le> t + ttl (cooldownQ p)
    \<and> (T \<le> m \<longrightarrow> (\<exists>p' y. releaseCooldown m p = Some p' \<and> abs_pool p y \<noteq> Avail \<and> abs_pool p' y = Avail))
    \<and> (\<forall>now. T \<le> now \<longrightarrow> t + ttl (cooldownQ p) \<le> now \<longrightarrow> (\<exists>p'. releaseCooldown now p = Some p' \<and> abs_pool p' x = Avail))"
proof -
  let ?q = "cooldownQ p"
  have b: "books_ok T p" and q: "q_ok T ?q" using assms by (auto simp: pool_inv_def books_ok_def)
  have "fmlookup (statuses p) x = Some cooldown" "since ?q x = t"
    using assms(2) by (auto simp: abs_pool_def split: option.splits status.splits)
  moreover from this(1) obtain i where "i \<in> set (items ?q)" "item_ID i = x" using b by (force simp: books_ok_def)
  ultimately have i: "i \<in> set (items ?q)" "item_ID i = x" "createdAt i = t" using since_item [OF q, of i] by auto
  then obtain j "is" where js: "items ?q = j # is" by (cases "items ?q") auto
  then have j: "createdAt j \<le> t" "after ?q = Some (createdAt j + ttl ?q)" using q i by (auto simp: q_ok_def)
  have "fmlookup (statuses p) (item_ID j) = Some cooldown" using b js by (auto simp: books_ok_def)
  then have cj: "abs_pool p (item_ID j) = Cooling (createdAt j)" using since_item [OF q] js by (simp add: abs_pool_def)
  have rel: "\<exists>p'. releaseCooldown now p = Some p' \<and> abs_pool p' y = Avail" if "T \<le> now" "s + ttl ?q \<le> now" "abs_pool p y = Cooling s" for now y s
    using releaseCooldown_ok [OF assms(1) that(1)] that by (auto simp: a_release_def)
  have "\<exists>p' y. releaseCooldown m p = Some p' \<and> abs_pool p y \<noteq> Avail \<and> abs_pool p' y = Avail" if "T \<le> m" "m = createdAt j + ttl ?q" for m
    using rel [OF that(1) _ cj] that(2) cj by force
  then show ?thesis using j rel [OF _ _ assms(2)] by (intro exI [of _ "createdAt j + ttl ?q"]) simp
qed

text \<open>Choosing between two peers: an unknown one is preferred to a known one and the first of two unknown ones
  is taken; of two known ones the one with the higher score wins. The chosen peer is known afterwards, so an
  unknown peer is preferred only once.\<close>

lemma selectPeer_correct:
  assumes "lru_ok L view" "x \<noteq> y"
  shows "let (z, c') = selectPeer L x y c in
     z = (case (view c x, view c y) of
            (None, _) \<Rightarrow> x | (Some _, None) \<Rightarrow> y | (Some a, Some b) \<Rightarrow> if score a < score b then y else x)
     \<and> view c' z \<noteq> None"
proof -
  obtain rx c1 where x: "lru_Get L x c = (rx, c1)" by fastforce
  obtain ry c2 where y: "lru_Get L y c1 = (ry, c2)" by fastforce
  have "rx = view c x" "ry = view c y" "view c2 = view c" using lru_simps(1) [OF assms(1)] x y by metis+
  then show ?thesis using assms(2) lru_simps(2) [OF assms(1)]
    by (auto simp: selectPeer_def x y Let_def split: option.splits)
qed

text \<open>Scores stay positive, whatever transfers and failures are reported; a failure lowers the score.\<close>

lemma scores_positive:
  assumes "lru_ok L view" "positive (view c)"
  shows "positive (view (updateStats L x st c)) \<and> positive (view (decreaseScore L x c)) \<and> positive (view (snd (selectPeer L x y c)))
    \<and> (\<forall>old. view c x = Some old \<longrightarrow> (\<exists>new. view (decreaseScore L x c) x = Some new \<and> score new < score old))"
proof -
  obtain r c1 where g: "lru_Get L x c = (r, c1)" by fastforce
  obtain r' c2 where g': "lru_Get L y c1 = (r', c2)" by fastforce
  note p = positive_get [OF assms g] and p' = positive_get [OF assms(1) positive_get(1) [OF assms g] g']
  note a = positive_add [OF assms(1) p(1)] and a' = positive_add [OF assms(1) p'(1)]
  have "positive (view (updateStats L x st c))"
  proof (cases "Bytes st \<le> 0 \<or> Duration st \<le> 0")
    case True
    then show ?thesis using assms(2) by (simp add: updateStats_def)
  next
    case False
    define rate where "rate = real_of_int (Bytes st) * 1000000000 / real_of_int (Duration st)"
    have "0 < rate" using False by (simp add: rate_def)
    moreover have "0 < s + peerScoreAlpha * (rate - s)" if "0 < s" for s
      using that \<open>0 < rate\<close> by (simp add: peerScoreAlpha_def field_simps)
    ultimately show ?thesis using p(2) False g
      by (auto simp: updateStats_def Let_def rate_def [symmetric] split: option.splits intro!: a)
  qed
  moreover have "positive (view (decreaseScore L x c))" using p(2) g
    by (auto simp: decreaseScore_def Let_def peerScoreDecay_def defaultPeerScore_def split: option.splits intro!: a)
  moreover have "positive (view (snd (selectPeer L x y c)))"
    using a' p'(1) by (auto simp: selectPeer_def g g' Let_def defaultPeerScore_def split: option.splits)
  moreover have "\<exists>new. view (decreaseScore L x c) x = Some new \<and> score new < score old" if "view c x = Some old" for old
    using that assms(2) lru_simps(1) [OF assms(1) g] lru_simps(2) [OF assms(1)] g
    by (auto simp: decreaseScore_def Let_def positive_def peerScoreDecay_def)
  ultimately show ?thesis by blast
qed

section \<open>The properties on small pools\<close>

definition demo_lru :: "(peerID, peerStat) fmap lru" where
  "demo_lru = \<lparr>lru_Get = (\<lambda>k c. (fmlookup c k, c)), lru_Add = fmupd\<rparr>"

lemma demo_lru_ok: "lru_ok demo_lru fmlookup"
  by (simp add: lru_ok_def demo_lru_def)

definition demo_ops :: "(time \<times> pool_op) list" where
  "demo_ops = [(1, OpAdd [''a'', ''b'', ''c'']), (2, OpCool ''a''), (3, OpRemove [''b'']), (5, OpRelease), (6, OpCool ''c'')]"

theorem pool_refines_witness:
  "\<exists>T' p'. run_ops pool_step demo_ops (0, newPool 3) = Some (T', p') \<and> abs_pool p' ''a'' = Avail \<and> abs_pool p' ''b'' = Absent
     \<and> abs_pool p' ''c'' = Cooling 6"
proof -
  have "sorted (0 # map fst demo_ops)" by (simp add: demo_ops_def)
  from pool_refines [OF this newPool_ok(1)] obtain T' p' where r: "run_ops pool_step demo_ops (0, newPool 3) = Some (T', p')"
      "abs_pool p' = fold (pool_spec 3) demo_ops (\<lambda>_. Absent)"
    using newPool_ok(2,3) by metis
  have "fold (pool_spec 3) demo_ops (\<lambda>_. Absent) ''a'' = Avail" "fold (pool_spec 3) demo_ops (\<lambda>_. Absent) ''b'' = Absent"
    "fold (pool_spec 3) demo_ops (\<lambda>_. Absent) ''c'' = Cooling 6"
    by (simp_all add: demo_ops_def pool_spec_def a_add_def a_remove_def a_cool_def a_release_def)
  then show ?thesis using r by auto
qed

text \<open>A pool in which \<^verbatim>\<open>a\<close> cools down since 2 and \<^verbatim>\<open>c\<close> is available.\<close>

definition demo_pool :: pool where
  "demo_pool = the (Option.bind (pool_add [''a'', ''c''] (newPool 3)) (putOnCooldown 2 ''a''))"

lemma demo_pool_ok: "pool_inv 2 demo_pool" "abs_pool demo_pool = (\<lambda>_. Absent)(''a'' := Cooling 2, ''c'' := Avail)"
  "ttl (cooldownQ demo_pool) = 3"
proof -
  obtain p1 where p1: "pool_add [''a'', ''c''] (newPool 3) = Some p1" "pool_inv 0 p1" "ttl (cooldownQ p1) = 3"
      "abs_pool p1 = fold a_add [''a'', ''c''] (\<lambda>_. Absent)"
    using pool_add_ok [OF newPool_ok(1) [of 0 3], of "[''a'', ''c'']"] newPool_ok(2,3) [of 3] by metis
  obtain p2 where p2: "putOnCooldown 2 ''a'' p1 = Some p2" "pool_inv 2 p2" "ttl (cooldownQ p2) = 3" "abs_pool p2 = a_cool 2 ''a'' (abs_pool p1)"
    using putOnCooldown_ok [OF p1(2), of 2 "''a''"] p1(3) by auto
  have "demo_pool = p2" using p1(1) p2(1) by (simp add: demo_pool_def)
  then show "pool_inv 2 demo_pool" "abs_pool demo_pool = (\<lambda>_. Absent)(''a'' := Cooling 2, ''c'' := Avail)" "ttl (cooldownQ demo_pool) = 3"
    using p1(4) p2 by (auto simp: a_cool_def a_add_def)
qed

theorem tryGet_correct_witness: "fst (tryGet demo_lru 5 7 demo_pool fmempty) = Some ''c''"
proof -
  obtain r c' where t: "tryGet demo_lru 5 7 demo_pool fmempty = (r, c')" by fastforce
  note c = tryGet_correct [OF demo_pool_ok(1), where L = demo_lru and ?r1.0 = 5 and ?r2.0 = 7 and c = fmempty, unfolded t prod.case]
  have "abs_pool demo_pool ''c'' = Avail" "\<And>x. abs_pool demo_pool x = Avail \<Longrightarrow> x = ''c''"
    using demo_pool_ok(2) by (auto split: if_splits)
  note av = this
  show ?thesis
  proof (cases r)
    case None
    then show ?thesis using c av(1) by simp
  next
    case (Some x)
    then have "abs_pool demo_pool x = Avail" using c by (simp only: option.case)
    then show ?thesis using av(2) Some t by simp
  qed
qed


theorem cooldown_ends_witness: "\<exists>p'. releaseCooldown 5 demo_pool = Some p' \<and> abs_pool p' ''a'' = Avail"
  using cooldown_ends [OF demo_pool_ok(1), of "''a''" 2] demo_pool_ok(2,3) by auto

end
