(* ===== verification/PeerManager.thy ===== *)
theory PeerManager
  imports PeerPoolProofs "HOL-Library.Monad_Syntax"
begin

text \<open>
  The peer manager of the shrex client (\<^verbatim>\<open>share/shwap/p2p/shrex/peers/manager.go\<close>, \<^verbatim>\<open>options.go\<close>): a pool of
  discovered nodes, a pool per data hash announced over shrexsub, their validation by headers, and the
  blacklisting of peers that announce hashes no header confirms. The caches, the connection gater and what
  happens while a caller waits are parameters. Every operation returns an option; \<open>None\<close> is a panic of a pool.
\<close>

section \<open>Parameters and state\<close>

record peers_Parameters =
  PoolValidationTimeout :: duration
  PeerCooldown :: duration
  GcInterval :: duration
  EnableBlackListing :: bool

definition peers_Parameters_Validate :: "peers_Parameters \<Rightarrow> bool" where
  "peers_Parameters_Validate p \<longleftrightarrow> \<not> PoolValidationTimeout p \<le> 0 \<and> \<not> PeerCooldown p \<le> 0 \<and> \<not> GcInterval p \<le> 0"

definition peers_DefaultParameters :: peers_Parameters where
  "peers_DefaultParameters = \<lparr>PoolValidationTimeout = 2 * 60 * 10 ^ 9, PeerCooldown = 3 * 10 ^ 9, GcInterval = 30 * 10 ^ 9,
     EnableBlackListing = False\<rparr>"

definition storedPoolsAmount :: u64 where "storedPoolsAmount = 10"

record syncPool =
  spool :: pool
  isValidatedDataHash :: bool
  sp_height :: u64
  sp_createdAt :: time

text \<open>\<open>gater\<close> is the connection gater, \<open>withSub\<close> whether the manager has a shrexsub and a header subscription.\<close>

record ('c, 'g, 'b) manager =
  mparams :: peers_Parameters
  withSub :: bool
  gater :: 'g
  pools :: "(string, syncPool) fmap"
  initialHeight :: u64
  storeFrom :: u64
  nodes :: pool
  stats :: 'c
  blacklistedHashes :: 'b

record ('c, 'g, 'b) externals =
  ext_lru :: "'c lru"
  BlockPeer :: "peerID \<Rightarrow> 'g \<Rightarrow> 'g"
  InterceptPeerDial :: "peerID \<Rightarrow> 'g \<Rightarrow> bool"
  bh_Contains :: "string \<Rightarrow> 'b \<Rightarrow> bool"
  bh_Add :: "string \<Rightarrow> 'b \<Rightarrow> 'b"
  host_ID :: peerID

definition NewManager :: "peers_Parameters \<Rightarrow> bool \<Rightarrow> 'g \<Rightarrow> 'c \<Rightarrow> 'b \<Rightarrow> ('c, 'g, 'b) manager option" where
  "NewManager params sub g c b =
     (if \<not> peers_Parameters_Validate params then None
      else Some \<lparr>mparams = params, withSub = sub, gater = g, pools = fmempty, initialHeight = 0, storeFrom = 0,
                 nodes = newPool (PeerCooldown params), stats = c, blacklistedHashes = b\<rparr>)"

section \<open>Pools by data hash\<close>

definition getPool :: "string \<Rightarrow> ('c, 'g, 'b) manager \<Rightarrow> syncPool option" where
  "getPool datahash m = fmlookup (pools m) datahash"

definition getOrCreatePool :: "time \<Rightarrow> string \<Rightarrow> u64 \<Rightarrow> ('c, 'g, 'b) manager \<Rightarrow> syncPool \<times> ('c, 'g, 'b) manager" where
  "getOrCreatePool now datahash height m =
     (case fmlookup (pools m) datahash of
        Some p \<Rightarrow> (p, m)
      | None \<Rightarrow>
          let p = \<lparr>spool = newPool (PeerCooldown (mparams m)), isValidatedDataHash = False, sp_height = height, sp_createdAt = now\<rparr> in
          (p, m\<lparr>pools := fmupd datahash p (pools m)\<rparr>))"

text \<open>\<open>order\<close> is the order in which the peers of the pool are listed.\<close>

definition validatedPool :: "peerID list \<Rightarrow> time \<Rightarrow> string \<Rightarrow> u64 \<Rightarrow> ('c, 'g, 'b) manager \<Rightarrow> (syncPool \<times> ('c, 'g, 'b) manager) option" where
  "validatedPool order now hashStr height m =
     (let (p, m1) = getOrCreatePool now hashStr height m in
      if isValidatedDataHash p then Some (p, m1)
      else do {
        n \<leftarrow> pool_add (pool_peers order (spool p)) (nodes m1);
        let p1 = p\<lparr>isValidatedDataHash := True\<rparr>;
        Some (p1, m1\<lparr>pools := fmupd hashStr p1 (pools m1), nodes := n\<rparr>)
      })"

definition isBlacklistedPeer :: "('c, 'g, 'b) externals \<Rightarrow> peerID \<Rightarrow> ('c, 'g, 'b) manager \<Rightarrow> bool" where
  "isBlacklistedPeer E peerID m \<longleftrightarrow> \<not> InterceptPeerDial E peerID (gater m)"

definition isBlacklistedHash :: "('c, 'g, 'b) externals \<Rightarrow> string \<Rightarrow> ('c, 'g, 'b) manager \<Rightarrow> bool" where
  "isBlacklistedHash E hash m \<longleftrightarrow> bh_Contains E hash (blacklistedHashes m)"

text \<open>The pool is the one of the hash; it is written back.\<close>

definition removeIfUnreachable ::
    "('c, 'g, 'b) externals \<Rightarrow> time \<Rightarrow> string \<Rightarrow> syncPool \<Rightarrow> peerID \<Rightarrow> ('c, 'g, 'b) manager \<Rightarrow> (bool \<times> ('c, 'g, 'b) manager) option" where
  "removeIfUnreachable E now datahash p peerID m =
     (if isBlacklistedPeer E peerID m \<or> \<not> pool_has peerID (nodes m) then do {
        q \<leftarrow> pool_remove now [peerID] (spool p);
        Some (True, m\<lparr>pools := fmupd datahash (p\<lparr>spool := q\<rparr>) (pools m)\<rparr>)
      } else Some (False, m))"

section \<open>Getting a peer\<close>

datatype peerSource = sourceShrexSub | sourceDiscoveredNodes

text \<open>What ends a wait, and what a turn of \<^verbatim>\<open>Peer\<close> leads to. A peer that comes from the caller's pool comes with whether
  that pool is still the one of the data hash, or was dropped by the garbage collection meanwhile.\<close>

datatype woken = FromPool peerID bool | FromNodes peerID | CtxDone

datatype 'm outcome = Return "(peerID \<times> peerSource) option" 'm | Again 'm

text \<open>The world during a turn of \<^verbatim>\<open>Peer\<close>: the clock, the draws, and the wait, during which the manager may change.\<close>

record 'm peer_turn =
  pt_now :: time
  pt_order :: "peerID list"
  pt_pool :: "nat \<times> nat"
  pt_nodes :: "nat \<times> nat"
  pt_wait :: "'m \<Rightarrow> woken \<times> 'm"

definition Peer_sub ::
    "('c, 'g, 'b) externals \<Rightarrow> time \<Rightarrow> string \<Rightarrow> bool \<Rightarrow> peerID \<Rightarrow> ('c, 'g, 'b) manager \<Rightarrow> ('c, 'g, 'b) manager outcome option" where
  "Peer_sub E now datahash current peerID m =
     (case (if current then getPool datahash m else None) of
        None \<Rightarrow> Some (if isBlacklistedPeer E peerID m \<or> \<not> pool_has peerID (nodes m) then Again m
                      else Return (Some (peerID, sourceShrexSub)) m)
      | Some p \<Rightarrow> do {
          (gone, m1) \<leftarrow> removeIfUnreachable E now datahash p peerID m;
          Some (if gone then Again m1 else Return (Some (peerID, sourceShrexSub)) m1)
        })"

definition Peer_nodes ::
    "('c, 'g, 'b) externals \<Rightarrow> ('c, 'g, 'b) manager peer_turn \<Rightarrow> string \<Rightarrow> ('c, 'g, 'b) manager \<Rightarrow> ('c, 'g, 'b) manager outcome option" where
  "Peer_nodes E t datahash m =
     (case tryGet (ext_lru E) (fst (pt_nodes t)) (snd (pt_nodes t)) (nodes m) (stats m) of
        (Some peerID, c) \<Rightarrow> Some (Return (Some (peerID, sourceDiscoveredNodes)) (m\<lparr>stats := c\<rparr>))
      | (None, c) \<Rightarrow>
          (case pt_wait t (m\<lparr>stats := c\<rparr>) of
             (FromPool peerID current, m1) \<Rightarrow> Peer_sub E (pt_now t) datahash current peerID m1
           | (FromNodes peerID, m1) \<Rightarrow> Some (Return (Some (peerID, sourceDiscoveredNodes)) m1)
           | (CtxDone, m1) \<Rightarrow> Some (Return None m1)))"

definition Peer_turn ::
    "('c, 'g, 'b) externals \<Rightarrow> ('c, 'g, 'b) manager peer_turn \<Rightarrow> string \<Rightarrow> u64 \<Rightarrow> ('c, 'g, 'b) manager
      \<Rightarrow> ('c, 'g, 'b) manager outcome option" where
  "Peer_turn E t datahash height m =
     (if withSub m then do {
        (p, m1) \<leftarrow> validatedPool (pt_order t) (pt_now t) datahash height m;
        case tryGet (ext_lru E) (fst (pt_pool t)) (snd (pt_pool t)) (spool p) (stats m1) of
          (Some peerID, c) \<Rightarrow> Peer_sub E (pt_now t) datahash True peerID (m1\<lparr>stats := c\<rparr>)
        | (None, c) \<Rightarrow> Peer_nodes E t datahash (m1\<lparr>stats := c\<rparr>)
      } else Peer_nodes E t datahash m)"

text \<open>The recursive calls of \<^verbatim>\<open>Peer\<close> are bounded by fuel.\<close>

fun Peer ::
    "('c, 'g, 'b) externals \<Rightarrow> (nat \<Rightarrow> ('c, 'g, 'b) manager peer_turn) \<Rightarrow> string \<Rightarrow> u64 \<Rightarrow> nat \<Rightarrow> nat \<Rightarrow> ('c, 'g, 'b) manager
      \<Rightarrow> ((peerID \<times> peerSource) option \<times> ('c, 'g, 'b) manager) option" where
  "Peer E ts datahash height fuel i m =
     (case Peer_turn E (ts i) datahash height m of
        None \<Rightarrow> None
      | Some (Return r m1) \<Rightarrow> Some (r, m1)
      | Some (Again m1) \<Rightarrow> (case fuel of 0 \<Rightarrow> None | Suc f \<Rightarrow> Peer E ts datahash height f (Suc i) m1))"

declare Peer.simps [simp del]

section \<open>Results of requests, blacklisting\<close>

datatype peer_result = ResultNoop | ResultCooldownPeer | ResultCooldownPeerNoPenalty | ResultBlacklistPeer

definition m_putOnCooldown :: "time \<Rightarrow> string \<Rightarrow> peerID \<Rightarrow> ('c, 'g, 'b) manager \<Rightarrow> ('c, 'g, 'b) manager option" where
  "m_putOnCooldown now datahash peerID m = do {
     n \<leftarrow> putOnCooldown now peerID (nodes m);
     let m1 = m\<lparr>nodes := n\<rparr>;
     case getPool datahash m1 of
       None \<Rightarrow> Some m1
     | Some p \<Rightarrow> do {
         q \<leftarrow> putOnCooldown now peerID (spool p);
         Some (m1\<lparr>pools := fmupd datahash (p\<lparr>spool := q\<rparr>) (pools m1)\<rparr>)
       }
   }"

fun blacklistPeers :: "('c, 'g, 'b) externals \<Rightarrow> time \<Rightarrow> peerID list \<Rightarrow> ('c, 'g, 'b) manager \<Rightarrow> ('c, 'g, 'b) manager option" where
  "blacklistPeers E now [] m = Some m"
| "blacklistPeers E now (peerID # peerIDs) m =
     (if \<not> EnableBlackListing (mparams m) then blacklistPeers E now peerIDs m
      else do {
        n \<leftarrow> pool_remove now [peerID] (nodes m);
        blacklistPeers E now peerIDs (m\<lparr>nodes := n, gater := BlockPeer E peerID (gater m)\<rparr>)
      })"

definition doneFunc ::
    "('c, 'g, 'b) externals \<Rightarrow> time \<Rightarrow> string \<Rightarrow> peerID \<Rightarrow> peer_result \<Rightarrow> TransferStats list \<Rightarrow> ('c, 'g, 'b) manager
      \<Rightarrow> ('c, 'g, 'b) manager option" where
  "doneFunc E now datahash peerID result transfers m =
     (case result of
        ResultNoop \<Rightarrow> Some (m\<lparr>stats := fold (updateStats (ext_lru E) peerID) transfers (stats m)\<rparr>)
      | ResultCooldownPeer \<Rightarrow> m_putOnCooldown now datahash peerID (m\<lparr>stats := decreaseScore (ext_lru E) peerID (stats m)\<rparr>)
      | ResultCooldownPeerNoPenalty \<Rightarrow> m_putOnCooldown now datahash peerID m
      | ResultBlacklistPeer \<Rightarrow> do {
          m1 \<leftarrow> m_putOnCooldown now datahash peerID m;
          blacklistPeers E now [peerID] m1
        })"

definition UpdateNodePool :: "('c, 'g, 'b) externals \<Rightarrow> time \<Rightarrow> peerID \<Rightarrow> bool \<Rightarrow> ('c, 'g, 'b) manager \<Rightarrow> ('c, 'g, 'b) manager option" where
  "UpdateNodePool E now peerID isAdded m =
     (if isAdded then
        (if isBlacklistedPeer E peerID m then Some m
         else do { n \<leftarrow> pool_add [peerID] (nodes m); Some (m\<lparr>nodes := n\<rparr>) })
      else do { n \<leftarrow> pool_remove now [peerID] (nodes m); Some (m\<lparr>nodes := n\<rparr>) })"

section \<open>Notifications, headers, disconnects\<close>

datatype validation = ValidationAccept | ValidationReject | ValidationIgnore

definition m_Validate ::
    "('c, 'g, 'b) externals \<Rightarrow> time \<Rightarrow> peerID \<Rightarrow> string \<Rightarrow> u64 \<Rightarrow> ('c, 'g, 'b) manager \<Rightarrow> (validation \<times> ('c, 'g, 'b) manager) option" where
  "m_Validate E now peerID datahash height m =
     (if peerID = host_ID E then Some (ValidationAccept, m)
      else if isBlacklistedHash E datahash m then Some (ValidationReject, m)
      else if isBlacklistedPeer E peerID m then Some (ValidationReject, m)
      else if height < storeFrom m then Some (ValidationIgnore, m)
      else do {
        let (p, m1) = getOrCreatePool now datahash height m;
        q \<leftarrow> pool_add [peerID] (spool p);
        let m2 = m1\<lparr>pools := fmupd datahash (p\<lparr>spool := q\<rparr>) (pools m1)\<rparr>;
        if isValidatedDataHash p then do {
          n \<leftarrow> pool_add [peerID] (nodes m2);
          Some (ValidationIgnore, m2\<lparr>nodes := n\<rparr>)
        } else Some (ValidationIgnore, m2)
      })"

text \<open>A turn of \<^verbatim>\<open>subscribeHeader\<close>. The conversion to \<^verbatim>\<open>int\<close> and the subtraction are those of 64-bit integers.\<close>

definition subscribeHeader :: "peerID list \<Rightarrow> time \<Rightarrow> string \<Rightarrow> u64 \<Rightarrow> ('c, 'g, 'b) manager \<Rightarrow> ('c, 'g, 'b) manager option" where
  "subscribeHeader order now datahash height m = do {
     (p, m1) \<leftarrow> validatedPool order now datahash height m;
     let m2 = (if initialHeight m1 = 0 then m1\<lparr>initialHeight := height\<rparr> else m1);
     Some (m2\<lparr>storeFrom := word_of_int (max 0 (sint (height - storedPoolsAmount)))\<rparr>)
   }"

definition subscribeDisconnectedPeers :: "time \<Rightarrow> peerID \<Rightarrow> ('c, 'g, 'b) manager \<Rightarrow> ('c, 'g, 'b) manager option" where
  "subscribeDisconnectedPeers now peer m =
     (if pool_has peer (nodes m) then do { n \<leftarrow> pool_remove now [peer] (nodes m); Some (m\<lparr>nodes := n\<rparr>) } else Some m)"

section \<open>Garbage collection\<close>

text \<open>The loop of \<^verbatim>\<open>cleanUp\<close> over the pools, in the order of \<open>hs\<close>, collecting the peers to blacklist.\<close>

fun cleanUp_loop :: "('c, 'g, 'b) externals \<Rightarrow> time \<Rightarrow> string list \<Rightarrow> ('c, 'g, 'b) manager \<Rightarrow> peerID fset \<Rightarrow> ('c, 'g, 'b) manager \<times> peerID fset" where
  "cleanUp_loop E now [] m bl = (m, bl)"
| "cleanUp_loop E now (h # hs) m bl =
     (case fmlookup (pools m) h of
        None \<Rightarrow> cleanUp_loop E now hs m bl
      | Some p \<Rightarrow>
          if isValidatedDataHash p then
            (if sp_height p < storeFrom m then cleanUp_loop E now hs (m\<lparr>pools := fmdrop h (pools m)\<rparr>) bl
             else cleanUp_loop E now hs m bl)
          else if sp_height p < initialHeight m then cleanUp_loop E now hs (m\<lparr>pools := fmdrop h (pools m)\<rparr>) bl
          else if now - sp_createdAt p > PoolValidationTimeout (mparams m) then
            cleanUp_loop E now hs (m\<lparr>pools := fmdrop h (pools m), blacklistedHashes := bh_Add E h (blacklistedHashes m)\<rparr>)
              (bl |\<union>| fset_of_list (peersSnapshot (spool p)))
          else cleanUp_loop E now hs m bl)"

definition cleanUp :: "('c, 'g, 'b) externals \<Rightarrow> time \<Rightarrow> string list \<Rightarrow> ('c, 'g, 'b) manager \<Rightarrow> ('c, 'g, 'b) manager \<times> peerID fset" where
  "cleanUp E now hs m = (if initialHeight m = 0 then (m, {||}) else cleanUp_loop E now hs m {||})"

text \<open>A tick of \<^verbatim>\<open>GC\<close>. \<open>list\<close> turns the set of peers into the list that the map iteration gives.\<close>

definition m_GC :: "('c, 'g, 'b) externals \<Rightarrow> (peerID fset \<Rightarrow> peerID list) \<Rightarrow> time \<Rightarrow> string list \<Rightarrow> ('c, 'g, 'b) manager
    \<Rightarrow> ('c, 'g, 'b) manager option" where
  "m_GC E list now hs m =
     (let (m1, bl) = cleanUp E now hs m in
      if bl \<noteq> {||} then blacklistPeers E now (list bl) m1 else Some m1)"

end
