(* ===== verification/PeerManagerProofs.thy ===== *)
theory PeerManagerProofs
  imports PeerManager
begin

text \<open>
  The invariant of the peer manager, kept by every handler: every pool is in order. No handler panics. Then what a call of
  \<^verbatim>\<open>Peer\<close> returns, that its recursion ends, and what the garbage collection keeps and blacklists.
\<close>

definition mgr_inv :: "time \<Rightarrow> ('c, 'g, 'b) manager \<Rightarrow> bool" where
  "mgr_inv T m \<longleftrightarrow> pool_inv T (nodes m) \<and> (\<forall>h p. fmlookup (pools m) h = Some p \<longrightarrow> pool_inv T (spool p))"

lemma mgr_inv_mono: "mgr_inv T m \<Longrightarrow> T \<le> T' \<Longrightarrow> mgr_inv T' m"
  using pool_inv_later unfolding mgr_inv_def by blast

lemma mgr_inv_pools: "mgr_inv T m \<Longrightarrow> pool_inv T (spool p) \<Longrightarrow> mgr_inv T (m\<lparr>pools := fmupd h p (pools m)\<rparr>)"
  by (simp add: mgr_inv_def)

lemma mgr_inv_nodes: "mgr_inv T m \<Longrightarrow> pool_inv T n \<Longrightarrow> mgr_inv T (m\<lparr>nodes := n\<rparr>)"
  by (simp add: mgr_inv_def)

lemma mgr_inv_simps [simp]:
  "mgr_inv T (m\<lparr>stats := c\<rparr>) = mgr_inv T m" "mgr_inv T (m\<lparr>gater := g\<rparr>) = mgr_inv T m" "mgr_inv T (m\<lparr>storeFrom := a\<rparr>) = mgr_inv T m"
  "mgr_inv T (m\<lparr>initialHeight := a\<rparr>) = mgr_inv T m" "mgr_inv T (m\<lparr>blacklistedHashes := b\<rparr>) = mgr_inv T m"
  by (simp_all add: mgr_inv_def)

lemma getOrCreatePool_ok:
  assumes "mgr_inv T m" "getOrCreatePool now h height m = (p, m1)"
  shows "mgr_inv T m1" "pool_inv T (spool p)" "fmlookup (pools m1) h = Some p" "nodes m1 = nodes m" "gater m1 = gater m" "withSub m1 = withSub m"
    "mparams m1 = mparams m" "stats m1 = stats m"
  using assms newPool_ok(1) by (auto simp: getOrCreatePool_def Let_def mgr_inv_def split: option.splits if_splits)

lemma validatedPool_ok:
  assumes "mgr_inv T m"
  shows "\<exists>p m1. validatedPool order now h height m = Some (p, m1) \<and> mgr_inv T m1 \<and> fmlookup (pools m1) h = Some p
    \<and> isValidatedDataHash p \<and> gater m1 = gater m \<and> withSub m1 = withSub m"
proof -
  obtain p m1 where g: "getOrCreatePool now h height m = (p, m1)" by fastforce
  note ok = getOrCreatePool_ok [OF assms g]
  have "pool_inv T (nodes m1)" using ok(1) by (simp add: mgr_inv_def)
  from pool_add_ok [OF this, of "pool_peers order (spool p)"]
  obtain n where "pool_add (pool_peers order (spool p)) (nodes m1) = Some n" "pool_inv T n" by blast
  then show ?thesis using g ok by (auto simp: validatedPool_def Let_def mgr_inv_def)
qed

lemma removeIfUnreachable_ok:
  assumes "mgr_inv T m" "fmlookup (pools m) h = Some p"
  shows "\<exists>gone m1. removeIfUnreachable E now h p x m = Some (gone, m1) \<and> mgr_inv T m1 \<and> nodes m1 = nodes m \<and> gater m1 = gater m
    \<and> withSub m1 = withSub m \<and> (\<not> gone \<longrightarrow> \<not> isBlacklistedPeer E x m1 \<and> pool_has x (nodes m1))
    \<and> (gone \<longrightarrow> (\<exists>q. fmlookup (pools m1) h = Some (p\<lparr>spool := q\<rparr>) \<and> abs_pool q = (abs_pool (spool p))(x := Absent)))"
proof -
  have "pool_inv T (spool p)" using assms by (auto simp: mgr_inv_def)
  from pool_remove_ok [OF this, of now "[x]"]
  obtain q where "pool_remove now [x] (spool p) = Some q" "pool_inv T q" "abs_pool q = (abs_pool (spool p))(x := Absent)"
    by (auto simp: a_remove_def)
  then show ?thesis using assms
    by (auto simp: removeIfUnreachable_def isBlacklistedPeer_def mgr_inv_def)
qed

text \<open>Whatever happens during a wait keeps the invariant.\<close>

definition waits_ok :: "time \<Rightarrow> ('c, 'g, 'b) manager peer_turn \<Rightarrow> bool" where
  "waits_ok T t \<longleftrightarrow> (\<forall>m. mgr_inv T m \<longrightarrow> mgr_inv T (snd (pt_wait t m)))"

fun outcome_ok :: "('c, 'g, 'b) externals \<Rightarrow> time \<Rightarrow> ('c, 'g, 'b) manager outcome \<Rightarrow> bool" where
  "outcome_ok E T (Again m) \<longleftrightarrow> mgr_inv T m"
| "outcome_ok E T (Return r m) \<longleftrightarrow> mgr_inv T m \<and>
     (\<forall>x. r = Some (x, sourceShrexSub) \<longrightarrow> \<not> isBlacklistedPeer E x m \<and> pool_has x (nodes m))"

lemma Peer_sub_ok:
  assumes "mgr_inv T m"
  shows "\<exists>r. Peer_sub E now h current x m = Some r \<and> outcome_ok E T r"
proof (cases "if current then getPool h m else None")
  case None
  then show ?thesis using assms by (auto simp: Peer_sub_def)
next
  case (Some p)
  then have "fmlookup (pools m) h = Some p" by (auto simp: getPool_def split: if_splits)
  from removeIfUnreachable_ok [OF assms this, of E now x] obtain gone m1 where
    "removeIfUnreachable E now h p x m = Some (gone, m1)" "mgr_inv T m1" "\<not> gone \<longrightarrow> \<not> isBlacklistedPeer E x m1 \<and> pool_has x (nodes m1)"
    by blast
  then show ?thesis using Some by (cases gone) (simp_all add: Peer_sub_def)
qed

lemma Peer_nodes_ok:
  assumes "mgr_inv T m" "waits_ok T t"
  shows "\<exists>r. Peer_nodes E t h m = Some r \<and> outcome_ok E T r"
proof -
  obtain r c where g: "tryGet (ext_lru E) (fst (pt_nodes t)) (snd (pt_nodes t)) (nodes m) (stats m) = (r, c)" by fastforce
  obtain w m1 where w: "pt_wait t (m\<lparr>stats := c\<rparr>) = (w, m1)" by fastforce
  have "mgr_inv T m1" using assms w by (auto simp: waits_ok_def dest!: spec [of _ "m\<lparr>stats := c\<rparr>"])
  then show ?thesis using assms(1) g w Peer_sub_ok [of T m1 E "pt_now t" h]
    by (cases r; cases w) (auto simp: Peer_nodes_def)
qed

lemma Peer_turn_ok:
  assumes "mgr_inv T m" "waits_ok T t"
  shows "\<exists>r. Peer_turn E t h height m = Some r \<and> outcome_ok E T r"
proof (cases "withSub m")
  case True
  obtain p m1 where v: "validatedPool (pt_order t) (pt_now t) h height m = Some (p, m1)" "mgr_inv T m1"
    using validatedPool_ok [OF assms(1)] by blast
  obtain r c where g: "tryGet (ext_lru E) (fst (pt_pool t)) (snd (pt_pool t)) (spool p) (stats m1) = (r, c)" by fastforce
  show ?thesis using v True g Peer_sub_ok [of T "m1\<lparr>stats := c\<rparr>" E "pt_now t" h True] Peer_nodes_ok [of T "m1\<lparr>stats := c\<rparr>" t E h] assms(2)
    by (cases r) (auto simp: Peer_turn_def)
next
  case False
  then show ?thesis using Peer_nodes_ok [OF assms] by (simp add: Peer_turn_def)
qed

section \<open>The handlers keep the invariant\<close>

lemma m_putOnCooldown_ok:
  assumes "mgr_inv T m"
  shows "\<exists>m'. m_putOnCooldown T h x m = Some m' \<and> mgr_inv T m'"
proof -
  obtain n where n: "putOnCooldown T x (nodes m) = Some n" "pool_inv T n"
    using putOnCooldown_ok [of T "nodes m" T x] assms by (auto simp: mgr_inv_def)
  show ?thesis
  proof (cases "fmlookup (pools m) h")
    case None
    then show ?thesis using n assms by (simp add: m_putOnCooldown_def getPool_def mgr_inv_nodes Let_def)
  next
    case (Some p)
    obtain q where "putOnCooldown T x (spool p) = Some q" "pool_inv T q"
      using putOnCooldown_ok [of T "spool p" T x] assms Some by (auto simp: mgr_inv_def)
    then show ?thesis using n assms Some by (simp add: m_putOnCooldown_def getPool_def Let_def mgr_inv_def)
  qed
qed

lemma nodes_add_ok: "mgr_inv T m \<Longrightarrow> \<exists>n. pool_add xs (nodes m) = Some n \<and> pool_inv T n \<and> abs_pool n = fold a_add xs (abs_pool (nodes m))"
  using pool_add_ok [of T "nodes m" xs] by (auto simp: mgr_inv_def)

lemma nodes_remove_ok: "mgr_inv T m \<Longrightarrow> \<exists>n. pool_remove now xs (nodes m) = Some n \<and> pool_inv T n \<and> abs_pool n = fold a_remove xs (abs_pool (nodes m))"
  using pool_remove_ok [of T "nodes m" now xs] by (auto simp: mgr_inv_def)

text \<open>Blacklisted peers leave the nodes; with blacklisting off nothing happens.\<close>

lemma blacklistPeers_ok:
  assumes "mgr_inv T m"
  shows "\<exists>m'. blacklistPeers E now xs m = Some m' \<and> mgr_inv T m' \<and> pools m' = pools m \<and> blacklistedHashes m' = blacklistedHashes m
    \<and> mparams m' = mparams m
    \<and> gater m' = (if EnableBlackListing (mparams m) then fold (BlockPeer E) xs (gater m) else gater m)
    \<and> abs_pool (nodes m') = (if EnableBlackListing (mparams m) then fold a_remove xs (abs_pool (nodes m)) else abs_pool (nodes m))"
  using assms
proof (induction xs arbitrary: m)
  case (Cons x xs)
  show ?case
  proof (cases "EnableBlackListing (mparams m)")
    case True
    obtain n where n: "pool_remove now [x] (nodes m) = Some n" "pool_inv T n" "abs_pool n = a_remove x (abs_pool (nodes m))"
      using nodes_remove_ok [OF Cons.prems, of now "[x]"] by auto
    show ?thesis using Cons.IH [of "m\<lparr>nodes := n, gater := BlockPeer E x (gater m)\<rparr>"] n True Cons.prems by (simp add: mgr_inv_def)
  next
    case False
    then show ?thesis using Cons.IH [OF Cons.prems] by simp
  qed
qed simp

lemma doneFunc_ok:
  assumes "mgr_inv T m"
  shows "\<exists>m'. doneFunc E T h x res ts m = Some m' \<and> mgr_inv T m'"
proof (cases res)
  case ResultBlacklistPeer
  obtain m1 where "m_putOnCooldown T h x m = Some m1" "mgr_inv T m1" using m_putOnCooldown_ok [OF assms] by blast
  then show ?thesis using blacklistPeers_ok [of T m1 E T "[x]"] ResultBlacklistPeer by (auto simp: doneFunc_def simp del: blacklistPeers.simps)
qed (use assms m_putOnCooldown_ok [of T m] m_putOnCooldown_ok [of T "m\<lparr>stats := decreaseScore (ext_lru E) x (stats m)\<rparr>"] in \<open>auto simp: doneFunc_def\<close>)

lemma UpdateNodePool_ok:
  assumes "mgr_inv T m"
  shows "\<exists>m'. UpdateNodePool E now x added m = Some m' \<and> mgr_inv T m'"
proof -
  obtain n where "pool_add [x] (nodes m) = Some n" "pool_inv T n" using nodes_add_ok [OF assms] by blast
  moreover obtain k where "pool_remove now [x] (nodes m) = Some k" "pool_inv T k" using nodes_remove_ok [OF assms] by blast
  ultimately show ?thesis using assms by (cases added) (auto simp: UpdateNodePool_def mgr_inv_nodes)
qed

lemma m_Validate_ok:
  assumes "mgr_inv T m"
  shows "\<exists>r m'. m_Validate E now x h height m = Some (r, m') \<and> mgr_inv T m'"
proof -
  obtain p m1 where g: "getOrCreatePool now h height m = (p, m1)" by fastforce
  note ok = getOrCreatePool_ok [OF assms g]
  obtain q where q: "pool_add [x] (spool p) = Some q" "pool_inv T q" using pool_add_ok [OF ok(2)] by blast
  have m2: "mgr_inv T (m1\<lparr>pools := fmupd h (p\<lparr>spool := q\<rparr>) (pools m1)\<rparr>)" using ok(1) q(2) by (simp add: mgr_inv_pools)
  obtain n where n: "pool_add [x] (nodes m1) = Some n" "pool_inv T n" using nodes_add_ok [OF ok(1)] by blast
  show ?thesis using assms g q m2 n by (auto simp: m_Validate_def Let_def mgr_inv_nodes)
qed

lemma subscribeHeader_ok:
  assumes "mgr_inv T m"
  shows "\<exists>m'. subscribeHeader order now h height m = Some m' \<and> mgr_inv T m'"
  using validatedPool_ok [OF assms, of order now h height] by (auto simp: subscribeHeader_def Let_def)

lemma subscribeDisconnectedPeers_ok:
  assumes "mgr_inv T m"
  shows "\<exists>m'. subscribeDisconnectedPeers now x m = Some m' \<and> mgr_inv T m'"
proof -
  obtain k where "pool_remove now [x] (nodes m) = Some k" "pool_inv T k" using nodes_remove_ok [OF assms] by blast
  then show ?thesis using assms by (auto simp: subscribeDisconnectedPeers_def mgr_inv_nodes)
qed

section \<open>Calls of Peer end\<close>

text \<open>The available peers of the pool of a data hash; a turn that has to start again has removed one of them.\<close>

definition available :: "string \<Rightarrow> ('c, 'g, 'b) manager \<Rightarrow> nat" where
  "available h m = (case fmlookup (pools m) h of None \<Rightarrow> 0 | Some p \<Rightarrow> card (act (spool p)))"

definition no_pool_wait :: "('c, 'g, 'b) manager peer_turn \<Rightarrow> bool" where
  "no_pool_wait t \<longleftrightarrow> (\<forall>m x current. fst (pt_wait t m) \<noteq> FromPool x current)"

lemma Peer_nodes_returns: "no_pool_wait t \<Longrightarrow> Peer_nodes E t h m \<noteq> Some (Again m1)"
  unfolding no_pool_wait_def Peer_nodes_def by (auto split: prod.splits option.splits woken.splits) (metis fst_conv)+

lemma validatedPool_available:
  assumes "validatedPool order now h height m = Some (p, m1)"
  shows "card (act (spool p)) = available h m"
proof -
  have "act (newPool d) = {}" for d by (simp add: act_def newPool_def)
  then show ?thesis using assms
    by (auto simp: validatedPool_def getOrCreatePool_def available_def Let_def bind_eq_Some_conv split: option.splits prod.splits if_splits)
qed

lemma Peer_turn_again:
  assumes "mgr_inv T m" "no_pool_wait t" "Peer_turn E t h height m = Some (Again m')"
  shows "available h m' < available h m"
proof -
  have sub: "withSub m" using assms(2,3) Peer_nodes_returns [OF assms(2)] by (auto simp: Peer_turn_def split: if_splits)
  obtain p m1 where v: "validatedPool (pt_order t) (pt_now t) h height m = Some (p, m1)" "mgr_inv T m1" "fmlookup (pools m1) h = Some p"
    using validatedPool_ok [OF assms(1)] by blast
  have pi: "books_ok T (spool p)" using v(2,3) by (auto simp: mgr_inv_def pool_inv_def)
  obtain r c where g: "tryGet (ext_lru E) (fst (pt_pool t)) (snd (pt_pool t)) (spool p) (stats m1) = (r, c)" by fastforce
  then obtain x where x: "r = Some x" using assms(3) sub v(1) Peer_nodes_returns [OF assms(2)] by (cases r) (auto simp: Peer_turn_def)
  have xa: "x \<in> act (spool p)"
    by (rule tryGet_cases [OF pi, of "ext_lru E" "fst (pt_pool t)" "snd (pt_pool t)" "stats m1"]) (use g x in auto)
  have "Peer_sub E (pt_now t) h True x (m1\<lparr>stats := c\<rparr>) = Some (Again m')" using assms(3) sub v(1) g x by (simp add: Peer_turn_def)
  then obtain gone where "removeIfUnreachable E (pt_now t) h p x (m1\<lparr>stats := c\<rparr>) = Some (gone, m')" "gone"
    using v(3) by (auto simp: Peer_sub_def getPool_def bind_eq_Some_conv split: if_splits)
  moreover obtain gone' m2 where "removeIfUnreachable E (pt_now t) h p x (m1\<lparr>stats := c\<rparr>) = Some (gone', m2)"
      "gone' \<longrightarrow> (\<exists>q. fmlookup (pools m2) h = Some (p\<lparr>spool := q\<rparr>) \<and> abs_pool q = (abs_pool (spool p))(x := Absent))"
    using removeIfUnreachable_ok [of T "m1\<lparr>stats := c\<rparr>" h p E "pt_now t" x] v(2,3) by auto
  ultimately obtain q where q: "fmlookup (pools m') h = Some (p\<lparr>spool := q\<rparr>)" "abs_pool q = (abs_pool (spool p))(x := Absent)" by auto
  have "act q = act (spool p) - {x}" using q(2) by (auto simp: act_abs split: if_splits)
  then have "card (act q) < card (act (spool p))" using xa by (metis finite_act card_Diff1_less)
  then show ?thesis using q(1) validatedPool_available [OF v(1)] by (simp add: available_def)
qed

lemma Peer_ends:
  assumes "mgr_inv T m" "\<And>i. no_pool_wait (ts i)" "\<And>i. waits_ok T (ts i)" "available h m \<le> fuel"
  shows "\<exists>r m'. Peer E ts h height fuel i m = Some (r, m') \<and> outcome_ok E T (Return r m')"
  using assms(1,4)
proof (induction fuel arbitrary: i m)
  case (0 i m)
  obtain r where "Peer_turn E (ts i) h height m = Some r" "outcome_ok E T r" using Peer_turn_ok [OF 0(1) assms(3)] by blast
  moreover have "\<nexists>m'. r = Again m'" using Peer_turn_again [OF 0(1) assms(2)] calculation(1) 0(2) by fastforce
  ultimately show ?case by (cases r) (auto simp: Peer.simps)
next
  case (Suc fuel i m)
  obtain r where r: "Peer_turn E (ts i) h height m = Some r" "outcome_ok E T r" using Peer_turn_ok [OF Suc.prems(1) assms(3)] by blast
  show ?case
  proof (cases r)
    case (Return a m1)
    then show ?thesis using r by (auto simp: Peer.simps)
  next
    case (Again m1)
    then have "available h m1 \<le> fuel" using Peer_turn_again [OF Suc.prems(1) assms(2)] r(1) Suc.prems(2) by fastforce
    then show ?thesis using Suc.IH [of m1 "Suc i"] r Again by (simp add: Peer.simps [of _ _ _ _ "Suc fuel"])
  qed
qed

section \<open>Garbage collection\<close>

definition late :: "time \<Rightarrow> ('c, 'g, 'b) manager \<Rightarrow> syncPool \<Rightarrow> bool" where
  "late now m p \<longleftrightarrow> \<not> isValidatedDataHash p \<and> initialHeight m \<le> sp_height p \<and> PoolValidationTimeout (mparams m) < now - sp_createdAt p"

definition kept :: "time \<Rightarrow> ('c, 'g, 'b) manager \<Rightarrow> syncPool \<Rightarrow> bool" where
  "kept now m p \<longleftrightarrow> (if isValidatedDataHash p then storeFrom m \<le> sp_height p else initialHeight m \<le> sp_height p \<and> \<not> late now m p)"

definition late_hashes :: "time \<Rightarrow> ('c, 'g, 'b) manager \<Rightarrow> string list \<Rightarrow> string list" where
  "late_hashes now m hs = filter (\<lambda>h. case fmlookup (pools m) h of None \<Rightarrow> False | Some p \<Rightarrow> late now m p) hs"

definition late_peers :: "time \<Rightarrow> ('c, 'g, 'b) manager \<Rightarrow> string list \<Rightarrow> peerID set" where
  "late_peers now m hs = (\<Union>h \<in> set (late_hashes now m hs). set (peersList (spool (the (fmlookup (pools m) h)))))"

lemma late_cong:
  assumes "\<And>h. h \<in> set hs \<Longrightarrow> fmlookup (pools m') h = fmlookup (pools m) h" "mparams m' = mparams m" "initialHeight m' = initialHeight m"
  shows "late_hashes now m' hs = late_hashes now m hs" "late_peers now m' hs = late_peers now m hs"
proof -
  have l: "late now m' p = late now m p" for p using assms(2,3) by (simp add: late_def)
  show lh: "late_hashes now m' hs = late_hashes now m hs"
    unfolding late_hashes_def l using assms(1) by (intro filter_cong) auto
  have "set (late_hashes now m hs) \<subseteq> set hs" by (auto simp: late_hashes_def)
  then show "late_peers now m' hs = late_peers now m hs" unfolding late_peers_def lh using assms(1) by (auto; metis subsetD)
qed

lemma cleanUp_loop_spec:
  assumes "distinct hs"
  shows "\<exists>m' bl'. cleanUp_loop E now hs m bl = (m', bl')
    \<and> (\<forall>h. fmlookup (pools m') h = (case fmlookup (pools m) h of None \<Rightarrow> None | Some p \<Rightarrow> if h \<in> set hs \<and> \<not> kept now m p then None else Some p))
    \<and> fset bl' = fset bl \<union> late_peers now m hs
    \<and> blacklistedHashes m' = fold (bh_Add E) (late_hashes now m hs) (blacklistedHashes m)
    \<and> nodes m' = nodes m \<and> gater m' = gater m \<and> mparams m' = mparams m \<and> withSub m' = withSub m \<and> storeFrom m' = storeFrom m"
  using assms
proof (induction hs arbitrary: m bl)
  case Nil
  then show ?case by (auto simp: late_peers_def late_hashes_def split: option.splits)
next
  case (Cons h hs)
  have h: "h \<notin> set hs" "distinct hs" using Cons.prems by auto
  show ?case
  proof (cases "\<exists>p. fmlookup (pools m) h = Some p \<and> \<not> kept now m p")
    case False
    then have e: "cleanUp_loop E now (h # hs) m bl = cleanUp_loop E now hs m bl"
      by (auto simp: kept_def late_def not_le not_less split: option.splits if_splits)
    have "late_hashes now m (h # hs) = late_hashes now m hs" "late_peers now m (h # hs) = late_peers now m hs"
      using False by (auto simp: late_hashes_def late_peers_def kept_def late_def split: option.splits if_splits)
    then show ?thesis unfolding e using Cons.IH [OF h(2), of m bl] False by (fastforce split: option.splits)
  next
    case True
    then obtain p where p: "fmlookup (pools m) h = Some p" "\<not> kept now m p" by blast
    define b where "b = (if late now m p then bh_Add E h (blacklistedHashes m) else blacklistedHashes m)"
    define bl1 where "bl1 = (if late now m p then bl |\<union>| fset_of_list (peersList (spool p)) else bl)"
    define m1 where "m1 = m\<lparr>pools := fmdrop h (pools m), blacklistedHashes := b\<rparr>"
    have e: "cleanUp_loop E now (h # hs) m bl = cleanUp_loop E now hs m1 bl1"
      using p by (auto simp: kept_def late_def m1_def b_def bl1_def peersSnapshot_def not_le not_less split: if_splits)
    have l: "late_hashes now m1 hs = late_hashes now m hs" "late_peers now m1 hs = late_peers now m hs"
      by (rule late_cong; use h(1) in \<open>auto simp: m1_def\<close>)+
    have k: "kept now m1 q = kept now m q" for q by (simp add: kept_def late_def m1_def)
    obtain m' bl' where r: "cleanUp_loop E now hs m1 bl1 = (m', bl')"
      "\<forall>h. fmlookup (pools m') h = (case fmlookup (pools m1) h of None \<Rightarrow> None | Some p \<Rightarrow> if h \<in> set hs \<and> \<not> kept now m1 p then None else Some p)"
      "fset bl' = fset bl1 \<union> late_peers now m1 hs" "blacklistedHashes m' = fold (bh_Add E) (late_hashes now m1 hs) (blacklistedHashes m1)"
      "nodes m' = nodes m1" "gater m' = gater m1" "mparams m' = mparams m1" "withSub m' = withSub m1" "storeFrom m' = storeFrom m1"
      using Cons.IH [OF h(2), of m1 bl1] by blast
    have "late_hashes now m (h # hs) = (if late now m p then h # late_hashes now m hs else late_hashes now m hs)"
      using p(1) by (simp add: late_hashes_def)
    moreover have "late_peers now m (h # hs) = (if late now m p then set (peersList (spool p)) \<union> late_peers now m hs else late_peers now m hs)"
      using p(1) calculation by (simp add: late_peers_def)
    moreover have "fmlookup (pools m') g = (case fmlookup (pools m) g of None \<Rightarrow> None | Some q \<Rightarrow> if g \<in> set (h # hs) \<and> \<not> kept now m q then None else Some q)" for g
      using r(2) p k by (auto simp: m1_def split: option.splits)
    ultimately show ?thesis unfolding e r(1)
      using r(3-) l by (auto simp: m1_def b_def bl1_def fset_of_list.rep_eq)
  qed
qed

lemma m_GC_ok:
  assumes "mgr_inv T m" "distinct hs"
  shows "\<exists>m'. m_GC E lst now hs m = Some m' \<and> mgr_inv T m'"
proof -
  obtain m1 bl where c: "cleanUp E now hs m = (m1, bl)" by fastforce
  have "mgr_inv T m1"
  proof (cases "initialHeight m = 0")
    case False
    then have "cleanUp_loop E now hs m {||} = (m1, bl)" using c by (simp add: cleanUp_def)
    then have "nodes m1 = nodes m" "\<And>h p. fmlookup (pools m1) h = Some p \<Longrightarrow> fmlookup (pools m) h = Some p"
      using cleanUp_loop_spec [OF assms(2), of E now m "{||}"] by (auto split: option.splits if_splits)
    then show ?thesis using assms(1) by (auto simp: mgr_inv_def)
  qed (use c assms(1) in \<open>simp add: cleanUp_def\<close>)
  then show ?thesis using c blacklistPeers_ok [of T m1 E now "lst bl"] by (auto simp: m_GC_def)
qed

end
