(* ===== verification/PeerManagerProperties.thy ===== *)
theory PeerManagerProperties
  imports PeerManagerProofs
begin

text \<open>
  What the peer manager promises: no sequence of events makes it panic, calls of \<^verbatim>\<open>Peer\<close> end and return reachable
  peers from shrexsub, failed peers are not handed out again until they cooled down, and the garbage
  collection drops and blacklists exactly what it should.
\<close>

section \<open>Events\<close>

datatype mgr_event =
  EvNotify peerID string u64 | EvHeader "peerID list" string u64 | EvDiscovery peerID bool | EvDisconnect peerID
| EvDone string peerID peer_result "TransferStats list" | EvGC "string list" | EvNodesTimer | EvPoolTimer string

definition mgr_step ::
    "('c, 'g, 'b) externals \<Rightarrow> (peerID fset \<Rightarrow> peerID list) \<Rightarrow> time \<times> mgr_event \<Rightarrow> time \<times> ('c, 'g, 'b) manager
      \<Rightarrow> (time \<times> ('c, 'g, 'b) manager) option" where
  "mgr_step E lst x s = map_option (Pair (fst x)) (case snd x of
     EvNotify p h height \<Rightarrow> map_option snd (m_Validate E (fst x) p h height (snd s))
   | EvHeader order h height \<Rightarrow> subscribeHeader order (fst x) h height (snd s)
   | EvDiscovery p added \<Rightarrow> UpdateNodePool E (fst x) p added (snd s)
   | EvDisconnect p \<Rightarrow> subscribeDisconnectedPeers (fst x) p (snd s)
   | EvDone h p res ts \<Rightarrow> doneFunc E (fst x) h p res ts (snd s)
   | EvGC hs \<Rightarrow> m_GC E lst (fst x) (remdups hs) (snd s)
   | EvNodesTimer \<Rightarrow> map_option (\<lambda>n. (snd s)\<lparr>nodes := n\<rparr>) (releaseCooldown (fst x) (nodes (snd s)))
   | EvPoolTimer h \<Rightarrow>
       (case getPool h (snd s) of
          None \<Rightarrow> Some (snd s)
        | Some p \<Rightarrow> map_option (\<lambda>q. (snd s)\<lparr>pools := fmupd h (p\<lparr>spool := q\<rparr>) (pools (snd s))\<rparr>) (releaseCooldown (fst x) (spool p))))"

lemma timers_ok:
  assumes "mgr_inv T m"
  shows "\<exists>n. releaseCooldown T (nodes m) = Some n \<and> mgr_inv T (m\<lparr>nodes := n\<rparr>)"
    "fmlookup (pools m) h = Some p \<Longrightarrow> \<exists>q. releaseCooldown T (spool p) = Some q \<and> mgr_inv T (m\<lparr>pools := fmupd h (p\<lparr>spool := q\<rparr>) (pools m)\<rparr>)"
proof -
  show "\<exists>n. releaseCooldown T (nodes m) = Some n \<and> mgr_inv T (m\<lparr>nodes := n\<rparr>)"
    using releaseCooldown_ok [of T "nodes m" T] assms mgr_inv_nodes [OF assms] by (auto simp: mgr_inv_def)
  assume "fmlookup (pools m) h = Some p"
  then show "\<exists>q. releaseCooldown T (spool p) = Some q \<and> mgr_inv T (m\<lparr>pools := fmupd h (p\<lparr>spool := q\<rparr>) (pools m)\<rparr>)"
    using releaseCooldown_ok [of T "spool p" T] assms by (fastforce simp: mgr_inv_def)
qed

interpretation ms: stable "mgr_step E lst" "\<lambda>s. mgr_inv (fst s) (snd s)" "\<lambda>x s. fst s \<le> fst x" for E lst
proof
  fix s :: "time \<times> ('a, 'b, 'c) manager" and x :: "time \<times> mgr_event"
  assume s: "mgr_inv (fst s) (snd s)" "fst s \<le> fst x"
  have i: "mgr_inv (fst x) (snd s)" using mgr_inv_mono s by blast
  show "\<exists>s'. mgr_step E lst x s = Some s' \<and> mgr_inv (fst s') (snd s')"
  proof (cases "snd x")
    case (EvNotify p h height)
    then show ?thesis using m_Validate_ok [OF i, of E "fst x" p h height] by (auto simp: mgr_step_def)
  next
    case (EvHeader order h height)
    then show ?thesis using subscribeHeader_ok [OF i, of order "fst x" h height] by (auto simp: mgr_step_def)
  next
    case (EvDiscovery p added)
    then show ?thesis using UpdateNodePool_ok [OF i, of E "fst x" p added] by (auto simp: mgr_step_def)
  next
    case (EvDisconnect p)
    then show ?thesis using subscribeDisconnectedPeers_ok [OF i, of "fst x" p] by (auto simp: mgr_step_def)
  next
    case (EvDone h p res ts)
    then show ?thesis using doneFunc_ok [OF i, of E h p res ts] by (auto simp: mgr_step_def)
  next
    case (EvGC hs)
    then show ?thesis using m_GC_ok [OF i, of "remdups hs" E lst "fst x"] by (auto simp: mgr_step_def)
  next
    case EvNodesTimer
    then show ?thesis using timers_ok(1) [OF i] by (auto simp: mgr_step_def)
  next
    case (EvPoolTimer h)
    then show ?thesis using timers_ok(2) [OF i, of h] i by (auto simp: mgr_step_def getPool_def split: option.splits; fastforce)
  qed
qed

lemma mgr_allowed: "sorted (T # map fst evs) \<Longrightarrow> allowed (\<lambda>x s. fst s \<le> fst x) (mgr_step E lst) evs (T, m)"
proof (induction evs arbitrary: T m)
  case (Cons x evs)
  have "\<And>s'. mgr_step E lst x (T, m) = Some s' \<Longrightarrow> fst s' = fst x" by (auto simp: mgr_step_def)
  then show ?case using Cons by (auto split: option.splits)
qed simp

section \<open>Properties\<close>

text \<open>C13. No sequence of notifications, headers, discoveries, disconnects, request results, garbage collections and
  expiring cooldowns makes a new manager panic, and it keeps every pool in order: counters, cooldown queues, timers
  and channels agree with the statuses of the peers.\<close>

theorem manager_never_panics:
  assumes "NewManager params sub g c b = Some m" "sorted (0 # map fst evs)"
  shows "\<exists>T' m'. run_ops (mgr_step E lst) evs (0, m) = Some (T', m') \<and> mgr_inv T' m'"
proof -
  have "mgr_inv 0 m" using assms(1) newPool_ok(1) by (auto simp: NewManager_def mgr_inv_def split: if_splits)
  then show ?thesis using ms.stays [where s = "(0, m)" and xs = evs and E = E and lst = lst] mgr_allowed [OF assms(2), of E lst m] by auto
qed



text \<open>C28. A peer whose request failed is not available any more, neither among the nodes nor in the pool of the data
  hash; a blacklisted one, with blacklisting on, is no node at all.\<close>

theorem failed_peer_unavailable:
  assumes "mgr_inv T m" "res \<noteq> ResultNoop"
  shows "\<exists>m'. doneFunc E T h x res ts m = Some m' \<and> abs_pool (nodes m') x \<noteq> Avail
    \<and> (\<forall>p. fmlookup (pools m') h = Some p \<longrightarrow> abs_pool (spool p) x \<noteq> Avail)
    \<and> (res = ResultBlacklistPeer \<longrightarrow> EnableBlackListing (mparams m) \<longrightarrow> abs_pool (nodes m') x = Absent)"
proof -
  have cool: "\<exists>m1. m_putOnCooldown T h x n = Some m1 \<and> mgr_inv T m1 \<and> mparams m1 = mparams n \<and> abs_pool (nodes m1) x \<noteq> Avail
      \<and> (\<forall>p. fmlookup (pools m1) h = Some p \<longrightarrow> abs_pool (spool p) x \<noteq> Avail)" if n: "mgr_inv T n" for n :: "('a, 'b, 'c) manager"
  proof -
    have a: "a_cool T x a x \<noteq> Avail" for a by (simp add: a_cool_def)
    obtain k where k: "putOnCooldown T x (nodes n) = Some k" "pool_inv T k" "abs_pool k = a_cool T x (abs_pool (nodes n))"
      using putOnCooldown_ok [of T "nodes n" T x] n by (auto simp: mgr_inv_def)
    show ?thesis
    proof (cases "fmlookup (pools n) h")
      case None
      then show ?thesis using k n a by (simp add: m_putOnCooldown_def getPool_def mgr_inv_nodes)
    next
      case (Some p)
      obtain q where "putOnCooldown T x (spool p) = Some q" "pool_inv T q" "abs_pool q = a_cool T x (abs_pool (spool p))"
        using putOnCooldown_ok [of T "spool p" T x] n Some by (auto simp: mgr_inv_def)
      then show ?thesis using k n a Some by (simp add: m_putOnCooldown_def getPool_def mgr_inv_def)
    qed
  qed
  consider "res = ResultCooldownPeer" | "res = ResultCooldownPeerNoPenalty" | "res = ResultBlacklistPeer" using assms(2) by (cases res) auto
  then show ?thesis
  proof cases
    case 1
    then show ?thesis using cool [of "m\<lparr>stats := decreaseScore (ext_lru E) x (stats m)\<rparr>"] assms(1) by (auto simp: doneFunc_def)
  next
    case 2
    then show ?thesis using cool [OF assms(1)] by (auto simp: doneFunc_def)
  next
    case 3
    obtain m1 where m1: "m_putOnCooldown T h x m = Some m1" "mgr_inv T m1" "mparams m1 = mparams m" "abs_pool (nodes m1) x \<noteq> Avail"
        "\<forall>p. fmlookup (pools m1) h = Some p \<longrightarrow> abs_pool (spool p) x \<noteq> Avail"
      using cool [OF assms(1)] by blast
    then show ?thesis using 3 blacklistPeers_ok [OF m1(2), of E T "[x]"]
      by (auto simp: doneFunc_def a_remove_def simp del: blacklistPeers.simps split: if_splits)
  qed
qed

text \<open>A header readmits blacklisted peers: a peer that announced the data hash before the header came is made
  available as a node when the header comes, although it was blacklisted and dropped in between.\<close>

theorem header_readmits_blacklisted:
  assumes "mgr_inv T m" "fmlookup (pools m) h = Some p" "\<not> isValidatedDataHash p" "pool_has x (spool p)" "x \<in> set order"
    and "isBlacklistedPeer E x m" "abs_pool (nodes m) x = Absent"
  shows "\<exists>m'. subscribeHeader order now h height m = Some m' \<and> isBlacklistedPeer E x m' \<and> abs_pool (nodes m') x = Avail"
proof -
  obtain n where n: "pool_add (pool_peers order (spool p)) (nodes m) = Some n"
      "abs_pool n = fold a_add (pool_peers order (spool p)) (abs_pool (nodes m))"
    using nodes_add_ok [OF assms(1)] by blast
  have avail: "fold a_add xs a y = Avail" if "a y = Avail" for xs y a
    using that by (induction xs arbitrary: a) (auto simp: a_add_def)
  have "fold a_add xs a x = Avail" if "x \<in> set xs" "a x = Absent" for xs a
    using that
  proof (induction xs arbitrary: a)
    case (Cons y xs)
    then show ?case using avail [of "a(x := Avail)" x xs] Cons.IH [of "a_add y a"] by (cases "y = x") (simp_all add: a_add_def [of _ a])
  qed simp
  moreover have "x \<in> set (pool_peers order (spool p))" using assms(4,5) by (auto simp: pool_peers_def pool_has_def split: option.splits)
  ultimately have "abs_pool n x = Avail" using n(2) assms(7) by simp
  then show ?thesis using n(1) assms(2,3,6)
    by (simp add: subscribeHeader_def validatedPool_def getOrCreatePool_def isBlacklistedPeer_def Let_def)
qed

section \<open>The properties on a small manager\<close>

definition demo_ext :: "(unit, peerID fset, string fset) externals" where
  "demo_ext = \<lparr>ext_lru = \<lparr>lru_Get = (\<lambda>k c. (None, c)), lru_Add = (\<lambda>k v c. c)\<rparr>, BlockPeer = finsert, InterceptPeerDial = (\<lambda>x g. x |\<notin>| g),
     bh_Contains = (\<lambda>h b. h |\<in>| b), bh_Add = finsert, host_ID = ''me''\<rparr>"

definition demo_mgr :: "(unit, peerID fset, string fset) manager" where
  "demo_mgr = the (NewManager (peers_DefaultParameters\<lparr>EnableBlackListing := True\<rparr>) True {||} () {||})"

lemma demo_mgr_new: "NewManager (peers_DefaultParameters\<lparr>EnableBlackListing := True\<rparr>) True {||} () {||} = Some demo_mgr"
  by (simp add: demo_mgr_def NewManager_def peers_Parameters_Validate_def peers_DefaultParameters_def)

lemma demo_mgr_simps [simp]: "withSub demo_mgr" "pools demo_mgr = fmempty" "nodes demo_mgr = newPool (3 * 10 ^ 9)" "stats demo_mgr = ()"
    "mparams demo_mgr = peers_DefaultParameters\<lparr>EnableBlackListing := True\<rparr>" "initialHeight demo_mgr = 0" "storeFrom demo_mgr = 0"
    "gater demo_mgr = {||}" "blacklistedHashes demo_mgr = {||}"
  by (simp_all add: demo_mgr_def NewManager_def peers_Parameters_Validate_def peers_DefaultParameters_def)


theorem manager_never_panics_witness:
  "\<exists>T' m'. run_ops (mgr_step demo_ext (\<lambda>_. [''a''])) [(1, EvNotify ''a'' ''h'' 5), (2, EvHeader [''a''] ''h'' 5),
      (3, EvDone ''h'' ''a'' ResultBlacklistPeer []), (9, EvGC [''h''])] (0, demo_mgr) = Some (T', m') \<and> mgr_inv T' m'"
  by (rule manager_never_panics [OF demo_mgr_new]) simp



text \<open>A pool announced by \<^verbatim>\<open>a\<close> at height 5, not yet validated.\<close>

definition demo_pool5 :: syncPool where
  "demo_pool5 = \<lparr>spool = the (pool_add [''a''] (newPool 3)), isValidatedDataHash = False, sp_height = 5, sp_createdAt = 0\<rparr>"

lemma demo_pool5_ok: "pool_inv T (spool demo_pool5)" "abs_pool (spool demo_pool5) ''a'' = Avail" "peersList (spool demo_pool5) = [''a'']"
proof -
  obtain q where q: "pool_add [''a''] (newPool 3) = Some q" "pool_inv T q" "abs_pool q = a_add ''a'' (\<lambda>_. Absent)"
    using pool_add_ok [OF newPool_ok(1) [of T 3], of "[''a'']"] newPool_ok(2) [of 3] by auto
  then show "pool_inv T (spool demo_pool5)" "abs_pool (spool demo_pool5) ''a'' = Avail" by (auto simp: demo_pool5_def a_add_def)
  show "peersList (spool demo_pool5) = [''a'']"
    by (simp add: demo_pool5_def pool_add_def add_peer_def newPool_def checkHasPeers_def)
qed

definition demo_mgr5 :: "(unit, peerID fset, string fset) manager" where
  "demo_mgr5 = demo_mgr\<lparr>pools := fmupd ''h'' demo_pool5 fmempty, initialHeight := 3, gater := {|''a''|}\<rparr>"

lemma demo_mgr5_inv: "mgr_inv T demo_mgr5"
  using newPool_ok(1) demo_pool5_ok(1) by (simp add: mgr_inv_def demo_mgr5_def)


theorem failed_peer_unavailable_witness:
  "\<exists>m'. doneFunc demo_ext 1 ''h'' ''a'' ResultBlacklistPeer [] demo_mgr5 = Some m' \<and> abs_pool (nodes m') ''a'' = Absent"
  using failed_peer_unavailable [OF demo_mgr5_inv [of 1], of ResultBlacklistPeer demo_ext "''h''" "''a''" "[]"]
  by (auto simp: demo_mgr5_def peers_DefaultParameters_def)

theorem header_readmits_blacklisted_witness:
  "\<exists>m'. subscribeHeader [''a''] 2 ''h'' 5 demo_mgr5 = Some m' \<and> isBlacklistedPeer demo_ext ''a'' m' \<and> abs_pool (nodes m') ''a'' = Avail"
proof (rule header_readmits_blacklisted [OF demo_mgr5_inv])
  show "pool_has ''a'' (spool demo_pool5)"
    using demo_pool5_ok(2) by (auto simp: pool_has_def abs_pool_def split: option.splits status.splits)
  show "abs_pool (nodes demo_mgr5) ''a'' = Absent" using newPool_ok(2) by (simp add: demo_mgr5_def)
qed (simp_all add: demo_mgr5_def demo_pool5_def isBlacklistedPeer_def demo_ext_def)

end
