(* ===== verification/AccessorCache.thy ===== *)
theory AccessorCache
  imports Prelude
begin

text \<open>
  The cache of open block files (\<^verbatim>\<open>store/cache\<close>): accessors with reference counts (\<^verbatim>\<open>accessor_cache.go\<close>), the
  sessions handed out to readers, and the cache with the goroutines that close what it evicts. The
  LRU cache is a parameter, as is what the loader and the underlying \<^verbatim>\<open>Close\<close> return. Accessors, sessions
  and channels live in a store and are referred to by numbers.
\<close>

section \<open>Accessors and sessions\<close>

text \<open>\<open>closes\<close> counts the calls of the underlying \<^verbatim>\<open>Close\<close>; a channel that was never made is \<open>None\<close>.\<close>

record accessor =
  acc_done :: "nat option"
  refs :: int
  isClosed :: bool
  closes :: nat

record refCloser =
  rc_accessor :: nat
  rc_closed :: bool

text \<open>A goroutine that closes an accessor, before taking the lock and while it waits for the channel; the height is
  the key to remove afterwards, when the closing is part of \<^verbatim>\<open>Remove\<close>.\<close>

datatype task = StartClose nat "u64 option" | WaitDone nat "nat option" "u64 option" | RemoveKey u64

record 'l cache_world =
  accessors :: "(nat, accessor) fmap"
  sessions :: "(nat, refCloser) fmap"
  chanNext :: nat
  chanClosed :: "nat fset"
  tasks :: "task list"
  lru :: 'l

definition ErrCacheMiss :: string where "ErrCacheMiss = ''accessor not found in cache''"

definition upd_accessor :: "nat \<Rightarrow> accessor \<Rightarrow> 'l cache_world \<Rightarrow> 'l cache_world" where
  "upd_accessor a ac w = w\<lparr>accessors := fmupd a ac (accessors w)\<rparr>"

definition addRef :: "nat \<Rightarrow> 'l cache_world \<Rightarrow> string option \<times> 'l cache_world" where
  "addRef a w =
     (let s = the (fmlookup (accessors w) a) in
      if isClosed s then (Some ErrCacheMiss, w)
      else
        let s1 = s\<lparr>refs := refs s + 1\<rparr> in
        if refs s1 = 1 then (None, upd_accessor a (s1\<lparr>acc_done := Some (chanNext w)\<rparr>) (w\<lparr>chanNext := Suc (chanNext w)\<rparr>))
        else (None, upd_accessor a s1 w))"

text \<open>Closing a channel that is \<open>nil\<close> or closed panics.\<close>

definition close_chan :: "nat option \<Rightarrow> 'l cache_world \<Rightarrow> 'l cache_world option" where
  "close_chan ch w =
     (case ch of
        None \<Rightarrow> None
      | Some c \<Rightarrow> if c |\<in>| chanClosed w then None else Some (w\<lparr>chanClosed := finsert c (chanClosed w)\<rparr>))"

definition removeRef :: "nat \<Rightarrow> 'l cache_world \<Rightarrow> 'l cache_world option" where
  "removeRef a w =
     (let s = the (fmlookup (accessors w) a);
          s1 = s\<lparr>refs := refs s - 1\<rparr>;
          w1 = upd_accessor a s1 w in
      if refs s1 \<le> 0 then close_chan (acc_done s1) w1 else Some w1)"

definition newRefCloser :: "nat \<Rightarrow> nat \<Rightarrow> 'l cache_world \<Rightarrow> (string + nat) \<times> 'l cache_world" where
  "newRefCloser rc a w =
     (case addRef a w of
        (Some e, w1) \<Rightarrow> (Inl e, w1)
      | (None, w1) \<Rightarrow> (Inr rc, w1\<lparr>sessions := fmupd rc \<lparr>rc_accessor = a, rc_closed = False\<rparr> (sessions w1)\<rparr>))"

definition refCloser_close :: "nat \<Rightarrow> 'l cache_world \<Rightarrow> (bool \<times> 'l cache_world) option" where
  "refCloser_close rc w =
     (let c = the (fmlookup (sessions w) rc) in
      if rc_closed c then Some (False, w)
      else map_option (Pair True)
             (removeRef (rc_accessor c) (w\<lparr>sessions := fmupd rc (c\<lparr>rc_closed := True\<rparr>) (sessions w)\<rparr>)))"

text \<open>\<^verbatim>\<open>close\<close> up to where it waits: nothing to do when another goroutine is closing the accessor.\<close>

definition close_begin :: "nat \<Rightarrow> 'l cache_world \<Rightarrow> nat option option \<times> 'l cache_world" where
  "close_begin a w =
     (let s = the (fmlookup (accessors w) a) in
      if isClosed s then (None, w)
      else (Some (acc_done s), upd_accessor a (s\<lparr>isClosed := True\<rparr>) w))"

text \<open>Whether the wait is over, and the call of the underlying \<^verbatim>\<open>Close\<close> that follows it.\<close>

definition close_ready :: "nat option \<Rightarrow> bool \<Rightarrow> 'l cache_world \<Rightarrow> bool" where
  "close_ready ch timeout w \<longleftrightarrow> timeout \<or> (case ch of None \<Rightarrow> False | Some c \<Rightarrow> c |\<in>| chanClosed w)"

definition close_end :: "nat \<Rightarrow> 'l cache_world \<Rightarrow> 'l cache_world" where
  "close_end a w = (let s = the (fmlookup (accessors w) a) in upd_accessor a (s\<lparr>closes := Suc (closes s)\<rparr>) w)"

section \<open>The cache\<close>

text \<open>The LRU cache of heights; adding and removing return the accessors that are evicted.\<close>

record 'l lru_cache =
  lc_Get :: "u64 \<Rightarrow> 'l \<Rightarrow> nat option \<times> 'l"
  lc_Contains :: "u64 \<Rightarrow> 'l \<Rightarrow> bool"
  lc_Add :: "u64 \<Rightarrow> nat \<Rightarrow> 'l \<Rightarrow> nat list \<times> 'l"
  lc_Remove :: "u64 \<Rightarrow> 'l \<Rightarrow> nat list \<times> 'l"

definition evictFn :: "nat list \<Rightarrow> 'l cache_world \<Rightarrow> 'l cache_world" where
  "evictFn acs w = w\<lparr>tasks := tasks w @ map (\<lambda>a. StartClose a None) acs\<rparr>"

definition cache_Has :: "'l lru_cache \<Rightarrow> u64 \<Rightarrow> 'l cache_world \<Rightarrow> bool" where
  "cache_Has L height w = lc_Contains L height (lru w)"

text \<open>\<open>rc\<close> is the name of the session made, if one is.\<close>

definition cache_Get :: "'l lru_cache \<Rightarrow> nat \<Rightarrow> u64 \<Rightarrow> 'l cache_world \<Rightarrow> (string + nat) \<times> 'l cache_world" where
  "cache_Get L rc height w =
     (case lc_Get L height (lru w) of
        (None, l) \<Rightarrow> (Inl ErrCacheMiss, w\<lparr>lru := l\<rparr>)
      | (Some ac, l) \<Rightarrow> newRefCloser rc ac (w\<lparr>lru := l\<rparr>))"

text \<open>\<open>loaded\<close> says whether the loader succeeds; \<open>new\<close> is the name of the accessor it makes.\<close>

definition cache_GetOrLoad :: "'l lru_cache \<Rightarrow> nat \<Rightarrow> nat \<Rightarrow> u64 \<Rightarrow> string option \<Rightarrow> 'l cache_world \<Rightarrow> (string + nat) \<times> 'l cache_world" where
  "cache_GetOrLoad L rc new height loadErr w =
     (let (found, l) = lc_Get L height (lru w);
          w1 = w\<lparr>lru := l\<rparr>;
          load = (\<lambda>w2.
            case loadErr of
              Some e \<Rightarrow> (Inl e, w2)
            | None \<Rightarrow>
                let w3 = upd_accessor new \<lparr>acc_done = None, refs = 0, isClosed = False, closes = 0\<rparr> w2 in
                case newRefCloser rc new w3 of
                  (Inl e, w4) \<Rightarrow> (Inl e, w4)
                | (Inr r, w4) \<Rightarrow>
                    let (evicted, l1) = lc_Add L height new (lru w4) in
                    (Inr r, evictFn evicted (w4\<lparr>lru := l1\<rparr>))) in
      case found of
        None \<Rightarrow> load w1
      | Some ac \<Rightarrow>
          (case newRefCloser rc ac w1 of
             (Inr r, w2) \<Rightarrow> (Inr r, w2)
           | (Inl _, w2) \<Rightarrow> load w2))"

text \<open>\<^verbatim>\<open>Remove\<close> up to the closing of the accessor, which goes on as a task.\<close>

definition cache_Remove :: "'l lru_cache \<Rightarrow> u64 \<Rightarrow> 'l cache_world \<Rightarrow> 'l cache_world" where
  "cache_Remove L height w =
     (case lc_Get L height (lru w) of
        (None, l) \<Rightarrow> w\<lparr>lru := l\<rparr>
      | (Some ac, l) \<Rightarrow> w\<lparr>lru := l, tasks := tasks w @ [StartClose ac (Some height)]\<rparr>)"

definition after_close :: "u64 option \<Rightarrow> task list" where
  "after_close k = (case k of None \<Rightarrow> [] | Some h \<Rightarrow> [RemoveKey h])"

text \<open>A turn of the \<open>i\<close>-th task, given whether its wait times out and whether the underlying \<^verbatim>\<open>Close\<close> fails.\<close>

definition run_task :: "'l lru_cache \<Rightarrow> nat \<Rightarrow> bool \<Rightarrow> bool \<Rightarrow> 'l cache_world \<Rightarrow> 'l cache_world" where
  "run_task L i timeout closeErr w =
     (if \<not> i < length (tasks w) then w
      else
        let t = tasks w ! i;
            finish = (\<lambda>ts w. w\<lparr>tasks := take i (tasks w) @ ts @ drop (Suc i) (tasks w)\<rparr>) in
        case t of
          StartClose a k \<Rightarrow>
            (case close_begin a w of
               (None, w1) \<Rightarrow> finish (after_close k) w1
             | (Some ch, w1) \<Rightarrow> finish [WaitDone a ch k] w1)
        | WaitDone a ch k \<Rightarrow>
            if \<not> close_ready ch timeout w then w
            else finish (if closeErr then [] else after_close k) (close_end a w)
        | RemoveKey h \<Rightarrow>
            let (evicted, l) = lc_Remove L h (lru w) in evictFn evicted (finish [] (w\<lparr>lru := l\<rparr>)))"

section \<open>Two caches, one after the other, and none\<close>

text \<open>The operations of the caches are arguments; their states are carried along.\<close>

definition Double_Has :: "(u64 \<Rightarrow> bool) \<Rightarrow> (u64 \<Rightarrow> bool) \<Rightarrow> u64 \<Rightarrow> bool" where
  "Double_Has has1 has2 height \<longleftrightarrow> has1 height \<or> has2 height"

definition Double_Get :: "('s \<Rightarrow> ('e + 'a) \<times> 's) \<Rightarrow> ('t \<Rightarrow> ('e + 'a) \<times> 't) \<Rightarrow> 's \<times> 't \<Rightarrow> ('e + 'a) \<times> 's \<times> 't" where
  "Double_Get get1 get2 st =
     (case get1 (fst st) of
        (Inr a, s1) \<Rightarrow> (Inr a, s1, snd st)
      | (Inl e, s1) \<Rightarrow> (case get2 (snd st) of (r, t1) \<Rightarrow> (r, s1, t1)))"

definition Double_GetOrLoad :: "('t \<Rightarrow> ('e + 'a) \<times> 't) \<Rightarrow> ('s \<Rightarrow> ('e + 'a) \<times> 's) \<Rightarrow> 's \<times> 't \<Rightarrow> ('e + 'a) \<times> 's \<times> 't" where
  "Double_GetOrLoad get2 load1 st =
     (case get2 (snd st) of
        (Inr a, t1) \<Rightarrow> (Inr a, fst st, t1)
      | (Inl e, t1) \<Rightarrow> (case load1 (fst st) of (r, s1) \<Rightarrow> (r, s1, t1)))"

definition Double_Remove :: "('s \<Rightarrow> 'e option \<times> 's) \<Rightarrow> ('t \<Rightarrow> 'e option \<times> 't) \<Rightarrow> 's \<times> 't \<Rightarrow> 'e list \<times> 's \<times> 't" where
  "Double_Remove rem1 rem2 st =
     (let (err1, s1) = rem1 (fst st); (err2, t1) = rem2 (snd st) in
      (List.map_filter id [err1, err2], s1, t1))"

definition Noop_Has :: "u64 \<Rightarrow> bool" where "Noop_Has height = False"

definition Noop_Get :: "u64 \<Rightarrow> string + 'a" where "Noop_Get height = Inl ErrCacheMiss"

definition Noop_GetOrLoad :: "u64 \<Rightarrow> (string + 'a) \<Rightarrow> string + 'a" where "Noop_GetOrLoad height loaded = loaded"

text \<open>The lock of a height is one of 256.\<close>

definition getLock :: "u64 \<Rightarrow> nat" where
  "getLock k = unat (ucast (k mod 256) :: byte)"

end
