(* ===== verification/AccessorCacheProofs.thy ===== *)
theory AccessorCacheProofs
  imports AccessorCache
begin

text \<open>
  The invariant of the accessor cache: every counter is the number of open sessions, the channel of an accessor is
  closed exactly when it has none, and each accessor is closed by at most one goroutine. It is kept by every
  interleaving of readers, removals, evictions and the goroutines that close accessors.
\<close>

section \<open>The invariant\<close>

definition live :: "'l cache_world \<Rightarrow> nat \<Rightarrow> nat set" where
  "live w a = {rc. \<exists>c. fmlookup (sessions w) rc = Some c \<and> rc_accessor c = a \<and> \<not> rc_closed c}"

fun waits_for :: "nat \<Rightarrow> task \<Rightarrow> bool" where
  "waits_for a (WaitDone b ch k) \<longleftrightarrow> a = b"
| "waits_for a t \<longleftrightarrow> False"

definition waiting :: "'l cache_world \<Rightarrow> nat \<Rightarrow> nat" where
  "waiting w a = length (filter (waits_for a) (tasks w))"

definition acc_ok :: "bool \<Rightarrow> 'l cache_world \<Rightarrow> nat \<Rightarrow> accessor \<Rightarrow> bool" where
  "acc_ok timeouts w a s \<longleftrightarrow> refs s = int (card (live w a))
     \<and> (\<exists>c. acc_done s = Some c \<and> c < chanNext w \<and> (c |\<in>| chanClosed w \<longleftrightarrow> live w a = {}))
     \<and> closes s + waiting w a = (if isClosed s then 1 else 0)
     \<and> (\<not> timeouts \<longrightarrow> 0 < closes s \<longrightarrow> live w a = {})"

text \<open>Tasks, sessions and the LRU cache refer to accessors there are.\<close>

fun task_ok :: "'l cache_world \<Rightarrow> task \<Rightarrow> bool" where
  "task_ok w (StartClose a k) \<longleftrightarrow> fmlookup (accessors w) a \<noteq> None"
| "task_ok w (WaitDone a ch k) \<longleftrightarrow> (\<exists>s. fmlookup (accessors w) a = Some s \<and> acc_done s = ch)"
| "task_ok w (RemoveKey h) \<longleftrightarrow> True"

definition links_ok :: "('l \<Rightarrow> u64 \<Rightarrow> nat option) \<Rightarrow> 'l cache_world \<Rightarrow> bool" where
  "links_ok view w \<longleftrightarrow> (\<forall>t \<in> set (tasks w). task_ok w t)
     \<and> (\<forall>rc c. fmlookup (sessions w) rc = Some c \<longrightarrow> fmlookup (accessors w) (rc_accessor c) \<noteq> None)
     \<and> (\<forall>h a. view (lru w) h = Some a \<longrightarrow> fmlookup (accessors w) a \<noteq> None)"

definition world_ok :: "bool \<Rightarrow> ('l \<Rightarrow> u64 \<Rightarrow> nat option) \<Rightarrow> 'l cache_world \<Rightarrow> bool" where
  "world_ok timeouts view w \<longleftrightarrow> (\<forall>a s. fmlookup (accessors w) a = Some s \<longrightarrow> acc_ok timeouts w a s)
     \<and> (\<forall>a b s t. fmlookup (accessors w) a = Some s \<longrightarrow> fmlookup (accessors w) b = Some t \<longrightarrow> a \<noteq> b \<longrightarrow> acc_done s \<noteq> acc_done t)
     \<and> (\<forall>c. c |\<in>| chanClosed w \<longrightarrow> c < chanNext w) \<and> links_ok view w"

text \<open>What the cache relies on of the LRU cache, seen through its entries: additions and removals keep no entry that was
  not there, and evict only entries.\<close>

definition lc_ok :: "'l lru_cache \<Rightarrow> ('l \<Rightarrow> u64 \<Rightarrow> nat option) \<Rightarrow> bool" where
  "lc_ok L view \<longleftrightarrow>
     (\<forall>h l. fst (lc_Get L h l) = view l h \<and> view (snd (lc_Get L h l)) = view l)
     \<and> (\<forall>h a l. view (snd (lc_Add L h a l)) h = Some a \<and> set (fst (lc_Add L h a l)) \<subseteq> ran (view l)
         \<and> (\<forall>h' b. view (snd (lc_Add L h a l)) h' = Some b \<longrightarrow> h' = h \<or> view l h' = Some b))
     \<and> (\<forall>h l. view (snd (lc_Remove L h l)) h = None \<and> set (fst (lc_Remove L h l)) \<subseteq> ran (view l)
         \<and> (\<forall>h' b. view (snd (lc_Remove L h l)) h' = Some b \<longrightarrow> view l h' = Some b))"

lemma lc_get: "lc_ok L view \<Longrightarrow> lc_Get L h l = (r, l') \<Longrightarrow> r = view l h \<and> view l' = view l"
  unfolding lc_ok_def by (metis fst_conv snd_conv)

lemma finite_live [simp]: "finite (live w a)"
  by (rule finite_subset [of _ "fset (fmdom (sessions w))"]) (auto simp: live_def fmdomI)

lemma world_acc: "world_ok tm view w \<Longrightarrow> fmlookup (accessors w) a = Some s \<Longrightarrow> acc_ok tm w a s"
  by (simp add: world_ok_def)

lemma world_sep:
  "world_ok tm view w \<Longrightarrow> fmlookup (accessors w) a = Some s \<Longrightarrow> fmlookup (accessors w) b = Some t \<Longrightarrow> a \<noteq> b \<Longrightarrow> acc_done s \<noteq> acc_done t"
  unfolding world_ok_def by blast

text \<open>Changing one accessor, with its sessions, its channel and its tasks, and nothing of the others.\<close>

lemma world_ok_update:
  assumes w: "world_ok tm view w" and acc: "accessors w' = fmupd a s' (accessors w)" "acc_ok tm w' a s'"
    and others: "\<And>b. b \<noteq> a \<Longrightarrow> live w' b = live w b" "\<And>b. b \<noteq> a \<Longrightarrow> waiting w' b = waiting w b"
    and ch: "chanNext w \<le> chanNext w'" "\<And>c. c |\<in>| chanClosed w' \<Longrightarrow> c < chanNext w'"
    and sep: "\<And>b t c. b \<noteq> a \<Longrightarrow> fmlookup (accessors w) b = Some t \<Longrightarrow> acc_done t = Some c \<Longrightarrow>
        acc_done s' \<noteq> Some c \<and> (c |\<in>| chanClosed w' \<longleftrightarrow> c |\<in>| chanClosed w)"
    and links: "links_ok view w'"
  shows "world_ok tm view w'"
proof -
  have "acc_ok tm w' b t" if b: "b \<noteq> a" "fmlookup (accessors w) b = Some t" for b t
  proof -
    obtain c where c: "acc_done t = Some c" using world_acc [OF w b(2)] by (auto simp: acc_ok_def)
    show ?thesis using world_acc [OF w b(2)] others [OF b(1)] sep [OF b c] ch(1) c by (auto simp: acc_ok_def)
  qed
  moreover have "acc_done t \<noteq> acc_done s'" if "b \<noteq> a" "fmlookup (accessors w) b = Some t" for b t
    using world_acc [OF w that(2)] sep [OF that] by (auto simp: acc_ok_def)
  ultimately show ?thesis using acc ch(2) links w unfolding world_ok_def
    by (simp add: fmlookup_dom_iff) (metis (no_types, lifting))
qed

lemma live_simps [simp]:
  "live (w\<lparr>accessors := x\<rparr>) a = live w a" "live (w\<lparr>chanNext := n\<rparr>) a = live w a" "live (w\<lparr>chanClosed := cs\<rparr>) a = live w a"
  "live (w\<lparr>tasks := ts\<rparr>) a = live w a" "live (w\<lparr>lru := l\<rparr>) a = live w a"
  by (simp_all add: live_def)

lemma waiting_simps [simp]:
  "waiting (w\<lparr>accessors := x\<rparr>) a = waiting w a" "waiting (w\<lparr>chanNext := n\<rparr>) a = waiting w a" "waiting (w\<lparr>chanClosed := cs\<rparr>) a = waiting w a"
  "waiting (w\<lparr>sessions := ss\<rparr>) a = waiting w a" "waiting (w\<lparr>lru := l\<rparr>) a = waiting w a"
  by (simp_all add: waiting_def)

lemma live_new:
  assumes "fmlookup (sessions w) rc = None"
  shows "live (w\<lparr>sessions := fmupd rc \<lparr>rc_accessor = a, rc_closed = False\<rparr> (sessions w)\<rparr>) b = (if b = a then insert rc (live w a) else live w b)"
    "rc \<notin> live w b"
  using assms by (auto simp: live_def)

section \<open>Sessions\<close>

lemma links_accessors:
  assumes "links_ok view w" "fmlookup (accessors w) a = None \<or> acc_done s' = acc_done (the (fmlookup (accessors w) a)) \<or> waiting w a = 0"
    and "accessors w' = fmupd a s' (accessors w)" "sessions w' = sessions w" "lru w' = lru w" "tasks w' = tasks w"
  shows "links_ok view w'"
proof -
  have "task_ok w' t" if t: "t \<in> set (tasks w)" for t
  proof (cases t)
    case (WaitDone b ch k)
    have "waits_for b t" using WaitDone by simp
    then have "waiting w b \<noteq> 0" using t by (auto simp: waiting_def filter_empty_conv)
    then show ?thesis using assms t WaitDone by (auto simp: links_ok_def dest!: bspec [of _ _ t])
  qed (use assms t in \<open>auto simp: links_ok_def dest!: bspec [of _ _ t]\<close>)
  then show ?thesis using assms by (auto simp: links_ok_def)
qed

lemma links_session:
  "links_ok view w \<Longrightarrow> fmlookup (accessors w) (rc_accessor c) \<noteq> None \<Longrightarrow> links_ok view (w\<lparr>sessions := fmupd rc c (sessions w)\<rparr>)"
proof -
  have "task_ok (w\<lparr>sessions := x\<rparr>) t = task_ok w t" for x t by (cases t) auto
  then show "links_ok view w \<Longrightarrow> fmlookup (accessors w) (rc_accessor c) \<noteq> None \<Longrightarrow> ?thesis" by (simp add: links_ok_def)
qed

text \<open>A new session: refused when the accessor is being closed, counted otherwise.\<close>

lemma newRefCloser_ok:
  assumes w: "world_ok tm view w" and a: "fmlookup (accessors w) a = Some s" and rc: "fmlookup (sessions w) rc = None"
  shows "if isClosed s then newRefCloser rc a w = (Inl ErrCacheMiss, w)
    else \<exists>w'. newRefCloser rc a w = (Inr rc, w') \<and> world_ok tm view w' \<and> lru w' = lru w \<and> tasks w' = tasks w
      \<and> sessions w' = fmupd rc \<lparr>rc_accessor = a, rc_closed = False\<rparr> (sessions w)
      \<and> fmdom (accessors w') = fmdom (accessors w) \<and> closes (the (fmlookup (accessors w') a)) = closes s"
proof (cases "isClosed s")
  case False
  note ok = world_acc [OF w a, unfolded acc_ok_def]
  obtain c where c: "acc_done s = Some c" "c < chanNext w" "c |\<in>| chanClosed w \<longleftrightarrow> live w a = {}" using ok by blast
  let ?ss = "fmupd rc \<lparr>rc_accessor = a, rc_closed = False\<rparr> (sessions w)"
  define s' where "s' = (if live w a = {} then s\<lparr>refs := refs s + 1, acc_done := Some (chanNext w)\<rparr> else s\<lparr>refs := refs s + 1\<rparr>)"
  define n where "n = (if live w a = {} then Suc (chanNext w) else chanNext w)"
  define w' where "w' = w\<lparr>accessors := fmupd a s' (accessors w), chanNext := n, sessions := ?ss\<rparr>"
  have r: "refs s + 1 = 1 \<longleftrightarrow> live w a = {}" using ok by simp
  have eq: "newRefCloser rc a w = (Inr rc, w')"
    using a False r by (auto simp: newRefCloser_def addRef_def upd_accessor_def Let_def s'_def w'_def n_def)
  have lv: "live w' b = (if b = a then insert rc (live w a) else live w b)" for b using live_new(1) [OF rc, of a b] by (simp add: w'_def live_def)
  have z: "waiting w a = 0" using ok False by simp
  have fresh: "chanNext w |\<notin>| chanClosed w" using w by (auto simp: world_ok_def)
  have nr: "refs s' = int (card (live w' a))" using ok lv [of a] live_new(2) [OF rc] by (simp add: s'_def)
  have accok: "acc_ok tm w' a s'" unfolding acc_ok_def using nr
    using ok c fresh lv [of a] False by (auto simp: s'_def w'_def n_def)
  have links: "links_ok view w'"
  proof -
    let ?w = "w\<lparr>accessors := fmupd a s' (accessors w), chanNext := n\<rparr>"
    have "links_ok view w" using w by (simp add: world_ok_def)
    then have "links_ok view ?w" using z by (elim links_accessors [where w' = ?w and a = a and s' = s', OF _ disjI2 [OF disjI2]]) simp_all
    moreover have "fmlookup (accessors ?w) (rc_accessor \<lparr>rc_accessor = a, rc_closed = False\<rparr>) \<noteq> None" by simp
    ultimately have "links_ok view (?w\<lparr>sessions := fmupd rc \<lparr>rc_accessor = a, rc_closed = False\<rparr> (sessions ?w)\<rparr>)" by (rule links_session)
    then show ?thesis unfolding w'_def by simp
  qed
  have "world_ok tm view w'"
  proof (rule world_ok_update [OF w _ accok _ _ _ _ _ links])
    show "accessors w' = fmupd a s' (accessors w)" "chanNext w \<le> chanNext w'" by (simp_all add: w'_def n_def)
    show "\<And>b. b \<noteq> a \<Longrightarrow> live w' b = live w b" "\<And>b. b \<noteq> a \<Longrightarrow> waiting w' b = waiting w b" using lv by (simp_all add: w'_def)
    have "\<And>e. e |\<in>| chanClosed w \<Longrightarrow> e < chanNext w" using w by (simp add: world_ok_def)
    then show "\<And>e. e |\<in>| chanClosed w' \<Longrightarrow> e < chanNext w'" by (auto simp: w'_def n_def less_SucI)
  next
    fix b t e assume b: "b \<noteq> a" "fmlookup (accessors w) b = Some t" "acc_done t = Some e"
    then show "acc_done s' \<noteq> Some e \<and> (e |\<in>| chanClosed w' \<longleftrightarrow> e |\<in>| chanClosed w)"
      using world_sep [OF w b(2) a b(1)] world_acc [OF w b(2)] by (auto simp: s'_def w'_def acc_ok_def)
  qed
  moreover have "fmdom (accessors w') = fmdom (accessors w)" using a by (auto simp: w'_def finsert_absorb fmdomI)
  ultimately show ?thesis using eq False by (simp add: w'_def s'_def)
qed (use a in \<open>simp add: newRefCloser_def addRef_def\<close>)

text \<open>Closing a session: the last one closes the channel, no other does.\<close>

lemma refCloser_close_ok:
  assumes w: "world_ok tm view w" and rc: "fmlookup (sessions w) rc = Some c"
  shows "\<exists>b w'. refCloser_close rc w = Some (b, w') \<and> world_ok tm view w'"
proof (cases "rc_closed c")
  case True
  then have "refCloser_close rc w = Some (False, w)" using rc by (simp add: refCloser_close_def)
  then show ?thesis using w by blast
next
  case False
  define a where "a = rc_accessor c"
  obtain s where a: "fmlookup (accessors w) a = Some s" using w rc unfolding a_def world_ok_def links_ok_def by (metis not_None_eq)
  note ok = world_acc [OF w a, unfolded acc_ok_def]
  obtain d where d: "acc_done s = Some d" "d < chanNext w" "d |\<in>| chanClosed w \<longleftrightarrow> live w a = {}" using ok by blast
  let ?ss = "fmupd rc (c\<lparr>rc_closed := True\<rparr>) (sessions w)"
  have rl: "rc \<in> live w a" using rc False by (simp add: live_def a_def)
  then have "card (live w a) \<noteq> 0" by auto
  then have "refs s - 1 \<le> 0 \<longleftrightarrow> card (live w a - {rc}) = 0" using ok rl by auto
  also have "\<dots> \<longleftrightarrow> live w a - {rc} = {}" by (intro card_0_eq finite_Diff finite_live)
  finally have last': "refs s - 1 \<le> 0 \<longleftrightarrow> live w a - {rc} = {}" .
  define s' where "s' = s\<lparr>refs := refs s - 1\<rparr>"
  define cc where "cc = (if live w a - {rc} = {} then finsert d (chanClosed w) else chanClosed w)"
  define w' where "w' = w\<lparr>accessors := fmupd a s' (accessors w), chanClosed := cc, sessions := ?ss\<rparr>"
  have open': "d |\<notin>| chanClosed w" using d(3) rl by auto
  have eq: "refCloser_close rc w = Some (True, w')"
  proof -
    have "removeRef a (w\<lparr>sessions := ?ss\<rparr>) = Some w'"
    proof (cases "live w a - {rc} = {}")
      case True
      then have "refs s \<le> 1" using last' by simp
      then show ?thesis unfolding w'_def cc_def removeRef_def close_chan_def upd_accessor_def Let_def s'_def using True a d(1) open' by simp
    next
      case F: False
      then have "\<not> refs s \<le> 1" using last' by simp
      then show ?thesis unfolding w'_def cc_def removeRef_def upd_accessor_def Let_def s'_def using F a by simp
    qed
    then show ?thesis using rc False unfolding a_def by (simp add: refCloser_close_def)
  qed
  have lv: "live w' b = (if b = a then live w a - {rc} else live w b)" for b
    using rc by (auto simp: w'_def live_def a_def)
  have "card (live w' a) = card (live w a) - 1" using lv [of a] rl by simp
  then have "int (card (live w' a)) = int (card (live w a)) - 1" using \<open>card (live w a) \<noteq> 0\<close> by linarith
  then have "refs s' = int (card (live w' a))" using ok by (simp add: s'_def)
  then have accok: "acc_ok tm w' a s'" unfolding acc_ok_def
    using ok d open' lv [of a] by (auto simp: s'_def w'_def cc_def)
  have sep: "acc_done s' \<noteq> Some e" if "b \<noteq> a" "fmlookup (accessors w) b = Some t" "acc_done t = Some e" for b t e
    using world_sep [OF w that(2) a that(1)] that(3) by (auto simp: s'_def)
  have links: "links_ok view w'"
  proof -
    let ?w = "w\<lparr>accessors := fmupd a s' (accessors w), chanClosed := cc\<rparr>"
    have "links_ok view w" using w by (simp add: world_ok_def)
    moreover have "acc_done s' = acc_done (the (fmlookup (accessors w) a))" using a by (simp add: s'_def)
    ultimately have "links_ok view ?w" by (elim links_accessors [where w' = ?w and a = a and s' = s', OF _ disjI2 [OF disjI1]]) simp_all
    moreover have "fmlookup (accessors ?w) (rc_accessor (c\<lparr>rc_closed := True\<rparr>)) \<noteq> None" by (simp add: a_def)
    ultimately have "links_ok view (?w\<lparr>sessions := fmupd rc (c\<lparr>rc_closed := True\<rparr>) (sessions ?w)\<rparr>)" by (rule links_session)
    then show ?thesis unfolding w'_def by simp
  qed
  have "world_ok tm view w'"
  proof (rule world_ok_update [OF w _ accok _ _ _ _ _ links])
    show "accessors w' = fmupd a s' (accessors w)" "chanNext w \<le> chanNext w'" by (simp_all add: w'_def)
    show "\<And>b. b \<noteq> a \<Longrightarrow> live w' b = live w b" "\<And>b. b \<noteq> a \<Longrightarrow> waiting w' b = waiting w b" using lv by (simp_all add: w'_def)
    have "\<And>e. e |\<in>| chanClosed w \<Longrightarrow> e < chanNext w" using w by (simp add: world_ok_def)
    then show "\<And>e. e |\<in>| chanClosed w' \<Longrightarrow> e < chanNext w'" using d(2) by (auto simp: w'_def cc_def split: if_splits)
  next
    fix b t e assume b: "b \<noteq> a" "fmlookup (accessors w) b = Some t" "acc_done t = Some e"
    then have "acc_done s' \<noteq> Some e" by (rule sep)
    then show "acc_done s' \<noteq> Some e \<and> (e |\<in>| chanClosed w' \<longleftrightarrow> e |\<in>| chanClosed w)" using d(1) by (auto simp: w'_def cc_def s'_def)
  qed
  then show ?thesis using eq by blast
qed

section \<open>Loading, evicting and the LRU cache\<close>

lemma task_ok_mono:
  assumes "task_ok w t" "\<And>a s. fmlookup (accessors w) a = Some s \<Longrightarrow> \<exists>s'. fmlookup (accessors w') a = Some s' \<and> acc_done s' = acc_done s"
  shows "task_ok w' t"
proof (cases t)
  case (StartClose a k)
  then show ?thesis using assms by (metis not_None_eq task_ok.simps(1))
next
  case (WaitDone a ch k)
  then show ?thesis using assms by (metis task_ok.simps(2))
qed simp

lemma unknown_accessor:
  assumes "links_ok view w" "fmlookup (accessors w) a = None"
  shows "live w a = {}" "waiting w a = 0"
proof -
  have "rc_accessor c \<noteq> a" if "fmlookup (sessions w) rc = Some c" for rc c using assms that unfolding links_ok_def by metis
  then show "live w a = {}" by (auto simp: live_def)
  have "\<not> waits_for a t" if "t \<in> set (tasks w)" for t using assms that by (cases t) (auto simp: links_ok_def)
  then show "waiting w a = 0" by (simp add: waiting_def filter_empty_conv)
qed

lemma new_accessor_ok:
  assumes w: "world_ok tm view w" and a: "fmlookup (accessors w) a = None" and rc: "fmlookup (sessions w) rc = None"
  shows "\<exists>w'. newRefCloser rc a (upd_accessor a \<lparr>acc_done = None, refs = 0, isClosed = False, closes = 0\<rparr> w) = (Inr rc, w')
    \<and> world_ok tm view w' \<and> lru w' = lru w \<and> tasks w' = tasks w \<and> accessors w' = fmupd a (the (fmlookup (accessors w') a)) (accessors w)"
proof -
  have lk: "links_ok view w" using w by (simp add: world_ok_def)
  note un = unknown_accessor [OF lk a]
  let ?ss = "fmupd rc \<lparr>rc_accessor = a, rc_closed = False\<rparr> (sessions w)"
  define s' where "s' = \<lparr>acc_done = Some (chanNext w), refs = 1, isClosed = False, closes = 0\<rparr>"
  define w' where "w' = w\<lparr>accessors := fmupd a s' (accessors w), chanNext := Suc (chanNext w), sessions := ?ss\<rparr>"
  have eq: "newRefCloser rc a (upd_accessor a \<lparr>acc_done = None, refs = 0, isClosed = False, closes = 0\<rparr> w) = (Inr rc, w')"
    by (simp add: newRefCloser_def addRef_def upd_accessor_def Let_def s'_def w'_def)
  have "live w' b = live (w\<lparr>sessions := ?ss\<rparr>) b" for b by (simp add: w'_def live_def)
  then have lv: "live w' b = (if b = a then {rc} else live w b)" for b using live_new(1) [OF rc, of a b] un(1) by simp
  have fresh: "chanNext w |\<notin>| chanClosed w" using w by (auto simp: world_ok_def)
  have accok: "acc_ok tm w' a s'" using lv [of a] un(2) fresh by (auto simp: acc_ok_def s'_def w'_def)
  have links: "links_ok view w'"
  proof -
    let ?w = "w\<lparr>accessors := fmupd a s' (accessors w), chanNext := Suc (chanNext w)\<rparr>"
    have "links_ok view ?w" using lk a by (elim links_accessors [where w' = ?w and a = a and s' = s', OF _ disjI1]) simp_all
    moreover have "fmlookup (accessors ?w) (rc_accessor \<lparr>rc_accessor = a, rc_closed = False\<rparr>) \<noteq> None" by simp
    ultimately have "links_ok view (?w\<lparr>sessions := fmupd rc \<lparr>rc_accessor = a, rc_closed = False\<rparr> (sessions ?w)\<rparr>)" by (rule links_session)
    then show ?thesis unfolding w'_def by simp
  qed
  have "world_ok tm view w'"
  proof (rule world_ok_update [OF w _ accok _ _ _ _ _ links])
    show "accessors w' = fmupd a s' (accessors w)" "chanNext w \<le> chanNext w'" by (simp_all add: w'_def)
    show "\<And>b. b \<noteq> a \<Longrightarrow> live w' b = live w b" "\<And>b. b \<noteq> a \<Longrightarrow> waiting w' b = waiting w b" using lv by (simp_all add: w'_def)
    have "\<And>e. e |\<in>| chanClosed w \<Longrightarrow> e < chanNext w" using w by (simp add: world_ok_def)
    then show "\<And>e. e |\<in>| chanClosed w' \<Longrightarrow> e < chanNext w'" by (auto simp: w'_def less_SucI)
  next
    fix b t e assume b: "b \<noteq> a" "fmlookup (accessors w) b = Some t" "acc_done t = Some e"
    then show "acc_done s' \<noteq> Some e \<and> (e |\<in>| chanClosed w' \<longleftrightarrow> e |\<in>| chanClosed w)"
      using world_acc [OF w b(2)] by (auto simp: s'_def w'_def acc_ok_def)
  qed
  moreover have "lru w' = lru w" "tasks w' = tasks w" "accessors w' = fmupd a (the (fmlookup (accessors w') a)) (accessors w)" by (simp_all add: w'_def)
  ultimately show ?thesis using eq by (intro exI [of _ w'] conjI)
qed

text \<open>Changing only the tasks, without changing who waits, or only the LRU cache.\<close>

lemma world_ok_same:
  assumes w: "world_ok tm view w" and same: "accessors w' = accessors w" "sessions w' = sessions w" "chanNext w' = chanNext w" "chanClosed w' = chanClosed w"
    and tasks: "\<And>t. t \<in> set (tasks w') \<Longrightarrow> task_ok w t" "\<And>a. waiting w' a = waiting w a"
    and lru: "\<And>h a. view (lru w') h = Some a \<Longrightarrow> fmlookup (accessors w) a \<noteq> None"
  shows "world_ok tm view w'"
proof -
  have lv: "live w' a = live w a" for a using same(2) by (simp add: live_def)
  have acc: "acc_ok tm w' a s \<longleftrightarrow> acc_ok tm w a s" for a s unfolding acc_ok_def lv tasks(2) same ..
  have "task_ok w' t" if "t \<in> set (tasks w')" for t by (rule task_ok_mono [OF tasks(1) [OF that]]) (simp add: same)
  then have "links_ok view w'" using w lru unfolding world_ok_def links_ok_def same by blast
  then show ?thesis using w unfolding world_ok_def acc same by blast
qed

lemma world_ok_tasks:
  assumes "world_ok tm view w" "\<And>t. t \<in> set ts \<Longrightarrow> task_ok w t" "\<And>a. length (filter (waits_for a) ts) = waiting w a"
  shows "world_ok tm view (w\<lparr>tasks := ts\<rparr>)"
proof (rule world_ok_same [OF assms(1)])
  show "\<And>h a. view (lru (w\<lparr>tasks := ts\<rparr>)) h = Some a \<Longrightarrow> fmlookup (accessors w) a \<noteq> None"
    using assms(1) unfolding world_ok_def links_ok_def by simp
qed (use assms(2,3) in \<open>simp_all add: waiting_def\<close>)

lemma world_ok_lru:
  assumes "world_ok tm view w" "\<And>h a. view l h = Some a \<Longrightarrow> fmlookup (accessors w) a \<noteq> None"
  shows "world_ok tm view (w\<lparr>lru := l\<rparr>)"
proof (rule world_ok_same [OF assms(1)])
  show "\<And>t. t \<in> set (tasks (w\<lparr>lru := l\<rparr>)) \<Longrightarrow> task_ok w t" using assms(1) unfolding world_ok_def links_ok_def by simp
qed (use assms(2) in simp_all)

lemma not_waiting: "filter (waits_for a) (map (\<lambda>a. StartClose a None) acs) = []" "filter (waits_for a) (after_close k) = []"
  by (auto simp: filter_empty_conv after_close_def split: option.splits)

lemma evictFn_ok:
  assumes "world_ok tm view w" "\<And>a. a \<in> set acs \<Longrightarrow> fmlookup (accessors w) a \<noteq> None"
  shows "world_ok tm view (evictFn acs w)"
  unfolding evictFn_def
proof (rule world_ok_tasks [OF assms(1)])
  show "\<And>t. t \<in> set (tasks w @ map (\<lambda>a. StartClose a None) acs) \<Longrightarrow> task_ok w t" using assms by (auto simp: world_ok_def links_ok_def)
  show "\<And>a. length (filter (waits_for a) (tasks w @ map (\<lambda>a. StartClose a None) acs)) = waiting w a" by (simp add: waiting_def not_waiting)
qed

lemma world_view: "world_ok tm view w \<Longrightarrow> view (lru w) h = Some a \<Longrightarrow> fmlookup (accessors w) a \<noteq> None"
  unfolding world_ok_def links_ok_def by blast

section \<open>The goroutines that close accessors\<close>

definition replace_task :: "nat \<Rightarrow> task list \<Rightarrow> task list \<Rightarrow> task list" where
  "replace_task i us ts = take i ts @ us @ drop (Suc i) ts"

lemma replace_task_set: "set (replace_task i us ts) \<subseteq> set ts \<union> set us"
  by (auto simp: replace_task_def dest: in_set_takeD in_set_dropD)

lemma replace_task_count:
  assumes "i < length ts"
  shows "length (filter P (replace_task i us ts)) + (if P (ts ! i) then 1 else 0) = length (filter P ts) + length (filter P us)"
proof -
  have "length (filter P ts) = length (filter P (take i ts @ ts ! i # drop (Suc i) ts))" using id_take_nth_drop [OF assms] by metis
  then show ?thesis by (simp add: replace_task_def)
qed

text \<open>One accessor changes, without its channel or its sessions, and one task is replaced.\<close>

lemma world_ok_step:
  assumes w: "world_ok tm view w" and a: "fmlookup (accessors w) a = Some s" and d: "acc_done s' = acc_done s"
    and ts: "\<And>t. t \<in> set ts \<Longrightarrow> t \<in> set (tasks w) \<or> t = WaitDone a (acc_done s) k \<or> (\<exists>h. t = RemoveKey h)"
    and others: "\<And>b. b \<noteq> a \<Longrightarrow> length (filter (waits_for b) ts) = waiting w b"
    and ok: "refs s' = refs s" "closes s' + length (filter (waits_for a) ts) = (if isClosed s' then 1 else 0)"
      "\<not> tm \<longrightarrow> 0 < closes s' \<longrightarrow> live w a = {}"
  shows "world_ok tm view (w\<lparr>accessors := fmupd a s' (accessors w), tasks := ts\<rparr>)" (is "world_ok tm view ?w")
proof -
  have wt: "waiting ?w b = length (filter (waits_for b) ts)" for b by (simp add: waiting_def)
  have links: "links_ok view ?w"
  proof -
    have "task_ok ?w t" if t: "t \<in> set ts" for t
      using ts [OF t]
    proof (elim disjE exE)
      assume "t \<in> set (tasks w)"
      then have "task_ok w t" using w by (simp add: world_ok_def links_ok_def)
      then show ?thesis by (rule task_ok_mono) (use a d in auto)
    qed (use d in simp_all)
    moreover have "fmlookup (accessors w) b \<noteq> None \<Longrightarrow> fmlookup (accessors ?w) b \<noteq> None" for b by simp
    ultimately show ?thesis using w unfolding world_ok_def links_ok_def by simp
  qed
  show ?thesis
  proof (rule world_ok_update [OF w, where a = a and s' = s'])
    show "acc_ok tm ?w a s'" using world_acc [OF w a] d ok unfolding acc_ok_def wt by simp
    show "\<And>b. b \<noteq> a \<Longrightarrow> waiting ?w b = waiting w b" unfolding wt by (rule others)
    show "\<And>c. c |\<in>| chanClosed ?w \<Longrightarrow> c < chanNext ?w" using w by (simp add: world_ok_def)
    show "links_ok view ?w" by (rule links)
  next
    fix b t c assume "b \<noteq> a" "fmlookup (accessors w) b = Some t" "acc_done t = Some c"
    then show "acc_done s' \<noteq> Some c \<and> (c |\<in>| chanClosed ?w \<longleftrightarrow> c |\<in>| chanClosed w)" using world_sep [OF w _ a] d by auto
  qed simp_all
qed

lemma run_task_ok:
  assumes L: "lc_ok L view" and w: "world_ok tm view w" and tm: "timeout \<longrightarrow> tm"
  shows "world_ok tm view (run_task L i timeout err w)"
proof (cases "i < length (tasks w)")
  case i: True
  have tk: "task_ok w (tasks w ! i)" using w nth_mem [OF i] by (simp add: world_ok_def links_ok_def)
  note cnt = replace_task_count [OF i]
  have fin: "w'\<lparr>tasks := take i (tasks w') @ ts @ drop (Suc i) (tasks w')\<rparr> = w'\<lparr>tasks := replace_task i ts (tasks w)\<rparr>"
    if "tasks w' = tasks w" for w' :: "'a cache_world" and ts using that by (simp add: replace_task_def)
  have drop1: "world_ok tm view (w\<lparr>tasks := replace_task i (after_close k) (tasks w)\<rparr>)" if "\<And>a. \<not> waits_for a (tasks w ! i)" for k
  proof (rule world_ok_tasks [OF w])
    show "t \<in> set (replace_task i (after_close k) (tasks w)) \<Longrightarrow> task_ok w t" for t
      using replace_task_set [of i "after_close k" "tasks w"] w by (auto simp: world_ok_def links_ok_def after_close_def split: option.splits)
    show "length (filter (waits_for a) (replace_task i (after_close k) (tasks w))) = waiting w a" for a
      using cnt [of "waits_for a" "after_close k"] that by (simp add: waiting_def not_waiting)
  qed
  show ?thesis
  proof (cases "tasks w ! i")
    case (StartClose a k)
    then obtain s where a: "fmlookup (accessors w) a = Some s" using tk by auto
    note ok = world_acc [OF w a, unfolded acc_ok_def]
    show ?thesis
    proof (cases "isClosed s")
      case True
      then have "run_task L i timeout err w = w\<lparr>tasks := replace_task i (after_close k) (tasks w)\<rparr>"
        using i StartClose a by (simp add: run_task_def close_begin_def replace_task_def)
      then show ?thesis using drop1 [of k] StartClose by simp
    next
      case False
      let ?ts = "replace_task i [WaitDone a (acc_done s) k] (tasks w)"
      have eq: "run_task L i timeout err w = w\<lparr>accessors := fmupd a (s\<lparr>isClosed := True\<rparr>) (accessors w), tasks := ?ts\<rparr>"
        using i StartClose a False by (simp add: run_task_def close_begin_def replace_task_def upd_accessor_def)
      show ?thesis unfolding eq
      proof (rule world_ok_step [OF w a])
        show "t \<in> set ?ts \<Longrightarrow> t \<in> set (tasks w) \<or> t = WaitDone a (acc_done s) k \<or> (\<exists>h. t = RemoveKey h)" for t
          using replace_task_set [of i "[WaitDone a (acc_done s) k]" "tasks w"] by auto
        show "b \<noteq> a \<Longrightarrow> length (filter (waits_for b) ?ts) = waiting w b" for b
          using cnt [of "waits_for b" "[WaitDone a (acc_done s) k]"] StartClose by (simp add: waiting_def)
        have "length (filter (waits_for a) ?ts) = Suc (waiting w a)"
          using cnt [of "waits_for a" "[WaitDone a (acc_done s) k]"] StartClose by (simp add: waiting_def)
        then show "closes (s\<lparr>isClosed := True\<rparr>) + length (filter (waits_for a) ?ts) = (if isClosed (s\<lparr>isClosed := True\<rparr>) then 1 else 0)"
          "\<not> tm \<longrightarrow> 0 < closes (s\<lparr>isClosed := True\<rparr>) \<longrightarrow> live w a = {}" using ok False by auto
      qed simp_all
    qed
  next
    case (WaitDone a ch k)
    then obtain s where a: "fmlookup (accessors w) a = Some s" "acc_done s = ch" using tk by auto
    note ok = world_acc [OF w a(1), unfolded acc_ok_def]
    show ?thesis
    proof (cases "close_ready ch timeout w")
      case False
      then show ?thesis using i WaitDone w by (simp add: run_task_def)
    next
      case True
      let ?us = "if err then [] else after_close k"
      let ?ts = "replace_task i ?us (tasks w)"
      have eq: "run_task L i timeout err w = w\<lparr>accessors := fmupd a (s\<lparr>closes := Suc (closes s)\<rparr>) (accessors w), tasks := ?ts\<rparr>"
        using i WaitDone a True by (simp add: run_task_def close_end_def replace_task_def upd_accessor_def)
      have us: "filter (waits_for b) ?us = []" for b using not_waiting(2) by simp
      have one: "length (filter (waits_for a) ?ts) + 1 = waiting w a" using cnt [of "waits_for a" ?us] WaitDone us by (simp add: waiting_def)
      show ?thesis unfolding eq
      proof (rule world_ok_step [OF w a(1), where k = k])
        show "t \<in> set ?ts \<Longrightarrow> t \<in> set (tasks w) \<or> t = WaitDone a (acc_done s) k \<or> (\<exists>h. t = RemoveKey h)" for t
          using replace_task_set [of i ?us "tasks w"] by (auto simp: after_close_def split: if_splits option.splits)
        show "b \<noteq> a \<Longrightarrow> length (filter (waits_for b) ?ts) = waiting w b" for b
          using cnt [of "waits_for b" ?us] WaitDone us by (simp add: waiting_def)
        show "closes (s\<lparr>closes := Suc (closes s)\<rparr>) + length (filter (waits_for a) ?ts) = (if isClosed (s\<lparr>closes := Suc (closes s)\<rparr>) then 1 else 0)"
          using ok one by (auto split: if_splits)
        show "\<not> tm \<longrightarrow> 0 < closes (s\<lparr>closes := Suc (closes s)\<rparr>) \<longrightarrow> live w a = {}"
          using True tm ok a(2) by (auto simp: close_ready_def)
      qed simp_all
    qed
  next
    case (RemoveKey h)
    obtain ev l where r: "lc_Remove L h (lru w) = (ev, l)" by fastforce
    have l: "set ev \<subseteq> ran (view (lru w))" "\<And>h' b. view l h' = Some b \<Longrightarrow> view (lru w) h' = Some b"
      using L r unfolding lc_ok_def by (metis fst_conv, metis snd_conv)
    have eq: "run_task L i timeout err w = evictFn ev (w\<lparr>tasks := replace_task i (after_close None) (tasks w), lru := l\<rparr>)"
      using i RemoveKey r by (simp add: run_task_def replace_task_def after_close_def evictFn_def)
    have d: "world_ok tm view (w\<lparr>tasks := replace_task i (after_close None) (tasks w)\<rparr>)" using drop1 RemoveKey by simp
    show ?thesis unfolding eq
    proof (rule evictFn_ok [OF world_ok_lru [OF d]])
      fix h' b assume "view l h' = Some b"
      from world_view [OF w l(2) [OF this]] show "fmlookup (accessors (w\<lparr>tasks := replace_task i (after_close None) (tasks w)\<rparr>)) b \<noteq> None" by simp
    next
      fix b assume "b \<in> set ev"
      then obtain h' where "view (lru w) h' = Some b" using l(1) by (auto simp: ran_def)
      from world_view [OF w this] show "fmlookup (accessors (w\<lparr>tasks := replace_task i (after_close None) (tasks w), lru := l\<rparr>)) b \<noteq> None" by simp
    qed
  qed
qed (use w in \<open>simp add: run_task_def\<close>)

section \<open>The operations of the cache\<close>

lemma cache_Get_ok:
  assumes L: "lc_ok L view" and w: "world_ok tm view w" and rc: "fmlookup (sessions w) rc = None"
  shows "world_ok tm view (snd (cache_Get L rc h w))"
proof -
  obtain r l where g: "lc_Get L h (lru w) = (r, l)" by fastforce
  note v = lc_get [OF L g]
  have w1: "world_ok tm view (w\<lparr>lru := l\<rparr>)" by (rule world_ok_lru [OF w]) (use v world_view [OF w] in simp)
  show ?thesis
  proof (cases r)
    case None
    then show ?thesis using g w1 by (simp add: cache_Get_def)
  next
    case (Some a)
    then obtain s where "fmlookup (accessors (w\<lparr>lru := l\<rparr>)) a = Some s" using v world_view [OF w, of h a] by auto
    from newRefCloser_ok [OF w1 this, of rc] rc w1 show ?thesis using g Some by (auto simp: cache_Get_def split: if_splits)
  qed
qed

lemma cache_Remove_ok:
  assumes L: "lc_ok L view" and w: "world_ok tm view w"
  shows "world_ok tm view (cache_Remove L h w)"
proof -
  obtain r l where g: "lc_Get L h (lru w) = (r, l)" by fastforce
  note v = lc_get [OF L g]
  have w1: "world_ok tm view (w\<lparr>lru := l\<rparr>)" by (rule world_ok_lru [OF w]) (use v world_view [OF w] in simp)
  show ?thesis
  proof (cases r)
    case None
    then show ?thesis using g w1 by (simp add: cache_Remove_def)
  next
    case (Some a)
    then have a: "fmlookup (accessors w) a \<noteq> None" using v world_view [OF w, of h a] by simp
    have eq: "cache_Remove L h w = (w\<lparr>lru := l\<rparr>)\<lparr>tasks := tasks w @ [StartClose a (Some h)]\<rparr>" using g Some by (simp add: cache_Remove_def)
    show ?thesis unfolding eq
    proof (rule world_ok_tasks [OF w1])
      show "\<And>t. t \<in> set (tasks w @ [StartClose a (Some h)]) \<Longrightarrow> task_ok (w\<lparr>lru := l\<rparr>) t"
        using w1 a by (auto simp: world_ok_def links_ok_def)
      show "\<And>b. length (filter (waits_for b) (tasks w @ [StartClose a (Some h)])) = waiting (w\<lparr>lru := l\<rparr>) b" by (simp add: waiting_def)
    qed
  qed
qed

text \<open>Loading: a new accessor with a first session, put into the LRU cache.\<close>

lemma cache_load_ok:
  assumes L: "lc_ok L view" and w: "world_ok tm view w" and rc: "fmlookup (sessions w) rc = None" and new: "fmlookup (accessors w) new = None"
    and n: "newRefCloser rc new (upd_accessor new \<lparr>acc_done = None, refs = 0, isClosed = False, closes = 0\<rparr> w) = (r, w4)"
    and add: "lc_Add L h new (lru w4) = (ev, l)"
  shows "r = Inr rc" "world_ok tm view (evictFn ev (w4\<lparr>lru := l\<rparr>))"
proof -
  note ok = new_accessor_ok [OF w new rc]
  then have w4: "r = Inr rc" "world_ok tm view w4" "lru w4 = lru w" "accessors w4 = fmupd new (the (fmlookup (accessors w4) new)) (accessors w)" using n by auto
  have l: "set ev \<subseteq> ran (view (lru w))" "\<And>h' b. view l h' = Some b \<Longrightarrow> h' = h \<or> view (lru w) h' = Some b" "view l h = Some new"
    using L add w4(3) unfolding lc_ok_def by (metis fst_conv, metis snd_conv, metis snd_conv)
  have dom: "fmlookup (accessors w4) b \<noteq> None" if "b = new \<or> fmlookup (accessors w) b \<noteq> None" for b
    using w4(4) that by (metis fmupd_lookup option.distinct(1))
  show "r = Inr rc" by (rule w4(1))
  have w5: "world_ok tm view (w4\<lparr>lru := l\<rparr>)"
  proof (rule world_ok_lru [OF w4(2)])
    fix h' b assume "view l h' = Some b"
    then show "fmlookup (accessors w4) b \<noteq> None" using l(2,3) world_view [OF w, of h' b] by (intro dom) fastforce
  qed
  show "world_ok tm view (evictFn ev (w4\<lparr>lru := l\<rparr>))"
  proof (rule evictFn_ok [OF w5])
    fix b assume "b \<in> set ev"
    then obtain h' where "view (lru w) h' = Some b" using l(1) by (auto simp: ran_def)
    then show "fmlookup (accessors (w4\<lparr>lru := l\<rparr>)) b \<noteq> None" using world_view [OF w, of h' b] dom [of b] by simp
  qed
qed

lemma cache_GetOrLoad_ok:
  assumes L: "lc_ok L view" and w: "world_ok tm view w" and rc: "fmlookup (sessions w) rc = None" and new: "fmlookup (accessors w) new = None"
  shows "world_ok tm view (snd (cache_GetOrLoad L rc new h loadErr w))"
    "loadErr = None \<Longrightarrow> fst (cache_GetOrLoad L rc new h loadErr w) = Inr rc"
proof -
  obtain r l where g: "lc_Get L h (lru w) = (r, l)" by fastforce
  note v = lc_get [OF L g]
  let ?w = "w\<lparr>lru := l\<rparr>"
  have w1: "world_ok tm view ?w" by (rule world_ok_lru [OF w]) (use v world_view [OF w] in simp)
  obtain r2 w4 where n: "newRefCloser rc new (upd_accessor new \<lparr>acc_done = None, refs = 0, isClosed = False, closes = 0\<rparr> ?w) = (r2, w4)" by fastforce
  obtain ev l1 where add: "lc_Add L h new (lru w4) = (ev, l1)" by fastforce
  have rn: "fmlookup (sessions ?w) rc = None" "fmlookup (accessors ?w) new = None" using rc new by simp_all
  note load = cache_load_ok [OF L w1 rn n add]
  define res where "res = (case loadErr of Some e \<Rightarrow> (Inl e, ?w) | None \<Rightarrow> (Inr rc, evictFn ev (w4\<lparr>lru := l1\<rparr>)))"
  have ok: "world_ok tm view (snd res)" "loadErr = None \<Longrightarrow> fst res = Inr rc" using w1 load(2) by (auto simp: res_def split: option.splits)
  have miss: "cache_GetOrLoad L rc new h loadErr w = res" if "r = None \<or> (\<exists>a e. r = Some a \<and> newRefCloser rc a ?w = (Inl e, ?w))"
    using that g n add load(1) by (auto simp: cache_GetOrLoad_def res_def Let_def split: option.splits)
  consider "r = None \<or> (\<exists>a e. r = Some a \<and> newRefCloser rc a ?w = (Inl e, ?w))" | a w' where "r = Some a" "newRefCloser rc a ?w = (Inr rc, w')" "world_ok tm view w'"
  proof (cases r)
    case (Some a)
    then obtain s where "fmlookup (accessors ?w) a = Some s" using v world_view [OF w, of h a] by auto
    from newRefCloser_ok [OF w1 this, of rc] rn(1) Some that show ?thesis by (auto split: if_splits)
  qed (use that in blast)
  then have "world_ok tm view (snd (cache_GetOrLoad L rc new h loadErr w)) \<and> (loadErr = None \<longrightarrow> fst (cache_GetOrLoad L rc new h loadErr w) = Inr rc)"
  proof cases
    case 1
    then show ?thesis unfolding miss [OF 1] using ok by blast
  next
    case (2 a w')
    then show ?thesis using g by (simp add: cache_GetOrLoad_def Let_def)
  qed
  then show "world_ok tm view (snd (cache_GetOrLoad L rc new h loadErr w))"
    "loadErr = None \<Longrightarrow> fst (cache_GetOrLoad L rc new h loadErr w) = Inr rc" by simp_all
qed

end
