(* ===== verification/AccessorCacheProperties.thy ===== *)
theory AccessorCacheProperties
  imports AccessorCacheProofs
begin

text \<open>
  The cache of open block files under any interleaving of readers, evictions and the goroutines that close accessors:
  what it promises to the holders of sessions.
\<close>

section \<open>Events\<close>

datatype cache_event = CGet nat u64 | CLoad nat nat u64 "string option" | CRemove u64 | CClose nat | CTask nat bool bool

fun cache_step :: "'l lru_cache \<Rightarrow> cache_event \<Rightarrow> 'l cache_world \<Rightarrow> 'l cache_world option" where
  "cache_step L (CGet rc h) w = Some (snd (cache_Get L rc h w))"
| "cache_step L (CLoad rc new h e) w = Some (snd (cache_GetOrLoad L rc new h e w))"
| "cache_step L (CRemove h) w = Some (cache_Remove L h w)"
| "cache_step L (CClose rc) w = map_option snd (refCloser_close rc w)"
| "cache_step L (CTask i timeout closeErr) w = Some (run_task L i timeout closeErr w)"

text \<open>New sessions and accessors get names not in use, only sessions there are can be closed, and waits time out only
  when \<open>timeouts\<close> says so.\<close>

fun cache_pre :: "bool \<Rightarrow> cache_event \<Rightarrow> 'l cache_world \<Rightarrow> bool" where
  "cache_pre timeouts (CGet rc h) w \<longleftrightarrow> fmlookup (sessions w) rc = None"
| "cache_pre timeouts (CLoad rc new h e) w \<longleftrightarrow> fmlookup (sessions w) rc = None \<and> fmlookup (accessors w) new = None"
| "cache_pre timeouts (CRemove h) w \<longleftrightarrow> True"
| "cache_pre timeouts (CClose rc) w \<longleftrightarrow> fmlookup (sessions w) rc \<noteq> None"
| "cache_pre timeouts (CTask i timeout closeErr) w \<longleftrightarrow> timeout \<longrightarrow> timeouts"

definition new_cache :: "'l \<Rightarrow> 'l cache_world" where
  "new_cache l = \<lparr>accessors = fmempty, sessions = fmempty, chanNext = 0, chanClosed = {||}, tasks = [], lru = l\<rparr>"

lemma new_cache_ok: "view l = Map.empty \<Longrightarrow> world_ok tm view (new_cache l)"
  by (simp add: new_cache_def world_ok_def links_ok_def)

lemma cache_step_ok:
  assumes "lc_ok L view" "world_ok tm view w" "cache_pre tm ev w"
  shows "\<exists>w'. cache_step L ev w = Some w' \<and> world_ok tm view w'"
proof (cases ev)
  case (CClose rc)
  then obtain c where "fmlookup (sessions w) rc = Some c" using assms(3) by auto
  from refCloser_close_ok [OF assms(2) this] show ?thesis using CClose by auto
qed (use assms in \<open>auto intro: cache_Get_ok cache_GetOrLoad_ok cache_Remove_ok run_task_ok\<close>)

text \<open>The laws of the LRU cache are part of the invariant, so that one interpretation serves every LRU cache that has
  them.\<close>

interpretation cw: stable "cache_step L" "\<lambda>w. lc_ok L view \<and> world_ok tm view w" "cache_pre tm" for L view tm
  by unfold_locales (use cache_step_ok in blast)

lemma cache_run_ok:
  assumes "lc_ok L view" "view l = Map.empty" "allowed (cache_pre tm) (cache_step L) evs (new_cache l)"
  shows "\<exists>w. run_ops (cache_step L) evs (new_cache l) = Some w \<and> world_ok tm view w"
  using cw.stays [of L view tm "new_cache l" evs] assms new_cache_ok [of view l tm] by blast

section \<open>What readers can rely on\<close>

text \<open>C6. No sequence of readers opening and closing sessions, of loads, evictions, removals and turns of the closing
  goroutines closes a channel twice or one that is not there; and as long as no wait times out, the accessor under a
  session that is not closed has not been closed.\<close>

theorem open_session_readable:
  assumes "lc_ok L view" "view l = Map.empty" "allowed (cache_pre False) (cache_step L) evs (new_cache l)"
  shows "\<exists>w. run_ops (cache_step L) evs (new_cache l) = Some w
    \<and> (\<forall>rc c. fmlookup (sessions w) rc = Some c \<longrightarrow> \<not> rc_closed c \<longrightarrow>
         (\<exists>s. fmlookup (accessors w) (rc_accessor c) = Some s \<and> closes s = 0))"
proof -
  obtain w where w: "run_ops (cache_step L) evs (new_cache l) = Some w" "world_ok False view w" using cache_run_ok [OF assms] by blast
  have "\<exists>s. fmlookup (accessors w) (rc_accessor c) = Some s \<and> closes s = 0"
    if c: "fmlookup (sessions w) rc = Some c" "\<not> rc_closed c" for rc c
  proof -
    obtain s where s: "fmlookup (accessors w) (rc_accessor c) = Some s" using w(2) c(1) unfolding world_ok_def links_ok_def by (metis not_None_eq)
    have "rc \<in> live w (rc_accessor c)" using c by (simp add: live_def)
    then have "closes s = 0" using world_acc [OF w(2) s] by (auto simp: acc_ok_def)
    then show ?thesis using s by blast
  qed
  then show ?thesis using w(1) by blast
qed

text \<open>C29. The underlying file of an accessor is closed at most once, and only after the accessor was marked closed,
  whether waits time out or not; the reference count is the number of sessions not closed.\<close>

theorem accessor_closed_once:
  assumes "lc_ok L view" "view l = Map.empty" "allowed (cache_pre True) (cache_step L) evs (new_cache l)"
  shows "\<exists>w. run_ops (cache_step L) evs (new_cache l) = Some w
    \<and> (\<forall>a s. fmlookup (accessors w) a = Some s \<longrightarrow> closes s \<le> (if isClosed s then 1 else 0)
         \<and> refs s = int (card {rc. \<exists>c. fmlookup (sessions w) rc = Some c \<and> rc_accessor c = a \<and> \<not> rc_closed c}))"
proof -
  obtain w where w: "run_ops (cache_step L) evs (new_cache l) = Some w" "world_ok True view w" using cache_run_ok [OF assms] by blast
  have "closes s \<le> (if isClosed s then 1 else 0) \<and> refs s = int (card (live w a))" if "fmlookup (accessors w) a = Some s" for a s
    using world_acc [OF w(2) that] by (auto simp: acc_ok_def split: if_splits)
  then show ?thesis using w(1) by (auto simp: live_def)
qed

text \<open>C30. An accessor marked closed whose sessions are all closed is closed underneath by the next turn of the goroutine
  waiting for it, without a timeout: there is such a goroutine unless the file is closed already.\<close>

theorem pending_close_proceeds:
  assumes "lc_ok L view" "view l = Map.empty" "allowed (cache_pre True) (cache_step L) evs (new_cache l)"
    and run: "run_ops (cache_step L) evs (new_cache l) = Some w"
    and a: "fmlookup (accessors w) a = Some s" "isClosed s" "closes s = 0"
    and idle: "\<And>rc c. fmlookup (sessions w) rc = Some c \<Longrightarrow> rc_accessor c = a \<Longrightarrow> rc_closed c"
  shows "\<exists>i < length (tasks w). map_option closes (fmlookup (accessors (run_task L i False err w)) a) = Some 1"
proof -
  have w: "world_ok True view w" using cache_run_ok [OF assms(1-3)] run by auto
  note ok = world_acc [OF w a(1)]
  have "live w a = {}" using idle by (auto simp: live_def)
  then obtain ch where ch: "acc_done s = Some ch" "ch |\<in>| chanClosed w" using ok by (auto simp: acc_ok_def)
  have "length (filter (waits_for a) (tasks w)) = 1" using ok a(2,3) by (simp add: acc_ok_def waiting_def)
  then obtain t where "t \<in> set (tasks w)" "waits_for a t" by (metis filter_False list.size(3) zero_neq_one)
  then obtain i ch' k where i: "i < length (tasks w)" "tasks w ! i = WaitDone a ch' k" "WaitDone a ch' k \<in> set (tasks w)"
    by (metis in_set_conv_nth task.exhaust waits_for.simps)
  have "task_ok w (WaitDone a ch' k)" using w i(3) by (auto simp: world_ok_def links_ok_def)
  then have "ch' = Some ch" using a(1) ch(1) by simp
  then have "map_option closes (fmlookup (accessors (run_task L i False err w)) a) = Some 1"
    using i a ch by (simp add: run_task_def close_ready_def close_end_def upd_accessor_def Let_def)
  then show ?thesis using i(1) by blast
qed

section \<open>A run\<close>

text \<open>An LRU cache of one entry: a block loaded for a reader is evicted by the next one, and its file stays open until the
  reader is done.\<close>

definition one_entry :: "(u64 \<times> nat) option lru_cache" where
  "one_entry = \<lparr>
     lc_Get = (\<lambda>h l. (case l of Some (k, a) \<Rightarrow> if k = h then Some a else None | None \<Rightarrow> None, l)),
     lc_Contains = (\<lambda>h l. case l of Some (k, a) \<Rightarrow> k = h | None \<Rightarrow> False),
     lc_Add = (\<lambda>h a l. (case l of Some (k, b) \<Rightarrow> if k = h then [] else [b] | None \<Rightarrow> [], Some (h, a))),
     lc_Remove = (\<lambda>h l. case l of Some (k, a) \<Rightarrow> if k = h then ([a], None) else ([], l) | None \<Rightarrow> ([], None))\<rparr>"

definition one_view :: "(u64 \<times> nat) option \<Rightarrow> u64 \<Rightarrow> nat option" where
  "one_view l h = (case l of Some (k, a) \<Rightarrow> if k = h then Some a else None | None \<Rightarrow> None)"

lemma one_entry_ok: "lc_ok one_entry one_view" "one_view None = Map.empty"
  by (auto simp: lc_ok_def one_entry_def one_view_def ran_def split: option.splits prod.splits if_splits)

definition cache_demo :: "cache_event list" where
  "cache_demo = [CLoad 0 0 5 None, CGet 1 5, CLoad 2 1 6 None, CTask 0 False False, CClose 0]"

lemmas cache_demo_simps = cache_demo_def one_entry_def new_cache_def cache_GetOrLoad_def cache_Get_def cache_Remove_def
  newRefCloser_def addRef_def upd_accessor_def evictFn_def refCloser_close_def removeRef_def close_chan_def run_task_def
  close_begin_def close_ready_def close_end_def after_close_def Let_def

definition cache_demo_end :: "(u64 \<times> nat) option cache_world" where
  "cache_demo_end = the (run_ops (cache_step one_entry) cache_demo (new_cache None))"

theorem open_session_readable_witness:
  "map_option closes (fmlookup (accessors cache_demo_end) 0) = Some 0"
proof -
  have a: "allowed (cache_pre False) (cache_step one_entry) cache_demo (new_cache None)" by (simp add: cache_demo_simps)
  have s: "fmlookup (sessions cache_demo_end) 1 = Some \<lparr>rc_accessor = 0, rc_closed = False\<rparr>" by (simp add: cache_demo_end_def cache_demo_simps)
  show ?thesis using open_session_readable [OF one_entry_ok a] s by (fastforce simp: cache_demo_end_def)
qed

theorem accessor_closed_once_witness:
  "closes (the (fmlookup (accessors cache_demo_end) 0)) \<le> 1"
proof -
  have a: "allowed (cache_pre True) (cache_step one_entry) cache_demo (new_cache None)" by (simp add: cache_demo_simps)
  have s: "fmlookup (accessors cache_demo_end) 0 \<noteq> None" by (simp add: cache_demo_end_def cache_demo_simps)
  show ?thesis using accessor_closed_once [OF one_entry_ok a] s by (fastforce simp: cache_demo_end_def split: if_splits)
qed

theorem pending_close_proceeds_witness:
  "\<exists>w i. run_ops (cache_step one_entry) (cache_demo @ [CClose 1]) (new_cache None) = Some w \<and> i < length (tasks w)
     \<and> map_option closes (fmlookup (accessors (run_task one_entry i False False w)) 0) = Some 1"
proof -
  let ?evs = "cache_demo @ [CClose 1]"
  have a: "allowed (cache_pre True) (cache_step one_entry) ?evs (new_cache None)" by (simp add: cache_demo_simps)
  obtain w s where w: "run_ops (cache_step one_entry) ?evs (new_cache None) = Some w" "fmlookup (accessors w) 0 = Some s" "isClosed s" "closes s = 0"
    and rc: "sessions w = fmupd 1 \<lparr>rc_accessor = 0, rc_closed = True\<rparr> (fmupd 0 \<lparr>rc_accessor = 0, rc_closed = True\<rparr>
      (fmupd 2 \<lparr>rc_accessor = 1, rc_closed = False\<rparr> (fmupd 1 \<lparr>rc_accessor = 0, rc_closed = False\<rparr> (fmupd 0 \<lparr>rc_accessor = 0, rc_closed = False\<rparr> fmempty))))"
    by (simp add: cache_demo_simps)
  have "rc_closed c" if "fmlookup (sessions w) r = Some c" "rc_accessor c = 0" for r c
    using that rc by (auto split: if_splits)
  then show ?thesis using pending_close_proceeds [OF one_entry_ok a w, of False] w(1) by blast
qed

end
