(* ===== verification/Square.thy ===== *)
theory Square
  imports Prelude
begin

text \<open>
  Shares and data squares: extending half an axis (\<^verbatim>\<open>share/extend.go\<close>, \<^verbatim>\<open>share/shwap/axis_half.go\<close>), reading the original
  square from a stream (\<^verbatim>\<open>share/eds/read.go\<close>) and writing it to one (\<^verbatim>\<open>share/eds/share_reader.go\<close>), and the square a block
  file keeps in memory (\<^verbatim>\<open>store/file/square.go\<close>, \<^verbatim>\<open>codec.go\<close>). A share is its bytes; the packages for shares
  (\<^verbatim>\<open>go-square\<close>), for two-dimensional erasure codes (\<^verbatim>\<open>rsmt2d\<close>) and for Reed-Solomon codes are parameters.
\<close>

section \<open>The packages the code relies on\<close>

text \<open>A share that is missing is given to a decoder as an empty slice. The first argument of \<open>ReconstructSome\<close> is the number of
  data shards the encoder was made for.\<close>

record square_lib =
  ShareSize :: nat
  NewShare :: "byte list \<Rightarrow> string option"
  FromBytes :: "byte list list \<Rightarrow> string + byte list list"
  NamespaceErr :: "byte list \<Rightarrow> string option"
  ShareNamespace :: "byte list \<Rightarrow> byte list"
  TailPaddingNamespace :: "byte list"
  TailPaddingShare :: "byte list"
  ParitySharesNamespace :: "byte list"
  Encode :: "byte list list \<Rightarrow> string + byte list list"
  Decode :: "byte list list \<Rightarrow> string + byte list list"
  NewEncoder :: "nat \<Rightarrow> nat \<Rightarrow> string option"
  ReconstructSome :: "nat \<Rightarrow> byte list list \<Rightarrow> bool list \<Rightarrow> string + byte list list"

text \<open>What they promise: shares are what has the share size, the code of a half axis is found back from either half, and
  one position at a time.\<close>

definition shares_ok :: "square_lib \<Rightarrow> byte list list \<Rightarrow> bool" where
  "shares_ok L xs \<longleftrightarrow> (\<forall>x \<in> set xs. length x = ShareSize L)"

definition share_ok :: "square_lib \<Rightarrow> bool" where
  "share_ok L \<longleftrightarrow> 0 < ShareSize L \<and> (\<forall>b. NewShare L b = None \<longleftrightarrow> length b = ShareSize L)
     \<and> (\<forall>xs ys. FromBytes L xs = Inr ys \<longleftrightarrow> ys = xs \<and> shares_ok L xs)
     \<and> length (TailPaddingShare L) = ShareSize L \<and> ShareNamespace L (TailPaddingShare L) = TailPaddingNamespace L"

definition parity_of :: "square_lib \<Rightarrow> byte list list \<Rightarrow> byte list list \<Rightarrow> bool" where
  "parity_of L xs ps \<longleftrightarrow> Encode L xs = Inr ps \<and> length ps = length xs \<and> shares_ok L ps
     \<and> Decode L (xs @ replicate (length xs) []) = Inr (xs @ ps)
     \<and> Decode L (replicate (length xs) [] @ ps) = Inr (xs @ ps)
     \<and> (\<forall>j < 2 * length xs. \<exists>ys. ReconstructSome L (length xs) (xs @ replicate (length xs) []) ((replicate (2 * length xs) False)[j := True]) = Inr ys
          \<and> length ys = 2 * length xs \<and> ys ! j = (xs @ ps) ! j)"

definition codec_ok :: "square_lib \<Rightarrow> bool" where
  "codec_ok L \<longleftrightarrow> (\<forall>xs. xs \<noteq> [] \<longrightarrow> shares_ok L xs \<longrightarrow> (\<exists>ps. parity_of L xs ps)) \<and> (\<forall>k > 0. NewEncoder L k k = None)
     \<and> (\<forall>xs ys. Decode L xs = Inr ys \<longrightarrow> length ys = length xs)"

definition lib_ok :: "square_lib \<Rightarrow> bool" where
  "lib_ok L \<longleftrightarrow> share_ok L \<and> codec_ok L"

section \<open>Extending half an axis\<close>

definition ExtendShares :: "square_lib \<Rightarrow> byte list list \<Rightarrow> string + byte list list" where
  "ExtendShares L original =
     (if original = [] then Inl ''original shares are empty''
      else case Encode L original of
        Inl e \<Rightarrow> Inl e
      | Inr parity \<Rightarrow>
          (case FromBytes L parity of
             Inl e \<Rightarrow> Inl e
           | Inr parityShrs \<Rightarrow>
               let n = length original in Inr (original @ take n (parityShrs @ replicate n []))))"

definition ReconstructShares :: "square_lib \<Rightarrow> byte list list \<Rightarrow> string + byte list list" where
  "ReconstructShares L parity =
     (if parity = [] then Inl ''parity shares are empty''
      else case Decode L (replicate (length parity) [] @ parity) of
        Inl e \<Rightarrow> Inl e
      | Inr shrs \<Rightarrow> FromBytes L shrs)"

record AxisHalf =
  Shares :: "byte list list"
  IsParity :: bool

definition Extended :: "square_lib \<Rightarrow> AxisHalf \<Rightarrow> string + byte list list" where
  "Extended L a = (if IsParity a then ReconstructShares L (Shares a) else ExtendShares L (Shares a))"

section \<open>Extended squares\<close>

text \<open>An extended square is given by its rows.\<close>

type_synonym eds = "byte list list list"

abbreviation Width :: "eds \<Rightarrow> nat" where "Width eds \<equiv> length eds"

abbreviation GetCell :: "eds \<Rightarrow> nat \<Rightarrow> nat \<Rightarrow> byte list" where "GetCell eds i j \<equiv> eds ! i ! j"

datatype axis = AxisRow | AxisCol | AxisOther int

definition eds_row :: "eds \<Rightarrow> nat \<Rightarrow> byte list list" where "eds_row eds i = eds ! i"

definition eds_col :: "eds \<Rightarrow> nat \<Rightarrow> byte list list" where "eds_col eds j = map (\<lambda>r. r ! j) eds"

definition eds_axis :: "eds \<Rightarrow> axis \<Rightarrow> nat \<Rightarrow> byte list list" where
  "eds_axis eds ax i = (case ax of AxisRow \<Rightarrow> eds_row eds i | AxisCol \<Rightarrow> eds_col eds i | AxisOther _ \<Rightarrow> [])"

definition FlattenedODS :: "eds \<Rightarrow> byte list list" where
  "FlattenedODS eds = concat (map (take (Width eds div 2)) (take (Width eds div 2) eds))"

text \<open>A square with sides of even length, shares of the right size and every row and column a code word.\<close>

definition codeword :: "square_lib \<Rightarrow> byte list list \<Rightarrow> bool" where
  "codeword L xs \<longleftrightarrow> Encode L (take (length xs div 2) xs) = Inr (drop (length xs div 2) xs)"

definition eds_ok :: "square_lib \<Rightarrow> eds \<Rightarrow> bool" where
  "eds_ok L eds \<longleftrightarrow> 0 < Width eds \<and> even (Width eds)
     \<and> (\<forall>r \<in> set eds. length r = Width eds \<and> shares_ok L r \<and> codeword L r)
     \<and> (\<forall>j < Width eds. codeword L (eds_col eds j))"

section \<open>Reading the original square from a stream\<close>

fun fill_shares :: "square_lib \<Rightarrow> nat \<Rightarrow> byte list \<Rightarrow> nat \<Rightarrow> nat list \<Rightarrow> byte list list \<Rightarrow> string + byte list list" where
  "fill_shares L shareSize bs start [] shares = Inr shares"
| "fill_shares L shareSize bs start (i # is) shares =
     (let sh = slice (i * shareSize) ((i + 1) * shareSize) bs in
      case NewShare L sh of
        Some e \<Rightarrow> Inl e
      | None \<Rightarrow> fill_shares L shareSize bs start is (shares[start + i := sh]))"

definition fillRow :: "square_lib \<Rightarrow> byte list list \<Rightarrow> byte list \<Rightarrow> nat \<Rightarrow> nat \<Rightarrow> nat \<Rightarrow> string + byte list list" where
  "fillRow L shares bs row shareSize odsSize =
     (if length bs mod shareSize \<noteq> 0 then Inl ''row buffer is not share-aligned''
      else
        let nShares = length bs div shareSize; start = row * odsSize in
        if start + nShares > length shares then Inl ''row writes shares out of bounds''
        else fill_shares L shareSize bs start [0..<nShares] shares)"

fun ReadShares_rows :: "square_lib \<Rightarrow> nat \<Rightarrow> nat \<Rightarrow> nat list \<Rightarrow> byte list \<Rightarrow> byte list list \<Rightarrow> string + byte list list" where
  "ReadShares_rows L shareSize odsSize [] r shares = Inr shares"
| "ReadShares_rows L shareSize odsSize (row # rest) r shares =
     (case ReadFull r (shareSize * odsSize) of
        (n, Inl e, r') \<Rightarrow>
          if n mod shareSize \<noteq> 0 then Inl ''reading shares: unexpected EOF''
          else
            (case fillRow L shares (take n r) row shareSize odsSize of
               Inl e \<Rightarrow> Inl e
             | Inr shares' \<Rightarrow>
                 let i = row * odsSize + n div shareSize in
                 Inr (take i shares' @ replicate (length shares' - i) (TailPaddingShare L)))
      | (n, Inr bs, r') \<Rightarrow>
          (case fillRow L shares bs row shareSize odsSize of
             Inl e \<Rightarrow> Inl e
           | Inr shares' \<Rightarrow> ReadShares_rows L shareSize odsSize rest r' shares'))"

definition ReadShares :: "square_lib \<Rightarrow> byte list \<Rightarrow> nat \<Rightarrow> nat \<Rightarrow> string + byte list list" where
  "ReadShares L r shareSize odsSize = ReadShares_rows L shareSize odsSize [0..<odsSize] r (replicate (odsSize * odsSize) [])"

section \<open>Streaming the original square\<close>

record ShareReader =
  sr_buf :: "byte list"
  current :: nat
  sr_odsSize :: nat
  total :: nat

definition NewShareReader :: "nat \<Rightarrow> ShareReader" where
  "NewShareReader odsSize = \<lparr>sr_buf = [], current = 0, sr_odsSize = odsSize, total = odsSize * odsSize\<rparr>"

text \<open>The loop that fills the space left in the caller's buffer; it returns what it added.\<close>

function sr_fill :: "(nat \<Rightarrow> nat \<Rightarrow> string + byte list) \<Rightarrow> nat \<Rightarrow> ShareReader \<Rightarrow> (string + byte list) \<times> ShareReader" where
  "sr_fill getShare emptySpace r =
     (if \<not> current r < total r then (Inr [], r)
      else
        case getShare (current r div sr_odsSize r) (current r mod sr_odsSize r) of
          Inl e \<Rightarrow> (Inl e, r)
        | Inr rawShare \<Rightarrow>
            let r1 = r\<lparr>current := current r + 1\<rparr> in
            if length rawShare < emptySpace then
              (case sr_fill getShare (emptySpace - length rawShare) r1 of
                 (Inl e, r2) \<Rightarrow> (Inl e, r2)
               | (Inr bs, r2) \<Rightarrow> (Inr (rawShare @ bs), r2))
            else (Inr (take emptySpace rawShare), r1\<lparr>sr_buf := sr_buf r1 @ drop emptySpace rawShare\<rparr>))"
  by pat_completeness auto
termination by (relation "measure (\<lambda>(g, n, r). total r - current r)") auto

declare sr_fill.simps [simp del]

text \<open>Reading into a buffer of \<open>k\<close> bytes; \<open>None\<close> is the end of the stream.\<close>

definition sr_Read :: "(nat \<Rightarrow> nat \<Rightarrow> string + byte list) \<Rightarrow> nat \<Rightarrow> ShareReader \<Rightarrow> (string + byte list) option \<times> ShareReader" where
  "sr_Read getShare k r =
     (if current r \<ge> total r \<and> sr_buf r = [] then (None, r)
      else if k \<le> length (sr_buf r) then (Some (Inr (take k (sr_buf r))), r\<lparr>sr_buf := drop k (sr_buf r)\<rparr>)
      else
        let start = sr_buf r in
        case sr_fill getShare (k - length start) (r\<lparr>sr_buf := []\<rparr>) of
          (Inl e, r1) \<Rightarrow> (Some (Inl e), r1)
        | (Inr bs, r1) \<Rightarrow> (Some (Inr (start @ bs)), r1))"

text \<open>A client reading pieces of the sizes \<open>ks\<close>.\<close>

fun sr_drain :: "(nat \<Rightarrow> nat \<Rightarrow> string + byte list) \<Rightarrow> nat list \<Rightarrow> ShareReader \<Rightarrow> string + (byte list \<times> bool)" where
  "sr_drain getShare [] r = Inr ([], False)"
| "sr_drain getShare (k # ks) r =
     (case sr_Read getShare k r of
        (None, r1) \<Rightarrow> Inr ([], True)
      | (Some (Inl e), r1) \<Rightarrow> Inl e
      | (Some (Inr bs), r1) \<Rightarrow>
          (case sr_drain getShare ks r1 of Inl e \<Rightarrow> Inl e | Inr (cs, ended) \<Rightarrow> Inr (bs @ cs, ended)))"

section \<open>The square in memory\<close>

type_synonym square = "byte list list list"

definition readSquare :: "square_lib \<Rightarrow> byte list \<Rightarrow> nat \<Rightarrow> nat \<Rightarrow> string + square" where
  "readSquare L r shareSize edsSize =
     (let odsLn = edsSize div 2 in
      case ReadShares L r shareSize odsLn of
        Inl e \<Rightarrow> Inl e
      | Inr shares \<Rightarrow> Inr (map (\<lambda>i. slice (i * odsLn) ((i + 1) * odsLn) shares) [0..<odsLn]))"

definition square_getShare :: "square \<Rightarrow> nat \<Rightarrow> nat \<Rightarrow> string + byte list" where
  "square_getShare s rowIdx colIdx = Inr (s ! rowIdx ! colIdx)"

definition square_reader :: "square \<Rightarrow> ShareReader" where
  "square_reader s = NewShareReader (length s)"

definition square_shares :: "square \<Rightarrow> byte list list" where
  "square_shares s = concat s"

definition oppositeAxis :: "axis \<Rightarrow> axis" where
  "oppositeAxis ax = (if ax = AxisCol then AxisRow else AxisCol)"

text \<open>The axis of a square is a row or the column built from the rows.\<close>

definition square_axisHalf :: "square \<Rightarrow> axis \<Rightarrow> nat \<Rightarrow> string + AxisHalf" where
  "square_axisHalf s axisType axisIdx =
     (if axisIdx \<ge> length s then Inl ''index is out of square bounds''
      else if axisType = AxisRow then Inr \<lparr>Shares = s ! axisIdx, IsParity = False\<rparr>
      else Inr \<lparr>Shares = map (\<lambda>i. s ! i ! axisIdx) [0..<length s], IsParity = False\<rparr>)"

text \<open>Encoders are made once for a length; the cache maps a length to its number of data shards.\<close>

definition Encoder :: "square_lib \<Rightarrow> nat \<Rightarrow> (nat, nat) fmap \<Rightarrow> (string + nat) \<times> (nat, nat) fmap" where
  "Encoder L ln cache =
     (case fmlookup cache ln of
        Some enc \<Rightarrow> (Inr enc, cache)
      | None \<Rightarrow>
          (case NewEncoder L (ln div 2) (ln div 2) of
             Some e \<Rightarrow> (Inl e, cache)
           | None \<Rightarrow> (Inr (ln div 2), fmupd ln (ln div 2) cache)))"

definition compute_share :: "square_lib \<Rightarrow> (nat, nat) fmap \<Rightarrow> square \<Rightarrow> axis \<Rightarrow> nat \<Rightarrow> nat \<Rightarrow> string + byte list" where
  "compute_share L cache s opposite axisIdx i =
     (case square_axisHalf s opposite i of
        Inl e \<Rightarrow> Inl e
      | Inr half \<Rightarrow>
          (case fst (Encoder L (length s * 2) cache) of
             Inl e \<Rightarrow> Inl e
           | Inr enc \<Rightarrow>
               let shards = (if IsParity half then replicate (length s) [] @ Shares half else Shares half @ replicate (length s) []);
                   target = (replicate (length s * 2) False)[axisIdx := True] in
               case ReconstructSome L enc shards target of
                 Inl e \<Rightarrow> Inl e
               | Inr shards' \<Rightarrow>
                   (case NewShare L (shards' ! axisIdx) of Some e \<Rightarrow> Inl e | None \<Rightarrow> Inr (shards' ! axisIdx))))"

definition computeAxisHalf :: "square_lib \<Rightarrow> (nat, nat) fmap \<Rightarrow> square \<Rightarrow> axis \<Rightarrow> nat \<Rightarrow> string + AxisHalf" where
  "computeAxisHalf L cache s axisType axisIdx =
     (case traverse (compute_share L cache s (oppositeAxis axisType) axisIdx) [0..<length s] of
        Inl e \<Rightarrow> Inl e
      | Inr shares \<Rightarrow> Inr \<lparr>Shares = shares, IsParity = False\<rparr>)"

end
