(* ===== verification/SquareProofs.thy ===== *)
theory SquareProofs
  imports Square
begin

text \<open>
  What the operations on shares and squares do: halves of an axis extend to the axis, a stream of shares is read back with its
  padding, a square is streamed completely in pieces of any size, and a missing axis is computed from the original square.
\<close>

section \<open>Shares and code words\<close>

lemma shares_ok_append [simp]: "shares_ok L (xs @ ys) \<longleftrightarrow> shares_ok L xs \<and> shares_ok L ys"
  by (auto simp: shares_ok_def)

lemma shares_ok_Nil [simp]: "shares_ok L []"
  by (simp add: shares_ok_def)

lemma shares_ok_Cons [simp]: "shares_ok L (x # xs) \<longleftrightarrow> length x = ShareSize L \<and> shares_ok L xs"
  by (simp add: shares_ok_def)

lemma shares_ok_sub: "shares_ok L xs \<Longrightarrow> set ys \<subseteq> set xs \<Longrightarrow> shares_ok L ys"
  by (auto simp: shares_ok_def)

lemma shares_ok_take [intro]: "shares_ok L xs \<Longrightarrow> shares_ok L (take n xs)"
  by (erule shares_ok_sub) (rule set_take_subset)

lemma shares_ok_drop [intro]: "shares_ok L xs \<Longrightarrow> shares_ok L (drop n xs)"
  by (erule shares_ok_sub) (rule set_drop_subset)

lemma shares_ok_nth: "shares_ok L xs \<Longrightarrow> i < length xs \<Longrightarrow> length (xs ! i) = ShareSize L"
  by (simp add: shares_ok_def)

lemma shares_ok_replicate [simp]: "shares_ok L (replicate n x) \<longleftrightarrow> n = 0 \<or> length x = ShareSize L"
  by (auto simp: shares_ok_def)

lemma share_okD:
  assumes "share_ok L"
  shows "0 < ShareSize L" "NewShare L b = None \<longleftrightarrow> length b = ShareSize L" "FromBytes L xs = Inr ys \<longleftrightarrow> ys = xs \<and> shares_ok L xs"
    "length (TailPaddingShare L) = ShareSize L" "ShareNamespace L (TailPaddingShare L) = TailPaddingNamespace L"
  using assms by (auto simp: share_ok_def)

lemma NewShare_ok: "share_ok L \<Longrightarrow> length b = ShareSize L \<Longrightarrow> NewShare L b = None"
  by (simp add: share_okD(2))

lemma FromBytes_ok: "share_ok L \<Longrightarrow> shares_ok L xs \<Longrightarrow> FromBytes L xs = Inr xs"
  by (simp add: share_okD(3))

lemma lib_okD: "lib_ok L \<Longrightarrow> share_ok L" "lib_ok L \<Longrightarrow> codec_ok L"
  by (simp_all add: lib_ok_def)

lemma codec_parity: "codec_ok L \<Longrightarrow> xs \<noteq> [] \<Longrightarrow> shares_ok L xs \<Longrightarrow> Encode L xs = Inr ps \<Longrightarrow> parity_of L xs ps"
  unfolding codec_ok_def by (metis parity_of_def sum.inject(2))

text \<open>Either half of a code word extends to it.\<close>

lemma codeword_parity:
  assumes "lib_ok L" "codeword L xs" "shares_ok L xs" "length xs = 2 * k" "0 < k"
  shows "parity_of L (take k xs) (drop k xs)"
  using assms by (intro codec_parity) (auto simp: lib_ok_def codeword_def)

lemma Extended_half:
  assumes L: "lib_ok L" and xs: "codeword L xs" "shares_ok L xs" "length xs = 2 * k" "0 < k"
  shows "Extended L \<lparr>Shares = take k xs, IsParity = False\<rparr> = Inr xs"
    "Extended L \<lparr>Shares = drop k xs, IsParity = True\<rparr> = Inr xs"
proof -
  note p = codeword_parity [OF L xs] and s = FromBytes_ok [OF lib_okD(1) [OF L]]
  have n: "take k xs \<noteq> []" "drop k xs \<noteq> []" "length (take k xs) = k" "length (drop k xs) = k" using xs by auto
  show "Extended L \<lparr>Shares = take k xs, IsParity = False\<rparr> = Inr xs"
    using p s [of "drop k xs"] xs n by (auto simp: Extended_def ExtendShares_def parity_of_def Let_def)
  show "Extended L \<lparr>Shares = drop k xs, IsParity = True\<rparr> = Inr xs"
    using p s [of xs] xs n by (auto simp: Extended_def ReconstructShares_def parity_of_def)
qed

section \<open>Streams of shares\<close>

lemma length_concat_shares: "shares_ok L xs \<Longrightarrow> length (concat xs) = length xs * ShareSize L"
  by (induction xs) auto

lemma drop_concat_shares: "shares_ok L xs \<Longrightarrow> drop (i * ShareSize L) (concat xs) = concat (drop i xs)"
proof (induction xs arbitrary: i)
  case (Cons x xs)
  then show ?case by (cases i) auto
qed simp

lemma take_concat_shares: "shares_ok L xs \<Longrightarrow> take (i * ShareSize L) (concat xs) = concat (take i xs)"
proof (induction xs arbitrary: i)
  case (Cons x xs)
  then show ?case by (cases i) auto
qed simp

lemma slice_concat_shares:
  assumes "shares_ok L xs" "i < length xs"
  shows "slice (i * ShareSize L) ((i + 1) * ShareSize L) (concat xs) = xs ! i"
proof -
  have "slice (i * ShareSize L) ((i + 1) * ShareSize L) (concat xs) = take (ShareSize L) (concat (drop i xs))"
    using drop_concat_shares [OF assms(1), of i] by (simp add: slice_def algebra_simps)
  also have "\<dots> = xs ! i" using assms by (simp add: Cons_nth_drop_Suc [symmetric] shares_ok_nth)
  finally show ?thesis .
qed

lemma update_block:
  "n < length ys \<Longrightarrow> s + n < length sh \<Longrightarrow> m = s + Suc n \<Longrightarrow>
   take m (sh[s + n := ys ! n]) = take (s + n) sh @ [ys ! n]"
  by (simp add: take_Suc_conv_app_nth take_update_swap list_update_append)

lemma fill_shares_ok:
  assumes L: "share_ok L" and xs: "shares_ok L xs" and "a \<le> length xs" "start + length xs \<le> length sh"
  shows "fill_shares L (ShareSize L) (concat xs) start [a..<length xs] sh = Inr (take (start + a) sh @ drop a xs @ drop (start + length xs) sh)"
  using assms(3,4)
proof (induction "length xs - a" arbitrary: a sh)
  case 0
  then show ?case by simp
next
  case (Suc d)
  let ?sh = "sh[start + a := xs ! a]"
  have a: "a < length xs" using Suc.hyps(2) by simp
  have u: "[a..<length xs] = a # [Suc a..<length xs]" using a by (simp add: upt_conv_Cons)
  have s: "slice (a * ShareSize L) ((a + 1) * ShareSize L) (concat xs) = xs ! a" by (rule slice_concat_shares [OF xs a])
  have n: "NewShare L (xs ! a) = None" using share_okD(2) [OF L] shares_ok_nth [OF xs a] by simp
  have ih: "fill_shares L (ShareSize L) (concat xs) start [Suc a..<length xs] ?sh
      = Inr (take (start + Suc a) ?sh @ drop (Suc a) xs @ drop (start + length xs) ?sh)"
    using Suc.hyps Suc.prems a by (intro Suc.hyps(1)) auto
  have "take (start + Suc a) ?sh = take (start + a) sh @ [xs ! a]" using Suc.prems a by (intro update_block) auto
  moreover have "drop (start + length xs) ?sh = drop (start + length xs) sh" using a by (simp add: drop_update_cancel)
  ultimately show ?case unfolding u fill_shares.simps Let_def s n option.case ih using a by (simp add: Cons_nth_drop_Suc)
qed

lemma fillRow_ok:
  assumes "share_ok L" "shares_ok L xs" "row * k + length xs \<le> length sh"
  shows "fillRow L sh (concat xs) row (ShareSize L) k = Inr (take (row * k) sh @ xs @ drop (row * k + length xs) sh)"
  using fill_shares_ok [OF assms(1,2), of 0 "row * k" sh] assms share_okD(1) [OF assms(1)]
  by (simp add: fillRow_def Let_def length_concat_shares)

text \<open>The rows from \<open>row\<close> on, when the stream holds the shares \<open>ys\<close>: it ends with them, or has all that are needed.\<close>

lemma ReadShares_rows_ok:
  assumes L: "share_ok L" and ys: "shares_ok L ys" "length sh = k * k" "row \<le> k" "row * k + length ys \<le> k * k"
    and rest: "rest = [] \<or> row * k + length ys = k * k"
  shows "ReadShares_rows L (ShareSize L) k [row..<k] (concat ys @ rest) sh
    = Inr (take (row * k) sh @ ys @ replicate (k * k - row * k - length ys) (TailPaddingShare L))"
  using ys rest
proof (induction "k - row" arbitrary: row ys sh)
  case 0
  then have "row = k" by simp
  then show ?case using 0 by simp
next
  case (Suc d)
  have row: "row < k" using Suc.hyps(2) by simp
  have u: "[row..<k] = row # [Suc row..<k]" using row by (simp add: upt_conv_Cons)
  have kk: "row * k + k \<le> k * k" using row by (metis Suc_leI add.commute mult_Suc mult_le_mono1)
  note len = length_concat_shares [OF Suc.prems(1)]
  have pos: "0 < ShareSize L" using share_okD [OF L] by blast
  show ?case
  proof (cases "k \<le> length ys")
    case True
    let ?xs = "take k ys" and ?zs = "drop k ys"
    have r: "concat ys @ rest = concat ?xs @ (concat ?zs @ rest)" by (metis append.assoc append_take_drop_id concat_append)
    have l: "length (concat ?xs) = ShareSize L * k" using length_concat_shares [OF shares_ok_take [OF Suc.prems(1)], of k] True by simp
    let ?sh = "take (row * k) sh @ ?xs @ drop (row * k + k) sh"
    have f: "fillRow L sh (concat ?xs) row (ShareSize L) k = Inr ?sh"
      using fillRow_ok [OF L shares_ok_take [OF Suc.prems(1), of k], of row k sh] True kk Suc.prems by simp
    have rec: "ReadShares_rows L (ShareSize L) k [Suc row..<k] (concat ?zs @ rest) ?sh
        = Inr (take (Suc row * k) ?sh @ ?zs @ replicate (k * k - Suc row * k - length ?zs) (TailPaddingShare L))"
      using Suc.hyps(2) Suc.prems True kk row by (intro Suc.hyps(1)) auto
    have "min (k * k) (row * k) = row * k" using kk by linarith
    then have tk: "take (Suc row * k) ?sh = take (row * k) sh @ ?xs" using True kk Suc.prems(2) by simp
    have "ReadShares_rows L (ShareSize L) k [Suc row..<k] (concat ?zs @ rest) ?sh
        = Inr (take (row * k) sh @ ys @ replicate (k * k - row * k - length ys) (TailPaddingShare L))" unfolding rec tk using True by simp
    then show ?thesis unfolding u ReadShares_rows.simps r ReadFull_append [OF l] using f by simp
  next
    case False
    then have rest: "rest = []" "length ys < k" using Suc.prems(5) kk by auto
    have rf: "ReadFull (concat ys) (ShareSize L * k) = (length ys * ShareSize L, Inl (if concat ys = [] then EOF else ErrUnexpectedEOF), [])"
      using rest pos len by (cases "concat ys = []") (auto simp: ReadFull_def mult.commute simp del: concat_eq_Nil_conv)
    have f: "fillRow L sh (concat ys) row (ShareSize L) k = Inr (take (row * k) sh @ ys @ drop (row * k + length ys) sh)"
      using fillRow_ok [OF L Suc.prems(1), of row k sh] Suc.prems by simp
    have t: "take (length ys * ShareSize L) (concat ys) = concat ys" using len by simp
    have m: "min (k * k) (row * k) = row * k" using kk by linarith
    show ?thesis unfolding u ReadShares_rows.simps rest(1) append_Nil2 rf using pos f t m kk Suc.prems(2,4) by (simp add: Let_def)
  qed
qed

lemma ReadShares_ok:
  assumes "share_ok L" "shares_ok L ys" "length ys \<le> k * k" "rest = [] \<or> length ys = k * k"
  shows "ReadShares L (concat ys @ rest) (ShareSize L) k = Inr (ys @ replicate (k * k - length ys) (TailPaddingShare L))"
  using ReadShares_rows_ok [OF assms(1,2), of "replicate (k * k) []" k 0 rest] assms by (simp add: ReadShares_def)

text \<open>Whatever is read, a result has all the shares of the square and every one is a share.\<close>

lemma fill_shares_shape:
  assumes "fill_shares L ss bs start is sh = Inr sh'" "share_ok L"
  shows "length sh' = length sh \<and> (\<forall>j < length sh. sh' ! j = sh ! j \<or> length (sh' ! j) = ShareSize L)
    \<and> (\<forall>i \<in> set is. start + i < length sh \<longrightarrow> length (sh' ! (start + i)) = ShareSize L)"
  using assms
proof (induction "is" arbitrary: sh)
  case (Cons i js)
  let ?s = "slice (i * ss) ((i + 1) * ss) bs"
  have n: "length ?s = ShareSize L" "fill_shares L ss bs start js (sh[start + i := ?s]) = Inr sh'"
    using Cons.prems share_okD(2) [OF Cons.prems(2), of ?s] by (auto simp: Let_def split: option.splits)
  note ih = Cons.IH [OF n(2) Cons.prems(2)]
  then have l: "length sh' = length sh" by simp
  have a: "sh' ! j = sh ! j \<or> length (sh' ! j) = ShareSize L" if "j < length sh" for j
    using ih that n(1) by (cases "j = start + i") (auto simp: nth_list_update)
  have "length (sh' ! (start + i)) = ShareSize L" if "start + i < length sh"
    using ih that n(1) by (force simp: nth_list_update)
  then show ?case using ih l a by (metis length_list_update set_ConsD)
qed simp

lemma fillRow_shape:
  assumes "fillRow L sh bs row ss k = Inr sh'" "share_ok L" "shares_ok L (take (row * k) sh)"
  shows "length sh' = length sh \<and> shares_ok L (take (row * k + length bs div ss) sh')"
proof -
  let ?n = "length bs div ss"
  have f: "row * k + ?n \<le> length sh" "fill_shares L ss bs (row * k) [0..<?n] sh = Inr sh'"
    using assms(1) by (auto simp: fillRow_def Let_def split: if_splits)
  note s = fill_shares_shape [OF f(2) assms(2)]
  then have len: "length sh' = length sh" by (rule conjunct1)
  have old: "j < length sh \<Longrightarrow> sh' ! j = sh ! j \<or> length (sh' ! j) = ShareSize L" for j using s by blast
  have new: "i < ?n \<Longrightarrow> length (sh' ! (row * k + i)) = ShareSize L" for i using s f(1) by simp
  have "length (sh' ! j) = ShareSize L" if j: "j < row * k + ?n" for j
  proof (cases "j < row * k")
    case True
    then have "length (sh ! j) = ShareSize L" using shares_ok_nth [OF assms(3), of j] f(1) by simp
    moreover have "j < length sh" using j f(1) by linarith
    ultimately show ?thesis using old [of j] by auto
  next
    case False
    then show ?thesis using new [of "j - row * k"] j by simp
  qed
  then have "shares_ok L (take (row * k + ?n) sh')" unfolding shares_ok_def
    by (intro ballI) (auto simp: in_set_conv_nth)
  with len show ?thesis by simp
qed

lemma ReadShares_rows_shape:
  assumes "ReadShares_rows L ss k [row..<k] r sh = Inr sh'" "share_ok L" "0 < ss" "length sh = k * k" "shares_ok L (take (row * k) sh)" "row \<le> k"
  shows "length sh' = k * k \<and> shares_ok L sh'"
  using assms
proof (induction "k - row" arbitrary: row r sh)
  case 0
  then show ?case by simp
next
  case (Suc d)
  have u: "[row..<k] = row # [Suc row..<k]" using Suc.hyps(2) by (simp add: upt_conv_Cons)
  obtain n res r' where rf: "ReadFull r (ss * k) = (n, res, r')" by (metis prod_cases3)
  show ?case
  proof (cases res)
    case (Inl e)
    then have n: "n = length r" using rf by (auto simp: ReadFull_def split: if_splits)
    obtain sh1 where f: "fillRow L sh r row ss k = Inr sh1" "sh' = take (row * k + n div ss) sh1 @ replicate (length sh1 - (row * k + n div ss)) (TailPaddingShare L)"
      using Suc.prems(1) rf Inl n unfolding u by (auto simp: Let_def split: sum.splits if_splits)
    note s = fillRow_shape [OF f(1) Suc.prems(2,5)]
    have "row * k + n div ss \<le> length sh" using f(1) n by (auto simp: fillRow_def Let_def split: if_splits)
    then show ?thesis using s f(2) n Suc.prems(4) share_okD(4) [OF Suc.prems(2)] by simp
  next
    case (Inr bs)
    then have bs: "length bs = ss * k" using rf by (auto simp: ReadFull_def split: if_splits)
    obtain sh1 where f: "fillRow L sh bs row ss k = Inr sh1" "ReadShares_rows L ss k [Suc row..<k] r' sh1 = Inr sh'"
      using Suc.prems(1) rf Inr unfolding u by (auto split: sum.splits)
    note s = fillRow_shape [OF f(1) Suc.prems(2,5)]
    show ?thesis using Suc.hyps(2) Suc.prems s bs by (intro Suc.hyps(1) [OF _ f(2)]) (auto simp: add.commute)
  qed
qed

lemma ReadShares_shape: "ReadShares L r ss k = Inr sh \<Longrightarrow> share_ok L \<Longrightarrow> 0 < ss \<Longrightarrow> length sh = k * k \<and> shares_ok L sh"
  unfolding ReadShares_def by (erule ReadShares_rows_shape) simp_all

section \<open>Streaming a square\<close>

text \<open>The shares a reader has still to fetch.\<close>

definition sr_left :: "(nat \<Rightarrow> nat \<Rightarrow> byte list) \<Rightarrow> ShareReader \<Rightarrow> byte list" where
  "sr_left f r = sr_buf r @ concat (map (\<lambda>i. f (i div sr_odsSize r) (i mod sr_odsSize r)) [current r..<total r])"

lemma sr_fill_ok:
  assumes "sr_fill (\<lambda>i j. Inr (f i j)) n r = (res, r')" "sr_buf r = []"
  shows "\<exists>bs. res = Inr bs \<and> sr_left f r = bs @ sr_left f r' \<and> (length bs = n \<or> total r \<le> current r' \<and> sr_buf r' = [])
    \<and> total r' = total r \<and> sr_odsSize r' = sr_odsSize r"
  using assms
proof (induction "\<lambda>i j. Inr (f i j) :: string + byte list" n r arbitrary: res r' rule: sr_fill.induct)
  case (1 n r)
  let ?x = "f (current r div sr_odsSize r) (current r mod sr_odsSize r)" and ?r = "r\<lparr>current := current r + 1\<rparr>"
  show ?case
  proof (cases "current r < total r")
    case True
    have left: "sr_left f r = ?x @ sr_left f ?r" using 1(3) True by (simp add: sr_left_def upt_conv_Cons)
    show ?thesis
    proof (cases "length ?x < n")
      case small: True
      obtain res1 r1 where rec: "sr_fill (\<lambda>i j. Inr (f i j)) (n - length ?x) ?r = (res1, r1)" by fastforce
      have "\<exists>bs. res1 = Inr bs \<and> sr_left f ?r = bs @ sr_left f r1 \<and> (length bs = n - length ?x \<or> total ?r \<le> current r1 \<and> sr_buf r1 = [])
          \<and> total r1 = total ?r \<and> sr_odsSize r1 = sr_odsSize ?r"
        using 1(1) [of ?x ?r] True small rec 1(3) by simp
      then show ?thesis using 1(2) True small rec left by (auto simp: Let_def sr_fill.simps [of _ n] less_Suc_eq)
    next
      case False
      then show ?thesis using 1(2,3) True left by (auto simp: Let_def sr_fill.simps [of _ n] sr_left_def)
    qed
  next
    case False
    then show ?thesis using 1(2,3) by (auto simp: sr_fill.simps [of _ n] sr_left_def)
  qed
qed

lemma sr_Read_ok:
  assumes "sr_Read (\<lambda>i j. Inr (f i j)) k r = (res, r')"
  shows "if current r \<ge> total r \<and> sr_buf r = [] then res = None \<and> sr_left f r = []
    else \<exists>bs. res = Some (Inr bs) \<and> sr_left f r = bs @ sr_left f r' \<and> (length bs = k \<or> sr_left f r' = []) \<and> total r' = total r \<and> sr_odsSize r' = sr_odsSize r"
proof -
  consider (fin) "current r \<ge> total r \<and> sr_buf r = []" | (buf) "\<not> (current r \<ge> total r \<and> sr_buf r = [])" "k \<le> length (sr_buf r)"
    | (fill) "\<not> (current r \<ge> total r \<and> sr_buf r = [])" "length (sr_buf r) < k" by linarith
  then show ?thesis
  proof cases
    case fin
    then show ?thesis using assms(1) by (simp add: sr_Read_def sr_left_def)
  next
    case buf
    have "sr_left f r = take k (sr_buf r) @ sr_left f (r\<lparr>sr_buf := drop k (sr_buf r)\<rparr>)" by (simp add: sr_left_def)
    then show ?thesis using assms buf by (auto simp: sr_Read_def)
  next
    case fill
    let ?r = "r\<lparr>sr_buf := []\<rparr>" and ?n = "k - length (sr_buf r)"
    obtain res1 r1 where s: "sr_fill (\<lambda>i j. Inr (f i j)) ?n ?r = (res1, r1)" by fastforce
    obtain bs where bs: "res1 = Inr bs" "sr_left f ?r = bs @ sr_left f r1" "length bs = ?n \<or> total ?r \<le> current r1 \<and> sr_buf r1 = []"
      "total r1 = total ?r" "sr_odsSize r1 = sr_odsSize ?r" using sr_fill_ok [OF s] by auto
    have res: "res = Some (Inr (sr_buf r @ bs))" "r' = r1" using assms(1) fill s bs(1) by (auto simp: sr_Read_def Let_def)
    have left: "sr_left f r = (sr_buf r @ bs) @ sr_left f r'" using bs(2) res(2) by (simp add: sr_left_def)
    have "length (sr_buf r @ bs) = k \<or> sr_left f r' = []" using bs(3,4) fill res(2) by (auto simp: sr_left_def)
    then show ?thesis using res left bs(4,5) fill(1) by auto
  qed
qed

lemma sr_drain_prefix:
  "\<exists>cs ended. sr_drain (\<lambda>i j. Inr (f i j)) ks r = Inr (cs, ended) \<and> (\<exists>rest. sr_left f r = cs @ rest \<and> (ended \<longrightarrow> rest = []))"
proof (induction ks arbitrary: r)
  case (Cons k ks)
  obtain res r' where s: "sr_Read (\<lambda>i j. Inr (f i j)) k r = (res, r')" by fastforce
  show ?case using sr_Read_ok [OF s] Cons.IH [of r'] s by (auto split: if_splits)
qed (rule exI [of _ "[]"], rule exI [of _ False], simp)

lemma sr_drain_all:
  assumes "\<And>k. k \<in> set ks \<Longrightarrow> 0 < k" "length (sr_left f r) < length ks" "\<And>i. i < total r \<Longrightarrow> f (i div sr_odsSize r) (i mod sr_odsSize r) \<noteq> []"
  shows "sr_drain (\<lambda>i j. Inr (f i j)) ks r = Inr (sr_left f r, True)"
  using assms
proof (induction ks arbitrary: r)
  case (Cons k ks)
  obtain res r' where s: "sr_Read (\<lambda>i j. Inr (f i j)) k r = (res, r')" by fastforce
  show ?case
  proof (cases "current r \<ge> total r \<and> sr_buf r = []")
    case True
    then show ?thesis using sr_Read_ok [OF s] s by simp
  next
    case False
    then obtain bs where bs: "res = Some (Inr bs)" "sr_left f r = bs @ sr_left f r'" "length bs = k \<or> sr_left f r' = []" "total r' = total r" "sr_odsSize r' = sr_odsSize r"
      using sr_Read_ok [OF s] by auto
    have "sr_left f r \<noteq> []" using False Cons.prems(3) [of "current r"] by (auto simp: sr_left_def)
    then have "bs \<noteq> []" using bs(2,3) Cons.prems(1) by force
    then have "length (sr_left f r') < length ks" using bs(2) Cons.prems(2) by (cases bs) auto
    then show ?thesis using Cons.IH [of r'] Cons.prems(1,3) s bs by simp
  qed
qed simp

text \<open>A stream over a whole square is its shares, row by row.\<close>

lemma sr_left_new:
  assumes "\<And>i. i < k \<Longrightarrow> length (rowf i) = k"
  shows "sr_left (\<lambda>i j. rowf i ! j) (NewShareReader k) = concat (concat (map rowf [0..<k]))"
proof -
  have "map (\<lambda>i. rowf (i div k) ! (i mod k)) [0..<n * k] = concat (map rowf [0..<n])" if "n \<le> k" for n
    using that
  proof (induction n)
    case (Suc n)
    have "map (\<lambda>i. rowf (i div k) ! (i mod k)) [n * k..<n * k + k] = map (\<lambda>j. rowf n ! j) [0..<k]"
      by (rule nth_equalityI) (use Suc.prems in auto)
    also have "\<dots> = rowf n" using assms [of n] Suc.prems by (metis Suc_le_lessD map_nth)
    finally have "map (\<lambda>i. rowf (i div k) ! (i mod k)) [n * k..<n * k + k] = rowf n" .
    moreover have "[0..<Suc n * k] = [0..<n * k] @ [n * k..<n * k + k]" using upt_add_eq_append [of 0 "n * k" k] by (simp add: add.commute)
    ultimately show ?case using Suc by simp
  qed simp
  from this [of k] show ?thesis by (simp add: sr_left_def NewShareReader_def)
qed

section \<open>Axes of a square\<close>

text \<open>The original square of an extended one.\<close>

definition ods_of :: "eds \<Rightarrow> square" where
  "ods_of eds = map (take (Width eds div 2)) (take (Width eds div 2) eds)"

lemma eds_okD:
  assumes "eds_ok L eds" "i < Width eds" "ax = AxisRow \<or> ax = AxisCol"
  shows "length (eds_axis eds ax i) = Width eds" "shares_ok L (eds_axis eds ax i)" "codeword L (eds_axis eds ax i)"
proof -
  have r: "length r = Width eds \<and> shares_ok L r \<and> codeword L r" if "r \<in> set eds" for r using assms(1) that by (simp add: eds_ok_def)
  show "length (eds_axis eds ax i) = Width eds" "codeword L (eds_axis eds ax i)"
    using r [of "eds ! i"] assms by (auto simp: eds_axis_def eds_row_def eds_col_def eds_ok_def)
  have "shares_ok L (eds_col eds i)" using r assms(2) by (auto simp: shares_ok_def eds_col_def)
  then show "shares_ok L (eds_axis eds ax i)" using r [of "eds ! i"] assms(2,3) by (auto simp: eds_axis_def eds_row_def)
qed

lemma eds_half:
  assumes "eds_ok L eds"
  obtains k where "Width eds = 2 * k" "0 < k" "Width eds div 2 = k"
  using assms that unfolding eds_ok_def by (metis even_two_times_div_two mult_is_0 not_gr0)

lemma eds_axis_nth:
  "i < Width eds \<Longrightarrow> j < Width eds \<Longrightarrow> ax = AxisRow \<or> ax = AxisCol \<Longrightarrow>
    eds_axis eds ax i ! j = (if ax = AxisRow then GetCell eds i j else GetCell eds j i)"
  by (auto simp: eds_axis_def eds_row_def eds_col_def)

lemma eds_axis_opposite:
  assumes "i < Width eds" "j < Width eds" "ax = AxisRow \<or> ax = AxisCol"
  shows "eds_axis eds (oppositeAxis ax) j ! i = eds_axis eds ax i ! j"
  using assms by (auto simp: eds_axis_nth oppositeAxis_def)

lemma ods_axisHalf:
  assumes "eds_ok L eds" "i < Width eds div 2" "ax = AxisRow \<or> ax = AxisCol"
  shows "square_axisHalf (ods_of eds) ax i = Inr \<lparr>Shares = take (Width eds div 2) (eds_axis eds ax i), IsParity = False\<rparr>"
proof -
  obtain k where k: "Width eds = 2 * k" "0 < k" "Width eds div 2 = k" using eds_half [OF assms(1)] .
  have "map (\<lambda>j. ods_of eds ! j ! i) [0..<k] = take k (eds_col eds i)"
    by (rule nth_equalityI) (use k assms(2) in \<open>auto simp: ods_of_def eds_col_def\<close>)
  then show ?thesis using assms k by (auto simp: square_axisHalf_def ods_of_def eds_axis_def eds_row_def)
qed

definition codec_cache_ok :: "(nat, nat) fmap \<Rightarrow> bool" where
  "codec_cache_ok cache \<longleftrightarrow> (\<forall>ln enc. fmlookup cache ln = Some enc \<longrightarrow> enc = ln div 2)"

lemma Encoder_ok:
  assumes "codec_ok L" "0 < k" "codec_cache_ok cache"
  shows "\<exists>cache'. Encoder L (k * 2) cache = (Inr k, cache') \<and> codec_cache_ok cache'"
  proof (cases "fmlookup cache (k * 2)")
  case None
  then show ?thesis using assms by (auto simp: Encoder_def codec_ok_def codec_cache_ok_def)
next
  case (Some enc)
  then have "enc = k" using assms(3) unfolding codec_cache_ok_def by fastforce
  then show ?thesis using Some assms(3) by (simp add: Encoder_def)
qed

lemma compute_share_ok:
  assumes L: "lib_ok L" and eds: "eds_ok L eds" and c: "codec_cache_ok cache" and i: "i < Width eds" "j < Width eds div 2" and ax: "ax = AxisRow \<or> ax = AxisCol"
  shows "compute_share L cache (ods_of eds) (oppositeAxis ax) i j = Inr (eds_axis eds ax i ! j)"
proof -
  obtain k where k: "Width eds = 2 * k" "0 < k" "Width eds div 2 = k" using eds_half [OF eds] .
  have op: "oppositeAxis ax = AxisRow \<or> oppositeAxis ax = AxisCol" by (simp add: oppositeAxis_def)
  let ?xs = "eds_axis eds (oppositeAxis ax) j"
  have j: "j < Width eds" using i(2) by simp
  note xs = eds_okD [OF eds j op]
  have p: "parity_of L (take k ?xs) (drop k ?xs)" using xs k by (intro codeword_parity [OF L]) auto
  have h: "square_axisHalf (ods_of eds) (oppositeAxis ax) j = Inr \<lparr>Shares = take k ?xs, IsParity = False\<rparr>" using ods_axisHalf [OF eds i(2) op] k by simp
  have e: "fst (Encoder L (length (ods_of eds) * 2) cache) = Inr k" using Encoder_ok [OF lib_okD(2) [OF L] k(2) c] k by (auto simp: ods_of_def)
  have len: "length (take k ?xs) = k" "length (ods_of eds) = k" using xs(1) k by (auto simp: ods_of_def)
  obtain ys where ys: "ReconstructSome L k (take k ?xs @ replicate k []) ((replicate (2 * k) False)[i := True]) = Inr ys" "ys ! i = ?xs ! i"
    using p i(1) k len unfolding parity_of_def by (metis append_take_drop_id)
  have "NewShare L (?xs ! i) = None" using share_okD(2) [OF lib_okD(1) [OF L]] shares_ok_nth [OF xs(2), of i] xs(1) i(1) by simp
  then show ?thesis using h e len ys eds_axis_opposite [OF i(1) j ax] by (simp add: compute_share_def Let_def mult.commute)
qed

lemma computeAxisHalf_ok:
  assumes "lib_ok L" "eds_ok L eds" "codec_cache_ok cache" "i < Width eds" "ax = AxisRow \<or> ax = AxisCol"
  shows "computeAxisHalf L cache (ods_of eds) ax i = Inr \<lparr>Shares = take (Width eds div 2) (eds_axis eds ax i), IsParity = False\<rparr>"
proof -
  let ?k = "Width eds div 2" and ?xs = "eds_axis eds ax i"
  have "traverse (compute_share L cache (ods_of eds) (oppositeAxis ax) i) [0..<?k] = Inr (map (\<lambda>j. ?xs ! j) [0..<?k])"
    using assms by (intro traverse_Inr compute_share_ok) auto
  moreover have "map (\<lambda>j. ?xs ! j) [0..<?k] = take ?k ?xs"
    by (rule nth_equalityI) (use eds_okD(1) [OF assms(2,4,5)] in auto)
  ultimately show ?thesis by (simp add: computeAxisHalf_def ods_of_def)
qed

end
