(* ===== verification/Containers.thy ===== *)
theory Containers
  imports SquareProofs ShwapIDs
begin

text \<open>
  Containers of shares with proofs, and their verification against the roots of a square: \<^verbatim>\<open>share/root.go\<close>,
  \<^verbatim>\<open>share/shwap/share.go\<close>, \<^verbatim>\<open>sample.go\<close> and \<^verbatim>\<open>row.go\<close>. Namespaced Merkle trees (\<^verbatim>\<open>nmt\<close> and the wrapper of \<^verbatim>\<open>celestia-app\<close>)
  and the framing of messages (\<^verbatim>\<open>serde\<close>) are parameters; a namespace is its bytes.
\<close>

section \<open>The packages the code relies on\<close>

text \<open>A tree is made for the number of original shares of an axis and the index of the axis, and filled with the shares of the
  axis; \<open>'p\<close> is the type of its proofs. \<open>LeafHashes\<close> and \<open>ComputeRoot\<close> are \<^verbatim>\<open>ComputePrefixedLeafHashes\<close> and
  \<^verbatim>\<open>ComputeRootWithBasicValidation\<close>.\<close>

record pb_Proof =
  pb_Start :: int
  pb_End :: int
  pb_Nodes :: "byte list list"
  pb_LeafHash :: "byte list option"
  pb_IsMaxNamespaceIgnored :: bool

record 'p nmt_lib =
  NsSize :: nat
  NsErr :: "byte list \<Rightarrow> string option"
  IsLessThan :: "byte list \<Rightarrow> byte list \<Rightarrow> bool"
  IsLessOrEqualThan :: "byte list \<Rightarrow> byte list \<Rightarrow> bool"
  TreeRoot :: "nat \<Rightarrow> nat \<Rightarrow> byte list list \<Rightarrow> string + byte list"
  ProveRange :: "nat \<Rightarrow> nat \<Rightarrow> byte list list \<Rightarrow> int \<Rightarrow> int \<Rightarrow> string + 'p"
  ProveNamespace :: "nat \<Rightarrow> nat \<Rightarrow> byte list list \<Rightarrow> byte list \<Rightarrow> string + 'p"
  PStart :: "'p \<Rightarrow> int"
  PEnd :: "'p \<Rightarrow> int"
  PNodes :: "'p \<Rightarrow> byte list list"
  PLeafHash :: "'p \<Rightarrow> byte list option"
  PMaxIgnored :: "'p \<Rightarrow> bool"
  IsEmptyProof :: "'p \<Rightarrow> bool"
  IsOfAbsence :: "'p \<Rightarrow> bool"
  NewInclusionProof :: "int \<Rightarrow> int \<Rightarrow> byte list list \<Rightarrow> bool \<Rightarrow> 'p"
  NewAbsenceProof :: "int \<Rightarrow> int \<Rightarrow> byte list list \<Rightarrow> byte list \<Rightarrow> bool \<Rightarrow> 'p"
  ProtoToProof :: "pb_Proof \<Rightarrow> 'p"
  VerifyInclusion :: "'p \<Rightarrow> byte list \<Rightarrow> byte list list \<Rightarrow> byte list \<Rightarrow> bool"
  VerifyNamespace :: "'p \<Rightarrow> byte list \<Rightarrow> byte list list \<Rightarrow> byte list \<Rightarrow> bool"
  LeafHashes :: "byte list \<Rightarrow> byte list list \<Rightarrow> string + byte list list"
  ComputeRoot :: "'p \<Rightarrow> byte list \<Rightarrow> byte list list \<Rightarrow> bool \<Rightarrow> string + byte list"

section \<open>Roots of a square\<close>

definition DataHashSize :: nat where "DataHashSize = 32"

definition AxisRootSize :: nat where "AxisRootSize = 90"

record AxisRoots =
  RowRoots :: "byte list list"
  ColumnRoots :: "byte list list"

definition DataHash_Validate :: "byte list \<Rightarrow> string option" where
  "DataHash_Validate dh = (if length dh \<noteq> DataHashSize then Some ''invalid hash size'' else None)"

definition IsEmptyEDS :: "byte list \<Rightarrow> byte list \<Rightarrow> bool" where
  "IsEmptyEDS emptyEDSDataHash dh \<longleftrightarrow> emptyEDSDataHash = dh"

definition hexdigit :: "byte \<Rightarrow> char" where
  "hexdigit b = ''0123456789ABCDEF'' ! unat b"

definition DataHash_String :: "byte list \<Rightarrow> string" where
  "DataHash_String dh = concat (map (\<lambda>b. [hexdigit (b div 16), hexdigit (b mod 16)]) dh)"

definition IsOutsideRange :: "'p nmt_lib \<Rightarrow> byte list \<Rightarrow> byte list \<Rightarrow> byte list \<Rightarrow> string + bool" where
  "IsOutsideRange N namespace leftHash rightHash =
     (if length leftHash < NsSize N then Inl ''left is too short''
      else if length rightHash < 2 * NsSize N then Inl ''rightHash is too short''
      else
        let ns1 = take (NsSize N) leftHash; ns2 = slice (NsSize N) (NsSize N * 2) rightHash in
        case NsErr N ns1 of
          Some e \<Rightarrow> Inl e
        | None \<Rightarrow>
            (case NsErr N ns2 of
               Some e \<Rightarrow> Inl e
             | None \<Rightarrow> Inr (IsLessThan N namespace ns1 \<or> \<not> IsLessOrEqualThan N namespace ns2)))"

definition IsAboveMax :: "'p nmt_lib \<Rightarrow> byte list \<Rightarrow> byte list \<Rightarrow> string + bool" where
  "IsAboveMax N namespace hash =
     (if length hash < 2 * NsSize N then Inl ''hash is too short''
      else
        let ns = slice (NsSize N) (NsSize N * 2) hash in
        case NsErr N ns of Some e \<Rightarrow> Inl e | None \<Rightarrow> Inr (\<not> IsLessOrEqualThan N namespace ns))"

definition IsBelowMin :: "'p nmt_lib \<Rightarrow> byte list \<Rightarrow> byte list \<Rightarrow> string + bool" where
  "IsBelowMin N namespace hash =
     (if length hash < NsSize N then Inl ''hash is too short''
      else
        let ns1 = take (NsSize N) hash in
        case NsErr N ns1 of Some e \<Rightarrow> Inl e | None \<Rightarrow> Inr (IsLessThan N namespace ns1))"

fun rows_with_namespace :: "'p nmt_lib \<Rightarrow> byte list \<Rightarrow> nat \<Rightarrow> byte list list \<Rightarrow> string + nat list" where
  "rows_with_namespace N namespace i [] = Inr []"
| "rows_with_namespace N namespace i (row # rows) =
     (case IsOutsideRange N namespace row row of
        Inl e \<Rightarrow> Inl e
      | Inr outside \<Rightarrow>
          (case rows_with_namespace N namespace (Suc i) rows of
             Inl e \<Rightarrow> Inl e
           | Inr idxs \<Rightarrow> Inr (if outside then idxs else i # idxs)))"

definition RowsWithNamespace :: "'p nmt_lib \<Rightarrow> AxisRoots \<Rightarrow> byte list \<Rightarrow> string + nat list" where
  "RowsWithNamespace N root namespace = rows_with_namespace N namespace 0 (RowRoots root)"

definition RootHashForCoordinates :: "AxisRoots \<Rightarrow> axis \<Rightarrow> nat \<Rightarrow> nat \<Rightarrow> byte list" where
  "RootHashForCoordinates r axisType rowIdx colIdx =
     (if axisType = AxisRow then RowRoots r ! rowIdx else ColumnRoots r ! colIdx)"

section \<open>Shares on the wire\<close>

text \<open>A pointer to a message may be nil.\<close>

definition ShareFromProto :: "square_lib \<Rightarrow> byte list option \<Rightarrow> string + byte list" where
  "ShareFromProto L s =
     (case s of
        None \<Rightarrow> Inl ''pb share is nil''
      | Some data \<Rightarrow> (case NewShare L data of Some e \<Rightarrow> Inl e | None \<Rightarrow> Inr data))"

definition SharesToProto :: "byte list list \<Rightarrow> byte list option list" where
  "SharesToProto shrs = map Some shrs"

definition SharesFromProto :: "square_lib \<Rightarrow> byte list option list \<Rightarrow> string + byte list list" where
  "SharesFromProto L shrs = traverse (ShareFromProto L) shrs"

text \<open>The bound on the nodes of a proof; \<open>maxSquare\<close> is \<^verbatim>\<open>share.MaxSquareSize\<close>.\<close>

fun bits_Len :: "nat \<Rightarrow> nat" where
  "bits_Len n = (if n = 0 then 0 else Suc (bits_Len (n div 2)))"

declare bits_Len.simps [simp del]

definition maxProofNodes :: "nat \<Rightarrow> nat" where
  "maxProofNodes maxSquare = 2 * bits_Len (2 * maxSquare)"

definition checkProofNodes :: "nat \<Rightarrow> byte list list \<Rightarrow> string option" where
  "checkProofNodes maxSquare nodes = (if length nodes > maxProofNodes maxSquare then Some ''proof has too many nodes'' else None)"

definition proof_to_pb :: "'p nmt_lib \<Rightarrow> 'p \<Rightarrow> pb_Proof" where
  "proof_to_pb N p = \<lparr>pb_Start = PStart N p, pb_End = PEnd N p, pb_Nodes = PNodes N p, pb_LeafHash = PLeafHash N p, pb_IsMaxNamespaceIgnored = PMaxIgnored N p\<rparr>"

text \<open>The getters of a message that is nil return zero values.\<close>

definition nil_proof :: pb_Proof where
  "nil_proof = \<lparr>pb_Start = 0, pb_End = 0, pb_Nodes = [], pb_LeafHash = None, pb_IsMaxNamespaceIgnored = False\<rparr>"

section \<open>Samples\<close>

record 'p Sample =
  s_Share :: "byte list"
  s_Proof :: "'p option"
  ProofType :: axis

record pb_Sample =
  pbs_Share :: "byte list option"
  pbs_Proof :: "pb_Proof option"
  pbs_ProofType :: int

definition axis_int :: "axis \<Rightarrow> int" where
  "axis_int ax = (case ax of AxisRow \<Rightarrow> 0 | AxisCol \<Rightarrow> 1 | AxisOther i \<Rightarrow> i)"

definition int_axis :: "int \<Rightarrow> axis" where
  "int_axis i = (if i = 0 then AxisRow else if i = 1 then AxisCol else AxisOther i)"

definition ErrFailedVerification :: string where "ErrFailedVerification = ''failed to verify inclusion''"

text \<open>\<open>SampleFromShares\<close> reads the share after the proof was made, so its index is in range.\<close>

definition SampleFromShares :: "'p nmt_lib \<Rightarrow> byte list list \<Rightarrow> axis \<Rightarrow> SampleCoords \<Rightarrow> string + 'p Sample" where
  "SampleFromShares N shares proofType idx =
     (case ProveRange N (length shares div 2) (nat (Row idx)) shares (Col idx) (Col idx + 1) of
        Inl e \<Rightarrow> Inl e
      | Inr prf \<Rightarrow> Inr \<lparr>s_Share = shares ! nat (Col idx), s_Proof = Some prf, ProofType = proofType\<rparr>)"

definition SampleFromProto :: "square_lib \<Rightarrow> 'p nmt_lib \<Rightarrow> nat \<Rightarrow> pb_Sample option \<Rightarrow> string + 'p Sample" where
  "SampleFromProto L N maxSquare s =
     (case s of
        None \<Rightarrow> Inl ''pb sample is nil''
      | Some s \<Rightarrow>
          let prf = case_option nil_proof id (pbs_Proof s) in
          case checkProofNodes maxSquare (pb_Nodes prf) of
            Some e \<Rightarrow> Inl e
          | None \<Rightarrow>
              (case ShareFromProto L (pbs_Share s) of
                 Inl e \<Rightarrow> Inl e
               | Inr shr \<Rightarrow>
                   Inr \<lparr>s_Share = shr,
                        s_Proof = Some (NewInclusionProof N (pb_Start prf) (pb_End prf) (pb_Nodes prf) (pb_IsMaxNamespaceIgnored prf)),
                        ProofType = int_axis (pbs_ProofType s)\<rparr>))"

text \<open>The proof of a sample is dereferenced: there is no message of an empty sample.\<close>

definition Sample_ToProto :: "'p nmt_lib \<Rightarrow> 'p Sample \<Rightarrow> pb_Sample option" where
  "Sample_ToProto N s =
     map_option (\<lambda>p. \<lparr>pbs_Share = Some (s_Share s), pbs_Proof = Some (proof_to_pb N p), pbs_ProofType = axis_int (ProofType s)\<rparr>) (s_Proof s)"

definition Sample_IsEmpty :: "'p Sample \<Rightarrow> bool" where
  "Sample_IsEmpty s \<longleftrightarrow> s_Proof s = None"

definition inclusionNamespace :: "square_lib \<Rightarrow> byte list \<Rightarrow> nat \<Rightarrow> nat \<Rightarrow> nat \<Rightarrow> byte list" where
  "inclusionNamespace L sh rowIdx colIdx squareSize =
     (if colIdx \<ge> squareSize div 2 \<or> rowIdx \<ge> squareSize div 2 then ParitySharesNamespace L else ShareNamespace L sh)"

definition Sample_verifyInclusion :: "square_lib \<Rightarrow> 'p nmt_lib \<Rightarrow> AxisRoots \<Rightarrow> nat \<Rightarrow> nat \<Rightarrow> 'p \<Rightarrow> 'p Sample \<Rightarrow> bool" where
  "Sample_verifyInclusion L N roots rowIdx colIdx prf s =
     VerifyInclusion N prf (inclusionNamespace L (s_Share s) rowIdx colIdx (length (RowRoots roots))) [s_Share s]
       (RootHashForCoordinates roots (ProofType s) rowIdx colIdx)"

definition Sample_Verify :: "square_lib \<Rightarrow> 'p nmt_lib \<Rightarrow> AxisRoots \<Rightarrow> nat \<Rightarrow> nat \<Rightarrow> 'p Sample \<Rightarrow> string option" where
  "Sample_Verify L N roots rowIdx colIdx s =
     (case s_Proof s of
        None \<Rightarrow> Some ''nil proof''
      | Some prf \<Rightarrow>
          if IsEmptyProof N prf then Some ''nil proof''
          else
            let check = (\<lambda>idx.
                  if PStart N prf \<noteq> int idx \<or> PEnd N prf \<noteq> int idx + 1 then Some ErrFailedVerification
                  else if \<not> Sample_verifyInclusion L N roots rowIdx colIdx prf s then Some ErrFailedVerification
                  else None) in
            case ProofType s of
              AxisRow \<Rightarrow> check colIdx
            | AxisCol \<Rightarrow> check rowIdx
            | AxisOther _ \<Rightarrow> Some ''invalid SampleProofType'')"

section \<open>Rows\<close>

datatype RowSide = Left | Right | Both | OtherSide int

record Row =
  row_shares :: "byte list list"
  side :: RowSide

record pb_Row =
  SharesHalf :: "byte list option list"
  HalfSide :: int

definition NewRow :: "byte list list \<Rightarrow> RowSide \<Rightarrow> Row" where
  "NewRow shares sd = \<lparr>row_shares = shares, side = sd\<rparr>"

definition AxisHalf_ToRow :: "AxisHalf \<Rightarrow> Row" where
  "AxisHalf_ToRow a = NewRow (Shares a) (if IsParity a then Right else Left)"

definition RowFromEDS :: "square_lib \<Rightarrow> eds \<Rightarrow> nat \<Rightarrow> RowSide \<Rightarrow> string + Row" where
  "RowFromEDS L eds rowIdx sd =
     (case FromBytes L (eds_row eds rowIdx) of
        Inl e \<Rightarrow> Inl e
      | Inr shares \<Rightarrow>
          (case sd of
             Both \<Rightarrow> Inr (NewRow shares sd)
           | Left \<Rightarrow> Inr (NewRow (take (length shares div 2) shares) sd)
           | Right \<Rightarrow> Inr (NewRow (drop (length shares div 2) shares) sd)
           | OtherSide _ \<Rightarrow> Inl ''invalid RowSide''))"

definition sideFromProto :: "int \<Rightarrow> RowSide" where
  "sideFromProto s = (if s = 0 then Left else Right)"

definition RowSide_ToProto :: "RowSide \<Rightarrow> int" where
  "RowSide_ToProto s = (if s = Left then 0 else 1)"

definition RowFromProto :: "square_lib \<Rightarrow> pb_Row option \<Rightarrow> string + Row" where
  "RowFromProto L r =
     (case r of
        None \<Rightarrow> Inl ''received nil Row''
      | Some r \<Rightarrow>
          (case SharesFromProto L (SharesHalf r) of
             Inl e \<Rightarrow> Inl e
           | Inr shrs \<Rightarrow> Inr \<lparr>row_shares = shrs, side = sideFromProto (HalfSide r)\<rparr>))"

text \<open>The full row, which is kept; a side that is none of the three makes the offset run out of the slice.\<close>

definition Row_Shares :: "square_lib \<Rightarrow> Row \<Rightarrow> (string + byte list list) \<times> Row" where
  "Row_Shares L r =
     (if side r = Both then (Inr (row_shares r), r)
      else
        let n = length (row_shares r);
            shares = (case side r of Left \<Rightarrow> Some (row_shares r @ replicate n []) | Right \<Rightarrow> Some (replicate n [] @ row_shares r) | _ \<Rightarrow> None) in
        case shares of
          None \<Rightarrow> (Inl ''index out of range'', r)
        | Some shares \<Rightarrow>
            (case Decode L shares of
               Inl e \<Rightarrow> (Inl e, r)
             | Inr rowShares \<Rightarrow>
                 (case FromBytes L rowShares of
                    Inl e \<Rightarrow> (Inl e, r\<lparr>row_shares := []\<rparr>)
                  | Inr shrs \<Rightarrow> (Inr shrs, r\<lparr>row_shares := shrs, side := Both\<rparr>))))"

definition Row_ToProto :: "Row \<Rightarrow> pb_Row" where
  "Row_ToProto r =
     (if side r = Both then \<lparr>SharesHalf = SharesToProto (take (length (row_shares r) div 2) (row_shares r)), HalfSide = 0\<rparr>
      else \<lparr>SharesHalf = SharesToProto (row_shares r), HalfSide = RowSide_ToProto (side r)\<rparr>)"

definition Row_IsEmpty :: "Row \<Rightarrow> bool" where
  "Row_IsEmpty r \<longleftrightarrow> row_shares r = []"

definition Row_verifyInclusion :: "square_lib \<Rightarrow> 'p nmt_lib \<Rightarrow> AxisRoots \<Rightarrow> nat \<Rightarrow> Row \<Rightarrow> string option \<times> Row" where
  "Row_verifyInclusion L N roots idx r =
     (case Row_Shares L r of
        (Inl e, r1) \<Rightarrow> (Some e, r1)
      | (Inr shrs, r1) \<Rightarrow>
          (case TreeRoot N (length shrs div 2) idx shrs of
             Inl e \<Rightarrow> (Some e, r1)
           | Inr root \<Rightarrow> (if RowRoots roots ! idx \<noteq> root then Some ''invalid root hash'' else None, r1)))"

definition Row_Verify :: "square_lib \<Rightarrow> 'p nmt_lib \<Rightarrow> AxisRoots \<Rightarrow> nat \<Rightarrow> Row \<Rightarrow> string option \<times> Row" where
  "Row_Verify L N roots idx r =
     (if row_shares r = [] then (Some ''empt row'', r)
      else
        let expectedShares = (if side r \<noteq> Both then length (RowRoots roots) div 2 else length (RowRoots roots)) in
        if length (row_shares r) \<noteq> expectedShares then (Some ''shares size doesn't match root size'', r)
        else if side r \<noteq> Left \<and> side r \<noteq> Right \<and> side r \<noteq> Both then (Some ''invalid RowSide'', r)
        else Row_verifyInclusion L N roots idx r)"

definition RowSide_String :: "RowSide \<Rightarrow> string option" where
  "RowSide_String s = (case s of Left \<Rightarrow> Some ''LEFT'' | Right \<Rightarrow> Some ''RIGHT'' | Both \<Rightarrow> Some ''BOTH'' | OtherSide _ \<Rightarrow> None)"

definition toRowSide :: "string \<Rightarrow> string + RowSide" where
  "toRowSide s =
     (if s = ''LEFT'' then Inr Left else if s = ''RIGHT'' then Inr Right else if s = ''BOTH'' then Inr Both
      else Inl ''invalid row side'')"

end
