(* ===== verification/NamespaceData.thy ===== *)
theory NamespaceData
  imports Containers
begin

text \<open>
  Shares of one namespace: those of a row with their proof (\<^verbatim>\<open>share/shwap/row_namespace_data.go\<close>), those of a square
  (\<^verbatim>\<open>namespace_data.go\<close>) and of a range (\<^verbatim>\<open>range_namespace_data.go\<close>), with their construction, verification and streams.
\<close>

section \<open>The framing of messages\<close>

text \<open>\<^verbatim>\<open>serde.Read\<close> takes a message off a stream, or reports the end of the stream or an error; \<^verbatim>\<open>serde.Write\<close> adds one. The messages of \<open>M\<close> are read back as
  they were written.\<close>

datatype serde_error = SerdeEOF | SerdeErr string

record 'm serde =
  serde_Read :: "byte list \<Rightarrow> nat \<times> (serde_error + 'm) \<times> byte list"
  serde_Write :: "'m \<Rightarrow> byte list"

definition serde_ok :: "'m serde \<Rightarrow> 'm set \<Rightarrow> bool" where
  "serde_ok S M \<longleftrightarrow> (\<forall>m \<in> M. \<forall>rest. serde_Read S (serde_Write S m @ rest) = (length (serde_Write S m), Inr m, rest)) \<and> serde_Read S [] = (0, Inl SerdeEOF, [])"

section \<open>The shares of a namespace in a row\<close>

record 'p RowNamespaceData =
  rnd_Shares :: "byte list list"
  rnd_Proof :: "'p option"

record pb_RowNamespaceData =
  pbr_Shares :: "byte list option list"
  pbr_Proof :: "pb_Proof option"

definition ErrNamespaceOutsideRange :: string where
  "ErrNamespaceOutsideRange = ''target namespace is outside of namespace range for the given root''"

text \<open>The first run of shares of the namespace, as its start and length.\<close>

fun ns_scan :: "square_lib \<Rightarrow> byte list \<Rightarrow> nat \<Rightarrow> byte list list \<Rightarrow> nat \<times> nat \<Rightarrow> nat \<times> nat" where
  "ns_scan L namespace i [] (from, count) = (from, count)"
| "ns_scan L namespace i (sh # shs) (from, count) =
     (if namespace = ShareNamespace L sh then ns_scan L namespace (Suc i) shs (if count = 0 then i else from, count + 1)
      else if count > 0 then (from, count)
      else ns_scan L namespace (Suc i) shs (from, count))"

definition RowNamespaceDataFromShares ::
    "square_lib \<Rightarrow> 'p nmt_lib \<Rightarrow> byte list list \<Rightarrow> byte list \<Rightarrow> nat \<Rightarrow> string + 'p RowNamespaceData" where
  "RowNamespaceDataFromShares L N shares namespace rowIndex =
     (let k = length shares div 2 in
      case TreeRoot N k rowIndex shares of
        Inl e \<Rightarrow> Inl e
      | Inr root \<Rightarrow>
          (case IsOutsideRange N namespace root root of
             Inl e \<Rightarrow> Inl e
           | Inr outside \<Rightarrow>
               if outside then Inl ErrNamespaceOutsideRange
               else
                 let (from, count) = ns_scan L namespace 0 (take k shares) (0, 0) in
                 if count = 0 then
                   (case ProveNamespace N k rowIndex shares namespace of
                      Inl e \<Rightarrow> Inl e
                    | Inr prf \<Rightarrow> Inr \<lparr>rnd_Shares = [], rnd_Proof = Some prf\<rparr>)
                 else
                   (case ProveRange N k rowIndex shares (int from) (int (from + count)) of
                      Inl e \<Rightarrow> Inl e
                    | Inr prf \<Rightarrow> Inr \<lparr>rnd_Shares = slice from (from + count) shares, rnd_Proof = Some prf\<rparr>)))"

definition RowNamespaceDataFromProto ::
    "square_lib \<Rightarrow> 'p nmt_lib \<Rightarrow> nat \<Rightarrow> pb_RowNamespaceData option \<Rightarrow> string + 'p RowNamespaceData" where
  "RowNamespaceDataFromProto L N maxSquare row =
     (case row of
        None \<Rightarrow> Inl ''pb row is nil''
      | Some row \<Rightarrow>
          (case SharesFromProto L (pbr_Shares row) of
             Inl e \<Rightarrow> Inl e
           | Inr shares \<Rightarrow>
               (case pbr_Proof row of
                  None \<Rightarrow> Inr \<lparr>rnd_Shares = shares, rnd_Proof = None\<rparr>
                | Some p \<Rightarrow>
                    (case checkProofNodes maxSquare (pb_Nodes p) of
                       Some e \<Rightarrow> Inl e
                     | None \<Rightarrow>
                         let prf = (case pb_LeafHash p of
                               Some lh \<Rightarrow> NewAbsenceProof N (pb_Start p) (pb_End p) (pb_Nodes p) lh (pb_IsMaxNamespaceIgnored p)
                             | None \<Rightarrow> NewInclusionProof N (pb_Start p) (pb_End p) (pb_Nodes p) (pb_IsMaxNamespaceIgnored p)) in
                         Inr \<lparr>rnd_Shares = shares, rnd_Proof = Some prf\<rparr>))))"

definition RowNamespaceData_ToProto :: "'p nmt_lib \<Rightarrow> 'p RowNamespaceData \<Rightarrow> pb_RowNamespaceData" where
  "RowNamespaceData_ToProto N rnd = \<lparr>pbr_Shares = SharesToProto (rnd_Shares rnd), pbr_Proof = map_option (proof_to_pb N) (rnd_Proof rnd)\<rparr>"

definition RowNamespaceData_IsEmpty :: "'p RowNamespaceData \<Rightarrow> bool" where
  "RowNamespaceData_IsEmpty rnd \<longleftrightarrow> rnd_Proof rnd = None"

definition rnd_verifyInclusion :: "square_lib \<Rightarrow> 'p nmt_lib \<Rightarrow> byte list \<Rightarrow> byte list \<Rightarrow> 'p \<Rightarrow> byte list list \<Rightarrow> bool" where
  "rnd_verifyInclusion L N rowRoot namespace prf shares =
     VerifyNamespace N prf namespace (map (\<lambda>sh. ShareNamespace L sh @ sh) shares) rowRoot"

definition RowNamespaceData_Verify ::
    "square_lib \<Rightarrow> 'p nmt_lib \<Rightarrow> AxisRoots \<Rightarrow> byte list \<Rightarrow> nat \<Rightarrow> 'p RowNamespaceData \<Rightarrow> string option" where
  "RowNamespaceData_Verify L N roots namespace rowIdx rnd =
     (case rnd_Proof rnd of
        None \<Rightarrow> Some ''nil proof''
      | Some prf \<Rightarrow>
          if IsEmptyProof N prf then Some ''nil proof''
          else if rnd_Shares rnd = [] \<and> \<not> IsOfAbsence N prf then Some ''empty shares with non-absence proof''
          else if rnd_Shares rnd \<noteq> [] \<and> IsOfAbsence N prf then Some ''non-empty shares with absence proof''
          else
            let rowRoot = RowRoots roots ! rowIdx in
            case IsOutsideRange N namespace rowRoot rowRoot of
              Inl e \<Rightarrow> Some e
            | Inr outside \<Rightarrow>
                if outside then Some ''namespace out of range''
                else if \<not> rnd_verifyInclusion L N rowRoot namespace prf (rnd_Shares rnd) then Some ErrFailedVerification
                else None)"

definition RowNamespaceData_ReadFrom ::
    "square_lib \<Rightarrow> 'p nmt_lib \<Rightarrow> nat \<Rightarrow> pb_RowNamespaceData serde \<Rightarrow> byte list \<Rightarrow> nat \<times> (serde_error + 'p RowNamespaceData) \<times> byte list" where
  "RowNamespaceData_ReadFrom L N maxSquare S r =
     (case serde_Read S r of
        (n, Inl e, r') \<Rightarrow> (n, Inl e, r')
      | (n, Inr m, r') \<Rightarrow>
          (n, case RowNamespaceDataFromProto L N maxSquare (Some m) of Inl e \<Rightarrow> Inl (SerdeErr e) | Inr rnd \<Rightarrow> Inr rnd, r'))"

definition RowNamespaceData_WriteTo :: "'p nmt_lib \<Rightarrow> pb_RowNamespaceData serde \<Rightarrow> 'p RowNamespaceData \<Rightarrow> byte list" where
  "RowNamespaceData_WriteTo N S rnd = serde_Write S (RowNamespaceData_ToProto N rnd)"

section \<open>The shares of a namespace in a square\<close>

type_synonym 'p NamespaceData = "'p RowNamespaceData list"

definition nd_Flatten :: "'p NamespaceData \<Rightarrow> byte list list" where
  "nd_Flatten nd = concat (map rnd_Shares nd)"

definition nd_Length :: "'p NamespaceData \<Rightarrow> nat" where
  "nd_Length nd = sum_list (map (\<lambda>row. length (rnd_Shares row)) nd)"

fun nd_verify_rows :: "square_lib \<Rightarrow> 'p nmt_lib \<Rightarrow> AxisRoots \<Rightarrow> byte list \<Rightarrow> nat list \<Rightarrow> 'p NamespaceData \<Rightarrow> string option" where
  "nd_verify_rows L N root namespace (i # is) (row # rows) =
     (case RowNamespaceData_Verify L N root namespace i row of
        Some e \<Rightarrow> Some e
      | None \<Rightarrow> nd_verify_rows L N root namespace is rows)"
| "nd_verify_rows L N root namespace _ _ = None"

definition NamespaceData_Verify :: "square_lib \<Rightarrow> 'p nmt_lib \<Rightarrow> AxisRoots \<Rightarrow> byte list \<Rightarrow> 'p NamespaceData \<Rightarrow> string option" where
  "NamespaceData_Verify L N root namespace nd =
     (case RowsWithNamespace N root namespace of
        Inl e \<Rightarrow> Some e
      | Inr rowIdxs \<Rightarrow>
          if length rowIdxs \<noteq> length nd then Some ''unexpected number of rows''
          else nd_verify_rows L N root namespace rowIdxs nd)"

text \<open>Reading rows until the end of the stream, at most \<^verbatim>\<open>maxNamespaceDataRows\<close>, which is \<open>maxSquare\<close>.\<close>

function nd_read :: "square_lib \<Rightarrow> 'p nmt_lib \<Rightarrow> nat \<Rightarrow> pb_RowNamespaceData serde \<Rightarrow> byte list \<Rightarrow> nat \<Rightarrow> 'p NamespaceData \<Rightarrow> nat \<times> (string + 'p NamespaceData) \<times> byte list" where
  "nd_read L N maxSquare S r n ndNew =
     (case RowNamespaceData_ReadFrom L N maxSquare S r of
        (nn, Inl SerdeEOF, r') \<Rightarrow> (n + nn, Inr ndNew, r')
      | (nn, Inl (SerdeErr e), r') \<Rightarrow> (n + nn, Inl e, r')
      | (nn, Inr rnd, r') \<Rightarrow>
          if length ndNew \<ge> maxSquare then (n + nn, Inl ''namespace data exceeds the maximum of rows'', r')
          else nd_read L N maxSquare S r' (n + nn) (ndNew @ [rnd]))"
  by pat_completeness auto
termination by (relation "measure (\<lambda>(L, N, m, S, r, n, nd). m - length nd)") auto

declare nd_read.simps [simp del]

definition NamespaceData_ReadFrom :: "square_lib \<Rightarrow> 'p nmt_lib \<Rightarrow> nat \<Rightarrow> pb_RowNamespaceData serde \<Rightarrow> byte list \<Rightarrow> nat \<times> (string + 'p NamespaceData) \<times> byte list" where
  "NamespaceData_ReadFrom L N maxSquare S r = nd_read L N maxSquare S r 0 []"

definition NamespaceData_WriteTo :: "'p nmt_lib \<Rightarrow> pb_RowNamespaceData serde \<Rightarrow> 'p NamespaceData \<Rightarrow> byte list" where
  "NamespaceData_WriteTo N S nd = concat (map (RowNamespaceData_WriteTo N S) nd)"

section \<open>A range of shares\<close>

record 'p RangeNamespaceData =
  rng_Shares :: "byte list list list"
  FirstIncompleteRowProof :: "'p option"
  LastIncompleteRowProof :: "'p option"

definition GenerateSharesProofs :: "'p nmt_lib \<Rightarrow> int \<Rightarrow> int \<Rightarrow> int \<Rightarrow> nat \<Rightarrow> byte list list \<Rightarrow> string + 'p" where
  "GenerateSharesProofs N row fromCol toCol sz rowShares = ProveRange N sz (nat row) rowShares fromCol toCol"

text \<open>Cutting the rows to the original data, and the check that every share is of the namespace.\<close>

definition range_cut :: "nat \<Rightarrow> byte list list \<Rightarrow> byte list list" where
  "range_cut odsSize row = (if length row \<ge> odsSize then take odsSize row else row)"

definition range_same_ns :: "square_lib \<Rightarrow> byte list \<Rightarrow> byte list list list \<Rightarrow> bool" where
  "range_same_ns L namespace rows \<longleftrightarrow> (\<forall>row \<in> set rows. \<forall>sh \<in> set row. namespace = ShareNamespace L sh)"

definition RangeNamespaceDataFromShares ::
    "square_lib \<Rightarrow> 'p nmt_lib \<Rightarrow> byte list list list \<Rightarrow> SampleCoords \<Rightarrow> SampleCoords \<Rightarrow> string + 'p RangeNamespaceData" where
  "RangeNamespaceDataFromShares L N extendedRowShares from to =
     (if extendedRowShares = [] \<or> hd extendedRowShares = [] then Inl ''shares contain no rows or empty row''
      else
        let numRows = Row to - Row from + 1 in
        if int (length extendedRowShares) \<noteq> numRows then Inl ''mismatched rows''
        else
          let namespace = ShareNamespace L (hd extendedRowShares ! nat (Col from));
              odsSize = length (hd extendedRowShares) div 2;
              isMultiRow = numRows > 1;
              startsMidRow = Col from \<noteq> 0;
              endsMidRow = Col to \<noteq> int odsSize - 1;
              startProof = startsMidRow \<or> (\<not> isMultiRow \<and> endsMidRow);
              endProof = endsMidRow \<and> isMultiRow;
              endCol = (if isMultiRow then int odsSize else Col to + 1) in
          case (if startProof then map_sum id Some (GenerateSharesProofs N (Row from) (Col from) endCol odsSize (hd extendedRowShares)) else Inr None) of
            Inl e \<Rightarrow> Inl e
          | Inr firstProof \<Rightarrow>
              let rows1 = (if startProof then extendedRowShares[0 := slice (nat (Col from)) (nat endCol) (hd extendedRowShares)] else extendedRowShares) in
              (case (if endProof then map_sum id Some (GenerateSharesProofs N (Row to) 0 (Col to + 1) odsSize (last rows1)) else Inr None) of
                 Inl e \<Rightarrow> Inl e
               | Inr lastProof \<Rightarrow>
                   let rows2 = (if endProof then rows1[length rows1 - 1 := take (nat (Col to + 1)) (last rows1)] else rows1);
                       rows3 = map (range_cut odsSize) rows2 in
                   if \<not> range_same_ns L namespace rows3 then Inl ''mismatched namespace''
                   else Inr \<lparr>rng_Shares = rows3, FirstIncompleteRowProof = firstProof, LastIncompleteRowProof = lastProof\<rparr>))"

definition verifyProofBounds :: "'p nmt_lib \<Rightarrow> SampleCoords \<Rightarrow> SampleCoords \<Rightarrow> int \<Rightarrow> 'p RangeNamespaceData \<Rightarrow> string option" where
  "verifyProofBounds N from to odsSize rng =
     (let first = FirstIncompleteRowProof rng; final = LastIncompleteRowProof rng in
      if Row from = Row to then
        if first = None \<and> (Col from \<noteq> 0 \<or> Col to \<noteq> odsSize - 1) then Some ''missing proof for partial row range'' else None
      else if Col from \<noteq> 0 \<and> first = None then Some ''missing first row proof''
      else if (case first of Some p \<Rightarrow> PEnd N p \<noteq> odsSize | None \<Rightarrow> False) then Some ''first row proof must end at the row''
      else if Col to \<noteq> odsSize - 1 \<and> final = None then Some ''missing last row proof''
      else if (case final of Some p \<Rightarrow> PStart N p \<noteq> 0 | None \<Rightarrow> False) then Some ''last row proof must start at 0''
      else None)"

definition ParseNamespace :: "square_lib \<Rightarrow> byte list list list \<Rightarrow> int \<Rightarrow> int \<Rightarrow> string + byte list" where
  "ParseNamespace L rawShares startShare endShare =
     (if startShare < 0 then Inl ''start share should be positive''
      else if endShare \<le> 0 then Inl ''end share should be greater the 0''
      else if endShare \<le> startShare then Inl ''end share cannot be lower or equal to the starting share''
      else if rawShares = [] \<or> hd rawShares = [] then Inl ''empty shares''
      else if endShare - startShare \<noteq> int (sum_list (map length rawShares)) then Inl ''mismatch shares amount''
      else
        let startShareNs = ShareNamespace L (hd (hd rawShares)) in
        if \<not> range_same_ns L startShareNs rawShares then Inl ''shares range contain different namespaces''
        else Inr startShareNs)"

text \<open>No proof, no root.\<close>

definition computeRoot :: "'p nmt_lib \<Rightarrow> byte list list \<Rightarrow> byte list \<Rightarrow> 'p option \<Rightarrow> bool \<Rightarrow> string + byte list option" where
  "computeRoot N shares ns prf nsCompleteness =
     (case prf of
        None \<Rightarrow> Inr None
      | Some p \<Rightarrow>
          if shares = [] then Inl ''empty share list''
          else if IsEmptyProof N p \<or> IsOfAbsence N p then Inl ''incomplete row proof is invalid''
          else
            (case LeafHashes N ns shares of
               Inl e \<Rightarrow> Inl e
             | Inr hashes \<Rightarrow> map_sum id Some (ComputeRoot N p ns hashes nsCompleteness)))"

definition buildTreeRootFromLeaves :: "'p nmt_lib \<Rightarrow> byte list list \<Rightarrow> nat \<Rightarrow> string + byte list" where
  "buildTreeRootFromLeaves N extendedShares rowIndex = TreeRoot N (length extendedShares div 2) rowIndex extendedShares"

text \<open>The root of row \<open>i\<close>: the one computed from a proof, if there is one, or that of the extended row.\<close>

definition range_row_root :: "square_lib \<Rightarrow> 'p nmt_lib \<Rightarrow> int \<Rightarrow> byte list option list \<Rightarrow> byte list list list \<Rightarrow> nat \<Rightarrow> string + byte list" where
  "range_row_root L N fromRow computed shares i =
     (case computed ! i of
        Some r \<Rightarrow> Inr r
      | None \<Rightarrow>
          (case ExtendShares L (shares ! i) of
             Inl e \<Rightarrow> Inl e
           | Inr ext \<Rightarrow> buildTreeRootFromLeaves N ext (nat fromRow + i)))"

definition verifyShares ::
    "square_lib \<Rightarrow> 'p nmt_lib \<Rightarrow> byte list list list \<Rightarrow> SampleCoords \<Rightarrow> SampleCoords \<Rightarrow> int \<Rightarrow> byte list list \<Rightarrow> bool \<Rightarrow> 'p RangeNamespaceData \<Rightarrow> string option" where
  "verifyShares L N shares from to odsSize expectedRoots nsCompleteness rng =
     (if Row to - Row from + 1 \<noteq> int (length shares) then Some ''mismatched number of rows''
      else if length expectedRoots \<noteq> length shares then Some ''mismatched row roots''
      else if [] \<in> set shares then Some ''empty shares at row''
      else if (case FirstIncompleteRowProof rng of Some p \<Rightarrow> PStart N p \<noteq> Col from | None \<Rightarrow> False) then Some ''first col share index mismatch''
      else if (case LastIncompleteRowProof rng of Some p \<Rightarrow> PEnd N p - 1 \<noteq> Col to | None \<Rightarrow> False) then Some ''last share index mismatch''
      else
        case verifyProofBounds N from to odsSize rng of
          Some e \<Rightarrow> Some e
        | None \<Rightarrow>
            (case (SampleCoordsAs1DIndex from odsSize, SampleCoordsAs1DIndex to odsSize) of
               (Inr startIndex, Inr endIndex) \<Rightarrow>
                 (case ParseNamespace L shares startIndex (endIndex + 1) of
                    Inl e \<Rightarrow> Some e
                  | Inr ns \<Rightarrow>
                      (case computeRoot N (hd shares) ns (FirstIncompleteRowProof rng) nsCompleteness of
                         Inl e \<Rightarrow> Some e
                       | Inr firstRoot \<Rightarrow>
                           (case computeRoot N (last shares) ns (LastIncompleteRowProof rng) nsCompleteness of
                              Inl e \<Rightarrow> Some e
                            | Inr lastRoot \<Rightarrow>
                                let c0 = (replicate (length shares) None)[0 := firstRoot];
                                    computed = (if length shares > 1 then c0[length shares - 1 := lastRoot] else c0) in
                                case traverse (range_row_root L N (Row from) computed shares) [0..<length shares] of
                                  Inl e \<Rightarrow> Some e
                                | Inr roots \<Rightarrow> if roots \<noteq> expectedRoots then Some ''mismatched root'' else None)))
             | _ \<Rightarrow> Some ''invalid coordinates''))"

definition rng_VerifyInclusion :: "square_lib \<Rightarrow> 'p nmt_lib \<Rightarrow> SampleCoords \<Rightarrow> SampleCoords \<Rightarrow> int \<Rightarrow> byte list list \<Rightarrow> 'p RangeNamespaceData \<Rightarrow> string option" where
  "rng_VerifyInclusion L N from to odsSize roots rng = verifyShares L N (rng_Shares rng) from to odsSize roots False rng"

definition rng_VerifyNamespace :: "square_lib \<Rightarrow> 'p nmt_lib \<Rightarrow> SampleCoords \<Rightarrow> SampleCoords \<Rightarrow> int \<Rightarrow> byte list list \<Rightarrow> 'p RangeNamespaceData \<Rightarrow> string option" where
  "rng_VerifyNamespace L N from to odsSize roots rng = verifyShares L N (rng_Shares rng) from to odsSize roots True rng"

definition rng_Flatten :: "'p RangeNamespaceData \<Rightarrow> byte list list" where
  "rng_Flatten rng = concat (rng_Shares rng)"

definition rng_IsEmpty :: "'p RangeNamespaceData \<Rightarrow> bool" where
  "rng_IsEmpty rng \<longleftrightarrow> rng_Shares rng = [] \<and> FirstIncompleteRowProof rng = None \<and> LastIncompleteRowProof rng = None"

text \<open>The first and the last share of \<open>len\<close> original shares from an index of the extended square on.\<close>

definition RangeCoordsFromIdx :: "int \<Rightarrow> int \<Rightarrow> int \<Rightarrow> shwap_error + SampleCoords \<times> SampleCoords" where
  "RangeCoordsFromIdx edsIndex len edsSize =
     (case SampleCoordsFrom1DIndex edsIndex edsSize of
        Inl e \<Rightarrow> Inl e
      | Inr from \<Rightarrow>
          (case SampleCoordsAs1DIndex from (edsSize sdiv 2) of
             Inl e \<Rightarrow> Inl e
           | Inr odsIndex \<Rightarrow>
               (case SampleCoordsFrom1DIndex (odsIndex + len - 1) (edsSize sdiv 2) of
                  Inl e \<Rightarrow> Inl e
                | Inr toCoords \<Rightarrow> Inr (from, toCoords))))"

text \<open>A range is streamed as rows; only the first and the last carry a proof.\<close>

definition range_rows :: "'p RangeNamespaceData \<Rightarrow> 'p NamespaceData" where
  "range_rows rng =
     map (\<lambda>(i, shr). \<lparr>rnd_Shares = shr,
        rnd_Proof = (if i = 0 then FirstIncompleteRowProof rng
                     else if i = length (rng_Shares rng) - 1 then LastIncompleteRowProof rng else None)\<rparr>)
       (zip [0..<length (rng_Shares rng)] (rng_Shares rng))"

definition rng_WriteTo :: "'p nmt_lib \<Rightarrow> pb_RowNamespaceData serde \<Rightarrow> 'p RangeNamespaceData \<Rightarrow> byte list" where
  "rng_WriteTo N S rng = concat (map (RowNamespaceData_WriteTo N S) (range_rows rng))"

definition range_from_rows :: "'p NamespaceData \<Rightarrow> 'p RangeNamespaceData" where
  "range_from_rows nd =
     \<lparr>rng_Shares = map rnd_Shares nd,
      FirstIncompleteRowProof = (case nd of [] \<Rightarrow> None | row # _ \<Rightarrow> rnd_Proof row),
      LastIncompleteRowProof = (case nd of _ # row # rows \<Rightarrow> rnd_Proof (last (row # rows)) | _ \<Rightarrow> None)\<rparr>"

definition rng_ReadFrom :: "square_lib \<Rightarrow> 'p nmt_lib \<Rightarrow> nat \<Rightarrow> pb_RowNamespaceData serde \<Rightarrow> byte list \<Rightarrow> nat \<times> (string + 'p RangeNamespaceData) \<times> byte list" where
  "rng_ReadFrom L N maxSquare S r =
     (case NamespaceData_ReadFrom L N maxSquare S r of
        (n, Inl e, r') \<Rightarrow> (n, Inl e, r')
      | (n, Inr nd, r') \<Rightarrow> (n, Inr (range_from_rows nd), r'))"

record pb_RangeNamespaceData =
  pbg_Shares :: "byte list option list list"
  pbg_First :: "pb_Proof option"
  pbg_Last :: "pb_Proof option"

definition rng_ToProto :: "'p nmt_lib \<Rightarrow> 'p RangeNamespaceData \<Rightarrow> pb_RangeNamespaceData" where
  "rng_ToProto N rng = \<lparr>pbg_Shares = map SharesToProto (rng_Shares rng), pbg_First = map_option (proof_to_pb N) (FirstIncompleteRowProof rng), pbg_Last = map_option (proof_to_pb N) (LastIncompleteRowProof rng)\<rparr>"

definition range_row_from_proto :: "square_lib \<Rightarrow> byte list option list \<Rightarrow> string + byte list list" where
  "range_row_from_proto L shr =
     (case SharesFromProto L shr of Inl e \<Rightarrow> Inl e | Inr shrs \<Rightarrow> if shrs = [] then Inl ''empty shares at row'' else Inr shrs)"

definition RangeNamespaceDataFromProto :: "square_lib \<Rightarrow> 'p nmt_lib \<Rightarrow> nat \<Rightarrow> pb_RangeNamespaceData option \<Rightarrow> string + 'p RangeNamespaceData" where
  "RangeNamespaceDataFromProto L N maxSquare nd =
     (case nd of
        None \<Rightarrow> Inl ''pb RangeNamespaceData is nil''
      | Some nd \<Rightarrow>
          (case traverse (range_row_from_proto L) (pbg_Shares nd) of
             Inl e \<Rightarrow> Inl e
           | Inr shares \<Rightarrow>
               (case checkProofNodes maxSquare (case_option [] pb_Nodes (pbg_First nd)) of
                  Some e \<Rightarrow> Inl e
                | None \<Rightarrow>
                    (case checkProofNodes maxSquare (case_option [] pb_Nodes (pbg_Last nd)) of
                       Some e \<Rightarrow> Inl e
                     | None \<Rightarrow> Inr \<lparr>rng_Shares = shares, FirstIncompleteRowProof = map_option (ProtoToProof N) (pbg_First nd), LastIncompleteRowProof = map_option (ProtoToProof N) (pbg_Last nd)\<rparr>))))"

end
