(* ===== verification/VerifyProofs.thy ===== *)
theory VerifyProofs
  imports NamespaceData
begin

text \<open>
  What verification against the roots of a square establishes. The laws of namespaced Merkle trees are those of their
  documentation for a hash function without collisions: a root determines the leaves, a proof of inclusion or of a range speaks
  for the leaves at its position, a proof of a namespace for all its leaves, and a root starts with the range of the
  namespaces below it.
\<close>

section \<open>The laws of trees\<close>

definition axis_leaves :: "square_lib \<Rightarrow> nat \<Rightarrow> byte list list \<Rightarrow> bool" where
  "axis_leaves L k xs \<longleftrightarrow> length xs = 2 * k \<and> 0 < k \<and> shares_ok L xs"

definition root_law :: "square_lib \<Rightarrow> 'p nmt_lib \<Rightarrow> bool" where
  "root_law L N \<longleftrightarrow> (\<forall>k k' ax xs ys r. axis_leaves L k xs \<longrightarrow> axis_leaves L k' ys \<longrightarrow> TreeRoot N k ax xs = Inr r \<longrightarrow> TreeRoot N k' ax ys = Inr r \<longrightarrow> xs = ys)"

definition inclusion_law :: "square_lib \<Rightarrow> 'p nmt_lib \<Rightarrow> bool" where
  "inclusion_law L N \<longleftrightarrow> (\<forall>p ns d r k ax xs i. axis_leaves L k xs \<longrightarrow> TreeRoot N k ax xs = Inr r \<longrightarrow> VerifyInclusion N p ns [d] r \<longrightarrow>
     i < 2 * k \<longrightarrow> PStart N p = int i \<longrightarrow> PEnd N p = int i + 1 \<longrightarrow> d = xs ! i)"

definition namespace_law :: "square_lib \<Rightarrow> 'p nmt_lib \<Rightarrow> bool" where
  "namespace_law L N \<longleftrightarrow> (\<forall>p ns ls r k ax xs. axis_leaves L k xs \<longrightarrow> ax < k \<longrightarrow> TreeRoot N k ax xs = Inr r \<longrightarrow>
     ns \<noteq> ParitySharesNamespace L \<longrightarrow> \<not> IsEmptyProof N p \<longrightarrow> VerifyNamespace N p ns ls r \<longrightarrow>
     (IsOfAbsence N p \<longrightarrow> filter (\<lambda>x. ShareNamespace L x = ns) (take k xs) = [])
     \<and> (\<not> IsOfAbsence N p \<longrightarrow> ls = map (\<lambda>x. ShareNamespace L x @ x) (filter (\<lambda>x. ShareNamespace L x = ns) (take k xs))))"

definition range_law :: "square_lib \<Rightarrow> 'p nmt_lib \<Rightarrow> bool" where
  "range_law L N \<longleftrightarrow> (\<forall>k ax xs r. axis_leaves L k xs \<longrightarrow> TreeRoot N k ax xs = Inr r \<longrightarrow>
     2 * NsSize N \<le> length r \<and> NsErr N (take (NsSize N) r) = None \<and> NsErr N (slice (NsSize N) (NsSize N * 2) r) = None
     \<and> (ax < k \<longrightarrow> (\<forall>x \<in> set (take k xs). \<not> IsLessThan N (ShareNamespace L x) (take (NsSize N) r)
           \<and> IsLessOrEqualThan N (ShareNamespace L x) (slice (NsSize N) (NsSize N * 2) r)))
     \<and> (k \<le> ax \<longrightarrow> take (NsSize N) r = ParitySharesNamespace L))"

definition compute_law :: "square_lib \<Rightarrow> 'p nmt_lib \<Rightarrow> bool" where
  "compute_law L N \<longleftrightarrow> (\<forall>p ns ds hs c r k ax xs. axis_leaves L k xs \<longrightarrow> TreeRoot N k ax xs = Inr r \<longrightarrow> ds \<noteq> [] \<longrightarrow>
     LeafHashes N ns ds = Inr hs \<longrightarrow> ComputeRoot N p ns hs c = Inr r \<longrightarrow>
     0 \<le> PStart N p \<and> PEnd N p = PStart N p + int (length ds) \<and> PEnd N p \<le> 2 * int k \<and> ds = slice (nat (PStart N p)) (nat (PEnd N p)) xs)"

text \<open>The roots of a square.\<close>

definition roots_of :: "'p nmt_lib \<Rightarrow> eds \<Rightarrow> AxisRoots \<Rightarrow> bool" where
  "roots_of N eds roots \<longleftrightarrow> length (RowRoots roots) = Width eds \<and> length (ColumnRoots roots) = Width eds
     \<and> (\<forall>i < Width eds. TreeRoot N (Width eds div 2) i (eds_row eds i) = Inr (RowRoots roots ! i)
          \<and> TreeRoot N (Width eds div 2) i (eds_col eds i) = Inr (ColumnRoots roots ! i))"

lemma eds_leaves:
  assumes "eds_ok L eds" "i < Width eds" "ax = AxisRow \<or> ax = AxisCol"
  shows "axis_leaves L (Width eds div 2) (eds_axis eds ax i)"
proof -
  obtain k where k: "Width eds = 2 * k" "0 < k" "Width eds div 2 = k" using eds_half [OF assms(1)] .
  then show ?thesis using eds_okD [OF assms] by (simp add: axis_leaves_def)
qed

lemma row_leaves: "eds_ok L eds \<Longrightarrow> i < Width eds \<Longrightarrow> axis_leaves L (Width eds div 2) (eds_row eds i)"
  using eds_leaves [of L eds i AxisRow] by (simp add: eds_axis_def)

lemma col_leaves: "eds_ok L eds \<Longrightarrow> i < Width eds \<Longrightarrow> axis_leaves L (Width eds div 2) (eds_col eds i)"
  using eds_leaves [of L eds i AxisCol] by (simp add: eds_axis_def)

lemma root_determines:
  "root_law L N \<Longrightarrow> axis_leaves L k xs \<Longrightarrow> axis_leaves L k' ys \<Longrightarrow> TreeRoot N k ax xs = Inr r \<Longrightarrow> TreeRoot N k' ax ys = Inr r \<Longrightarrow> xs = ys"
  unfolding root_law_def by blast

section \<open>Samples\<close>

lemma sample_sound:
  assumes eds: "eds_ok L eds" and roots: "roots_of N eds roots" and law: "inclusion_law L N"
    and idx: "rowIdx < Width eds" "colIdx < Width eds" and v: "Sample_Verify L N roots rowIdx colIdx s = None"
  shows "s_Share s = GetCell eds rowIdx colIdx"
proof -
  let ?k = "Width eds div 2"
  obtain p where p: "s_Proof s = Some p" using v by (cases "s_Proof s") (auto simp: Sample_Verify_def)
  have inc: "d = xs ! i" if "axis_leaves L ?k xs" "TreeRoot N ?k ax xs = Inr r" "VerifyInclusion N p ns [d] r" "i < 2 * ?k"
      "PStart N p = int i" "PEnd N p = int i + 1" for xs ax r ns d i
    using law that unfolding inclusion_law_def by blast
  have w: "2 * ?k = Width eds" using eds by (simp add: eds_ok_def)
  show ?thesis
  proof (cases "ProofType s")
    case AxisRow
    then show ?thesis using v p inc [OF row_leaves [OF eds idx(1)], of rowIdx] roots idx w
      by (auto simp: Sample_Verify_def Sample_verifyInclusion_def RootHashForCoordinates_def roots_of_def eds_row_def Let_def split: if_splits)
  next
    case AxisCol
    have "s_Share s = eds_col eds colIdx ! rowIdx" using AxisCol v p inc [OF col_leaves [OF eds idx(2)], of colIdx] roots idx w
      by (auto simp: Sample_Verify_def Sample_verifyInclusion_def RootHashForCoordinates_def roots_of_def Let_def split: if_splits)
    then show ?thesis using idx by (simp add: eds_col_def)
  next
    case (AxisOther i)
    then show ?thesis using v p by (simp add: Sample_Verify_def Let_def split: if_splits)
  qed
qed

section \<open>Rows\<close>

lemma row_sound:
  assumes L: "lib_ok L" and eds: "eds_ok L eds" and roots: "roots_of N eds roots" and law: "root_law L N"
    and r: "shares_ok L (row_shares r)" "idx < Width eds" and v: "Row_Verify L N roots idx r = (None, r')"
  shows "row_shares r' = eds_row eds idx \<and> side r' = Both"
proof -
  let ?n = "length (row_shares r)"
  have c: "row_shares r \<noteq> []" "side r \<noteq> Both \<Longrightarrow> ?n = Width eds div 2" "side r = Both \<Longrightarrow> ?n = Width eds" "Row_verifyInclusion L N roots idx r = (None, r')"
    using v roots by (auto simp: Row_Verify_def roots_of_def Let_def split: if_splits)
  obtain shrs where s: "Row_Shares L r = (Inr shrs, r')" "TreeRoot N (length shrs div 2) idx shrs = Inr (RowRoots roots ! idx)"
    using c(4) by (auto simp: Row_verifyInclusion_def split: prod.splits sum.splits if_splits)
  have r': "row_shares r' = shrs" "side r' = Both" "shares_ok L shrs"
    using s(1) r(1) share_okD(3) [OF lib_okD(1) [OF L]] by (auto simp: Row_Shares_def Let_def split: if_splits RowSide.splits option.splits sum.splits)
  obtain k where k: "Width eds = 2 * k" "0 < k" "Width eds div 2 = k" using eds_half [OF eds] .
  have t: "TreeRoot N k idx (eds_row eds idx) = Inr (RowRoots roots ! idx)" using roots r(2) k by (simp add: roots_of_def)
  note el = row_leaves [OF eds r(2), unfolded k(3)]
  have len: "length shrs = (if side r = Both then ?n else 2 * ?n)"
    using s(1) share_okD(3) [OF lib_okD(1) [OF L]] L
    by (auto simp: Row_Shares_def Let_def lib_ok_def codec_ok_def split: if_splits RowSide.splits option.splits sum.splits)
  then have "axis_leaves L (length shrs div 2) shrs" using r'(3) c(1,3) k by (auto simp: axis_leaves_def)
  from root_determines [OF law this el s(2) t] show ?thesis using r' by simp
qed

section \<open>The shares of a namespace\<close>

lemma rows_with_namespace_filter:
  "rows_with_namespace N ns i rows = Inr idxs \<Longrightarrow>
     idxs = filter (\<lambda>j. IsOutsideRange N ns (rows ! (j - i)) (rows ! (j - i)) = Inr False) [i..<i + length rows]
     \<and> (\<forall>row \<in> set rows. \<exists>b. IsOutsideRange N ns row row = Inr b)"
proof (induction rows arbitrary: i idxs)
  case (Cons row rows)
  obtain b idxs' where b: "IsOutsideRange N ns row row = Inr b" "rows_with_namespace N ns (Suc i) rows = Inr idxs'" "idxs = (if b then idxs' else i # idxs')"
    using Cons.prems by (auto split: sum.splits)
  have u: "[i..<i + length (row # rows)] = i # [Suc i..<Suc i + length rows]" by (subst upt_rec) simp
  have "filter (\<lambda>j. IsOutsideRange N ns ((row # rows) ! (j - i)) ((row # rows) ! (j - i)) = Inr False) [Suc i..<Suc i + length rows]
      = filter (\<lambda>j. IsOutsideRange N ns (rows ! (j - Suc i)) (rows ! (j - Suc i)) = Inr False) [Suc i..<Suc i + length rows]"
    by (intro filter_cong refl) (auto simp: nth_Cons')
  then show ?case using Cons.IH [OF b(2)] b u by auto
qed simp

lemma RowsWithNamespace_filter:
  assumes "RowsWithNamespace N roots ns = Inr idxs"
  shows "idxs = filter (\<lambda>i. IsOutsideRange N ns (RowRoots roots ! i) (RowRoots roots ! i) = Inr False) [0..<length (RowRoots roots)]"
    "i < length (RowRoots roots) \<Longrightarrow> i \<notin> set idxs \<Longrightarrow> IsOutsideRange N ns (RowRoots roots ! i) (RowRoots roots ! i) = Inr True"
proof -
  note f = rows_with_namespace_filter [of N ns 0 "RowRoots roots" idxs] assms [unfolded RowsWithNamespace_def]
  then show i: "idxs = filter (\<lambda>i. IsOutsideRange N ns (RowRoots roots ! i) (RowRoots roots ! i) = Inr False) [0..<length (RowRoots roots)]" by simp
  assume a: "i < length (RowRoots roots)" "i \<notin> set idxs"
  then obtain b where "IsOutsideRange N ns (RowRoots roots ! i) (RowRoots roots ! i) = Inr b" using f by (metis nth_mem)
  then show "IsOutsideRange N ns (RowRoots roots ! i) (RowRoots roots ! i) = Inr True"
    using i a by (cases b) auto
qed

text \<open>A row whose root excludes the namespace has none of its shares; the rows of parity exclude every namespace of data.\<close>

lemma outside_none:
  assumes law: "range_law L N" and t: "axis_leaves L k xs" "TreeRoot N k ax xs = Inr r" "ax < k" and o: "IsOutsideRange N ns r r = Inr True"
  shows "filter (\<lambda>x. ShareNamespace L x = ns) (take k xs) = []"
proof -
  have "\<not> IsLessThan N (ShareNamespace L x) (take (NsSize N) r) \<and> IsLessOrEqualThan N (ShareNamespace L x) (slice (NsSize N) (NsSize N * 2) r)"
    if "x \<in> set (take k xs)" for x
    using law t that unfolding range_law_def by blast
  then show ?thesis using o by (auto simp: IsOutsideRange_def Let_def filter_empty_conv split: if_splits option.splits)
qed

lemma parity_outside:
  assumes law: "range_law L N" and t: "axis_leaves L k xs" "TreeRoot N k ax xs = Inr r" "k \<le> ax" and ns: "IsLessThan N ns (ParitySharesNamespace L)"
  shows "IsOutsideRange N ns r r = Inr True"
proof -
  have "2 * NsSize N \<le> length r \<and> NsErr N (take (NsSize N) r) = None \<and> NsErr N (slice (NsSize N) (NsSize N * 2) r) = None \<and> take (NsSize N) r = ParitySharesNamespace L"
    using law t unfolding range_law_def by blast
  then show ?thesis using ns by (auto simp: IsOutsideRange_def Let_def)
qed

lemma map_namespaced_inj:
  "shares_ok L xs \<Longrightarrow> shares_ok L ys \<Longrightarrow> map (\<lambda>x. ShareNamespace L x @ x) xs = map (\<lambda>x. ShareNamespace L x @ x) ys \<Longrightarrow> xs = ys"
proof (induction xs arbitrary: ys)
  case (Cons x xs)
  then obtain y ys' where y: "ys = y # ys'" by (cases ys) auto
  then have "ShareNamespace L x @ x = ShareNamespace L y @ y" "length x = length y" using Cons.prems by simp_all
  then have "x = y" by (metis append_eq_append_conv)
  moreover have "xs = ys'" using Cons.prems y by (intro Cons.IH) simp_all
  ultimately show ?case using y by simp
qed simp

lemma namespaceD:
  assumes "namespace_law L N" "axis_leaves L k xs" "ax < k" "TreeRoot N k ax xs = Inr r" "ns \<noteq> ParitySharesNamespace L"
    "\<not> IsEmptyProof N p" "VerifyNamespace N p ns ls r"
  shows "(IsOfAbsence N p \<longrightarrow> filter (\<lambda>x. ShareNamespace L x = ns) (take k xs) = [])
    \<and> (\<not> IsOfAbsence N p \<longrightarrow> ls = map (\<lambda>x. ShareNamespace L x @ x) (filter (\<lambda>x. ShareNamespace L x = ns) (take k xs)))"
  using assms(1) unfolding namespace_law_def
  by (elim allE [where x = p] allE [where x = ns] allE [where x = ls] allE [where x = r] allE [where x = k] allE [where x = ax] allE [where x = xs])
    (simp add: assms)

text \<open>A verified row has exactly the shares of the namespace.\<close>

lemma rnd_sound:
  assumes law: "namespace_law L N" and t: "axis_leaves L k xs" "TreeRoot N k i xs = Inr (RowRoots roots ! i)" "i < k"
    and ns: "ns \<noteq> ParitySharesNamespace L" and sh: "shares_ok L (rnd_Shares rnd)" and v: "RowNamespaceData_Verify L N roots ns i rnd = None"
  shows "rnd_Shares rnd = filter (\<lambda>x. ShareNamespace L x = ns) (take k xs)"
proof -
  obtain p where p0: "rnd_Proof rnd = Some p" using v by (cases "rnd_Proof rnd") (simp_all add: RowNamespaceData_Verify_def)
  note d = v [unfolded RowNamespaceData_Verify_def p0 option.case Let_def rnd_verifyInclusion_def]
  have e: "\<not> IsEmptyProof N p" using d by (rule contrapos_pn) simp
  have ab: "rnd_Shares rnd = [] \<longleftrightarrow> IsOfAbsence N p" using d e by (cases "IsOfAbsence N p"; cases "rnd_Shares rnd = []") simp_all
  then have vn: "VerifyNamespace N p ns (map (\<lambda>sh. ShareNamespace L sh @ sh) (rnd_Shares rnd)) (RowRoots roots ! i)"
    using d e by (simp split: sum.splits if_splits)
  let ?ys = "filter (\<lambda>x. ShareNamespace L x = ns) (take k xs)"
  have l: "(IsOfAbsence N p \<longrightarrow> ?ys = []) \<and> (\<not> IsOfAbsence N p \<longrightarrow> map (\<lambda>sh. ShareNamespace L sh @ sh) (rnd_Shares rnd) = map (\<lambda>x. ShareNamespace L x @ x) ?ys)"
    by (rule namespaceD [OF law t(1,3,2) ns e vn])
  have y: "shares_ok L ?ys"
    using t(1) by (intro shares_ok_sub [OF _ order_trans [OF filter_is_subset set_take_subset]]) (simp add: axis_leaves_def)
  show ?thesis
  proof (cases "IsOfAbsence N p")
    case True
    then show ?thesis using l ab by simp
  next
    case False
    show ?thesis by (rule map_namespaced_inj [OF sh y]) (use l False in simp)
  qed
qed

lemma nd_verify_rows_all:
  "nd_verify_rows L N roots ns idxs nd = None \<Longrightarrow> length idxs = length nd \<Longrightarrow> list_all2 (\<lambda>i row. RowNamespaceData_Verify L N roots ns i row = None) idxs nd"
  by (induction L N roots ns idxs nd rule: nd_verify_rows.induct) (auto split: option.splits)

lemma concat_filter_empty: "(\<And>i. i \<in> set is \<Longrightarrow> \<not> P i \<Longrightarrow> f i = []) \<Longrightarrow> concat (map f (filter P is)) = concat (map f is)"
  by (induction "is") auto

lemma FlattenedODS_rows: "FlattenedODS eds = concat (map (\<lambda>i. take (Width eds div 2) (eds_row eds i)) [0..<Width eds div 2])"
proof -
  have "map (take (Width eds div 2)) (take (Width eds div 2) eds) = map (\<lambda>i. take (Width eds div 2) (eds_row eds i)) [0..<Width eds div 2]"
    by (rule nth_equalityI) (auto simp: eds_row_def)
  then show ?thesis by (simp add: FlattenedODS_def)
qed

lemma nd_sound:
  assumes eds: "eds_ok L eds" and roots: "roots_of N eds roots" and laws: "namespace_law L N" "range_law L N"
    and ns: "ns \<noteq> ParitySharesNamespace L" "IsLessThan N ns (ParitySharesNamespace L)" and sh: "\<forall>row \<in> set nd. shares_ok L (rnd_Shares row)"
    and v: "NamespaceData_Verify L N roots ns nd = None"
  shows "nd_Flatten nd = filter (\<lambda>x. ShareNamespace L x = ns) (FlattenedODS eds)"
proof -
  let ?k = "Width eds div 2" and ?row = "\<lambda>i. filter (\<lambda>x. ShareNamespace L x = ns) (take (Width eds div 2) (eds_row eds i))"
  obtain idxs where i: "RowsWithNamespace N roots ns = Inr idxs" "length idxs = length nd" "nd_verify_rows L N roots ns idxs nd = None"
    using v by (auto simp: NamespaceData_Verify_def split: sum.splits if_splits)
  have w: "length (RowRoots roots) = Width eds" using roots by (simp add: roots_of_def)
  have t: "axis_leaves L ?k (eds_row eds i)" "TreeRoot N ?k i (eds_row eds i) = Inr (RowRoots roots ! i)" if "i < Width eds" for i
    using row_leaves [OF eds that] roots that by (simp_all add: roots_of_def)
  note f = RowsWithNamespace_filter [OF i(1), unfolded w]
  have low: "i < ?k" if "i \<in> set idxs" for i
  proof (rule ccontr)
    assume "\<not> i < ?k"
    moreover have o: "i < Width eds" "IsOutsideRange N ns (RowRoots roots ! i) (RowRoots roots ! i) = Inr False" using that f(1) by auto
    ultimately show False using parity_outside [OF laws(2) t [OF o(1)] _ ns(2)] o(2) by simp
  qed
  have idxs: "idxs = filter (\<lambda>i. i \<in> set idxs) [0..<?k]"
  proof -
    have "[0..<Width eds] = [0..<?k] @ [?k..<Width eds]" by (metis div_le_dividend le0 upt_add_eq_append le_add_diff_inverse)
    moreover have "filter (\<lambda>i. i \<in> set idxs) [?k..<Width eds] = []" using low by (force simp: filter_empty_conv)
    moreover have "idxs = filter (\<lambda>i. i \<in> set idxs) [0..<Width eds]" unfolding f(1) by (rule filter_cong) auto
    ultimately show ?thesis by simp
  qed
  have "rnd_Shares (nd ! j) = ?row (idxs ! j)" if "j < length nd" for j
  proof -
    have j: "idxs ! j < ?k" "shares_ok L (rnd_Shares (nd ! j))" using low sh that i(2) by auto
    have "RowNamespaceData_Verify L N roots ns (idxs ! j) (nd ! j) = None" using nd_verify_rows_all [OF i(3,2)] that i(2) by (simp add: list_all2_conv_all_nth)
    moreover have "idxs ! j < Width eds" using j(1) by linarith
    ultimately show ?thesis using rnd_sound [OF laws(1) t _ ns(1) j(2)] j(1) by blast
  qed
  then have "map rnd_Shares nd = map ?row idxs" using i(2) by (simp add: list_eq_iff_nth_eq)
  then have "nd_Flatten nd = concat (map ?row (filter (\<lambda>i. i \<in> set idxs) [0..<?k]))" using idxs by (simp add: nd_Flatten_def)
  also have "\<dots> = concat (map ?row [0..<?k])"
    using outside_none [OF laws(2) t] f(2) by (intro concat_filter_empty) auto
  also have "\<dots> = filter (\<lambda>x. ShareNamespace L x = ns) (FlattenedODS eds)"
    using FlattenedODS_rows [of eds] by (simp add: filter_concat comp_def)
  finally show ?thesis .
qed

end
