(* ===== verification/RangeVerify.thy ===== *)
theory RangeVerify
  imports VerifyProofs
begin

text \<open>
  A verified range is the range: what \<^verbatim>\<open>verifyShares\<close> accepts are the shares of the original square between the two
  coordinates, row by row.
\<close>

section \<open>Slices of the original square\<close>

lemma slice_row:
  assumes "\<And>r. r \<in> set rows \<Longrightarrow> length r = k" "i < length rows" "b \<le> k"
  shows "slice (i * k + a) (i * k + b) (concat rows) = slice a b (rows ! i)"
  using assms(1,2)
proof (induction rows arbitrary: i)
  case (Cons r rows)
  have r: "length r = k" using Cons.prems by simp
  show ?case
  proof (cases i)
    case 0
    then show ?thesis using r assms(3) by (simp add: slice_def)
  next
    case (Suc j)
    have "slice (j * k + a) (j * k + b) (concat rows) = slice a b (rows ! j)" using Cons Suc by (intro Cons.IH) auto
    then show ?thesis using r Suc by (simp add: slice_def add.assoc)
  qed
qed simp

lemma ods_slice:
  assumes "eds_ok L eds" "i < Width eds div 2" "b \<le> Width eds div 2"
  shows "slice (i * (Width eds div 2) + a) (i * (Width eds div 2) + b) (FlattenedODS eds) = slice a b (eds_row eds i)"
proof -
  let ?k = "Width eds div 2"
  have len: "length (eds_row eds j) = Width eds" if "j < ?k" for j using eds_okD(1) [OF assms(1), of j AxisRow] that by (simp add: eds_axis_def)
  have "slice (i * ?k + a) (i * ?k + b) (concat (map (\<lambda>i. take ?k (eds_row eds i)) [0..<?k])) = slice a b (map (\<lambda>i. take ?k (eds_row eds i)) [0..<?k] ! i)"
    using assms(2,3) len by (intro slice_row) auto
  moreover have "slice a b (take ?k (eds_row eds i)) = slice a b (eds_row eds i)" using assms(3) by (simp add: slice_def drop_take)
  ultimately show ?thesis using assms(2) by (simp add: FlattenedODS_rows)
qed

text \<open>Rows cut at the coordinates of a range put together are the range.\<close>

lemma range_concat:
  assumes eds: "eds_ok L eds" and k: "k = Width eds div 2" and b: "r0 \<le> r1" "r1 < k" "c0 < k" "c1 < k" and n: "n = r1 - r0 + 1"
    and rows: "length rows = n" "\<And>i. i < n \<Longrightarrow> rows ! i = slice (if i = 0 then c0 else 0) (if i = n - 1 then c1 + 1 else k) (eds_row eds (r0 + i))"
    and le: "n = 1 \<Longrightarrow> c0 \<le> c1"
  shows "concat rows = slice (r0 * k + c0) (r1 * k + c1 + 1) (FlattenedODS eds)"
proof -
  define f where "f i = (if i = 0 then r0 * k + c0 else if i = n then r1 * k + c1 + 1 else (r0 + i) * k)" for i
  have n1: "n \<noteq> 0" "r1 = r0 + (n - 1)" using n b by auto
  have row: "rows ! i = slice (f i) (f (Suc i)) (FlattenedODS eds)" if i: "i < n" for i
  proof -
    let ?a = "if i = 0 then c0 else 0" and ?b = "if i = n - 1 then c1 + 1 else k"
    have "slice ((r0 + i) * k + ?a) ((r0 + i) * k + ?b) (FlattenedODS eds) = slice ?a ?b (eds_row eds (r0 + i))"
      using b i n1 unfolding k by (intro ods_slice [OF eds]) auto
    moreover have "(r0 + i) * k + ?a = f i" using i by (simp add: f_def)
    moreover have "(r0 + i) * k + ?b = f (Suc i)" using i n1 by (auto simp: f_def algebra_simps)
    ultimately show ?thesis using rows(2) [OF i] by simp
  qed
  have mono: "f i \<le> f (Suc i)" if i: "i < n" for i
  proof (cases "Suc i = n")
    case True
    show ?thesis
    proof (cases "i = 0")
      case zero: True
      then have "n = 1" "r1 = r0" using True n1 by auto
      then show ?thesis using le zero by (simp add: f_def)
    next
      case False
      then have "f i = (r0 + i) * k" "f (Suc i) = r1 * k + c1 + 1" "r1 = r0 + i" using True n1 by (auto simp: f_def)
      then show ?thesis by simp
    qed
  next
    case False
    then have "f (Suc i) = (r0 + i) * k + k" using i by (simp add: f_def)
    moreover have "f i \<le> (r0 + i) * k + k" using i b by (auto simp: f_def)
    ultimately show ?thesis by linarith
  qed
  have "rows = map (\<lambda>i. slice (f i) (f (Suc i)) (FlattenedODS eds)) [0..<n]" by (rule nth_equalityI) (use rows(1) row in auto)
  then have "concat rows = slice (f 0) (f n) (FlattenedODS eds)" using concat_slices [of n f "FlattenedODS eds"] mono by simp
  then show ?thesis using n1 by (simp add: f_def)
qed

section \<open>One row\<close>

lemma ExtendShares_ok:
  assumes L: "lib_ok L" and xs: "shares_ok L xs" and e: "ExtendShares L xs = Inr ext"
  shows "xs \<noteq> []" "take (length xs) ext = xs" "length ext = 2 * length xs" "shares_ok L ext"
proof -
  show n: "xs \<noteq> []" using e by (auto simp: ExtendShares_def)
  obtain ps where p: "parity_of L xs ps" using lib_okD(2) [OF L] n xs unfolding codec_ok_def by blast
  then have "Encode L xs = Inr ps" "FromBytes L ps = Inr ps" "length ps = length xs" "shares_ok L ps"
    using FromBytes_ok [OF lib_okD(1) [OF L]] by (simp_all add: parity_of_def)
  then have "ext = xs @ ps" using e n by (simp add: ExtendShares_def Let_def)
  then show "take (length xs) ext = xs" "length ext = 2 * length xs" "shares_ok L ext"
    using \<open>length ps = length xs\<close> \<open>shares_ok L ps\<close> xs by simp_all
qed

lemma full_row:
  assumes L: "lib_ok L" and eds: "eds_ok L eds" and law: "root_law L N" and xs: "shares_ok L xs" "ExtendShares L xs = Inr ext"
    and i: "i < Width eds" "TreeRoot N (Width eds div 2) i (eds_row eds i) = Inr r" and t: "buildTreeRootFromLeaves N ext i = Inr r"
  shows "xs = slice 0 (Width eds div 2) (eds_row eds i)"
proof -
  note x = ExtendShares_ok [OF L xs]
  have "axis_leaves L (length ext div 2) ext" using x by (simp add: axis_leaves_def)
  from root_determines [OF law this row_leaves [OF eds i(1)] t [unfolded buildTreeRootFromLeaves_def] i(2)] have e: "ext = eds_row eds i" .
  have "length (eds_row eds i) = 2 * (Width eds div 2)" using row_leaves [OF eds i(1)] by (simp add: axis_leaves_def)
  then have "length xs = Width eds div 2" using x(3) e by simp
  then show ?thesis using x(2) e by (simp add: slice_def)
qed

lemma computeD:
  assumes "compute_law L N" "axis_leaves L k xs" "TreeRoot N k ax xs = Inr r" "computeRoot N ds ns prf c = Inr (Some r)"
  shows "\<exists>p. prf = Some p \<and> 0 \<le> PStart N p \<and> PEnd N p = PStart N p + int (length ds) \<and> PEnd N p \<le> 2 * int k \<and> ds = slice (nat (PStart N p)) (nat (PEnd N p)) xs"
proof -
  obtain p where p: "prf = Some p" using assms(4) by (cases "prf") (simp_all add: computeRoot_def)
  obtain hs where h: "ds \<noteq> []" "LeafHashes N ns ds = Inr hs"
    using assms(4) p by (cases "LeafHashes N ns ds") (simp_all add: computeRoot_def split: if_splits)
  have r: "ComputeRoot N p ns hs c = Inr r"
    using assms(4) p h by (cases "ComputeRoot N p ns hs c") (simp_all add: computeRoot_def split: if_splits)
  have "0 \<le> PStart N p \<and> PEnd N p = PStart N p + int (length ds) \<and> PEnd N p \<le> 2 * int k \<and> ds = slice (nat (PStart N p)) (nat (PEnd N p)) xs"
    by (rule assms(1) [unfolded compute_law_def, THEN spec [where x = p], THEN spec [where x = ns], THEN spec [where x = ds], THEN spec [where x = hs],
      THEN spec [where x = c], THEN spec [where x = r], THEN spec [where x = k], THEN spec [where x = ax], THEN spec [where x = xs],
      THEN mp, OF assms(2), THEN mp, OF assms(3), THEN mp, OF h(1), THEN mp, OF h(2), THEN mp, OF r])
  then show ?thesis using p by blast
qed

lemma computeRoot_None: "computeRoot N ds ns prf c = Inr None \<Longrightarrow> prf = None"
  by (auto simp: computeRoot_def map_sum_def split: option.splits if_splits sum.splits)

section \<open>The whole range\<close>

text \<open>What a successful verification has checked.\<close>

lemma verifySharesD:
  assumes "verifyShares L N shares from to odsSize expected c rng = None"
  obtains ns firstRoot lastRoot where
    "int (length shares) = Row to - Row from + 1" "length expected = length shares" "[] \<notin> set shares"
    "\<And>p. FirstIncompleteRowProof rng = Some p \<Longrightarrow> PStart N p = Col from" "\<And>p. LastIncompleteRowProof rng = Some p \<Longrightarrow> PEnd N p = Col to + 1"
    "verifyProofBounds N from to odsSize rng = None"
    "0 \<le> Row from" "0 \<le> Col from" "Row from < odsSize" "Col from < odsSize" "0 \<le> Row to" "0 \<le> Col to" "Row to < odsSize" "Col to < odsSize"
    "int (sum_list (map length shares)) = Row to * odsSize + Col to + 1 - (Row from * odsSize + Col from)" "shares \<noteq> []"
    "computeRoot N (hd shares) ns (FirstIncompleteRowProof rng) c = Inr firstRoot"
    "computeRoot N (last shares) ns (LastIncompleteRowProof rng) c = Inr lastRoot"
    "traverse (range_row_root L N (Row from) (let c0 = (replicate (length shares) None)[0 := firstRoot] in
       if length shares > 1 then c0[length shares - 1 := lastRoot] else c0) shares) [0..<length shares] = Inr expected"
proof -
  note d = assms [unfolded verifyShares_def]
  have c: "int (length shares) = Row to - Row from + 1" "length expected = length shares" "[] \<notin> set shares"
    "\<not> (case FirstIncompleteRowProof rng of Some p \<Rightarrow> PStart N p \<noteq> Col from | None \<Rightarrow> False)"
    "\<not> (case LastIncompleteRowProof rng of Some p \<Rightarrow> PEnd N p - 1 \<noteq> Col to | None \<Rightarrow> False)"
    using d by (simp_all split: if_splits)
  then have d1: "(case verifyProofBounds N from to odsSize rng of Some e \<Rightarrow> Some e | None \<Rightarrow> (case (SampleCoordsAs1DIndex from odsSize, SampleCoordsAs1DIndex to odsSize) of
      (Inr startIndex, Inr endIndex) \<Rightarrow> (case ParseNamespace L shares startIndex (endIndex + 1) of Inl e \<Rightarrow> Some e | Inr ns \<Rightarrow>
        (case computeRoot N (hd shares) ns (FirstIncompleteRowProof rng) c of Inl e \<Rightarrow> Some e | Inr firstRoot \<Rightarrow>
          (case computeRoot N (last shares) ns (LastIncompleteRowProof rng) c of Inl e \<Rightarrow> Some e | Inr lastRoot \<Rightarrow>
            let c0 = (replicate (length shares) None)[0 := firstRoot]; computed = (if length shares > 1 then c0[length shares - 1 := lastRoot] else c0) in
            case traverse (range_row_root L N (Row from) computed shares) [0..<length shares] of Inl e \<Rightarrow> Some e
            | Inr roots \<Rightarrow> if roots \<noteq> expected then Some ''mismatched root'' else None))) | _ \<Rightarrow> Some ''invalid coordinates'')) = None"
    using d by simp
  obtain s e ns where se: "verifyProofBounds N from to odsSize rng = None" "SampleCoordsAs1DIndex from odsSize = Inr s" "SampleCoordsAs1DIndex to odsSize = Inr e"
      "ParseNamespace L shares s (e + 1) = Inr ns"
    using d1 by (auto split: option.splits sum.splits)
  obtain fr lr where r: "computeRoot N (hd shares) ns (FirstIncompleteRowProof rng) c = Inr fr" "computeRoot N (last shares) ns (LastIncompleteRowProof rng) c = Inr lr"
    using d1 se by (auto split: sum.splits)
  have tr: "traverse (range_row_root L N (Row from) (let c0 = (replicate (length shares) None)[0 := fr] in
       if length shares > 1 then c0[length shares - 1 := lr] else c0) shares) [0..<length shares] = Inr expected"
    using d1 se r by (simp add: Let_def split: sum.splits if_splits)
  have n: "shares \<noteq> []" "int (sum_list (map length shares)) = e + 1 - s" using se(4) by (auto simp: ParseNamespace_def split: if_splits)
  have bnd: "0 \<le> Row from" "0 \<le> Col from" "Row from < odsSize" "Col from < odsSize" "s = Row from * odsSize + Col from"
    "0 \<le> Row to" "0 \<le> Col to" "Row to < odsSize" "Col to < odsSize" "e = Row to * odsSize + Col to"
    using se(2,3) by (auto simp: SampleCoordsAs1DIndex_def split: if_splits)
  show thesis
  proof (rule that [OF c(1-3) _ _ se(1) _ _ _ _ _ _ _ _ _ n(1) r tr])
    show "\<And>p. FirstIncompleteRowProof rng = Some p \<Longrightarrow> PStart N p = Col from" using c(4) by auto
    show "\<And>p. LastIncompleteRowProof rng = Some p \<Longrightarrow> PEnd N p = Col to + 1" using c(5) by auto
    show "int (sum_list (map length shares)) = Row to * odsSize + Col to + 1 - (Row from * odsSize + Col from)" using n(2) bnd by simp
  qed (use bnd in auto)
qed

text \<open>A row with a proof is the part of the row between the bounds of the proof, one without is the original half of the row.\<close>

lemma range_row_sound:
  assumes L: "lib_ok L" and eds: "eds_ok L eds" and laws: "root_law L N" "compute_law L N"
    and t: "r < Width eds" "TreeRoot N (Width eds div 2) r (eds_row eds r) = Inr root"
    and row: "shares_ok L xs" "range_row_root L N from computed shares i = Inr root" "nat from + i = r" "shares ! i = xs"
    and c: "computeRoot N xs ns prf c = Inr (computed ! i) \<or> computed ! i = None \<and> prf = None"
  shows "case prf of
      None \<Rightarrow> xs = slice 0 (Width eds div 2) (eds_row eds r)
    | Some p \<Rightarrow> 0 \<le> PStart N p \<and> PEnd N p = PStart N p + int (length xs) \<and> xs = slice (nat (PStart N p)) (nat (PEnd N p)) (eds_row eds r)"
proof (cases "computed ! i")
  case None
  then have p: "prf = None" using c computeRoot_None by auto
  obtain ext where "ExtendShares L xs = Inr ext" "buildTreeRootFromLeaves N ext r = Inr root"
    using row None by (auto simp: range_row_root_def split: sum.splits)
  from full_row [OF L eds laws(1) row(1) this(1) t this(2)] show ?thesis using p by simp
next
  case (Some r')
  then have "r' = root" "computeRoot N xs ns prf c = Inr (Some root)" using row(2) c by (auto simp: range_row_root_def)
  from computeD [OF laws(2) row_leaves [OF eds t(1)] t(2) this(2)] show ?thesis by auto
qed

text \<open>The proof that comes with row \<open>i\<close> of \<open>n\<close>, and where it must begin and end.\<close>

definition row_proof :: "'p RangeNamespaceData \<Rightarrow> nat \<Rightarrow> nat \<Rightarrow> 'p option" where
  "row_proof rng n i = (if i = 0 then FirstIncompleteRowProof rng else if i = n - 1 then LastIncompleteRowProof rng else None)"

lemma bounds_cut:
  assumes b: "verifyProofBounds N from to (int k) rng = None" and co: "Row from = int r0" "Col from = int c0" "Row to = int r1" "Col to = int c1"
    and first: "\<And>p. FirstIncompleteRowProof rng = Some p \<Longrightarrow> PStart N p = Col from"
    and final: "\<And>p. LastIncompleteRowProof rng = Some p \<Longrightarrow> PEnd N p = Col to + 1" and n: "r0 \<le> r1" "n = r1 - r0 + 1" "i < n"
  shows "case row_proof rng n i of
      None \<Rightarrow> (if i = 0 then c0 else 0) = 0 \<and> (if i = n - 1 then c1 + 1 else k) = k
    | Some p \<Rightarrow> PStart N p = int (if i = 0 then c0 else 0) \<and> (n = 1 \<or> PEnd N p = int (if i = n - 1 then c1 + 1 else k))"
proof (cases "n = 1")
  case True
  then have "i = 0" "r0 = r1" using n by auto
  then show ?thesis using True b co first by (auto simp: verifyProofBounds_def row_proof_def Let_def split: option.splits if_splits)
next
  case False
  then have r: "r0 \<noteq> r1" "\<not> n \<le> Suc 0" using n by auto
  consider (first) "i = 0" | (final) "i = n - 1" "i \<noteq> 0" | (mid) "i \<noteq> 0" "i \<noteq> n - 1" by blast
  then show ?thesis
  proof cases
    case first
    then show ?thesis using r False b co assms(6) by (auto simp: verifyProofBounds_def row_proof_def Let_def split: option.splits if_splits)
  next
    case final
    then show ?thesis using r False b co assms(7) by (auto simp: verifyProofBounds_def row_proof_def Let_def split: option.splits if_splits)
  next
    case mid
    then show ?thesis by (simp add: row_proof_def)
  qed
qed

lemma computed_row:
  assumes "computeRoot N (hd shares) ns (FirstIncompleteRowProof rng) c = Inr fr" "computeRoot N (last shares) ns (LastIncompleteRowProof rng) c = Inr lr"
    and "i < length shares" and "computed = (let c0 = (replicate (length shares) None)[0 := fr] in if length shares > 1 then c0[length shares - 1 := lr] else c0)"
  shows "computeRoot N (shares ! i) ns (row_proof rng (length shares) i) c = Inr (computed ! i) \<or> computed ! i = None \<and> row_proof rng (length shares) i = None"
proof -
  have ne: "shares \<noteq> []" using assms(3) by auto
  consider (first) "i = 0" | (final) "i = length shares - 1" "i \<noteq> 0" | (mid) "i \<noteq> 0" "i \<noteq> length shares - 1" by blast
  then show ?thesis
  proof cases
    case first
    then have "computed ! i = fr" using assms(3,4) by (auto simp: Let_def nth_list_update)
    then show ?thesis using first assms(1) ne by (simp add: row_proof_def hd_conv_nth)
  next
    case final
    then have "computed ! i = lr" using assms(3,4) by (auto simp: Let_def)
    then show ?thesis using final assms(2) ne by (simp add: row_proof_def last_conv_nth)
  next
    case mid
    then show ?thesis using assms(3,4) by (auto simp: row_proof_def Let_def)
  qed
qed

lemma range_sound:
  assumes L: "lib_ok L" and eds: "eds_ok L eds" and roots: "roots_of N eds roots" and laws: "root_law L N" "compute_law L N"
    and sh: "\<forall>row \<in> set shares. shares_ok L row" and ods: "odsSize = int (Width eds div 2)"
    and exp: "expected = slice (nat (Row from)) (nat (Row to) + 1) (RowRoots roots)"
    and v: "verifyShares L N shares from to odsSize expected c rng = None"
  shows "concat shares = slice (nat (Row from * odsSize + Col from)) (nat (Row to * odsSize + Col to) + 1) (FlattenedODS eds)"
  using v
proof (rule verifySharesD)
  fix ns fr lr
  let ?n = "length shares"
  assume n: "int ?n = Row to - Row from + 1" and ne: "[] \<notin> set shares" "shares \<noteq> []"
    and first: "\<And>p. FirstIncompleteRowProof rng = Some p \<Longrightarrow> PStart N p = Col from"
    and final: "\<And>p. LastIncompleteRowProof rng = Some p \<Longrightarrow> PEnd N p = Col to + 1"
    and bnd: "verifyProofBounds N from to odsSize rng = None"
    and f: "0 \<le> Row from" "0 \<le> Col from" "Row from < odsSize" "Col from < odsSize" and t: "0 \<le> Row to" "0 \<le> Col to" "Row to < odsSize" "Col to < odsSize"
    and sum: "int (sum_list (map length shares)) = Row to * odsSize + Col to + 1 - (Row from * odsSize + Col from)"
    and cr: "computeRoot N (hd shares) ns (FirstIncompleteRowProof rng) c = Inr fr" "computeRoot N (last shares) ns (LastIncompleteRowProof rng) c = Inr lr"
    and tr: "traverse (range_row_root L N (Row from) (let c0 = (replicate ?n None)[0 := fr] in
       if ?n > 1 then c0[?n - 1 := lr] else c0) shares) [0..<?n] = Inr expected"
  define k where "k = Width eds div 2"
  define computed where "computed = (let c0 = (replicate ?n None)[0 := fr] in if ?n > 1 then c0[?n - 1 := lr] else c0)"
  obtain r0 c0 r1 c1 where co: "Row from = int r0" "Col from = int c0" "Row to = int r1" "Col to = int c1" using f t by (metis nonneg_int_cases)
  have n0: "0 < ?n" "int ?n = int r1 - int r0 + 1" using ne(2) n co by auto
  have kk: "odsSize = int k" "r0 \<le> r1" "r1 < k" "c0 < k" "c1 < k" "?n = r1 - r0 + 1"
    using ods f t n0 co unfolding k_def by linarith+
  have lr: "length (RowRoots roots) = Width eds" using roots by (simp add: roots_of_def)
  have cut: "shares ! i = slice (if i = 0 then c0 else 0) (if i = ?n - 1 then c1 + 1 else k) (eds_row eds (r0 + i)) \<and> (?n = 1 \<longrightarrow> c0 \<le> c1)" if i: "i < ?n" for i
  proof -
    let ?r = "r0 + i"
    have r: "?r < k" "?r < Width eds" using i kk(2,3,6) by (auto simp: k_def)
    have tt: "TreeRoot N (Width eds div 2) ?r (eds_row eds ?r) = Inr (RowRoots roots ! ?r)" using roots r(2) by (simp add: roots_of_def)
    have "expected ! i = RowRoots roots ! ?r" unfolding exp co using i kk(2,3,6) lr by (subst nth_slice) (auto simp: k_def)
    then have rr: "range_row_root L N (Row from) computed shares i = Inr (RowRoots roots ! ?r)" using traverse_InrD [OF tr] i by (simp add: computed_def)
    have si: "shares_ok L (shares ! i)" "shares ! i \<noteq> []" using sh ne(1) nth_mem [OF i] by auto
    have "nat (Row from) + i = ?r" using co by simp
    note row = range_row_sound [OF L eds laws r(2) tt si(1) rr this refl computed_row [OF cr i computed_def]]
      and cuts = bounds_cut [OF bnd [unfolded kk(1)] co first final kk(2,6) i]
    have one: "int (length (shares ! i)) = int c1 + 1 - int c0" "i = 0" if "?n = 1"
    proof -
      show "i = 0" using i that by simp
      obtain x where "shares = [x]" using \<open>?n = 1\<close> by (cases shares) auto
      moreover have "r0 = r1" using that kk(2,6) by simp
      ultimately show "int (length (shares ! i)) = int c1 + 1 - int c0" using sum co \<open>i = 0\<close> by simp
    qed
    then have le: "?n = 1 \<longrightarrow> c0 \<le> c1" using si(2) by (cases "shares ! i") auto
    show ?thesis
    proof (cases "row_proof rng ?n i")
      case None
      then show ?thesis using row cuts le by (simp add: k_def)
    next
      case (Some p)
      have p: "PStart N p = int (if i = 0 then c0 else 0)" "?n = 1 \<or> PEnd N p = int (if i = ?n - 1 then c1 + 1 else k)"
        "PEnd N p = PStart N p + int (length (shares ! i))" "shares ! i = slice (nat (PStart N p)) (nat (PEnd N p)) (eds_row eds ?r)"
        using row [unfolded Some option.case] cuts [unfolded Some option.case] by iprover+
      have "PEnd N p = int (if i = ?n - 1 then c1 + 1 else k)" using p(1,2,3) one by (cases "?n = 1") auto
      then have "shares ! i = slice (if i = 0 then c0 else 0) (if i = ?n - 1 then c1 + 1 else k) (eds_row eds ?r)" using p(4) unfolding p(1) by (simp only: nat_int)
      then show ?thesis using le by blast
    qed
  qed
  have "concat shares = slice (r0 * k + c0) (r1 * k + c1 + 1) (FlattenedODS eds)"
    using cut n0(1) by (intro range_concat [OF eds k_def kk(2-5,6) refl]) auto
  then show ?thesis using co kk(1) by (simp add: nat_add_distrib nat_mult_distrib)
qed

end
