(* ===== verification/SquareInstance.thy ===== *)
theory SquareInstance
  imports RangeVerify
begin

text \<open>
  An instance of the packages for shares, codes and trees that has every law the development assumes of them: shares of two
  bytes, a namespace and a byte of data, the code that repeats the data, and trees whose root is the list of their leaves.
  It is what the properties are shown to apply to.
\<close>

section \<open>Shares and codes\<close>

definition rep_Decode :: "byte list list \<Rightarrow> string + byte list list" where
  "rep_Decode xs =
     (let k = length xs div 2 in
      if odd (length xs) then Inl ''odd''
      else if [] \<notin> set (take k xs) then Inr (take k xs @ take k xs)
      else Inr (drop k xs @ drop k xs))"

definition rep_lib :: square_lib where
  "rep_lib = \<lparr>ShareSize = 2,
     NewShare = (\<lambda>b. if length b = 2 then None else Some ''size''),
     FromBytes = (\<lambda>xs. if list_all (\<lambda>x. length x = 2) xs then Inr xs else Inl ''size''),
     NamespaceErr = (\<lambda>b. None),
     ShareNamespace = take 1,
     TailPaddingNamespace = [254],
     TailPaddingShare = [254, 0],
     ParitySharesNamespace = [255],
     Encode = Inr,
     Decode = rep_Decode,
     NewEncoder = (\<lambda>a b. None),
     ReconstructSome = (\<lambda>k xs target. Inr (take k xs @ take k xs))\<rparr>"

lemma rep_shares: "shares_ok rep_lib xs \<longleftrightarrow> list_all (\<lambda>x. length x = 2) xs"
  by (simp add: shares_ok_def rep_lib_def list_all_iff)

lemma rep_share_ok: "share_ok rep_lib"
  by (auto simp: share_ok_def rep_shares) (auto simp: rep_lib_def split: if_splits)

lemma rep_codec_ok: "codec_ok rep_lib"
proof -
  have "parity_of rep_lib xs xs" if "xs \<noteq> []" "shares_ok rep_lib xs" for xs
  proof -
    have "[] \<notin> set xs" using that by (auto simp: rep_shares list_all_iff)
    moreover have "[] \<in> set (replicate (length xs) [])" using that(1) by simp
    ultimately show ?thesis using that by (auto simp: parity_of_def rep_lib_def rep_Decode_def Let_def)
  qed
  then show ?thesis by (auto simp: codec_ok_def) (auto simp: rep_lib_def rep_Decode_def Let_def split: if_splits)
qed

lemma rep_lib_ok: "lib_ok rep_lib"
  using rep_share_ok rep_codec_ok by (simp add: lib_ok_def)

section \<open>Trees\<close>

record leaf_proof =
  lp_start :: int
  lp_end :: int
  lp_k :: nat
  lp_axis :: nat
  lp_leaves :: "byte list list"
  lp_absence :: bool

definition min_ns :: "byte list list \<Rightarrow> byte" where
  "min_ns xs = foldr (\<lambda>x b. min (hd x) b) xs 255"

definition max_ns :: "byte list list \<Rightarrow> byte" where
  "max_ns xs = foldr (\<lambda>x b. max (hd x) b) xs 0"

definition leaf_root :: "nat \<Rightarrow> nat \<Rightarrow> byte list list \<Rightarrow> byte list" where
  "leaf_root k ax xs = (if ax < k then [min_ns (take k xs), max_ns (take k xs)] else [255, 255]) @ concat xs"

definition leaf_ok :: "leaf_proof \<Rightarrow> byte list \<Rightarrow> bool" where
  "leaf_ok p r \<longleftrightarrow> length (lp_leaves p) = 2 * lp_k p \<and> 0 < lp_k p \<and> list_all (\<lambda>x. length x = 2) (lp_leaves p)
     \<and> (\<exists>ax \<in> {0, lp_k p}. r = leaf_root (lp_k p) ax (lp_leaves p))"

definition leaf_lib :: "leaf_proof nmt_lib" where
  "leaf_lib = \<lparr>NsSize = 1, NsErr = (\<lambda>b. None),
     IsLessThan = (\<lambda>a b. hd a < hd b), IsLessOrEqualThan = (\<lambda>a b. hd a \<le> hd b),
     TreeRoot = (\<lambda>k ax xs. Inr (leaf_root k ax xs)),
     ProveRange = (\<lambda>k ax xs a b. if 0 \<le> a \<and> a < b \<and> b \<le> int (length xs)
        then Inr \<lparr>lp_start = a, lp_end = b, lp_k = k, lp_axis = ax, lp_leaves = xs, lp_absence = False\<rparr> else Inl ''range''),
     ProveNamespace = (\<lambda>k ax xs ns. Inr \<lparr>lp_start = 0, lp_end = 1, lp_k = k, lp_axis = ax, lp_leaves = xs, lp_absence = True\<rparr>),
     PStart = lp_start, PEnd = lp_end, PNodes = (\<lambda>p. []), PLeafHash = (\<lambda>p. None), PMaxIgnored = (\<lambda>p. True),
     IsEmptyProof = (\<lambda>p. False), IsOfAbsence = lp_absence,
     NewInclusionProof = (\<lambda>a b ns ig. \<lparr>lp_start = a, lp_end = b, lp_k = 0, lp_axis = 0, lp_leaves = [], lp_absence = False\<rparr>),
     NewAbsenceProof = (\<lambda>a b ns lh ig. \<lparr>lp_start = a, lp_end = b, lp_k = 0, lp_axis = 0, lp_leaves = [], lp_absence = True\<rparr>),
     ProtoToProof = (\<lambda>q. \<lparr>lp_start = pb_Start q, lp_end = pb_End q, lp_k = 0, lp_axis = 0, lp_leaves = [], lp_absence = False\<rparr>),
     VerifyInclusion = (\<lambda>p ns ds r. leaf_ok p r \<and> ds = slice (nat (lp_start p)) (nat (lp_end p)) (lp_leaves p)),
     VerifyNamespace = (\<lambda>p ns ls r. leaf_ok p r \<and>
        (if lp_absence p then filter (\<lambda>x. take 1 x = ns) (take (lp_k p) (lp_leaves p)) = []
         else ls = map (\<lambda>x. take 1 x @ x) (filter (\<lambda>x. take 1 x = ns) (take (lp_k p) (lp_leaves p))))),
     LeafHashes = (\<lambda>ns ds. Inr ds),
     ComputeRoot = (\<lambda>p ns hs c. if length (lp_leaves p) = 2 * lp_k p \<and> 0 < lp_k p \<and> list_all (\<lambda>x. length x = 2) (lp_leaves p)
          \<and> 0 \<le> lp_start p \<and> lp_end p = lp_start p + int (length hs) \<and> lp_end p \<le> 2 * int (lp_k p)
          \<and> hs = slice (nat (lp_start p)) (nat (lp_end p)) (lp_leaves p)
        then Inr (leaf_root (lp_k p) (lp_axis p) (lp_leaves p)) else Inl ''range'')\<rparr>"

lemma concat2_inj: "list_all (\<lambda>x. length x = 2) xs \<Longrightarrow> list_all (\<lambda>x. length x = 2) ys \<Longrightarrow> concat xs = concat ys \<Longrightarrow> xs = ys"
proof (induction xs arbitrary: ys)
  case Nil
  then show ?case by (cases ys) auto
next
  case (Cons x xs)
  then obtain y ys' where y: "ys = y # ys'" by (cases ys) auto
  have "length x = length y" "x @ concat xs = y @ concat ys'" using Cons.prems y by simp_all
  then have "x = y" "concat xs = concat ys'" by (metis append_eq_append_conv)+
  then show ?case using Cons y by simp
qed

lemma leaf_root_inj:
  assumes "leaf_root k ax xs = leaf_root k' ax' ys" "list_all (\<lambda>x. length x = 2) xs" "list_all (\<lambda>x. length x = 2) ys"
  shows "xs = ys"
  using assms(1) by (intro concat2_inj [OF assms(2,3)]) (auto simp: leaf_root_def split: if_splits)

lemma rep_leaves: "axis_leaves rep_lib k xs \<longleftrightarrow> length xs = 2 * k \<and> 0 < k \<and> list_all (\<lambda>x. length x = 2) xs"
  by (simp add: axis_leaves_def rep_shares)

lemma leaf_root_law: "root_law rep_lib leaf_lib"
  unfolding root_law_def
proof (intro allI impI)
  fix k k' ax xs ys r
  assume "axis_leaves rep_lib k xs" "axis_leaves rep_lib k' ys" "TreeRoot leaf_lib k ax xs = Inr r" "TreeRoot leaf_lib k' ax ys = Inr r"
  then show "xs = ys" using leaf_root_inj [of k ax xs k' ax ys] by (simp add: rep_leaves leaf_lib_def)
qed

lemma leaf_ok_same:
  assumes "leaf_ok p r" "axis_leaves rep_lib k xs" "leaf_root k ax xs = r"
  shows "lp_leaves p = xs" "lp_k p = k"
proof -
  obtain ax' where "leaf_root (lp_k p) ax' (lp_leaves p) = leaf_root k ax xs" using assms(1,3) by (auto simp: leaf_ok_def)
  from leaf_root_inj [OF this] show "lp_leaves p = xs" using assms by (simp add: leaf_ok_def rep_leaves)
  then show "lp_k p = k" using assms by (simp add: leaf_ok_def rep_leaves)
qed

lemma leaf_inclusion_law: "inclusion_law rep_lib leaf_lib"
  unfolding inclusion_law_def
proof (intro allI impI)
  fix p ns d r k ax xs i
  assume a: "axis_leaves rep_lib k xs" "TreeRoot leaf_lib k ax xs = Inr r" "VerifyInclusion leaf_lib p ns [d] r" "i < 2 * k" "PStart leaf_lib p = int i" "PEnd leaf_lib p = int i + 1"
  then have "leaf_ok p r" "[d] = slice i (Suc i) (lp_leaves p)" "leaf_root k ax xs = r" by (auto simp: leaf_lib_def nat_add_distrib)
  moreover have "lp_leaves p = xs" using leaf_ok_same a(1) calculation by blast
  moreover have "slice i (Suc i) xs = [xs ! i]" using a(1,4) by (simp add: slice_def rep_leaves take_Suc_conv_app_nth)
  ultimately show "d = xs ! i" by simp
qed

lemma leaf_namespace_law: "namespace_law rep_lib leaf_lib"
  unfolding namespace_law_def
proof (intro allI impI)
  fix p ns ls r k ax xs
  assume a: "axis_leaves rep_lib k xs" "ax < k" "TreeRoot leaf_lib k ax xs = Inr r" "VerifyNamespace leaf_lib p ns ls r"
  then have "leaf_ok p r" "leaf_root k ax xs = r" by (auto simp: leaf_lib_def)
  then have "lp_leaves p = xs" "lp_k p = k" using leaf_ok_same [OF _ a(1)] by blast+
  then show "(IsOfAbsence leaf_lib p \<longrightarrow> filter (\<lambda>x. ShareNamespace rep_lib x = ns) (take k xs) = [])
      \<and> (\<not> IsOfAbsence leaf_lib p \<longrightarrow> ls = map (\<lambda>x. ShareNamespace rep_lib x @ x) (filter (\<lambda>x. ShareNamespace rep_lib x = ns) (take k xs)))"
    using a(4) by (auto simp: leaf_lib_def rep_lib_def split: if_splits)
qed

lemma min_max_ns: "x \<in> set xs \<Longrightarrow> min_ns xs \<le> hd x \<and> hd x \<le> max_ns xs"
  by (induction xs) (auto simp: min_ns_def max_ns_def le_max_iff_disj min_le_iff_disj)

lemma leaf_range_law: "range_law rep_lib leaf_lib"
  unfolding range_law_def
proof (intro allI impI)
  fix k ax xs r
  assume a: "axis_leaves rep_lib k xs" "TreeRoot leaf_lib k ax xs = Inr r"
  then have r: "r = leaf_root k ax xs" by (simp add: leaf_lib_def)
  have "hd (take 1 x) = hd x" if "x \<in> set (take k xs)" for x
  proof -
    have "length x = 2" using a(1) in_set_takeD [OF that] by (auto simp: rep_leaves list_all_iff)
    then show ?thesis by (cases x) auto
  qed
  then show "2 * NsSize leaf_lib \<le> length r \<and> NsErr leaf_lib (take (NsSize leaf_lib) r) = None \<and> NsErr leaf_lib (slice (NsSize leaf_lib) (NsSize leaf_lib * 2) r) = None
     \<and> (ax < k \<longrightarrow> (\<forall>x \<in> set (take k xs). \<not> IsLessThan leaf_lib (ShareNamespace rep_lib x) (take (NsSize leaf_lib) r)
           \<and> IsLessOrEqualThan leaf_lib (ShareNamespace rep_lib x) (slice (NsSize leaf_lib) (NsSize leaf_lib * 2) r)))
     \<and> (k \<le> ax \<longrightarrow> take (NsSize leaf_lib) r = ParitySharesNamespace rep_lib)"
    using r min_max_ns [of _ "take k xs"] by (auto simp: leaf_lib_def rep_lib_def leaf_root_def slice_def not_less)
qed

lemma leaf_compute_law: "compute_law rep_lib leaf_lib"
  unfolding compute_law_def
proof (intro allI impI)
  fix p ns ds hs c r k ax xs
  assume a: "axis_leaves rep_lib k xs" "TreeRoot leaf_lib k ax xs = Inr r" "LeafHashes leaf_lib ns ds = Inr hs" "ComputeRoot leaf_lib p ns hs c = Inr r"
  then have h: "hs = ds" "r = leaf_root k ax xs" by (simp_all add: leaf_lib_def)
  note c = a(4) [unfolded h, simplified leaf_lib_def, simplified]
  have p: "length (lp_leaves p) = 2 * lp_k p" "list_all (\<lambda>x. length x = 2) (lp_leaves p)" "0 \<le> lp_start p" "lp_end p = lp_start p + int (length ds)"
      "lp_end p \<le> 2 * int (lp_k p)" "ds = slice (nat (lp_start p)) (nat (lp_end p)) (lp_leaves p)" "leaf_root (lp_k p) (lp_axis p) (lp_leaves p) = leaf_root k ax xs"
    using c by (metis sum.distinct(1) sum.inject(2))+
  have "lp_leaves p = xs" using leaf_root_inj [OF p(7,2)] a(1) by (simp add: rep_leaves)
  moreover have "lp_k p = k" using calculation p(1) a(1) by (simp add: rep_leaves)
  ultimately show "0 \<le> PStart leaf_lib p \<and> PEnd leaf_lib p = PStart leaf_lib p + int (length ds) \<and> PEnd leaf_lib p \<le> 2 * int k \<and> ds = slice (nat (PStart leaf_lib p)) (nat (PEnd leaf_lib p)) xs"
    using p(3-6) by (simp add: leaf_lib_def)
qed

section \<open>A square\<close>

definition rep_eds :: eds where
  "rep_eds = (let a = [1, 10]; b = [2, 20]; c = [2, 21]; d = [254, 0] in [[a, b, a, b], [c, d, c, d], [a, b, a, b], [c, d, c, d]])"

definition rep_roots :: AxisRoots where
  "rep_roots = \<lparr>RowRoots = map (\<lambda>i. leaf_root 2 i (eds_row rep_eds i)) [0..<4], ColumnRoots = map (\<lambda>i. leaf_root 2 i (eds_col rep_eds i)) [0..<4]\<rparr>"

lemma less4: "(i::nat) < 4 \<longleftrightarrow> i = 0 \<or> i = 1 \<or> i = 2 \<or> i = 3"
  by auto

lemma rep_eds_ok: "eds_ok rep_lib rep_eds"
  by (auto simp: eds_ok_def rep_eds_def Let_def rep_shares codeword_def eds_col_def less4 rep_lib_def)

lemma rep_width: "Width rep_eds = 4"
  by (simp add: rep_eds_def Let_def)

lemma rep_roots_of: "roots_of leaf_lib rep_eds rep_roots"
  by (simp add: roots_of_def rep_roots_def leaf_lib_def rep_width)

lemmas leaf_laws = leaf_root_law leaf_inclusion_law leaf_namespace_law leaf_range_law leaf_compute_law

end
