(* ===== verification/ContainerProperties.thy ===== *)
theory ContainerProperties
  imports SquareInstance
begin

text \<open>
  What a client gets from verified containers, and what the streams of rows deliver.
\<close>

section \<open>Verification\<close>

text \<open>C12. A sample that verifies against the roots of a square at a row and a column carries the share of the square there,
  whether its proof is of the row or of the column.\<close>

theorem sample_verify_sound:
  assumes "eds_ok L eds" "roots_of N eds roots" "inclusion_law L N" "rowIdx < Width eds" "colIdx < Width eds"
    and "Sample_Verify L N roots rowIdx colIdx s = None"
  shows "s_Share s = GetCell eds rowIdx colIdx"
  using sample_sound [OF assms] .

text \<open>C31. A row that verifies is turned into the whole row of the square, from whichever half it was received.\<close>

theorem row_verify_sound:
  assumes "lib_ok L" "eds_ok L eds" "roots_of N eds roots" "root_law L N" "shares_ok L (row_shares r)" "idx < Width eds"
    and "Row_Verify L N roots idx r = (None, r')"
  shows "row_shares r' = eds_row eds idx \<and> side r' = Both"
  using row_sound [OF assms] .

text \<open>C5. Namespace data that verifies is complete: put together, its rows are all shares of the namespace in the original
  square, in order, and nothing else.\<close>

theorem namespace_data_complete:
  assumes "eds_ok L eds" "roots_of N eds roots" "namespace_law L N" "range_law L N"
    and "ns \<noteq> ParitySharesNamespace L" "IsLessThan N ns (ParitySharesNamespace L)" "\<forall>row \<in> set nd. shares_ok L (rnd_Shares row)"
    and "NamespaceData_Verify L N roots ns nd = None"
  shows "nd_Flatten nd = filter (\<lambda>x. ShareNamespace L x = ns) (FlattenedODS eds)"
  using nd_sound [OF assms] .

text \<open>C3. A range that verifies against the roots of its rows is exactly the range of the original square between the two
  coordinates: a peer can neither shift shares in or out of the range nor replace any.\<close>

theorem range_verify_sound:
  assumes "lib_ok L" "eds_ok L eds" "roots_of N eds roots" "root_law L N" "compute_law L N"
    and "\<forall>row \<in> set (rng_Shares rng). shares_ok L row" "odsSize = int (Width eds div 2)"
    and "rng_VerifyInclusion L N from to odsSize (slice (nat (Row from)) (nat (Row to) + 1) (RowRoots roots)) rng = None
      \<or> rng_VerifyNamespace L N from to odsSize (slice (nat (Row from)) (nat (Row to) + 1) (RowRoots roots)) rng = None"
  shows "rng_Flatten rng = slice (nat (Row from * odsSize + Col from)) (nat (Row to * odsSize + Col to) + 1) (FlattenedODS eds)"
  unfolding rng_Flatten_def using assms(8) range_sound [OF assms(1-7) refl]
  by (auto simp: rng_VerifyInclusion_def rng_VerifyNamespace_def)

section \<open>Streams\<close>

text \<open>The constructors of proofs give back a proof from its parts, and proofs are not too large.\<close>

definition proof_law :: "'p nmt_lib \<Rightarrow> nat \<Rightarrow> 'p \<Rightarrow> bool" where
  "proof_law N maxSquare p \<longleftrightarrow> length (PNodes N p) \<le> maxProofNodes maxSquare \<and>
     (case PLeafHash N p of
        None \<Rightarrow> NewInclusionProof N (PStart N p) (PEnd N p) (PNodes N p) (PMaxIgnored N p) = p
      | Some lh \<Rightarrow> NewAbsenceProof N (PStart N p) (PEnd N p) (PNodes N p) lh (PMaxIgnored N p) = p)"

definition rnd_ok :: "square_lib \<Rightarrow> 'p nmt_lib \<Rightarrow> nat \<Rightarrow> 'p RowNamespaceData \<Rightarrow> bool" where
  "rnd_ok L N maxSquare rnd \<longleftrightarrow> shares_ok L (rnd_Shares rnd) \<and> (\<forall>p. rnd_Proof rnd = Some p \<longrightarrow> proof_law N maxSquare p)"

lemma SharesFromProto_ok: "share_ok L \<Longrightarrow> shares_ok L xs \<Longrightarrow> SharesFromProto L (SharesToProto xs) = Inr xs"
  unfolding SharesFromProto_def SharesToProto_def by (induction xs) (auto simp: ShareFromProto_def NewShare_ok)

lemma rnd_proto:
  assumes "share_ok L" "rnd_ok L N m rnd"
  shows "RowNamespaceDataFromProto L N m (Some (RowNamespaceData_ToProto N rnd)) = Inr rnd"
proof (cases "rnd_Proof rnd")
  case None
  then show ?thesis using assms SharesFromProto_ok [of L "rnd_Shares rnd"] by (simp add: RowNamespaceDataFromProto_def RowNamespaceData_ToProto_def rnd_ok_def)
next
  case (Some p)
  then have "proof_law N m p" using assms(2) by (simp add: rnd_ok_def)
  then show ?thesis using Some assms SharesFromProto_ok [of L "rnd_Shares rnd"]
    by (cases "PLeafHash N p") (simp_all add: RowNamespaceDataFromProto_def RowNamespaceData_ToProto_def rnd_ok_def proof_law_def proof_to_pb_def checkProofNodes_def)
qed

lemma rnd_read_write:
  assumes "share_ok L" "serde_ok S M" "rnd_ok L N m rnd" "RowNamespaceData_ToProto N rnd \<in> M"
  shows "RowNamespaceData_ReadFrom L N m S (RowNamespaceData_WriteTo N S rnd @ rest) = (length (RowNamespaceData_WriteTo N S rnd), Inr rnd, rest)"
  using assms rnd_proto [OF assms(1,3)] by (simp add: RowNamespaceData_ReadFrom_def RowNamespaceData_WriteTo_def serde_ok_def)

lemma nd_read_write:
  assumes L: "share_ok L" and S: "serde_ok S M" and nd: "\<forall>row \<in> set nd. rnd_ok L N m row \<and> RowNamespaceData_ToProto N row \<in> M" "length acc + length nd \<le> m"
  shows "nd_read L N m S (NamespaceData_WriteTo N S nd) n acc = (n + length (NamespaceData_WriteTo N S nd), Inr (acc @ nd), [])"
  using nd
proof (induction nd arbitrary: n acc)
  case Nil
  then show ?case using S by (simp add: NamespaceData_WriteTo_def RowNamespaceData_ReadFrom_def serde_ok_def nd_read.simps [of _ _ _ _ "[]"])
next
  case (Cons row rows)
  have r: "RowNamespaceData_ReadFrom L N m S (NamespaceData_WriteTo N S (row # rows)) = (length (RowNamespaceData_WriteTo N S row), Inr row, NamespaceData_WriteTo N S rows)"
    using rnd_read_write [OF L S, of N m row "NamespaceData_WriteTo N S rows"] Cons.prems by (simp add: NamespaceData_WriteTo_def)
  have "nd_read L N m S (NamespaceData_WriteTo N S rows) (n + length (RowNamespaceData_WriteTo N S row)) (acc @ [row])
      = (n + length (RowNamespaceData_WriteTo N S row) + length (NamespaceData_WriteTo N S rows), Inr ((acc @ [row]) @ rows), [])"
    using Cons.prems by (intro Cons.IH) auto
  then have "nd_read L N m S (NamespaceData_WriteTo N S (row # rows)) n acc
      = (n + length (RowNamespaceData_WriteTo N S row) + length (NamespaceData_WriteTo N S rows), Inr (acc @ row # rows), [])"
    using Cons.prems by (subst nd_read.simps) (simp add: r)
  then show ?case by (simp add: NamespaceData_WriteTo_def)
qed

lemma range_rows_from: 
  assumes "length (rng_Shares rng) \<le> 1 \<longrightarrow> LastIncompleteRowProof rng = None" "rng_Shares rng = [] \<longrightarrow> FirstIncompleteRowProof rng = None"
  shows "range_from_rows (range_rows rng) = rng"
proof -
  let ?n = "length (rng_Shares rng)"
  have s: "map rnd_Shares (range_rows rng) = rng_Shares rng"
    by (rule nth_equalityI) (auto simp: range_rows_def)
  have l: "length (range_rows rng) = ?n" by (simp add: range_rows_def)
  have p: "rnd_Proof (range_rows rng ! i) = (if i = 0 then FirstIncompleteRowProof rng else if i = ?n - 1 then LastIncompleteRowProof rng else None)" if "i < ?n" for i
    using that by (simp add: range_rows_def)
  have f: "FirstIncompleteRowProof (range_from_rows (range_rows rng)) = FirstIncompleteRowProof rng"
  proof (cases "range_rows rng")
    case Nil
    then show ?thesis using l assms(2) by (simp add: range_from_rows_def)
  next
    case (Cons row rows)
    then have "0 < ?n" using l by (metis length_Cons zero_less_Suc)
    then show ?thesis using p [of 0] Cons by (simp add: range_from_rows_def)
  qed
  have g: "LastIncompleteRowProof (range_from_rows (range_rows rng)) = LastIncompleteRowProof rng"
  proof (cases "?n \<le> 1")
    case True
    then obtain x where "range_rows rng = [] \<or> range_rows rng = [x]" using l by (cases "range_rows rng"; cases "tl (range_rows rng)") auto
    then show ?thesis using True assms by (auto simp: range_from_rows_def)
  next
    case False
    then obtain x y rest where x: "range_rows rng = x # y # rest" using l by (cases "range_rows rng"; cases "tl (range_rows rng)") auto
    have "last (range_rows rng) = range_rows rng ! (?n - 1)" using l x by (metis last_conv_nth list.distinct(1))
    then show ?thesis using p [of "?n - 1"] False x by (simp add: range_from_rows_def)
  qed
  show ?thesis using s f g by (simp add: range_from_rows_def)
qed

text \<open>C32. A range written row by row is read back with its shares and its two proofs, by a client that accepts as many rows as
  the largest square has; so is namespace data.\<close>

theorem range_stream_roundtrip:
  assumes "share_ok L" "serde_ok S (RowNamespaceData_ToProto N ` set (range_rows rng))" "\<forall>row \<in> set (range_rows rng). rnd_ok L N maxSquare row" "length (rng_Shares rng) \<le> maxSquare"
    and "length (rng_Shares rng) \<le> 1 \<longrightarrow> LastIncompleteRowProof rng = None" "rng_Shares rng = [] \<longrightarrow> FirstIncompleteRowProof rng = None"
  shows "rng_ReadFrom L N maxSquare S (rng_WriteTo N S rng) = (length (rng_WriteTo N S rng), Inr rng, [])"
proof -
  have l: "length (range_rows rng) = length (rng_Shares rng)" by (simp add: range_rows_def)
  have w: "rng_WriteTo N S rng = NamespaceData_WriteTo N S (range_rows rng)" by (simp add: rng_WriteTo_def NamespaceData_WriteTo_def)
  have "nd_read L N maxSquare S (NamespaceData_WriteTo N S (range_rows rng)) 0 [] = (0 + length (NamespaceData_WriteTo N S (range_rows rng)), Inr ([] @ range_rows rng), [])"
    using assms(3,4) l by (intro nd_read_write [OF assms(1,2)]) auto
  then show ?thesis using range_rows_from [OF assms(5,6)] unfolding rng_ReadFrom_def NamespaceData_ReadFrom_def w by simp
qed

section \<open>Examples\<close>

text \<open>Containers of the square of four times four shares.\<close>

lemma rep_sample:
  "map_sum id (Sample_Verify rep_lib leaf_lib rep_roots 3 1) (SampleFromShares leaf_lib (eds_col rep_eds 1) AxisCol \<lparr>Row = 1, Col = 3\<rparr>) = Inr None"
  by code_simp

theorem sample_verify_sound_witness:
  "case SampleFromShares leaf_lib (eds_col rep_eds 1) AxisCol \<lparr>Row = 1, Col = 3\<rparr> of Inl e \<Rightarrow> False | Inr s \<Rightarrow> s_Share s = GetCell rep_eds 3 1"
  using rep_sample sample_verify_sound [OF rep_eds_ok rep_roots_of leaf_inclusion_law, of 3 1]
  by (auto simp: rep_width map_sum_def split: sum.splits)

theorem row_verify_sound_witness:
  "row_shares (snd (Row_Verify rep_lib leaf_lib rep_roots 1 (NewRow [[2, 21], [254, 0]] Right))) = eds_row rep_eds 1"
proof -
  have "fst (Row_Verify rep_lib leaf_lib rep_roots 1 (NewRow [[2, 21], [254, 0]] Right)) = None" by code_simp
  then show ?thesis using row_verify_sound [OF rep_lib_ok rep_eds_ok rep_roots_of leaf_root_law, of "NewRow [[2, 21], [254, 0]] Right" 1]
    by (cases "Row_Verify rep_lib leaf_lib rep_roots 1 (NewRow [[2, 21], [254, 0]] Right)") (auto simp: rep_width NewRow_def rep_lib_def)
qed

definition rep_nd :: "leaf_proof NamespaceData" where
  "rep_nd = map (\<lambda>i. case RowNamespaceDataFromShares rep_lib leaf_lib (eds_row rep_eds i) [2] i of Inl e \<Rightarrow> \<lparr>rnd_Shares = [], rnd_Proof = None\<rparr> | Inr d \<Rightarrow> d) [0, 1]"

theorem namespace_data_complete_witness: "nd_Flatten rep_nd = filter (\<lambda>x. take 1 x = [2]) (FlattenedODS rep_eds)"
proof -
  have "NamespaceData_Verify rep_lib leaf_lib rep_roots [2] rep_nd = None" by code_simp
  moreover have "\<forall>row \<in> set rep_nd. shares_ok rep_lib (rnd_Shares row)" unfolding rep_shares by code_simp
  moreover have "ShareNamespace rep_lib = take 1" by (simp add: rep_lib_def)
  ultimately show ?thesis using namespace_data_complete [OF rep_eds_ok rep_roots_of leaf_namespace_law leaf_range_law, of "[2]" rep_nd]
    by (simp add: rep_lib_def leaf_lib_def)
qed

definition rep_range :: "leaf_proof RangeNamespaceData" where
  "rep_range = (case RangeNamespaceDataFromShares rep_lib leaf_lib [eds_row rep_eds 0, eds_row rep_eds 1] \<lparr>Row = 0, Col = 1\<rparr> \<lparr>Row = 1, Col = 0\<rparr> of Inr d \<Rightarrow> d
     | Inl e \<Rightarrow> \<lparr>rng_Shares = [], FirstIncompleteRowProof = None, LastIncompleteRowProof = None\<rparr>)"

theorem range_verify_sound_witness: "rng_Flatten rep_range = slice 1 3 (FlattenedODS rep_eds)"
proof -
  let ?from = "\<lparr>Row = 0, Col = 1\<rparr>" and ?to = "\<lparr>Row = 1, Col = 0\<rparr>"
  have v: "rng_VerifyInclusion rep_lib leaf_lib ?from ?to 2 (slice (nat (Row ?from)) (nat (Row ?to) + 1) (RowRoots rep_roots)) rep_range = None" by code_simp
  have k: "2 = int (Width rep_eds div 2)" by (simp add: rep_width)
  have "\<forall>row \<in> set (rng_Shares rep_range). shares_ok rep_lib row" unfolding rep_shares by code_simp
  from range_verify_sound [OF rep_lib_ok rep_eds_ok rep_roots_of leaf_root_law leaf_compute_law this k disjI1 [OF v]]
  show ?thesis by (simp add: eval_nat_numeral)
qed

text \<open>A framing of the messages of a table, each written as its number.\<close>

definition table_index :: "'m list \<Rightarrow> 'm \<Rightarrow> nat" where
  "table_index ms m = length (takeWhile (\<lambda>x. x \<noteq> m) ms)"

definition table_serde :: "'m list \<Rightarrow> 'm serde" where
  "table_serde ms = \<lparr>serde_Read = (\<lambda>r. case r of [] \<Rightarrow> (0, Inl SerdeEOF, []) | b # bs \<Rightarrow> (1, Inr (ms ! unat b), bs)),
     serde_Write = (\<lambda>m. [of_nat (table_index ms m)])\<rparr>"

lemma table_serde_ok:
  assumes "length ms < 256"
  shows "serde_ok (table_serde ms) (set ms)"
proof -
  have "ms ! unat (of_nat (table_index ms m) :: byte) = m" if "m \<in> set ms" for m
  proof -
    have i: "table_index ms m < length ms \<and> ms ! table_index ms m = m" using that by (induction ms) (auto simp: table_index_def)
    moreover have "unat (of_nat (table_index ms m) :: byte) = table_index ms m" using assms i by (simp add: unat_of_nat)
    ultimately show ?thesis by simp
  qed
  then show ?thesis by (simp add: serde_ok_def table_serde_def)
qed

definition rep_stream :: "leaf_proof RangeNamespaceData" where
  "rep_stream = \<lparr>rng_Shares = [[[1, 2]], [[1, 3]]], FirstIncompleteRowProof = None,
     LastIncompleteRowProof = Some \<lparr>lp_start = 0, lp_end = 1, lp_k = 0, lp_axis = 0, lp_leaves = [], lp_absence = False\<rparr>\<rparr>"

theorem range_stream_roundtrip_witness:
  "let S = table_serde (map (RowNamespaceData_ToProto leaf_lib) (range_rows rep_stream)) in
   fst (snd (rng_ReadFrom rep_lib leaf_lib 2 S (rng_WriteTo leaf_lib S rep_stream))) = Inr rep_stream"
proof -
  let ?ms = "map (RowNamespaceData_ToProto leaf_lib) (range_rows rep_stream)"
  have "\<forall>row \<in> set (range_rows rep_stream). rnd_ok rep_lib leaf_lib 2 row"
    by (simp add: range_rows_def rep_stream_def rnd_ok_def rep_shares proof_law_def leaf_lib_def upt_rec)
  moreover have "serde_ok (table_serde ?ms) (RowNamespaceData_ToProto leaf_lib ` set (range_rows rep_stream))"
    using table_serde_ok [of ?ms] by (simp add: range_rows_def rep_stream_def)
  ultimately have "rng_ReadFrom rep_lib leaf_lib 2 (table_serde ?ms) (rng_WriteTo leaf_lib (table_serde ?ms) rep_stream)
      = (length (rng_WriteTo leaf_lib (table_serde ?ms) rep_stream), Inr rep_stream, [])"
    by (intro range_stream_roundtrip [OF rep_share_ok]) (simp_all add: rep_stream_def)
  then show ?thesis by (simp add: Let_def)
qed

end
