(* ===== verification/BlockFile.thy ===== *)
theory BlockFile
  imports NamespaceData
begin

text \<open>
  Block files (\<^verbatim>\<open>store/file\<close>): the header (\<^verbatim>\<open>header.go\<close>), the file of the original square (\<^verbatim>\<open>ods.go\<close>), that of the fourth
  quadrant (\<^verbatim>\<open>q4.go\<close>) and the accessor over both (\<^verbatim>\<open>ods_q4.go\<close>). What is written to a file is a list of bytes; a file is read
  through its \<^verbatim>\<open>ReadAt\<close>. Axis indexes are natural numbers, as the validation in front of every accessor makes them.
\<close>

section \<open>The header\<close>

definition headerVOSize :: nat where "headerVOSize = 64"

definition headerVersionV0 :: byte where "headerVersionV0 = 1"

definition fileV0 :: byte where "fileV0 = 1"

record headerV0 =
  fileVersion :: byte
  shareSize :: u16
  squareSize :: u16
  datahash :: "byte list"

definition hdr_SquareSize :: "headerV0 \<Rightarrow> nat" where "hdr_SquareSize h = unat (squareSize h)"

definition hdr_ShareSize :: "headerV0 \<Rightarrow> nat" where "hdr_ShareSize h = unat (shareSize h)"

definition hdr_Size :: nat where "hdr_Size = headerVOSize + 1"

definition hdr_RootsSize :: "headerV0 \<Rightarrow> nat" where "hdr_RootsSize h = AxisRootSize * hdr_SquareSize h * 2"

definition hdr_OffsetWithRoots :: "headerV0 \<Rightarrow> nat" where "hdr_OffsetWithRoots h = hdr_RootsSize h + hdr_Size"

text \<open>\<^verbatim>\<open>copy\<close> of the data hash into the last 32 bytes of a zeroed buffer.\<close>

definition headerV0_WriteTo :: "headerV0 \<Rightarrow> byte list" where
  "headerV0_WriteTo h =
     [fileVersion h] @ replicate 27 0 @ le_put 2 (shareSize h) @ le_put 2 (squareSize h) @ take 32 (datahash h @ replicate 32 0)"

definition writeHeader :: "headerV0 \<Rightarrow> byte list" where
  "writeHeader h = [headerVersionV0] @ headerV0_WriteTo h"

definition headerV0_ReadFrom :: "byte list \<Rightarrow> (string + headerV0) \<times> byte list" where
  "headerV0_ReadFrom r =
     (case ReadFull r headerVOSize of
        (n, Inl e, r') \<Rightarrow> (Inl ''headerV0 ReadFrom'', r')
      | (n, Inr bs, r') \<Rightarrow>
          (Inr \<lparr>fileVersion = bs ! 0, shareSize = le_get (slice 28 30 bs), squareSize = le_get (slice 30 32 bs), datahash = slice 32 64 bs\<rparr>, r'))"

definition readHeader :: "byte list \<Rightarrow> (string + headerV0) \<times> byte list" where
  "readHeader r =
     (case ReadFull r 1 of
        (n, Inl e, r') \<Rightarrow> (Inl ''readHeader'', r')
      | (n, Inr bs, r') \<Rightarrow>
          if bs = [headerVersionV0] then headerV0_ReadFrom r' else (Inl ''unsupported header fileVersion'', r'))"

section \<open>Writing files\<close>

text \<open>The cells of the first quadrant in row-major order.\<close>

definition quadrant1 :: "eds \<Rightarrow> byte list list" where
  "quadrant1 eds = concat (map (\<lambda>i. map (GetCell eds i) [0..<Width eds div 2]) [0..<Width eds div 2])"

text \<open>Writing stops at the first share of tail padding; the namespace of a share is its first bytes.\<close>

fun writeODS_shares :: "square_lib \<Rightarrow> nat \<Rightarrow> byte list list \<Rightarrow> string + byte list" where
  "writeODS_shares L nsSize [] = Inr []"
| "writeODS_shares L nsSize (shr # shrs) =
     (case NamespaceErr L (take nsSize shr) of
        Some e \<Rightarrow> Inl e
      | None \<Rightarrow>
          if take nsSize shr = TailPaddingNamespace L then Inr []
          else (case writeODS_shares L nsSize shrs of Inl e \<Rightarrow> Inl e | Inr bs \<Rightarrow> Inr (shr @ bs)))"

definition writeODS :: "square_lib \<Rightarrow> nat \<Rightarrow> eds \<Rightarrow> string + byte list" where
  "writeODS L nsSize eds = writeODS_shares L nsSize (quadrant1 eds)"

definition writeAxisRoots :: "AxisRoots \<Rightarrow> byte list" where
  "writeAxisRoots roots = concat (RowRoots roots) @ concat (ColumnRoots roots)"

definition writeODSFile :: "square_lib \<Rightarrow> nat \<Rightarrow> AxisRoots \<Rightarrow> eds \<Rightarrow> headerV0 \<Rightarrow> string + byte list" where
  "writeODSFile L nsSize axisRoots eds hdr =
     (case writeODS L nsSize eds of
        Inl e \<Rightarrow> Inl e
      | Inr bs \<Rightarrow> Inr (writeHeader hdr @ writeAxisRoots axisRoots @ bs))"

text \<open>The header of a new file; \<open>hash\<close> is the hash of the roots.\<close>

definition ODS_header :: "byte list \<Rightarrow> eds \<Rightarrow> headerV0" where
  "ODS_header hash eds = \<lparr>fileVersion = fileV0, shareSize = of_nat (length (GetCell eds 0 0)), squareSize = of_nat (Width eds), datahash = hash\<rparr>"

definition ODS_content :: "square_lib \<Rightarrow> nat \<Rightarrow> AxisRoots \<Rightarrow> byte list \<Rightarrow> eds \<Rightarrow> string + byte list" where
  "ODS_content L nsSize roots hash eds = writeODSFile L nsSize roots eds (ODS_header hash eds)"

definition writeQ4 :: "eds \<Rightarrow> byte list" where
  "writeQ4 eds =
     (let half = Width eds div 2 in
      concat (concat (map (\<lambda>i. map (\<lambda>j. GetCell eds (i + half) (j + half)) [0..<half]) [0..<half])))"

text \<open>The expected sizes of the files of a square: the number of shares before the first padding of each row, and the size of
  a quadrant.\<close>

fun filled_row :: "square_lib \<Rightarrow> byte list list \<Rightarrow> string + nat" where
  "filled_row L [] = Inr 0"
| "filled_row L (shr # shrs) =
     (case NewShare L shr of
        Some e \<Rightarrow> Inl e
      | None \<Rightarrow>
          if ShareNamespace L shr = TailPaddingNamespace L then Inr 0
          else (case filled_row L shrs of Inl e \<Rightarrow> Inl e | Inr n \<Rightarrow> Inr (Suc n)))"

definition filledSharesAmount :: "square_lib \<Rightarrow> eds \<Rightarrow> string + nat" where
  "filledSharesAmount L eds =
     map_sum id sum_list (traverse (\<lambda>i. filled_row L (map (GetCell eds i) [0..<Width eds div 2])) [0..<Width eds div 2])"

definition ValidateODSSize :: "square_lib \<Rightarrow> byte list \<Rightarrow> eds \<Rightarrow> string option" where
  "ValidateODSSize L content eds =
     (case fst (readHeader content) of
        Inl e \<Rightarrow> Some e
      | Inr hdr \<Rightarrow>
          (case filledSharesAmount L eds of
             Inl e \<Rightarrow> Some e
           | Inr shares \<Rightarrow>
               if length content \<noteq> hdr_OffsetWithRoots hdr + shares * length (GetCell eds 0 0) then Some ''file size mismatch'' else None))"

definition validateQ4Size :: "byte list \<Rightarrow> eds \<Rightarrow> string option" where
  "validateQ4Size content eds =
     (let odsSize = Width eds div 2 in
      if length content \<noteq> length (GetCell eds 0 0) * odsSize * odsSize then Some ''file size mismatch'' else None)"

section \<open>Reading files\<close>

text \<open>\<^verbatim>\<open>ReadAt\<close> of \<open>n\<close> bytes at an offset: what was read, and \<^verbatim>\<open>io.EOF\<close> when that is less.\<close>

datatype read_at_error = AtEOF | AtErr string

type_synonym reader_at = "nat \<Rightarrow> nat \<Rightarrow> byte list \<times> read_at_error option"

definition file_ReadAt :: "byte list \<Rightarrow> reader_at" where
  "file_ReadAt content offset n =
     (let bs = take n (drop offset content) in (bs, if length bs < n then Some AtEOF else None))"

text \<open>Dividing by a share size of zero panics.\<close>

definition row_share :: "square_lib \<Rightarrow> nat \<Rightarrow> nat \<Rightarrow> byte list \<Rightarrow> nat \<Rightarrow> string + byte list" where
  "row_share L ss shrsRead axsData i =
     (if i \<ge> shrsRead then Inr (TailPaddingShare L)
      else
        let sh = slice (i * ss) ((i + 1) * ss) axsData in
        case NewShare L sh of Some e \<Rightarrow> Inl e | None \<Rightarrow> Inr sh)"

definition readRowHalf :: "square_lib \<Rightarrow> reader_at \<Rightarrow> nat \<Rightarrow> headerV0 \<Rightarrow> nat \<Rightarrow> string + byte list list" where
  "readRowHalf L r rowIdx hdr offset =
     (let odsLn = hdr_SquareSize hdr div 2; ss = hdr_ShareSize hdr in
      case r (offset + rowIdx * odsLn * ss) (odsLn * ss) of
        (axsData, Some (AtErr e)) \<Rightarrow> Inl e
      | (axsData, _) \<Rightarrow>
          if ss = 0 then Inl ''integer divide by zero''
          else traverse (row_share L ss (length axsData div ss) axsData) [0..<odsLn])"

text \<open>The buffer for a share is zeroed, so a share cut short by the end of the file is filled up with zeros.\<close>

fun read_col_shares :: "square_lib \<Rightarrow> reader_at \<Rightarrow> nat \<Rightarrow> headerV0 \<Rightarrow> nat \<Rightarrow> nat list \<Rightarrow> string + byte list list" where
  "read_col_shares L r colIdx hdr offset [] = Inr []"
| "read_col_shares L r colIdx hdr offset (i # is) =
     (let odsLn = hdr_SquareSize hdr div 2; ss = hdr_ShareSize hdr; pos = colIdx + i * odsLn in
      case r (offset + pos * ss) ss of
        (bs, Some (AtErr e)) \<Rightarrow> Inl e
      | (bs, _) \<Rightarrow>
          if bs = [] then Inr (replicate (Suc (length is)) (TailPaddingShare L))
          else
            let shr = bs @ replicate (ss - length bs) 0 in
            case NewShare L shr of
              Some e \<Rightarrow> Inl e
            | None \<Rightarrow> (case read_col_shares L r colIdx hdr offset is of Inl e \<Rightarrow> Inl e | Inr shrs \<Rightarrow> Inr (shr # shrs)))"

definition readColHalf :: "square_lib \<Rightarrow> reader_at \<Rightarrow> nat \<Rightarrow> headerV0 \<Rightarrow> nat \<Rightarrow> string + byte list list" where
  "readColHalf L r colIdx hdr offset = read_col_shares L r colIdx hdr offset [0..<hdr_SquareSize hdr div 2]"

definition readAxisHalf :: "square_lib \<Rightarrow> reader_at \<Rightarrow> axis \<Rightarrow> nat \<Rightarrow> headerV0 \<Rightarrow> nat \<Rightarrow> string + byte list list" where
  "readAxisHalf L r axisTp axisIdx hdr offset =
     (case axisTp of
        AxisRow \<Rightarrow> readRowHalf L r axisIdx hdr offset
      | AxisCol \<Rightarrow> readColHalf L r axisIdx hdr offset
      | AxisOther _ \<Rightarrow> Inl ''unknown axis'')"

section \<open>The file of the original square\<close>

text \<open>\<open>fl\<close> is the content of the file; the square is kept in memory once it was read as a whole, unless the cache is off.\<close>

record ODS =
  hdr :: headerV0
  fl :: "byte list"
  ods :: "square option"
  disableCache :: bool

definition OpenODS :: "byte list \<Rightarrow> string + ODS" where
  "OpenODS content =
     (case fst (readHeader content) of
        Inl e \<Rightarrow> Inl e
      | Inr h \<Rightarrow> Inr \<lparr>hdr = h, fl = content, ods = None, disableCache = False\<rparr>)"

definition ODS_size :: "ODS \<Rightarrow> nat" where "ODS_size f = unat (squareSize (hdr f))"

definition ODS_DataHash :: "ODS \<Rightarrow> byte list" where "ODS_DataHash f = datahash (hdr f)"

definition ODS_AxisRoots :: "ODS \<Rightarrow> string + AxisRoots" where
  "ODS_AxisRoots f =
     (let sz = hdr_RootsSize (hdr f); n = ODS_size f in
      case file_ReadAt (fl f) hdr_Size sz of
        (roots, Some e) \<Rightarrow> Inl ''reading axis roots''
      | (roots, None) \<Rightarrow>
          if length roots \<noteq> sz then Inl ''reading axis roots''
          else Inr \<lparr>RowRoots = map (\<lambda>i. slice (i * AxisRootSize) ((i + 1) * AxisRootSize) roots) [0..<n],
                    ColumnRoots = map (\<lambda>i. slice ((n + i) * AxisRootSize) ((n + i + 1) * AxisRootSize) roots) [0..<n]\<rparr>)"

definition ODS_readAxisHalf :: "square_lib \<Rightarrow> ODS \<Rightarrow> axis \<Rightarrow> nat \<Rightarrow> string + AxisHalf" where
  "ODS_readAxisHalf L f axisType axisIdx =
     (case ods f of
        Some s \<Rightarrow> square_axisHalf s axisType axisIdx
      | None \<Rightarrow>
          (case readAxisHalf L (file_ReadAt (fl f)) axisType axisIdx (hdr f) (hdr_OffsetWithRoots (hdr f)) of
             Inl e \<Rightarrow> Inl e
           | Inr axisHalf \<Rightarrow> Inr \<lparr>Shares = axisHalf, IsParity = False\<rparr>))"

text \<open>A section reader of the file ends with its section or with the file.\<close>

definition readODS :: "square_lib \<Rightarrow> ODS \<Rightarrow> (string + square) \<times> ODS" where
  "readODS L f =
     (let read = (
          let ss = hdr_ShareSize (hdr f); odsLn = hdr_SquareSize (hdr f) div 2;
              reader = take (ss * odsLn * odsLn) (drop (hdr_OffsetWithRoots (hdr f)) (fl f)) in
          readSquare L reader ss (ODS_size f)) in
      if disableCache f then (read, f)
      else
        case ods f of
          Some s \<Rightarrow> (Inr s, f)
        | None \<Rightarrow> (case read of Inl e \<Rightarrow> (Inl e, f) | Inr s \<Rightarrow> (Inr s, f\<lparr>ods := Some s\<rparr>)))"

definition ODS_AxisHalf :: "square_lib \<Rightarrow> (nat, nat) fmap \<Rightarrow> ODS \<Rightarrow> axis \<Rightarrow> nat \<Rightarrow> (string + AxisHalf) \<times> ODS" where
  "ODS_AxisHalf L cache f axisType axisIdx =
     (if axisIdx < ODS_size f div 2 then (ODS_readAxisHalf L f axisType axisIdx, f)
      else
        case readODS L f of
          (Inl e, f1) \<Rightarrow> (Inl e, f1)
        | (Inr s, f1) \<Rightarrow> (computeAxisHalf L cache s axisType axisIdx, f1))"

definition ODS_axis :: "square_lib \<Rightarrow> (nat, nat) fmap \<Rightarrow> ODS \<Rightarrow> axis \<Rightarrow> nat \<Rightarrow> (string + byte list list) \<times> ODS" where
  "ODS_axis L cache f axisType axisIdx =
     (case ODS_AxisHalf L cache f axisType axisIdx of
        (Inl e, f1) \<Rightarrow> (Inl e, f1)
      | (Inr half, f1) \<Rightarrow> (Extended L half, f1))"

definition ODS_Sample :: "square_lib \<Rightarrow> 'p nmt_lib \<Rightarrow> (nat, nat) fmap \<Rightarrow> ODS \<Rightarrow> SampleCoords \<Rightarrow> (string + 'p Sample) \<times> ODS" where
  "ODS_Sample L N cache f idx =
     (let half = int (ODS_size f div 2);
          (axisType, axisIdx, shrIdx) =
            (if Col idx < half \<and> Row idx \<ge> half then (AxisCol, Col idx, Row idx) else (AxisRow, Row idx, Col idx)) in
      case ODS_axis L cache f axisType (nat axisIdx) of
        (Inl e, f1) \<Rightarrow> (Inl e, f1)
      | (Inr shares, f1) \<Rightarrow> (SampleFromShares N shares axisType \<lparr>Row = axisIdx, Col = shrIdx\<rparr>, f1))"

definition ODS_RowNamespaceData :: "square_lib \<Rightarrow> 'p nmt_lib \<Rightarrow> (nat, nat) fmap \<Rightarrow> ODS \<Rightarrow> byte list \<Rightarrow> nat \<Rightarrow> (string + 'p RowNamespaceData) \<times> ODS" where
  "ODS_RowNamespaceData L N cache f namespace rowIdx =
     (case ODS_axis L cache f AxisRow rowIdx of
        (Inl e, f1) \<Rightarrow> (Inl e, f1)
      | (Inr shares, f1) \<Rightarrow> (RowNamespaceDataFromShares L N shares namespace rowIdx, f1))"

definition ODS_Shares :: "square_lib \<Rightarrow> ODS \<Rightarrow> (string + byte list list) \<times> ODS" where
  "ODS_Shares L f = (case readODS L f of (Inl e, f1) \<Rightarrow> (Inl e, f1) | (Inr s, f1) \<Rightarrow> (Inr (square_shares s), f1))"

text \<open>The bytes a reader of the square delivers: those of the square in memory, or the section of the file.\<close>

definition ODS_Reader :: "ODS \<Rightarrow> ShareReader + byte list" where
  "ODS_Reader f =
     (case ods f of
        Some s \<Rightarrow> Inl (square_reader s)
      | None \<Rightarrow> Inr (take (hdr_ShareSize (hdr f) * (ODS_size f * ODS_size f div 4)) (drop (hdr_OffsetWithRoots (hdr f)) (fl f))))"

definition ext_row :: "square_lib \<Rightarrow> ODS \<Rightarrow> nat \<Rightarrow> string + byte list list" where
  "ext_row L f row =
     (case ODS_readAxisHalf L f AxisRow row of
        Inl e \<Rightarrow> Inl e
      | Inr half \<Rightarrow> Extended L half)"

definition ODS_RangeNamespaceData :: "square_lib \<Rightarrow> 'p nmt_lib \<Rightarrow> ODS \<Rightarrow> int \<Rightarrow> int \<Rightarrow> string + 'p RangeNamespaceData" where
  "ODS_RangeNamespaceData L N f from to =
     (let odsSize = int (ODS_size f div 2) in
      case (SampleCoordsFrom1DIndex from odsSize, SampleCoordsFrom1DIndex (to - 1) odsSize) of
        (Inr fromCoords, Inr toCoords) \<Rightarrow>
          (case traverse (ext_row L f) [nat (Row fromCoords)..<Suc (nat (Row toCoords))] of
             Inl e \<Rightarrow> Inl e
           | Inr shares \<Rightarrow> RangeNamespaceDataFromShares L N shares fromCoords toCoords)
      | _ \<Rightarrow> Inl ''invalid range'')"

section \<open>The file of the fourth quadrant\<close>

record q4 =
  q4_hdr :: headerV0
  q4_file :: "byte list"

definition q4_axisHalf :: "square_lib \<Rightarrow> q4 \<Rightarrow> axis \<Rightarrow> nat \<Rightarrow> string + AxisHalf" where
  "q4_axisHalf L q axisType axisIdx =
     (let sz = hdr_SquareSize (q4_hdr q) in
      if axisIdx < sz div 2 then Inl ''invalid axis index for Q4''
      else
        case readAxisHalf L (file_ReadAt (q4_file q)) axisType (axisIdx - sz div 2) (q4_hdr q) 0 of
          Inl e \<Rightarrow> Inl e
        | Inr axisHalf \<Rightarrow> Inr \<lparr>Shares = axisHalf, IsParity = True\<rparr>)"

section \<open>Both files\<close>

text \<open>\<open>pathQ4\<close> stands for what opening the file gives: its content, or nothing when there is none or it cannot be opened.\<close>

record ODSQ4 =
  oq_ods :: ODS
  pathQ4 :: "byte list option"
  q4OpenAttempted :: bool
  oq_q4 :: "q4 option"

definition ODSWithQ4 :: "ODS \<Rightarrow> byte list option \<Rightarrow> ODSQ4" where
  "ODSWithQ4 f path = \<lparr>oq_ods = f, pathQ4 = path, q4OpenAttempted = False, oq_q4 = None\<rparr>"

definition openQ4 :: "byte list option \<Rightarrow> headerV0 \<Rightarrow> q4 option" where
  "openQ4 path h = map_option (\<lambda>content. \<lparr>q4_hdr = h, q4_file = content\<rparr>) path"

definition tryLoadQ4 :: "ODSQ4 \<Rightarrow> q4 option \<times> ODSQ4" where
  "tryLoadQ4 o4 =
     (if q4OpenAttempted o4 then (oq_q4 o4, o4)
      else
        let q = openQ4 (pathQ4 o4) (hdr (oq_ods o4)) in
        (q, o4\<lparr>q4OpenAttempted := True, oq_q4 := q\<rparr>))"

definition ODSQ4_AxisHalf :: "square_lib \<Rightarrow> (nat, nat) fmap \<Rightarrow> ODSQ4 \<Rightarrow> axis \<Rightarrow> nat \<Rightarrow> (string + AxisHalf) \<times> ODSQ4" where
  "ODSQ4_AxisHalf L cache o4 axisType axisIdx =
     (let inner = (\<lambda>o4. case ODS_AxisHalf L cache (oq_ods o4) axisType axisIdx of (res, f) \<Rightarrow> (res, o4\<lparr>oq_ods := f\<rparr>)) in
      if axisIdx \<ge> ODS_size (oq_ods o4) div 2 then
        (case tryLoadQ4 o4 of
           (Some q, o41) \<Rightarrow> (q4_axisHalf L q axisType axisIdx, o41)
         | (None, o41) \<Rightarrow> inner o41)
      else inner o4)"

definition ODSQ4_row :: "square_lib \<Rightarrow> (nat, nat) fmap \<Rightarrow> ODSQ4 \<Rightarrow> nat \<Rightarrow> (string + byte list list) \<times> ODSQ4" where
  "ODSQ4_row L cache o4 rowIdx =
     (case ODSQ4_AxisHalf L cache o4 AxisRow rowIdx of
        (Inl e, o41) \<Rightarrow> (Inl e, o41)
      | (Inr half, o41) \<Rightarrow> (Extended L half, o41))"

definition ODSQ4_Sample :: "square_lib \<Rightarrow> 'p nmt_lib \<Rightarrow> (nat, nat) fmap \<Rightarrow> ODSQ4 \<Rightarrow> SampleCoords \<Rightarrow> (string + 'p Sample) \<times> ODSQ4" where
  "ODSQ4_Sample L N cache o4 idx =
     (case ODSQ4_row L cache o4 (nat (Row idx)) of
        (Inl e, o41) \<Rightarrow> (Inl e, o41)
      | (Inr shares, o41) \<Rightarrow> (SampleFromShares N shares AxisRow idx, o41))"

definition ODSQ4_RowNamespaceData :: "square_lib \<Rightarrow> 'p nmt_lib \<Rightarrow> (nat, nat) fmap \<Rightarrow> ODSQ4 \<Rightarrow> byte list \<Rightarrow> nat \<Rightarrow> (string + 'p RowNamespaceData) \<times> ODSQ4" where
  "ODSQ4_RowNamespaceData L N cache o4 namespace rowIdx =
     (case ODSQ4_row L cache o4 rowIdx of
        (Inl e, o41) \<Rightarrow> (Inl e, o41)
      | (Inr shares, o41) \<Rightarrow> (RowNamespaceDataFromShares L N shares namespace rowIdx, o41))"

definition ODSQ4_Shares :: "square_lib \<Rightarrow> ODSQ4 \<Rightarrow> (string + byte list list) \<times> ODSQ4" where
  "ODSQ4_Shares L o4 = (case ODS_Shares L (oq_ods o4) of (res, f) \<Rightarrow> (res, o4\<lparr>oq_ods := f\<rparr>))"

end
