(* ===== verification/BlockFileProofs.thy ===== *)
theory BlockFileProofs
  imports BlockFile SquareInstance
begin

text \<open>
  A block file gives back the square it was made from: the header, the roots, every half axis read from a file or computed, and
  the original shares with their padding.
\<close>

section \<open>Blocks that can be stored\<close>

definition filled :: "square_lib \<Rightarrow> eds \<Rightarrow> byte list list" where
  "filled L eds = takeWhile (\<lambda>x. ShareNamespace L x \<noteq> TailPaddingNamespace L) (FlattenedODS eds)"

definition block_ok :: "square_lib \<Rightarrow> nat \<Rightarrow> AxisRoots \<Rightarrow> byte list \<Rightarrow> eds \<Rightarrow> bool" where
  "block_ok L nsSize roots hash eds \<longleftrightarrow> lib_ok L \<and> eds_ok L eds \<and> Width eds < 2 ^ 16 \<and> ShareSize L < 2 ^ 16 \<and> length hash = DataHashSize
     \<and> length (RowRoots roots) = Width eds \<and> length (ColumnRoots roots) = Width eds
     \<and> (\<forall>r \<in> set (RowRoots roots) \<union> set (ColumnRoots roots). length r = AxisRootSize)
     \<and> (\<forall>x \<in> set (FlattenedODS eds). take nsSize x = ShareNamespace L x) \<and> (\<forall>x \<in> set (FlattenedODS eds). NamespaceErr L (ShareNamespace L x) = None)
     \<and> (\<exists>m. FlattenedODS eds = filled L eds @ replicate m (TailPaddingShare L))"

lemma block_okD:
  assumes "block_ok L nsSize roots hash eds"
  shows "lib_ok L" "share_ok L" "eds_ok L eds" "Width eds < 2 ^ 16" "ShareSize L < 2 ^ 16" "length hash = 32" "0 < ShareSize L"
  using assms share_okD(1) by (auto simp: block_ok_def lib_ok_def DataHashSize_def)

section \<open>Headers\<close>

lemma header_roundtrip:
  assumes "length (datahash h) = 32"
  shows "readHeader (writeHeader h @ rest) = (Inr h, rest)"
proof -
  let ?b = "headerV0_WriteTo h"
  have l: "length ?b = headerVOSize" using assms by (simp add: headerV0_WriteTo_def headerVOSize_def)
  have s: "slice 28 30 ?b = le_put 2 (shareSize h)" "slice 30 32 ?b = le_put 2 (squareSize h)" "slice 32 64 ?b = datahash h" "?b ! 0 = fileVersion h"
    using assms by (simp_all add: headerV0_WriteTo_def slice_def)
  have "headerV0_ReadFrom (?b @ rest) = (Inr h, rest)"
    unfolding headerV0_ReadFrom_def ReadFull_append [OF l] prod.case sum.case s by (simp add: le_get_put_full)
  then show ?thesis by (simp add: readHeader_def writeHeader_def ReadFull_def)
qed

lemma length_writeHeader: "length (datahash h) = 32 \<Longrightarrow> length (writeHeader h) = hdr_Size"
  by (simp add: writeHeader_def headerV0_WriteTo_def hdr_Size_def headerVOSize_def)

lemma cell00:
  assumes "eds_ok L eds"
  shows "length (GetCell eds 0 0) = ShareSize L"
  using eds_okD(1,2) [OF assms, of 0 AxisRow] assms shares_ok_nth [of L "eds ! 0" 0] by (auto simp: eds_ok_def eds_axis_def eds_row_def)

lemma ODS_header_sizes:
  assumes "block_ok L nsSize roots hash eds"
  shows "hdr_SquareSize (ODS_header hash eds) = Width eds" "hdr_ShareSize (ODS_header hash eds) = ShareSize L" "length (datahash (ODS_header hash eds)) = 32"
    "hdr_OffsetWithRoots (ODS_header hash eds) = length (writeHeader (ODS_header hash eds) @ writeAxisRoots roots)"
proof -
  note b = block_okD [OF assms]
  show s: "hdr_SquareSize (ODS_header hash eds) = Width eds" "hdr_ShareSize (ODS_header hash eds) = ShareSize L" "length (datahash (ODS_header hash eds)) = 32"
    using b cell00 [OF b(3)] by (simp_all add: hdr_SquareSize_def hdr_ShareSize_def ODS_header_def unat_of_nat)
  have c: "length (concat rs) = length rs * AxisRootSize" if "\<forall>r \<in> set rs. length r = AxisRootSize" for rs using that by (induction rs) auto
  have r: "length (writeAxisRoots roots) = Width eds * AxisRootSize + Width eds * AxisRootSize"
    using assms c [of "RowRoots roots"] c [of "ColumnRoots roots"] by (simp add: writeAxisRoots_def block_ok_def)
  show "hdr_OffsetWithRoots (ODS_header hash eds) = length (writeHeader (ODS_header hash eds) @ writeAxisRoots roots)"
    using length_writeHeader [OF s(3)] r s(1) by (simp add: hdr_OffsetWithRoots_def hdr_RootsSize_def)
qed

section \<open>The content of a file\<close>

lemma quadrant1_ods: "quadrant1 eds = FlattenedODS eds" if "eds_ok L eds"
proof -
  have "map (GetCell eds i) [0..<Width eds div 2] = take (Width eds div 2) (eds_row eds i)" if "i < Width eds div 2" for i
    by (rule nth_equalityI) (use eds_okD(1) [OF \<open>eds_ok L eds\<close>, of i AxisRow] that in \<open>auto simp: eds_axis_def eds_row_def\<close>)
  then show ?thesis unfolding quadrant1_def FlattenedODS_rows by (intro arg_cong [where f = concat] map_cong) auto
qed

lemma writeODS_shares_ok:
  assumes "\<forall>x \<in> set xs. take n x = ShareNamespace L x" "\<forall>x \<in> set xs. NamespaceErr L (ShareNamespace L x) = None"
  shows "writeODS_shares L n xs = Inr (concat (takeWhile (\<lambda>x. ShareNamespace L x \<noteq> TailPaddingNamespace L) xs))"
  using assms by (induction xs) auto

lemma ODS_content_ok:
  assumes "block_ok L nsSize roots hash eds"
  shows "ODS_content L nsSize roots hash eds = Inr ((writeHeader (ODS_header hash eds) @ writeAxisRoots roots) @ concat (filled L eds))"
proof -
  have "writeODS L nsSize eds = Inr (concat (filled L eds))" unfolding writeODS_def quadrant1_ods [OF block_okD(3) [OF assms]] filled_def
    using assms by (intro writeODS_shares_ok) (simp_all add: block_ok_def)
  then show ?thesis by (simp add: ODS_content_def writeODSFile_def)
qed

lemma FlattenedODS_shares:
  assumes "eds_ok L eds"
  shows "shares_ok L (FlattenedODS eds)" "length (FlattenedODS eds) = Width eds div 2 * (Width eds div 2)"
proof -
  have r: "shares_ok L (eds_row eds i)" "length (eds_row eds i) = Width eds" if "i < Width eds div 2" for i
    using eds_okD(1,2) [OF assms, of i AxisRow] that by (simp_all add: eds_axis_def)
  show "shares_ok L (FlattenedODS eds)" unfolding FlattenedODS_rows shares_ok_def
    using r(1) by (auto simp: shares_ok_def dest: in_set_takeD)
  have "length (concat (map (\<lambda>i. take (Width eds div 2) (eds_row eds i)) [0..<n])) = n * (Width eds div 2)" if "n \<le> Width eds div 2" for n
    using that r(2) by (induction n) auto
  then show "length (FlattenedODS eds) = Width eds div 2 * (Width eds div 2)" by (simp add: FlattenedODS_rows)
qed

lemma filled_shares: "eds_ok L eds \<Longrightarrow> shares_ok L (filled L eds)"
  using FlattenedODS_shares(1) [of L eds] by (rule shares_ok_sub) (auto simp: filled_def dest: set_takeWhileD)

section \<open>Reading half axes\<close>

text \<open>A file that holds the shares \<open>ys\<close> from an offset on, the rest of the \<open>k\<close> times \<open>k\<close> shares being padding.\<close>

lemma drop_all: "drop off c = concat ys \<Longrightarrow> shares_ok L ys \<Longrightarrow> drop (off + i * ShareSize L) c = concat (drop i ys)"
  by (metis drop_concat_shares drop_drop add.commute)

lemma row_share_ok:
  assumes L: "share_ok L" and ys: "shares_ok L ys" and n: "n = length ys" and that: "i < n + m"
  shows "row_share L (ShareSize L) (length (concat ys) div ShareSize L) (concat ys) i = Inr ((ys @ replicate m (TailPaddingShare L)) ! i)"
proof -
  have d: "length (concat ys) div ShareSize L = n" using length_concat_shares [OF ys] share_okD(1) [OF L] n by simp
  show ?thesis
  proof (cases "i < n")
    case True
    then show ?thesis using d n slice_concat_shares [OF ys, of i] NewShare_ok [OF L shares_ok_nth [OF ys, of i]] by (simp add: row_share_def Let_def nth_append)
  next
    case False
    then show ?thesis using d n that by (simp add: row_share_def nth_append)
  qed
qed

lemma slice_padded:
  assumes "a \<le> b" "b \<le> length ys + m"
  shows "slice a b (ys @ replicate m x) = slice a b ys @ replicate (b - a - length (slice a b ys)) x"
proof -
  consider "b \<le> length ys" | "a \<le> length ys" "length ys < b" | "length ys < a" by linarith
  then show ?thesis using assms by cases (auto simp: slice_def take_replicate)
qed

lemma readRowHalf_ok:
  assumes L: "share_ok L" and h: "hdr_SquareSize h div 2 = k" "hdr_ShareSize h = ShareSize L"
    and c: "drop off c = concat ys" "shares_ok L ys" and all: "length ys + m = k * k" and i: "i < k"
  shows "readRowHalf L (file_ReadAt c) i h off = Inr (slice (i * k) ((i + 1) * k) (ys @ replicate m (TailPaddingShare L)))"
proof -
  let ?all = "ys @ replicate m (TailPaddingShare L)" and ?zs = "slice (i * k) ((i + 1) * k) ys"
  have ki: "(i + 1) * k \<le> k * k" using i by (intro mult_right_mono) auto
  have zs: "shares_ok L ?zs" using c(2) set_slice by (rule shares_ok_sub)
  have read: "take (k * ShareSize L) (drop (off + i * k * ShareSize L) c) = concat ?zs"
    using drop_all [OF c, of "i * k"] take_concat_shares [OF shares_ok_drop [OF c(2)], of k "i * k"] by (simp add: slice_def)
  let ?m = "k - length ?zs"
  have lz: "length ?zs \<le> k" by (simp add: slice_def)
  have sl: "slice (i * k) ((i + 1) * k) ?all = ?zs @ replicate ?m (TailPaddingShare L)" using slice_padded [of "i * k" "(i + 1) * k" ys m "TailPaddingShare L"] ki all by (simp add: mult_le_mono1)
  have "traverse (row_share L (ShareSize L) (length (concat ?zs) div ShareSize L) (concat ?zs)) [0..<k] = Inr (map (\<lambda>j. (?zs @ replicate ?m (TailPaddingShare L)) ! j) [0..<k])"
    using lz by (intro traverse_Inr row_share_ok [OF L zs refl]) auto
  also have "map (\<lambda>j. (?zs @ replicate ?m (TailPaddingShare L)) ! j) [0..<k] = ?zs @ replicate ?m (TailPaddingShare L)"
    by (rule nth_equalityI) (use lz in auto)
  finally show ?thesis using read sl share_okD(1) [OF L] h by (auto simp: readRowHalf_def file_ReadAt_def Let_def split: if_splits)
qed

lemma read_col_shares_ok:
  assumes L: "share_ok L" and h: "hdr_SquareSize h div 2 = k" "hdr_ShareSize h = ShareSize L"
    and c: "drop off c = concat ys" "shares_ok L ys" and all: "length ys + m = k * k" and j: "j < k" "a \<le> k"
  shows "read_col_shares L (file_ReadAt c) j h off [a..<k] = Inr (map (\<lambda>i. (ys @ replicate m (TailPaddingShare L)) ! (j + i * k)) [a..<k])"
  using j(2)
proof (induction "k - a" arbitrary: a)
  case (Suc d)
  have a: "a < k" using Suc.hyps(2) by simp
  have u: "[a..<k] = a # [Suc a..<k]" using a by (simp add: upt_conv_Cons)
  let ?p = "j + a * k"
  have p: "?p < k * k" using a j(1) by (metis add.commute add_less_mono1 Suc_leI less_le_trans mult_Suc mult_le_mono1)
  have r: "take (ShareSize L) (drop (off + ?p * ShareSize L) c) = (if ?p < length ys then ys ! ?p else [])"
    using drop_all [OF c, of ?p] c(2) by (auto simp: Cons_nth_drop_Suc [symmetric] shares_ok_nth)
  have rd: "file_ReadAt c (off + ?p * ShareSize L) (ShareSize L) = (if ?p < length ys then (ys ! ?p, None) else ([], Some AtEOF))"
    unfolding file_ReadAt_def Let_def r using shares_ok_nth [OF c(2), of ?p] share_okD(1) [OF L] by simp
  show ?case
  proof (cases "?p < length ys")
    case True
    note s = shares_ok_nth [OF c(2) True]
    have ih: "read_col_shares L (file_ReadAt c) j h off [Suc a..<k] = Inr (map (\<lambda>i. (ys @ replicate m (TailPaddingShare L)) ! (j + i * k)) [Suc a..<k])"
      using Suc a by (intro Suc.hyps(1)) auto
    have "ys ! ?p \<noteq> []" using s share_okD(1) [OF L] by auto
    then show ?thesis unfolding u using True rd s ih NewShare_ok [OF L s] h by (simp add: Let_def nth_append)
  next
    case False
    have "(ys @ replicate m (TailPaddingShare L)) ! (j + i * k) = TailPaddingShare L" if "a \<le> i" "i < k" for i
    proof -
      have "?p \<le> j + i * k" "j + i * k < k * k" using that j(1) mult_le_mono1 [OF that(1), of k] mult_le_mono1 [of "Suc i" k k] by auto
      then have "\<not> j + i * k < length ys" "j + i * k - length ys < m" using False all by linarith+
      then show ?thesis by (simp add: nth_append)
    qed
    then have "map (\<lambda>i. (ys @ replicate m (TailPaddingShare L)) ! (j + i * k)) [a..<k] = replicate (k - a) (TailPaddingShare L)"
      by (intro nth_equalityI) auto
    moreover have "read_col_shares L (file_ReadAt c) j h off (a # [Suc a..<k]) = Inr (replicate (Suc (k - Suc a)) (TailPaddingShare L))"
      using False rd h by (simp add: Let_def)
    moreover have "Suc (k - Suc a) = k - a" using a by simp
    ultimately show ?thesis using u by (simp only:)
  qed
qed simp

text \<open>Half axes of a square read from a file with its first or fourth quadrant.\<close>

lemma readAxisHalf_ok:
  assumes L: "share_ok L" and h: "hdr_SquareSize h div 2 = k" "hdr_ShareSize h = ShareSize L"
    and c: "drop off c = concat ys" "shares_ok L ys" and all: "length ys + m = k * k" "i < k" and ax: "ax = AxisRow \<or> ax = AxisCol"
    and cell: "\<And>a b. a < k \<Longrightarrow> b < k \<Longrightarrow> (ys @ replicate m (TailPaddingShare L)) ! (a * k + b) = f a b"
  shows "readAxisHalf L (file_ReadAt c) ax i h off = Inr (map (\<lambda>j. if ax = AxisRow then f i j else f j i) [0..<k])"
proof -
  let ?all = "ys @ replicate m (TailPaddingShare L)"
  have ik: "(i + 1) * k \<le> k * k" using all(2) by (intro mult_right_mono) auto
  then have "slice (i * k) ((i + 1) * k) ?all = map (\<lambda>j. f i j) [0..<k]" using all cell
    by (intro nth_equalityI) (auto simp: nth_slice)
  moreover have "map (\<lambda>j. ?all ! (i + j * k)) [0..<k] = map (\<lambda>j. f j i) [0..<k]" using all(2) cell by (simp add: add.commute)
  ultimately show ?thesis using ax readRowHalf_ok [OF L h c all] read_col_shares_ok [OF L h c all, of 0] h
    by (auto simp: readAxisHalf_def readColHalf_def)
qed

section \<open>The accessor\<close>

text \<open>A file opened on the content written for a block, with the square in memory or not; and the pair of files, of which the
  second may be missing.\<close>

definition ODS_valid :: "square_lib \<Rightarrow> AxisRoots \<Rightarrow> byte list \<Rightarrow> eds \<Rightarrow> ODS \<Rightarrow> bool" where
  "ODS_valid L roots hash eds f \<longleftrightarrow> hdr f = ODS_header hash eds
     \<and> fl f = (writeHeader (ODS_header hash eds) @ writeAxisRoots roots) @ concat (filled L eds) \<and> (ods f = None \<or> ods f = Some (ods_of eds))"

definition ODSQ4_valid :: "square_lib \<Rightarrow> AxisRoots \<Rightarrow> byte list \<Rightarrow> eds \<Rightarrow> ODSQ4 \<Rightarrow> bool" where
  "ODSQ4_valid L roots hash eds o4 \<longleftrightarrow> ODS_valid L roots hash eds (oq_ods o4) \<and> (pathQ4 o4 = None \<or> pathQ4 o4 = Some (writeQ4 eds))
     \<and> (\<forall>q. oq_q4 o4 = Some q \<longrightarrow> q = \<lparr>q4_hdr = ODS_header hash eds, q4_file = writeQ4 eds\<rparr>)"

lemma OpenODS_ok:
  assumes "block_ok L nsSize roots hash eds" "ODS_content L nsSize roots hash eds = Inr content"
  shows "\<exists>f. OpenODS content = Inr f \<and> ODS_valid L roots hash eds f"
proof -
  have c: "content = (writeHeader (ODS_header hash eds) @ writeAxisRoots roots) @ concat (filled L eds)" using assms ODS_content_ok by auto
  then have "fst (readHeader content) = Inr (ODS_header hash eds)" using header_roundtrip ODS_header_sizes(3) [OF assms(1)] by simp
  then show ?thesis using c by (auto simp: OpenODS_def ODS_valid_def)
qed

lemma ODS_valid_size: "block_ok L nsSize roots hash eds \<Longrightarrow> ODS_valid L roots hash eds f \<Longrightarrow> ODS_size f = Width eds"
  using ODS_header_sizes(1) by (simp add: ODS_size_def ODS_valid_def hdr_SquareSize_def)

lemma ODS_valid_drop:
  assumes "block_ok L nsSize roots hash eds" "ODS_valid L roots hash eds f"
  shows "drop (hdr_OffsetWithRoots (hdr f)) (fl f) = concat (filled L eds)"
  using assms ODS_header_sizes(4) [OF assms(1)] by (simp add: ODS_valid_def)

lemma filled_length:
  assumes "block_ok L nsSize roots hash eds"
  obtains m where "FlattenedODS eds = filled L eds @ replicate m (TailPaddingShare L)" "length (filled L eds) + m = (Width eds div 2) * (Width eds div 2)"
proof -
  obtain m where m: "FlattenedODS eds = filled L eds @ replicate m (TailPaddingShare L)" using assms by (auto simp: block_ok_def)
  have "length (FlattenedODS eds) = length (filled L eds) + m" using arg_cong [OF m, of length] by simp
  then show thesis using that m FlattenedODS_shares(2) [OF block_okD(3) [OF assms]] by simp
qed

lemma ods_cell:
  assumes "eds_ok L eds" "a < Width eds div 2" "b < Width eds div 2"
  shows "FlattenedODS eds ! (a * (Width eds div 2) + b) = GetCell eds a b"
proof -
  let ?k = "Width eds div 2"
  have len: "length (FlattenedODS eds) = ?k * ?k" by (rule FlattenedODS_shares(2) [OF assms(1)])
  have i: "a * ?k + Suc b \<le> ?k * ?k" using assms(2,3) mult_le_mono1 [of "Suc a" ?k ?k] by simp
  have "slice (a * ?k + b) (a * ?k + Suc b) (FlattenedODS eds) = slice b (Suc b) (eds_row eds a)" using assms by (intro ods_slice) auto
  moreover have "length (eds_row eds a) = Width eds" using eds_okD(1) [OF assms(1), of a AxisRow] assms(2) by (simp add: eds_axis_def)
  ultimately show ?thesis using assms(3) i len by (simp add: slice_def take_Suc_conv_app_nth eds_row_def)
qed

lemma axis_take:
  assumes "eds_ok L eds" "i < Width eds" "ax = AxisRow \<or> ax = AxisCol"
  shows "map (\<lambda>j. if ax = AxisRow then GetCell eds i j else GetCell eds j i) [0..<Width eds div 2] = take (Width eds div 2) (eds_axis eds ax i)"
    "map (\<lambda>j. if ax = AxisRow then GetCell eds i (j + Width eds div 2) else GetCell eds (j + Width eds div 2) i) [0..<Width eds div 2] = drop (Width eds div 2) (eds_axis eds ax i)"
proof -
  obtain k where k: "Width eds = 2 * k" "0 < k" "Width eds div 2 = k" using eds_half [OF assms(1)] .
  show "map (\<lambda>j. if ax = AxisRow then GetCell eds i j else GetCell eds j i) [0..<Width eds div 2] = take (Width eds div 2) (eds_axis eds ax i)"
    by (rule nth_equalityI) (use k eds_okD(1) [OF assms] eds_axis_nth [OF assms(2) _ assms(3)] in auto)
  show "map (\<lambda>j. if ax = AxisRow then GetCell eds i (j + Width eds div 2) else GetCell eds (j + Width eds div 2) i) [0..<Width eds div 2] = drop (Width eds div 2) (eds_axis eds ax i)"
    by (rule nth_equalityI) (use k eds_okD(1) [OF assms] eds_axis_nth [OF assms(2) _ assms(3)] in \<open>auto simp: add.commute\<close>)
qed

lemma ODS_readAxisHalf_ok:
  assumes b: "block_ok L nsSize roots hash eds" and f: "ODS_valid L roots hash eds f" and i: "i < Width eds div 2" and ax: "ax = AxisRow \<or> ax = AxisCol"
  shows "ODS_readAxisHalf L f ax i = Inr \<lparr>Shares = take (Width eds div 2) (eds_axis eds ax i), IsParity = False\<rparr>"
proof (cases "ods f")
  case None
  note d = block_okD [OF b] and h = ODS_header_sizes [OF b]
  obtain m where m: "FlattenedODS eds = filled L eds @ replicate m (TailPaddingShare L)" "length (filled L eds) + m = (Width eds div 2) * (Width eds div 2)"
    using filled_length [OF b] .
  have hd: "hdr f = ODS_header hash eds" using f by (simp add: ODS_valid_def)
  have iw: "i < Width eds" using i by simp
  have "readAxisHalf L (file_ReadAt (fl f)) ax i (hdr f) (hdr_OffsetWithRoots (hdr f)) = Inr (map (\<lambda>j. if ax = AxisRow then GetCell eds i j else GetCell eds j i) [0..<Width eds div 2])"
    using h hd ods_cell [OF d(3)] m(1) i by (intro readAxisHalf_ok [OF d(2) _ _ ODS_valid_drop [OF b f] filled_shares [OF d(3)] m(2) _ ax]) auto
  then show ?thesis using None axis_take(1) [OF d(3) iw ax] by (simp add: ODS_readAxisHalf_def)
next
  case (Some s)
  then have "s = ods_of eds" using f by (auto simp: ODS_valid_def)
  then show ?thesis using Some ods_axisHalf [OF block_okD(3) [OF b] i ax] by (simp add: ODS_readAxisHalf_def)
qed

lemma ods_of_slices:
  assumes "eds_ok L eds"
  shows "map (\<lambda>i. slice (i * (Width eds div 2)) ((i + 1) * (Width eds div 2)) (FlattenedODS eds)) [0..<Width eds div 2] = ods_of eds"
proof (rule nth_equalityI)
  let ?k = "Width eds div 2"
  fix i assume "i < length (map (\<lambda>i. slice (i * ?k) ((i + 1) * ?k) (FlattenedODS eds)) [0..<?k])"
  then have i: "i < ?k" by simp
  show "map (\<lambda>i. slice (i * ?k) ((i + 1) * ?k) (FlattenedODS eds)) [0..<?k] ! i = ods_of eds ! i"
    using ods_slice [OF assms i order_refl, of 0] i by (simp add: ods_of_def slice_def eds_row_def add.commute)
qed (simp add: ods_of_def)

lemma readODS_ok:
  assumes b: "block_ok L nsSize roots hash eds" and f: "ODS_valid L roots hash eds f"
  shows "\<exists>f1. readODS L f = (Inr (ods_of eds), f1) \<and> ODS_valid L roots hash eds f1 \<and> disableCache f1 = disableCache f"
proof -
  note d = block_okD [OF b] and h = ODS_header_sizes [OF b]
  let ?k = "Width eds div 2"
  obtain m where m: "FlattenedODS eds = filled L eds @ replicate m (TailPaddingShare L)" "length (filled L eds) + m = ?k * ?k" using filled_length [OF b] .
  have hd: "hdr f = ODS_header hash eds" using f by (simp add: ODS_valid_def)
  have l: "length (concat (filled L eds)) \<le> ShareSize L * ?k * ?k"
    using length_concat_shares [OF filled_shares [OF d(3)]] m(2) mult_le_mono2 [of "length (filled L eds)" "?k * ?k" "ShareSize L"] by (simp add: ac_simps)
  have "ReadShares L (concat (filled L eds)) (ShareSize L) ?k = Inr (FlattenedODS eds)"
    using ReadShares_ok [OF d(2) filled_shares [OF d(3)], of ?k "[]"] m by simp
  then have "readSquare L (take (hdr_ShareSize (hdr f) * (hdr_SquareSize (hdr f) div 2) * (hdr_SquareSize (hdr f) div 2)) (drop (hdr_OffsetWithRoots (hdr f)) (fl f))) (hdr_ShareSize (hdr f)) (ODS_size f) = Inr (ods_of eds)"
    using ods_of_slices [OF d(3)] ODS_valid_size [OF b f] l h(1,2) hd unfolding ODS_valid_drop [OF b f] by (simp add: readSquare_def Let_def)
  then show ?thesis using f by (auto simp: readODS_def Let_def ODS_valid_def)
qed

text \<open>Every accessor gives half of the axis, and all of the axis follows from it.\<close>

definition half_of :: "eds \<Rightarrow> axis \<Rightarrow> nat \<Rightarrow> AxisHalf \<Rightarrow> bool" where
  "half_of eds ax i half \<longleftrightarrow> half = \<lparr>Shares = take (Width eds div 2) (eds_axis eds ax i), IsParity = False\<rparr>
     \<or> half = \<lparr>Shares = drop (Width eds div 2) (eds_axis eds ax i), IsParity = True\<rparr>"

lemma half_Extended:
  assumes "lib_ok L" "eds_ok L eds" "i < Width eds" "ax = AxisRow \<or> ax = AxisCol" "half_of eds ax i half"
  shows "Extended L half = Inr (eds_axis eds ax i)"
proof -
  obtain k where k: "Width eds = 2 * k" "0 < k" "Width eds div 2 = k" using eds_half [OF assms(2)] .
  note e = eds_okD [OF assms(2-4)]
  show ?thesis using Extended_half [OF assms(1) e(3,2), of k] e(1) k assms(5) by (auto simp: half_of_def)
qed

lemma ODS_AxisHalf_ok:
  assumes b: "block_ok L nsSize roots hash eds" and f: "ODS_valid L roots hash eds f" and c: "codec_cache_ok cache" and i: "i < Width eds" "ax = AxisRow \<or> ax = AxisCol"
  shows "\<exists>half f1. ODS_AxisHalf L cache f ax i = (Inr half, f1) \<and> half_of eds ax i half \<and> ODS_valid L roots hash eds f1"
proof (cases "i < Width eds div 2")
  case True
  then show ?thesis using ODS_readAxisHalf_ok [OF b f True i(2)] f ODS_valid_size [OF b f] by (simp add: ODS_AxisHalf_def half_of_def)
next
  case False
  note d = block_okD [OF b]
  obtain f1 where "readODS L f = (Inr (ods_of eds), f1)" "ODS_valid L roots hash eds f1" using readODS_ok [OF b f] by blast
  then show ?thesis using False ODS_valid_size [OF b f] computeAxisHalf_ok [OF d(1,3) c i] by (simp add: ODS_AxisHalf_def half_of_def)
qed

lemma q4_cell:
  assumes "a < Width eds div 2" "b < Width eds div 2"
  shows "concat (map (\<lambda>i. map (\<lambda>j. GetCell eds (i + Width eds div 2) (j + Width eds div 2)) [0..<Width eds div 2]) [0..<Width eds div 2]) ! (a * (Width eds div 2) + b)
    = GetCell eds (a + Width eds div 2) (b + Width eds div 2)"
proof -
  let ?k = "Width eds div 2" and ?f = "\<lambda>i. map (\<lambda>j. GetCell eds (i + Width eds div 2) (j + Width eds div 2)) [0..<Width eds div 2]"
  have len: "length (concat (map ?f [0..<n])) = n * ?k" for n by (induction n) auto
  have "concat (map ?f [0..<n]) ! (a * ?k + b) = ?f a ! b" if "a < n" for n using that
  proof (induction n)
    case (Suc n)
    show ?case
    proof (cases "a < n")
      case True
      have "a * ?k + b < n * ?k" using True assms(2) mult_le_mono1 [of "Suc a" n ?k] by simp
      then show ?thesis using Suc.IH [OF True] len [of n] by (simp add: nth_append)
    next
      case False
      then have "a = n" using Suc.prems by simp
      then show ?thesis using len [of n] assms(2) by (simp add: nth_append)
    qed
  qed simp
  then show ?thesis using assms by simp
qed

lemma q4_axisHalf_ok:
  assumes b: "block_ok L nsSize roots hash eds" and i: "Width eds div 2 \<le> i" "i < Width eds" and ax: "ax = AxisRow \<or> ax = AxisCol"
  shows "q4_axisHalf L \<lparr>q4_hdr = ODS_header hash eds, q4_file = writeQ4 eds\<rparr> ax i = Inr \<lparr>Shares = drop (Width eds div 2) (eds_axis eds ax i), IsParity = True\<rparr>"
proof -
  note d = block_okD [OF b] and h = ODS_header_sizes [OF b]
  let ?k = "Width eds div 2"
  obtain k where k: "Width eds = 2 * k" "0 < k" "?k = k" using eds_half [OF d(3)] .
  let ?ys = "concat (map (\<lambda>i. map (\<lambda>j. GetCell eds (i + ?k) (j + ?k)) [0..<?k]) [0..<?k])"
  have cells: "length (GetCell eds a b) = ShareSize L" if "a < Width eds" "b < Width eds" for a b
    using eds_okD(1,2) [OF d(3) that(1), of AxisRow] that(2) shares_ok_nth [of L "eds_row eds a" b] by (simp add: eds_axis_def eds_row_def)
  have ys: "shares_ok L ?ys" unfolding shares_ok_def using cells k by auto
  have len: "length (concat (map (\<lambda>i. map (\<lambda>j. GetCell eds (i + ?k) (j + ?k)) [0..<?k]) [0..<n])) = n * ?k" for n by (induction n) auto
  have "readAxisHalf L (file_ReadAt (writeQ4 eds)) ax (i - ?k) (ODS_header hash eds) 0
      = Inr (map (\<lambda>j. if ax = AxisRow then GetCell eds (i - ?k + ?k) (j + ?k) else GetCell eds (j + ?k) (i - ?k + ?k)) [0..<?k])"
    using h i k q4_cell [of _ eds] len [of ?k] by (intro readAxisHalf_ok [OF d(2) _ _ _ ys, of _ _ _ _ 0 _ _ "\<lambda>a b. GetCell eds (a + ?k) (b + ?k)"] ax) (auto simp: writeQ4_def Let_def)
  then have "readAxisHalf L (file_ReadAt (writeQ4 eds)) ax (i - ?k) (ODS_header hash eds) 0 = Inr (drop ?k (eds_axis eds ax i))"
    unfolding le_add_diff_inverse2 [OF i(1)] axis_take(2) [OF d(3) i(2) ax] .
  then show ?thesis using h(1) i(1) by (simp add: q4_axisHalf_def Let_def)
qed

lemma ODSQ4_AxisHalf_ok:
  assumes b: "block_ok L nsSize roots hash eds" and o4: "ODSQ4_valid L roots hash eds o4" and c: "codec_cache_ok cache" and i: "i < Width eds" "ax = AxisRow \<or> ax = AxisCol"
  shows "\<exists>half o41. ODSQ4_AxisHalf L cache o4 ax i = (Inr half, o41) \<and> half_of eds ax i half \<and> ODSQ4_valid L roots hash eds o41"
proof -
  have f: "ODS_valid L roots hash eds (oq_ods o4)" using o4 by (simp add: ODSQ4_valid_def)
  have hd: "hdr (oq_ods o4) = ODS_header hash eds" using f by (simp add: ODS_valid_def)
  obtain half f1 where r: "ODS_AxisHalf L cache (oq_ods o4) ax i = (Inr half, f1)" "half_of eds ax i half" "ODS_valid L roots hash eds f1"
    using ODS_AxisHalf_ok [OF b f c i] by blast
  obtain q o41 where t: "tryLoadQ4 o4 = (q, o41)" by fastforce
  have v: "ODSQ4_valid L roots hash eds o41" "oq_ods o41 = oq_ods o4" "\<And>q'. q = Some q' \<Longrightarrow> q' = \<lparr>q4_hdr = ODS_header hash eds, q4_file = writeQ4 eds\<rparr>"
    using t o4 hd by (auto simp: tryLoadQ4_def openQ4_def ODSQ4_valid_def Let_def split: if_splits)
  have inner: "ODSQ4_valid L roots hash eds (o4\<lparr>oq_ods := f1\<rparr>)" "ODSQ4_valid L roots hash eds (o41\<lparr>oq_ods := f1\<rparr>)" using o4 v(1) r(3) by (auto simp: ODSQ4_valid_def)
  note sz = ODS_valid_size [OF b f]
  consider "i < Width eds div 2" | "Width eds div 2 \<le> i" "q = None" | q' where "Width eds div 2 \<le> i" "q = Some q'" by fastforce
  then show ?thesis
  proof cases
    case 1
    then show ?thesis unfolding ODSQ4_AxisHalf_def Let_def sz using r inner(1) by simp
  next
    case 2
    then show ?thesis unfolding ODSQ4_AxisHalf_def Let_def sz t using r v(2) inner(2) by simp
  next
    case 3
    then show ?thesis unfolding ODSQ4_AxisHalf_def Let_def sz t half_of_def using v(1) v(3) [OF 3(2)] q4_axisHalf_ok [OF b 3(1) i] by simp
  qed
qed

section \<open>Sizes\<close>

lemma takeWhile_filter_parts:
  assumes "takeWhile P (a @ b) = filter P (a @ b)"
  shows "takeWhile P a = filter P a" "takeWhile P b = filter P b"
proof -
  have "takeWhile P a = filter P a \<and> takeWhile P b = filter P b" using assms
  proof (induction a)
    case (Cons x a)
    show ?case
    proof (cases "P x")
      case False
      then have n: "\<forall>y \<in> set (a @ b). \<not> P y" using Cons.prems by (auto simp: filter_empty_conv dest: sym)
      then have "takeWhile P b = []" by (cases b) auto
      then show ?thesis using False n by auto
    qed (use Cons in auto)
  qed simp
  then show "takeWhile P a = filter P a" "takeWhile P b = filter P b" by auto
qed

lemma takeWhile_concat:
  "takeWhile P (concat xss) = filter P (concat xss) \<Longrightarrow> sum_list (map (\<lambda>xs. length (takeWhile P xs)) xss) = length (takeWhile P (concat xss))"
proof (induction xss)
  case (Cons xs xss)
  then show ?case using takeWhile_filter_parts [of P xs "concat xss"] by simp
qed simp

lemma filled_row_ok:
  "share_ok L \<Longrightarrow> shares_ok L xs \<Longrightarrow> filled_row L xs = Inr (length (takeWhile (\<lambda>x. ShareNamespace L x \<noteq> TailPaddingNamespace L) xs))"
  by (induction xs) (auto simp: NewShare_ok)

lemma filledSharesAmount_ok:
  assumes b: "block_ok L nsSize roots hash eds" and pad: "ShareNamespace L (TailPaddingShare L) = TailPaddingNamespace L"
  shows "filledSharesAmount L eds = Inr (length (filled L eds))"
proof -
  note d = block_okD [OF b]
  let ?k = "Width eds div 2" and ?P = "\<lambda>x. ShareNamespace L x \<noteq> TailPaddingNamespace L"
  let ?rows = "map (\<lambda>i. map (GetCell eds i) [0..<?k]) [0..<?k]"
  obtain m where m: "FlattenedODS eds = filled L eds @ replicate m (TailPaddingShare L)" using filled_length [OF b] .
  have q: "concat ?rows = FlattenedODS eds" using quadrant1_ods [OF d(3)] by (simp add: quadrant1_def)
  have "filter ?P (filled L eds) = filled L eds" unfolding filled_def by (simp add: filter_id_conv) (use set_takeWhileD in fastforce)
  then have tf: "takeWhile ?P (FlattenedODS eds) = filter ?P (FlattenedODS eds)" using pad arg_cong [OF m, of "filter ?P"] by (simp add: filled_def)
  have rows: "shares_ok L (map (GetCell eds i) [0..<?k])" if "i < ?k" for i
    using FlattenedODS_shares(1) [OF d(3)] that unfolding q [symmetric] shares_ok_def by simp
  have "traverse (\<lambda>i. filled_row L (map (GetCell eds i) [0..<?k])) [0..<?k] = Inr (map (\<lambda>i. length (takeWhile ?P (map (GetCell eds i) [0..<?k]))) [0..<?k])"
    using filled_row_ok [OF d(2) rows] by (intro traverse_Inr) auto
  moreover have "sum_list (map (\<lambda>i. length (takeWhile ?P (map (GetCell eds i) [0..<?k]))) [0..<?k]) = length (filled L eds)"
    using takeWhile_concat [of ?P ?rows] tf q by (simp add: comp_def filled_def)
  ultimately show ?thesis by (simp add: filledSharesAmount_def)
qed

text \<open>A file cut short is told apart from a complete one.\<close>

lemma readHeader_cut:
  assumes "length (datahash h) = 32"
  shows "readHeader (take n (writeHeader h @ rest)) = (if hdr_Size \<le> n then (Inr h, take (n - hdr_Size) rest) else (Inl (if n = 0 then ''readHeader'' else ''headerV0 ReadFrom''), []))"
proof (cases "hdr_Size \<le> n")
  case True
  then show ?thesis using length_writeHeader [OF assms] header_roundtrip [OF assms] by simp
next
  case False
  let ?b = "headerV0_WriteTo h"
  have l: "length ?b = headerVOSize" using assms by (simp add: headerV0_WriteTo_def headerVOSize_def)
  show ?thesis
  proof (cases n)
    case 0
    then show ?thesis using False by (simp add: readHeader_def ReadFull_def)
  next
    case (Suc k)
    then have k: "k < headerVOSize" using False by (simp add: hdr_Size_def)
    then have "ReadFull (take k ?b) headerVOSize = (k, Inl (if k = 0 then EOF else ErrUnexpectedEOF), [])" using l by (auto simp: ReadFull_def)
    then have "headerV0_ReadFrom (take k ?b) = (Inl ''headerV0 ReadFrom'', [])" by (simp add: headerV0_ReadFrom_def)
    then show ?thesis using False Suc k l by (simp add: readHeader_def writeHeader_def ReadFull_def)
  qed
qed

lemma ValidateODSSize_cut:
  assumes b: "block_ok L nsSize roots hash eds" and pad: "ShareNamespace L (TailPaddingShare L) = TailPaddingNamespace L"
    and c: "ODS_content L nsSize roots hash eds = Inr content"
  shows "ValidateODSSize L (take n content) eds = None \<longleftrightarrow> length content \<le> n"
proof -
  note d = block_okD [OF b] and h = ODS_header_sizes [OF b]
  have ct: "content = writeHeader (ODS_header hash eds) @ writeAxisRoots roots @ concat (filled L eds)" using c ODS_content_ok [OF b] by simp
  have len: "length content = hdr_OffsetWithRoots (ODS_header hash eds) + length (filled L eds) * length (GetCell eds 0 0)"
    unfolding ct using h(4) length_concat_shares [OF filled_shares [OF d(3)]] cell00 [OF d(3)] by simp
  have hs: "hdr_Size \<le> length content" using len by (simp add: hdr_OffsetWithRoots_def)
  have "fst (readHeader (take n content)) = (if hdr_Size \<le> n then Inr (ODS_header hash eds) else Inl (if n = 0 then ''readHeader'' else ''headerV0 ReadFrom''))"
    unfolding ct readHeader_cut [OF h(3)] by simp
  then show ?thesis using hs len filledSharesAmount_ok [OF b pad] by (auto simp: ValidateODSSize_def)
qed

section \<open>Roots and samples\<close>

lemma ODS_AxisRoots_ok:
  assumes b: "block_ok L nsSize roots hash eds" and f: "ODS_valid L roots hash eds f"
  shows "ODS_AxisRoots f = Inr roots"
proof -
  note h = ODS_header_sizes [OF b] and n = ODS_valid_size [OF b f]
  let ?n = "Width eds" and ?all = "RowRoots roots @ ColumnRoots roots"
  have hd: "hdr f = ODS_header hash eds" "fl f = writeHeader (ODS_header hash eds) @ writeAxisRoots roots @ concat (filled L eds)" using f by (simp_all add: ODS_valid_def)
  have l: "length (RowRoots roots) = ?n" "length (ColumnRoots roots) = ?n" "\<forall>r \<in> set ?all. length r = AxisRootSize" using b by (auto simp: block_ok_def)
  have w: "writeAxisRoots roots = concat ?all" by (simp add: writeAxisRoots_def)
  have len: "length (writeAxisRoots roots) = hdr_RootsSize (hdr f)"
    using h(4) length_writeHeader [OF h(3)] hd(1) by (simp add: hdr_OffsetWithRoots_def)
  have s: "slice (i * AxisRootSize) ((i + 1) * AxisRootSize) (concat xs) = xs ! i" if "\<forall>r \<in> set xs. length r = AxisRootSize" "i < length xs" for i xs
    using that
  proof (induction xs arbitrary: i)
    case (Cons x xs)
    then show ?case by (cases i) (simp_all add: slice_def)
  qed simp
  have "map (\<lambda>i. slice (i * AxisRootSize) ((i + 1) * AxisRootSize) (concat ?all)) [0..<?n] = RowRoots roots"
    by (rule nth_equalityI) (use l s [OF l(3)] in \<open>simp_all add: nth_append\<close>)
  moreover have "map (\<lambda>i. slice ((?n + i) * AxisRootSize) ((?n + i + 1) * AxisRootSize) (concat ?all)) [0..<?n] = ColumnRoots roots"
    by (rule nth_equalityI) (use l s [OF l(3)] in \<open>simp_all add: nth_append\<close>)
  moreover have "file_ReadAt (fl f) hdr_Size (hdr_RootsSize (hdr f)) = (concat ?all, None)"
    unfolding file_ReadAt_def hd(2) w [symmetric] len [symmetric] length_writeHeader [OF h(3), symmetric] by (simp add: Let_def)
  ultimately show ?thesis using len w n by (simp add: ODS_AxisRoots_def Let_def)
qed

text \<open>Trees prove each of their leaves, under the namespace of the leaf in the first quadrant and that of parity elsewhere.\<close>

definition prove_law :: "square_lib \<Rightarrow> 'p nmt_lib \<Rightarrow> bool" where
  "prove_law L N \<longleftrightarrow> (\<forall>k ax xs r i. axis_leaves L k xs \<longrightarrow> TreeRoot N k ax xs = Inr r \<longrightarrow> i < 2 * k \<longrightarrow>
     (\<exists>p. ProveRange N k ax xs (int i) (int i + 1) = Inr p \<and> \<not> IsEmptyProof N p \<and> PStart N p = int i \<and> PEnd N p = int i + 1
        \<and> VerifyInclusion N p (if i \<ge> k \<or> ax \<ge> k then ParitySharesNamespace L else ShareNamespace L (xs ! i)) [xs ! i] r))"

lemma sample_served:
  assumes eds: "eds_ok L eds" and roots: "roots_of N eds roots" and law: "prove_law L N" and idx: "r < Width eds" "c < Width eds"
  shows "\<exists>s. SampleFromShares N (eds_row eds r) AxisRow \<lparr>Row = int r, Col = int c\<rparr> = Inr s \<and> Sample_Verify L N roots r c s = None \<and> s_Share s = GetCell eds r c"
    "\<exists>s. SampleFromShares N (eds_col eds c) AxisCol \<lparr>Row = int c, Col = int r\<rparr> = Inr s \<and> Sample_Verify L N roots r c s = None \<and> s_Share s = GetCell eds r c"
proof -
  obtain k where k: "Width eds = 2 * k" "0 < k" "Width eds div 2 = k" using eds_half [OF eds] .
  have t: "TreeRoot N k r (eds_row eds r) = Inr (RowRoots roots ! r)" "TreeRoot N k c (eds_col eds c) = Inr (ColumnRoots roots ! c)" and w: "length (RowRoots roots) = 2 * k"
    using roots idx k by (auto simp: roots_of_def)
  have len: "length (eds_row eds r) = 2 * k" "length (eds_col eds c) = 2 * k"
    using row_leaves [OF eds idx(1)] col_leaves [OF eds idx(2)] k by (simp_all add: axis_leaves_def)
  note P = law [unfolded prove_law_def, rule_format]
  have cell: "eds_row eds r ! c = GetCell eds r c" "eds_col eds c ! r = GetCell eds r c" using idx by (simp_all add: eds_row_def eds_col_def)
  show "\<exists>s. SampleFromShares N (eds_row eds r) AxisRow \<lparr>Row = int r, Col = int c\<rparr> = Inr s \<and> Sample_Verify L N roots r c s = None \<and> s_Share s = GetCell eds r c"
    using P [OF row_leaves [OF eds idx(1), unfolded k(3)] t(1), of c] idx k len cell w
    by (auto simp: SampleFromShares_def Sample_Verify_def Sample_verifyInclusion_def RootHashForCoordinates_def inclusionNamespace_def Let_def)
  show "\<exists>s. SampleFromShares N (eds_col eds c) AxisCol \<lparr>Row = int c, Col = int r\<rparr> = Inr s \<and> Sample_Verify L N roots r c s = None \<and> s_Share s = GetCell eds r c"
    using P [OF col_leaves [OF eds idx(2), unfolded k(3)] t(2), of r] idx k len cell w
    by (auto simp: SampleFromShares_def Sample_Verify_def Sample_verifyInclusion_def RootHashForCoordinates_def inclusionNamespace_def Let_def disj_commute)
qed

section \<open>Shapes\<close>

text \<open>Whatever bytes are on disk, half an axis that is read has as many shares as the header says, each of the size of a share.\<close>

definition half_shape :: "square_lib \<Rightarrow> nat \<Rightarrow> AxisHalf \<Rightarrow> bool" where
  "half_shape L k half \<longleftrightarrow> length (Shares half) = k \<and> shares_ok L (Shares half)"

definition square_shape :: "square_lib \<Rightarrow> nat \<Rightarrow> square \<Rightarrow> bool" where
  "square_shape L k s \<longleftrightarrow> length s = k \<and> (\<forall>row \<in> set s. length row = k \<and> shares_ok L row)"

definition ODS_shape :: "square_lib \<Rightarrow> ODS \<Rightarrow> bool" where
  "ODS_shape L f \<longleftrightarrow> 0 < hdr_ShareSize (hdr f) \<and> (\<forall>s. ods f = Some s \<longrightarrow> square_shape L (ODS_size f div 2) s)"

definition ODSQ4_shape :: "square_lib \<Rightarrow> ODSQ4 \<Rightarrow> bool" where
  "ODSQ4_shape L o4 \<longleftrightarrow> ODS_shape L (oq_ods o4) \<and> (\<forall>q. oq_q4 o4 = Some q \<longrightarrow> q4_hdr q = hdr (oq_ods o4))"

lemma traverse_set: "traverse f xs = Inr ys \<Longrightarrow> (\<And>x y. f x = Inr y \<Longrightarrow> P y) \<Longrightarrow> \<forall>y \<in> set ys. P y"
  by (induction xs arbitrary: ys) (auto split: sum.splits)

lemma read_col_shares_shape: "read_col_shares L r j h off is = Inr xs \<Longrightarrow> share_ok L \<Longrightarrow> length xs = length is \<and> shares_ok L xs"
proof (induction "is" arbitrary: xs)
  case (Cons i "is")
  obtain bs e where r: "r (off + (j + i * (hdr_SquareSize h div 2)) * hdr_ShareSize h) (hdr_ShareSize h) = (bs, e)" by fastforce
  note p = share_okD [OF Cons.prems(2)]
  show ?case
  proof (cases "bs = []")
    case True
    then show ?thesis using Cons.prems(1) p r by (auto simp: Let_def shares_ok_def split: option.splits read_at_error.splits)
  next
    case False
    let ?shr = "bs @ replicate (hdr_ShareSize h - length bs) 0"
    obtain ys where ys: "xs = ?shr # ys" "read_col_shares L r j h off is = Inr ys" "NewShare L ?shr = None"
      using Cons.prems(1) False r by (auto simp: Let_def split: option.splits sum.splits read_at_error.splits)
    then show ?thesis using Cons.IH [OF ys(2) Cons.prems(2)] p(2) [of ?shr] by (auto simp: shares_ok_def)
  qed
qed (simp add: shares_ok_def)

lemma readRowHalf_shape: "readRowHalf L r i h off = Inr xs \<Longrightarrow> share_ok L \<Longrightarrow> length xs = hdr_SquareSize h div 2 \<and> shares_ok L xs"
proof -
  assume a: "readRowHalf L r i h off = Inr xs" and L: "share_ok L"
  obtain d where d: "traverse (row_share L (hdr_ShareSize h) (length d div hdr_ShareSize h) d) [0..<hdr_SquareSize h div 2] = Inr xs"
    using a by (auto simp: readRowHalf_def Let_def split: prod.splits if_splits option.splits read_at_error.splits)
  have "length x = ShareSize L" if "row_share L (hdr_ShareSize h) (length d div hdr_ShareSize h) d j = Inr x" for j x
    using that share_okD [OF L] by (auto simp: row_share_def Let_def split: if_splits option.splits)
  then have "\<forall>x \<in> set xs. length x = ShareSize L" by (rule traverse_set [OF d])
  moreover have "length xs = hdr_SquareSize h div 2" using traverse_InrD [OF d] by simp
  ultimately show ?thesis by (simp add: shares_ok_def)
qed

lemma readAxisHalf_shape: "readAxisHalf L r ax i h off = Inr xs \<Longrightarrow> share_ok L \<Longrightarrow> length xs = hdr_SquareSize h div 2 \<and> shares_ok L xs"
  by (cases ax) (auto simp: readAxisHalf_def readColHalf_def dest: readRowHalf_shape read_col_shares_shape)

lemma square_axisHalf_shape:
  assumes "square_axisHalf s ax i = Inr half" "square_shape L k s"
  shows "half_shape L k half"
proof -
  have s: "length s = k" "i < k" using assms by (auto simp: square_axisHalf_def square_shape_def split: if_splits)
  have row: "length (s ! j) = k" "shares_ok L (s ! j)" if "j < k" for j using assms(2) s(1) that by (auto simp: square_shape_def)
  have "length (s ! j ! i) = ShareSize L" if "j < k" for j using row [OF that] s(2) shares_ok_nth by simp
  then show ?thesis using assms(1) row [OF s(2)] s by (auto simp: square_axisHalf_def half_shape_def shares_ok_def split: if_splits)
qed

lemma computeAxisHalf_shape: "computeAxisHalf L cache s ax i = Inr half \<Longrightarrow> share_ok L \<Longrightarrow> half_shape L (length s) half"
proof -
  assume a: "computeAxisHalf L cache s ax i = Inr half" and L: "share_ok L"
  then obtain xs where xs: "traverse (compute_share L cache s (oppositeAxis ax) i) [0..<length s] = Inr xs" "Shares half = xs"
    by (auto simp: computeAxisHalf_def split: sum.splits)
  have "length x = ShareSize L" if "compute_share L cache s (oppositeAxis ax) i j = Inr x" for j x
    using that share_okD [OF L] by (auto simp: compute_share_def Let_def split: sum.splits option.splits)
  then have "\<forall>x \<in> set xs. length x = ShareSize L" by (rule traverse_set [OF xs(1)])
  moreover have "length xs = length s" using traverse_InrD [OF xs(1)] by simp
  ultimately show ?thesis using xs(2) by (simp add: half_shape_def shares_ok_def)
qed

lemma readODS_shape:
  assumes "readODS L f = (Inr s, f1)" "share_ok L" "ODS_shape L f"
  shows "square_shape L (ODS_size f div 2) s \<and> ODS_shape L f1 \<and> hdr f1 = hdr f"
proof -
  let ?k = "ODS_size f div 2"
  have r: "square_shape L ?k s'" if rd: "readSquare L c (hdr_ShareSize (hdr f)) (ODS_size f) = Inr s'" for c s'
  proof -
    obtain sh where sh: "ReadShares L c (hdr_ShareSize (hdr f)) ?k = Inr sh" "s' = map (\<lambda>i. slice (i * ?k) ((i + 1) * ?k) sh) [0..<?k]"
      using rd by (auto simp: readSquare_def Let_def split: sum.splits)
    note p = ReadShares_shape [OF sh(1) assms(2)]
    have p: "length sh = ?k * ?k" "shares_ok L sh" using p assms(3) by (auto simp: ODS_shape_def)
    have "length (slice (i * ?k) ((i + 1) * ?k) sh) = ?k" if "i < ?k" for i
      using p(1) mult_le_mono1 [of "Suc i" ?k ?k] that by (simp add: slice_def min_def) linarith
    then show ?thesis using p(2) by (auto simp: sh(2) square_shape_def intro: shares_ok_sub [OF p(2) set_slice])
  qed
  show ?thesis using assms(1,3) r by (auto simp: readODS_def ODS_shape_def Let_def ODS_size_def split: if_splits option.splits sum.splits)
qed

lemma ODS_AxisHalf_shape:
  assumes "ODS_AxisHalf L cache f ax i = (Inr half, f1)" "share_ok L" "ODS_shape L f"
  shows "half_shape L (ODS_size f div 2) half \<and> ODS_shape L f1 \<and> hdr f1 = hdr f"
proof (cases "i < ODS_size f div 2")
  case True
  then have r: "ODS_readAxisHalf L f ax i = Inr half" "f1 = f" using assms(1) by (auto simp: ODS_AxisHalf_def)
  have "half_shape L (ODS_size f div 2) half"
  proof (cases "ods f")
    case None
    then obtain xs where xs: "readAxisHalf L (file_ReadAt (fl f)) ax i (hdr f) (hdr_OffsetWithRoots (hdr f)) = Inr xs" "Shares half = xs"
      using r(1) by (auto simp: ODS_readAxisHalf_def split: sum.splits)
    show ?thesis using readAxisHalf_shape [OF xs(1) assms(2)] xs(2) by (simp add: half_shape_def ODS_size_def hdr_SquareSize_def)
  next
    case (Some s)
    then have "square_axisHalf s ax i = Inr half" "square_shape L (ODS_size f div 2) s" using r(1) assms(3) by (simp_all add: ODS_readAxisHalf_def ODS_shape_def)
    then show ?thesis by (rule square_axisHalf_shape)
  qed
  then show ?thesis using r(2) assms(3) by simp
next
  case False
  then obtain s where s: "readODS L f = (Inr s, f1)" "computeAxisHalf L cache s ax i = Inr half"
    using assms(1) by (auto simp: ODS_AxisHalf_def split: prod.splits sum.splits)
  then show ?thesis using readODS_shape [OF s(1) assms(2,3)] computeAxisHalf_shape [OF s(2) assms(2)] by (simp add: square_shape_def)
qed

lemma ODSQ4_AxisHalf_shape:
  assumes "ODSQ4_AxisHalf L cache o4 ax i = (Inr half, o41)" "share_ok L" "ODSQ4_shape L o4"
  shows "half_shape L (ODS_size (oq_ods o4) div 2) half \<and> ODSQ4_shape L o41"
proof -
  obtain q o42 where t: "tryLoadQ4 o4 = (q, o42)" by fastforce
  have o42: "oq_ods o42 = oq_ods o4" "ODSQ4_shape L o42" "\<And>q'. q = Some q' \<Longrightarrow> q4_hdr q' = hdr (oq_ods o4)"
    using t assms(3) by (auto simp: tryLoadQ4_def openQ4_def ODSQ4_shape_def Let_def split: if_splits)
  have inner: ?thesis if "oq_ods o' = oq_ods o4" "ODSQ4_shape L o'" "ODS_AxisHalf L cache (oq_ods o4) ax i = (Inr half, f)" "o41 = o'\<lparr>oq_ods := f\<rparr>" for o' f
  proof -
    have "ODS_shape L (oq_ods o4)" using that(1,2) by (simp add: ODSQ4_shape_def)
    then have "half_shape L (ODS_size (oq_ods o4) div 2) half" "ODS_shape L f" "hdr f = hdr (oq_ods o4)" using ODS_AxisHalf_shape [OF that(3) assms(2)] by blast+
    then show ?thesis using that(1,2,4) by (simp add: ODSQ4_shape_def)
  qed
  consider "i < ODS_size (oq_ods o4) div 2" | "ODS_size (oq_ods o4) div 2 \<le> i" "q = None" | q' where "ODS_size (oq_ods o4) div 2 \<le> i" "q = Some q'" by fastforce
  then show ?thesis
  proof cases
    case 1
    then have "(case ODS_AxisHalf L cache (oq_ods o4) ax i of (res, f) \<Rightarrow> (res, o4\<lparr>oq_ods := f\<rparr>)) = (Inr half, o41)" using assms(1) by (simp add: ODSQ4_AxisHalf_def)
    then obtain f where "ODS_AxisHalf L cache (oq_ods o4) ax i = (Inr half, f)" "o41 = o4\<lparr>oq_ods := f\<rparr>" by (auto split: prod.splits)
    then show ?thesis by (rule inner [OF refl assms(3)])
  next
    case 2
    then have "(case ODS_AxisHalf L cache (oq_ods o4) ax i of (res, f) \<Rightarrow> (res, o42\<lparr>oq_ods := f\<rparr>)) = (Inr half, o41)" using assms(1) t o42(1) by (simp add: ODSQ4_AxisHalf_def)
    then obtain f where "ODS_AxisHalf L cache (oq_ods o4) ax i = (Inr half, f)" "o41 = o42\<lparr>oq_ods := f\<rparr>" by (auto split: prod.splits)
    then show ?thesis by (rule inner [OF o42(1,2)])
  next
    case 3
    then have "(q4_axisHalf L q' ax i, o42) = (Inr half, o41)" using assms(1) t by (simp add: ODSQ4_AxisHalf_def)
    then have r: "q4_axisHalf L q' ax i = Inr half" "o41 = o42" by simp_all
    then obtain xs where xs: "readAxisHalf L (file_ReadAt (q4_file q')) ax (i - hdr_SquareSize (q4_hdr q') div 2) (q4_hdr q') 0 = Inr xs" "Shares half = xs"
      by (auto simp: q4_axisHalf_def Let_def split: if_splits sum.splits)
    show ?thesis using readAxisHalf_shape [OF xs(1) assms(2)] o42(2) o42(3) [OF 3(2)] r(2) xs(2) by (simp add: half_shape_def ODS_size_def hdr_SquareSize_def)
  qed
qed

end
