(* ===== verification/BlockFileProperties.thy ===== *)
theory BlockFileProperties
  imports BlockFileProofs
begin

text \<open>
  What the files of a block give back: the axes of the square, samples that verify, and nothing of the wrong shape; and how a
  file that was not written to its end is told from a complete one.
\<close>

section \<open>Series of reads\<close>

datatype block_read = RAxis axis nat | RSample SampleCoords | RNamespace "byte list" nat | RShares

fun block_step :: "square_lib \<Rightarrow> 'p nmt_lib \<Rightarrow> (nat, nat) fmap \<Rightarrow> block_read \<Rightarrow> ODSQ4 \<Rightarrow> ODSQ4 option" where
  "block_step L N cache (RAxis ax i) o4 = Some (snd (ODSQ4_AxisHalf L cache o4 ax i))"
| "block_step L N cache (RSample idx) o4 = Some (snd (ODSQ4_Sample L N cache o4 idx))"
| "block_step L N cache (RNamespace ns i) o4 = Some (snd (ODSQ4_RowNamespaceData L N cache o4 ns i))"
| "block_step L N cache RShares o4 = Some (snd (ODSQ4_Shares L o4))"

fun block_pre :: "nat \<Rightarrow> block_read \<Rightarrow> ODSQ4 \<Rightarrow> bool" where
  "block_pre w (RAxis ax i) o4 \<longleftrightarrow> i < w \<and> (ax = AxisRow \<or> ax = AxisCol)"
| "block_pre w (RSample idx) o4 \<longleftrightarrow> 0 \<le> Row idx \<and> Row idx < int w \<and> 0 \<le> Col idx \<and> Col idx < int w"
| "block_pre w (RNamespace ns i) o4 \<longleftrightarrow> i < w"
| "block_pre w RShares o4 \<longleftrightarrow> True"

lemma ODSQ4_row_ok:
  assumes "block_ok L nsSize roots hash eds" "ODSQ4_valid L roots hash eds o4" "codec_cache_ok cache" "i < Width eds"
  shows "\<exists>o41. ODSQ4_row L cache o4 i = (Inr (eds_row eds i), o41) \<and> ODSQ4_valid L roots hash eds o41"
proof -
  obtain half o41 where h: "ODSQ4_AxisHalf L cache o4 AxisRow i = (Inr half, o41)" "half_of eds AxisRow i half" "ODSQ4_valid L roots hash eds o41"
    using ODSQ4_AxisHalf_ok [OF assms, of AxisRow] by auto
  have "Extended L half = Inr (eds_row eds i)" using half_Extended [OF block_okD(1,3) [OF assms(1)] assms(4) _ h(2)] by (simp add: eds_axis_def)
  then show ?thesis using h by (simp add: ODSQ4_row_def)
qed

lemma ODSQ4_Shares_ok:
  assumes "block_ok L nsSize roots hash eds" "ODSQ4_valid L roots hash eds o4"
  shows "\<exists>o41. ODSQ4_Shares L o4 = (Inr (FlattenedODS eds), o41) \<and> ODSQ4_valid L roots hash eds o41"
proof -
  have v: "ODS_valid L roots hash eds (oq_ods o4)" using assms(2) by (simp add: ODSQ4_valid_def)
  obtain f1 where f: "readODS L (oq_ods o4) = (Inr (ods_of eds), f1)" "ODS_valid L roots hash eds f1" using readODS_ok [OF assms(1) v] by blast
  have "square_shares (ods_of eds) = FlattenedODS eds" unfolding square_shares_def FlattenedODS_rows
    using eds_okD(1) [OF block_okD(3) [OF assms(1)]] by (intro arg_cong [where f = concat] nth_equalityI) (auto simp: ods_of_def eds_row_def)
  then show ?thesis using f assms(2) by (auto simp: ODSQ4_Shares_def ODS_Shares_def ODSQ4_valid_def)
qed

interpretation bf: stable "block_step L N cache"
  "\<lambda>o4. block_ok L nsSize roots hash eds \<and> codec_cache_ok cache \<and> ODSQ4_valid L roots hash eds o4" "block_pre (Width eds)"
  for L N cache nsSize roots hash eds
proof unfold_locales
  fix o4 x
  assume a: "block_ok L nsSize roots hash eds \<and> codec_cache_ok cache \<and> ODSQ4_valid L roots hash eds o4" and p: "block_pre (Width eds) x o4"
  then have b: "block_ok L nsSize roots hash eds" "ODSQ4_valid L roots hash eds o4" "codec_cache_ok cache" by auto
  show "\<exists>o41. block_step L N cache x o4 = Some o41 \<and> block_ok L nsSize roots hash eds \<and> codec_cache_ok cache \<and> ODSQ4_valid L roots hash eds o41"
  proof (cases x)
    case (RAxis ax i)
    then show ?thesis using ODSQ4_AxisHalf_ok [OF b, of i ax] p b by auto
  next
    case (RSample idx)
    then have "nat (Row idx) < Width eds" using p by auto
    then show ?thesis using RSample ODSQ4_row_ok [OF b] b by (fastforce simp: ODSQ4_Sample_def)
  next
    case (RNamespace ns i)
    then show ?thesis using ODSQ4_row_ok [OF b, of i] p b by (fastforce simp: ODSQ4_RowNamespaceData_def)
  next
    case RShares
    then show ?thesis using ODSQ4_Shares_ok [OF b(1,2)] b by auto
  qed
qed

lemma after_reads:
  assumes "block_ok L nsSize roots hash eds" "codec_cache_ok cache" "ODS_content L nsSize roots hash eds = Inr content" "OpenODS content = Inr f"
    and "path = None \<or> path = Some (writeQ4 eds)" "allowed (block_pre (Width eds)) (block_step L N cache) reads (ODSWithQ4 f path)"
  shows "\<exists>o4. run_ops (block_step L N cache) reads (ODSWithQ4 f path) = Some o4 \<and> ODSQ4_valid L roots hash eds o4"
proof -
  have "ODSQ4_valid L roots hash eds (ODSWithQ4 f path)" using OpenODS_ok [OF assms(1,3)] assms(4,5) by (auto simp: ODSQ4_valid_def ODSWithQ4_def)
  then show ?thesis using bf.stays [of L nsSize roots hash eds cache _ N reads] assms(1,2,6) by blast
qed

section \<open>Properties\<close>

text \<open>The files of a block give back its square: once written and opened, with or without the file of the fourth quadrant,
  and after any series of reads, half of every row and column is read without an error and extends to the row or column.\<close>

theorem block_file_axes:
  assumes "block_ok L nsSize roots hash eds" "codec_cache_ok cache" "ODS_content L nsSize roots hash eds = Inr content" "OpenODS content = Inr f"
    and "path = None \<or> path = Some (writeQ4 eds)" "allowed (block_pre (Width eds)) (block_step L N cache) reads (ODSWithQ4 f path)"
    and "i < Width eds" "ax = AxisRow \<or> ax = AxisCol"
  shows "\<exists>o4 half o41. run_ops (block_step L N cache) reads (ODSWithQ4 f path) = Some o4
    \<and> ODSQ4_AxisHalf L cache o4 ax i = (Inr half, o41) \<and> Extended L half = Inr (eds_axis eds ax i)"
proof -
  obtain o4 where o4: "run_ops (block_step L N cache) reads (ODSWithQ4 f path) = Some o4" "ODSQ4_valid L roots hash eds o4"
    using after_reads [OF assms(1-6)] by blast
  show ?thesis using ODSQ4_AxisHalf_ok [OF assms(1) o4(2) assms(2,7,8)] half_Extended [OF block_okD(1,3) [OF assms(1)] assms(7,8)] o4(1) by blast
qed

text \<open>A node that stored a block serves samples that verify: whatever was read from the files before, the sample at a row and
  a column is the share of the square there and verifies against the roots the file holds.\<close>

theorem block_file_sample:
  assumes "block_ok L nsSize roots hash eds" "codec_cache_ok cache" "ODS_content L nsSize roots hash eds = Inr content" "OpenODS content = Inr f"
    and "path = None \<or> path = Some (writeQ4 eds)" "allowed (block_pre (Width eds)) (block_step L N cache) reads (ODSWithQ4 f path)"
    and "roots_of N eds roots" "prove_law L N" "r < Width eds" "c < Width eds"
  shows "\<exists>o4 s o41 roots'. run_ops (block_step L N cache) reads (ODSWithQ4 f path) = Some o4
    \<and> ODSQ4_Sample L N cache o4 \<lparr>Row = int r, Col = int c\<rparr> = (Inr s, o41) \<and> s_Share s = GetCell eds r c
    \<and> ODS_AxisRoots (oq_ods o4) = Inr roots' \<and> Sample_Verify L N roots' r c s = None"
proof -
  obtain o4 where o4: "run_ops (block_step L N cache) reads (ODSWithQ4 f path) = Some o4" "ODSQ4_valid L roots hash eds o4"
    using after_reads [OF assms(1-6)] by blast
  have "ODS_AxisRoots (oq_ods o4) = Inr roots" using o4(2) ODS_AxisRoots_ok [OF assms(1)] by (simp add: ODSQ4_valid_def)
  moreover obtain o41 where "ODSQ4_row L cache o4 r = (Inr (eds_row eds r), o41)" using ODSQ4_row_ok [OF assms(1) o4(2) assms(2,9)] by blast
  moreover obtain s where "SampleFromShares N (eds_row eds r) AxisRow \<lparr>Row = int r, Col = int c\<rparr> = Inr s" "Sample_Verify L N roots r c s = None" "s_Share s = GetCell eds r c"
    using sample_served(1) [OF block_okD(3) [OF assms(1)] assms(7,8,9,10)] by blast
  ultimately show ?thesis using o4(1) by (simp add: ODSQ4_Sample_def)
qed

text \<open>C33. A file cut short at any byte is told from the complete one by its size: recovery after a crash in the middle of a
  write finds exactly the files that are not complete.\<close>

theorem incomplete_file_detected:
  assumes "block_ok L nsSize roots hash eds" "ODS_content L nsSize roots hash eds = Inr content"
  shows "ValidateODSSize L (take n content) eds = None \<longleftrightarrow> length content \<le> n"
  using ValidateODSSize_cut [OF assms(1) _ assms(2)] block_okD(2) [OF assms(1)] by (simp add: share_ok_def)

text \<open>C34. Whatever bytes the files hold, half an axis that is read has the number of shares the header gives and each has the
  size of a share, and so has the square that is kept in memory.\<close>

theorem axis_half_type:
  assumes "ODSQ4_shape L o4" "share_ok L" "ODSQ4_AxisHalf L cache o4 ax i = (Inr half, o41)"
  shows "half_shape L (ODS_size (oq_ods o4) div 2) half \<and> ODSQ4_shape L o41"
  using ODSQ4_AxisHalf_shape [OF assms(3,2,1)] .

section \<open>A block\<close>

text \<open>The block of \<^const>\<open>rep_eds\<close>, with roots as long as those of the code: the leaves of the tree, a one, and zeros.\<close>

definition pad :: "byte list \<Rightarrow> byte list" where
  "pad x = x @ 1 # replicate (AxisRootSize - Suc (length x)) 0"

definition unpad :: "byte list \<Rightarrow> byte list" where
  "unpad r = rev (tl (dropWhile (\<lambda>b. b = 0) (rev r)))"

lemma unpad_pad [simp]: "unpad (pad x) = x"
  by (simp add: pad_def unpad_def dropWhile_append3)

definition wide_root :: "nat \<Rightarrow> nat \<Rightarrow> byte list list \<Rightarrow> byte list" where
  "wide_root k ax xs = pad (leaf_root k ax xs)"

definition wide_lib :: "leaf_proof nmt_lib" where
  "wide_lib = leaf_lib\<lparr>TreeRoot := (\<lambda>k ax xs. Inr (wide_root k ax xs)),
     VerifyInclusion := (\<lambda>p ns ds r. r = pad (unpad r) \<and> VerifyInclusion leaf_lib p ns ds (unpad r)),
     VerifyNamespace := (\<lambda>p ns ls r. r = pad (unpad r) \<and> VerifyNamespace leaf_lib p ns ls (unpad r))\<rparr>"

definition wide_roots :: AxisRoots where
  "wide_roots = \<lparr>RowRoots = map (\<lambda>i. wide_root 2 i (eds_row rep_eds i)) [0..<4], ColumnRoots = map (\<lambda>i. wide_root 2 i (eds_col rep_eds i)) [0..<4]\<rparr>"

definition rep_content :: "byte list" where
  "rep_content = (writeHeader (ODS_header (replicate 32 7) rep_eds) @ writeAxisRoots wide_roots) @ concat (filled rep_lib rep_eds)"

lemma length_wide_root: "length (concat xs) = 8 \<Longrightarrow> length (wide_root k ax xs) = AxisRootSize"
  by (auto simp: wide_root_def pad_def leaf_root_def AxisRootSize_def)

lemma rep_axes: "i < 4 \<Longrightarrow> length (concat (eds_row rep_eds i)) = 8" "i < 4 \<Longrightarrow> length (concat (eds_col rep_eds i)) = 8"
  by (auto simp: less4 rep_eds_def Let_def eds_row_def eds_col_def)

lemma rep_FlattenedODS: "FlattenedODS rep_eds = [[1, 10], [2, 20], [2, 21], [254, 0]]"
  by (simp add: FlattenedODS_rows rep_eds_def Let_def eds_row_def upt_rec)

lemma rep_filled: "filled rep_lib rep_eds = [[1, 10], [2, 20], [2, 21]]"
  by (simp add: filled_def rep_FlattenedODS rep_lib_def)

lemma rep_block_ok: "block_ok rep_lib 1 wide_roots (replicate 32 7) rep_eds"
proof -
  have "FlattenedODS rep_eds = filled rep_lib rep_eds @ replicate 1 (TailPaddingShare rep_lib)" by (simp add: rep_FlattenedODS rep_filled) (simp add: rep_lib_def)
  moreover have "ShareSize rep_lib = 2" "ShareNamespace rep_lib = take 1" "NamespaceErr rep_lib = (\<lambda>b. None)" by (simp_all add: rep_lib_def)
  ultimately show ?thesis using rep_lib_ok rep_eds_ok rep_width length_wide_root rep_axes unfolding block_ok_def wide_roots_def
    by (auto simp: DataHashSize_def intro: exI [where x = 1])
qed

lemma rep_content_ok: "ODS_content rep_lib 1 wide_roots (replicate 32 7) rep_eds = Inr rep_content"
  using ODS_content_ok [OF rep_block_ok] by (simp add: rep_content_def)

lemma wide_roots_of: "roots_of wide_lib rep_eds wide_roots"
  by (simp add: roots_of_def wide_roots_def wide_lib_def rep_width)

lemma leaf_ok_root: "axis_leaves rep_lib (lp_k p) (lp_leaves p) \<Longrightarrow> leaf_ok p (leaf_root (lp_k p) ax (lp_leaves p))"
  by (auto simp: leaf_ok_def rep_leaves leaf_root_def intro: bexI [of _ 0] bexI [of _ "lp_k p"])

lemma wide_prove_law: "prove_law rep_lib wide_lib"
  unfolding prove_law_def
proof (intro allI impI)
  fix k ax xs r i
  assume a: "axis_leaves rep_lib k xs" "TreeRoot wide_lib k ax xs = Inr r" "i < 2 * k"
  then have r: "length xs = 2 * k" "r = pad (leaf_root k ax xs)" by (simp_all add: axis_leaves_def wide_lib_def wide_root_def)
  let ?p = "\<lparr>lp_start = int i, lp_end = int i + 1, lp_k = k, lp_axis = ax, lp_leaves = xs, lp_absence = False\<rparr>"
  have "leaf_ok ?p (leaf_root k ax xs)" using leaf_ok_root [of ?p ax] a(1) by simp
  then show "\<exists>p. ProveRange wide_lib k ax xs (int i) (int i + 1) = Inr p \<and> \<not> IsEmptyProof wide_lib p \<and> PStart wide_lib p = int i \<and> PEnd wide_lib p = int i + 1
        \<and> VerifyInclusion wide_lib p (if i \<ge> k \<or> ax \<ge> k then ParitySharesNamespace rep_lib else ShareNamespace rep_lib (xs ! i)) [xs ! i] r"
    using a(3) r by (simp add: wide_lib_def leaf_lib_def slice_def nat_add_distrib take_Suc_conv_app_nth)
qed

definition rep_open :: ODS where
  "rep_open = \<lparr>hdr = ODS_header (replicate 32 7) rep_eds, fl = rep_content, ods = None, disableCache = False\<rparr>"

lemma rep_open_ok: "OpenODS rep_content = Inr rep_open"
  using header_roundtrip ODS_header_sizes(3) [OF rep_block_ok] by (simp add: OpenODS_def rep_open_def rep_content_def)

definition rep_reads :: "block_read list" where
  "rep_reads = [RShares, RAxis AxisCol 3, RSample \<lparr>Row = 2, Col = 1\<rparr>]"

lemma rep_reads_ok: "allowed (block_pre (Width rep_eds)) (block_step rep_lib wide_lib fmempty) rep_reads o4"
  by (simp add: rep_reads_def rep_width)

lemma empty_codec_cache: "codec_cache_ok fmempty"
  by (simp add: codec_cache_ok_def)

theorem block_file_axes_witness:
  "\<exists>o4 half o41. run_ops (block_step rep_lib wide_lib fmempty) rep_reads (ODSWithQ4 rep_open (Some (writeQ4 rep_eds))) = Some o4
    \<and> ODSQ4_AxisHalf rep_lib fmempty o4 AxisCol 3 = (Inr half, o41) \<and> Extended rep_lib half = Inr [[2, 20], [254, 0], [2, 20], [254, 0]]"
proof -
  have "eds_axis rep_eds AxisCol 3 = [[2, 20], [254, 0], [2, 20], [254, 0]]" by (simp add: eds_axis_def eds_col_def rep_eds_def Let_def)
  then show ?thesis using block_file_axes [OF rep_block_ok empty_codec_cache rep_content_ok rep_open_ok disjI2 [OF refl] rep_reads_ok, of 3 AxisCol] rep_width by simp
qed

theorem block_file_sample_witness:
  "\<exists>o4 s o41 roots'. run_ops (block_step rep_lib wide_lib fmempty) rep_reads (ODSWithQ4 rep_open None) = Some o4
    \<and> ODSQ4_Sample rep_lib wide_lib fmempty o4 \<lparr>Row = 3, Col = 2\<rparr> = (Inr s, o41) \<and> s_Share s = [2, 21]
    \<and> ODS_AxisRoots (oq_ods o4) = Inr roots' \<and> Sample_Verify rep_lib wide_lib roots' 3 2 s = None"
proof -
  have "GetCell rep_eds 3 2 = [2, 21]" by (simp add: rep_eds_def Let_def)
  then show ?thesis
    using block_file_sample [OF rep_block_ok empty_codec_cache rep_content_ok rep_open_ok disjI1 [OF refl] rep_reads_ok wide_roots_of wide_prove_law, of 3 2] rep_width by simp
qed

theorem incomplete_file_detected_witness:
  "ValidateODSSize rep_lib rep_content rep_eds = None \<and> ValidateODSSize rep_lib (butlast rep_content) rep_eds \<noteq> None"
  using incomplete_file_detected [OF rep_block_ok rep_content_ok, of "length rep_content"]
    incomplete_file_detected [OF rep_block_ok rep_content_ok, of "length rep_content - 1"]
  by (simp add: butlast_conv_take) (simp add: rep_content_def writeHeader_def)

text \<open>A file cut short after it was opened: its rows are read as padding.\<close>

definition cut_file :: ODSQ4 where
  "cut_file = ODSWithQ4 (rep_open\<lparr>fl := []\<rparr>) None"

theorem axis_half_type_witness:
  "ODSQ4_AxisHalf rep_lib fmempty cut_file AxisRow 1 = (Inr \<lparr>Shares = [[254, 0], [254, 0]], IsParity = False\<rparr>, cut_file)
    \<and> half_shape rep_lib 2 \<lparr>Shares = [[254, 0], [254, 0]], IsParity = False\<rparr> \<and> ODSQ4_shape rep_lib cut_file"
proof -
  have h: "hdr_ShareSize (ODS_header (replicate 32 7) rep_eds) = 2" "hdr_SquareSize (ODS_header (replicate 32 7) rep_eds) = 4"
    using ODS_header_sizes(1,2) [OF rep_block_ok] rep_width by (simp_all add: rep_lib_def)
  then have z: "ODS_size (oq_ods cut_file) = 4" by (simp add: ODS_size_def hdr_SquareSize_def cut_file_def ODSWithQ4_def rep_open_def)
  have "ODS_readAxisHalf rep_lib (oq_ods cut_file) AxisRow 1 = Inr \<lparr>Shares = [[254, 0], [254, 0]], IsParity = False\<rparr>"
    using h by (simp add: ODS_readAxisHalf_def cut_file_def ODSWithQ4_def rep_open_def readAxisHalf_def readRowHalf_def file_ReadAt_def Let_def upt_rec row_share_def)
      (simp add: rep_lib_def)
  then have a: "ODSQ4_AxisHalf rep_lib fmempty cut_file AxisRow 1 = (Inr \<lparr>Shares = [[254, 0], [254, 0]], IsParity = False\<rparr>, cut_file)"
    using z by (simp add: ODSQ4_AxisHalf_def ODS_AxisHalf_def)
  have "ODSQ4_shape rep_lib cut_file" using h by (simp add: ODSQ4_shape_def ODS_shape_def cut_file_def ODSWithQ4_def rep_open_def)
  from axis_half_type [OF this rep_share_ok a] show ?thesis using a z by simp
qed

end
