(* ===== verification/EdsAccess.thy ===== *)
theory EdsAccess
  imports BlockFileProperties NamespaceIDs
begin

text \<open>
  Accessors of extended squares (\<^verbatim>\<open>share/eds\<close>). The interface \<^verbatim>\<open>AccessorStreamer\<close> is a record of methods over the
  state of the implementation: the square in memory (\<^verbatim>\<open>rsmt2d.go\<close>), the files of a block (\<^verbatim>\<open>store/file\<close>), and the
  wrappers that check indexes (\<^verbatim>\<open>validation.go\<close>), refuse use after closing (\<^verbatim>\<open>close_once.go\<close>) and keep axes
  (\<^verbatim>\<open>proofs_cache.go\<close>). A panic is an error like any other.
\<close>

section \<open>The interface\<close>

text \<open>The flag of a request for a row of a namespace is that of a context that turns the cache off.\<close>

record ('s, 'p) accessorStreamer =
  a_Size :: "'s \<Rightarrow> (string + int) \<times> 's"
  a_DataHash :: "'s \<Rightarrow> (string + byte list) \<times> 's"
  a_AxisRoots :: "'s \<Rightarrow> (string + AxisRoots) \<times> 's"
  a_Sample :: "SampleCoords \<Rightarrow> 's \<Rightarrow> (string + 'p Sample) \<times> 's"
  a_AxisHalf :: "axis \<Rightarrow> int \<Rightarrow> 's \<Rightarrow> (string + AxisHalf) \<times> 's"
  a_RowNamespaceData :: "bool \<Rightarrow> byte list \<Rightarrow> int \<Rightarrow> 's \<Rightarrow> (string + 'p RowNamespaceData) \<times> 's"
  a_Shares :: "'s \<Rightarrow> (string + byte list list) \<times> 's"
  a_RangeNamespaceData :: "int \<Rightarrow> int \<Rightarrow> 's \<Rightarrow> (string + 'p RangeNamespaceData) \<times> 's"
  a_Reader :: "'s \<Rightarrow> (string + (ShareReader + byte list)) \<times> 's"
  a_Close :: "'s \<Rightarrow> string option \<times> 's"

text \<open>The packages that compute squares and their roots.\<close>

record eds_lib =
  NewDataAvailabilityHeader :: "eds \<Rightarrow> string + AxisRoots"
  RootsHash :: "AxisRoots \<Rightarrow> byte list"
  ComputeExtendedDataSquare :: "byte list list \<Rightarrow> string + eds"

section \<open>The square in memory\<close>

definition relativeIndexes :: "int \<Rightarrow> int \<Rightarrow> axis \<Rightarrow> string + int \<times> int" where
  "relativeIndexes rowIdx colIdx axisType =
     (case axisType of AxisRow \<Rightarrow> Inr (rowIdx, colIdx) | AxisCol \<Rightarrow> Inr (colIdx, rowIdx) | AxisOther _ \<Rightarrow> Inl ''invalid proof type'')"

definition getAxis :: "square_lib \<Rightarrow> eds \<Rightarrow> axis \<Rightarrow> int \<Rightarrow> string + byte list list" where
  "getAxis L eds axisType axisIdx =
     (if axisIdx < 0 \<or> axisIdx \<ge> int (Width eds) then Inl ''index out of range''
      else
        case axisType of
          AxisRow \<Rightarrow> FromBytes L (eds_row eds (nat axisIdx))
        | AxisCol \<Rightarrow> FromBytes L (eds_col eds (nat axisIdx))
        | AxisOther _ \<Rightarrow> Inl ''unknown axis'')"

definition SampleForProofAxis :: "square_lib \<Rightarrow> 'p nmt_lib \<Rightarrow> eds \<Rightarrow> SampleCoords \<Rightarrow> axis \<Rightarrow> string + 'p Sample" where
  "SampleForProofAxis L N eds idx proofType =
     (case relativeIndexes (Row idx) (Col idx) proofType of
        Inl e \<Rightarrow> Inl e
      | Inr (axisIdx, shrIdx) \<Rightarrow>
          (case getAxis L eds proofType axisIdx of
             Inl e \<Rightarrow> Inl e
           | Inr shares \<Rightarrow>
               (case ProveRange N (Width eds div 2) (nat axisIdx) shares shrIdx (shrIdx + 1) of
                  Inl e \<Rightarrow> Inl e
                | Inr prf \<Rightarrow> Inr \<lparr>s_Share = shares ! nat shrIdx, s_Proof = Some prf, ProofType = proofType\<rparr>)))"

definition Rsmt2D_AxisHalf :: "square_lib \<Rightarrow> eds \<Rightarrow> axis \<Rightarrow> int \<Rightarrow> string + AxisHalf" where
  "Rsmt2D_AxisHalf L eds axisType axisIdx =
     (case getAxis L eds axisType axisIdx of
        Inl e \<Rightarrow> Inl e
      | Inr shares \<Rightarrow> Inr \<lparr>Shares = take (Width eds div 2) shares, IsParity = False\<rparr>)"

definition HalfRow :: "square_lib \<Rightarrow> eds \<Rightarrow> int \<Rightarrow> RowSide \<Rightarrow> string + Row" where
  "HalfRow L eds idx sd = RowFromEDS L eds (nat idx) sd"

definition Rsmt2D_RowNamespaceData :: "square_lib \<Rightarrow> 'p nmt_lib \<Rightarrow> eds \<Rightarrow> byte list \<Rightarrow> int \<Rightarrow> string + 'p RowNamespaceData" where
  "Rsmt2D_RowNamespaceData L N eds namespace rowIdx =
     (if rowIdx < 0 \<or> rowIdx \<ge> int (Width eds) then Inl ''index out of range''
      else
        case FromBytes L (eds_row eds (nat rowIdx)) of
          Inl e \<Rightarrow> Inl e
        | Inr sh \<Rightarrow> RowNamespaceDataFromShares L N sh namespace (nat rowIdx))"

definition Rsmt2D_RangeNamespaceData :: "square_lib \<Rightarrow> 'p nmt_lib \<Rightarrow> eds \<Rightarrow> int \<Rightarrow> int \<Rightarrow> string + 'p RangeNamespaceData" where
  "Rsmt2D_RangeNamespaceData L N eds from to =
     (let odsSize = int (Width eds div 2) in
      case (SampleCoordsFrom1DIndex from odsSize, SampleCoordsFrom1DIndex (to - 1) odsSize) of
        (Inr fromCoords, Inr toCoords) \<Rightarrow>
          (case traverse (\<lambda>row. FromBytes L (eds_row eds row)) [nat (Row fromCoords)..<Suc (nat (Row toCoords))] of
             Inl e \<Rightarrow> Inl e
           | Inr rawShares \<Rightarrow> RangeNamespaceDataFromShares L N rawShares fromCoords toCoords)
      | _ \<Rightarrow> Inl ''invalid range'')"

definition Rsmt2D_AxisRoots :: "eds_lib \<Rightarrow> eds \<Rightarrow> string + AxisRoots" where
  "Rsmt2D_AxisRoots E eds = NewDataAvailabilityHeader E eds"

definition Rsmt2D_DataHash :: "eds_lib \<Rightarrow> eds \<Rightarrow> string + byte list" where
  "Rsmt2D_DataHash E eds = map_sum id (RootsHash E) (NewDataAvailabilityHeader E eds)"

definition Rsmt2D_Shares :: "square_lib \<Rightarrow> eds \<Rightarrow> string + byte list list" where
  "Rsmt2D_Shares L eds = FromBytes L (FlattenedODS eds)"

definition Rsmt2D :: "square_lib \<Rightarrow> 'p nmt_lib \<Rightarrow> eds_lib \<Rightarrow> (eds, 'p) accessorStreamer" where
  "Rsmt2D L N E = \<lparr>
     a_Size = (\<lambda>eds. (Inr (int (Width eds)), eds)),
     a_DataHash = (\<lambda>eds. (Rsmt2D_DataHash E eds, eds)),
     a_AxisRoots = (\<lambda>eds. (Rsmt2D_AxisRoots E eds, eds)),
     a_Sample = (\<lambda>idx eds. (SampleForProofAxis L N eds idx AxisRow, eds)),
     a_AxisHalf = (\<lambda>ax i eds. (Rsmt2D_AxisHalf L eds ax i, eds)),
     a_RowNamespaceData = (\<lambda>off ns i eds. (Rsmt2D_RowNamespaceData L N eds ns i, eds)),
     a_Shares = (\<lambda>eds. (Rsmt2D_Shares L eds, eds)),
     a_RangeNamespaceData = (\<lambda>from to eds. (Rsmt2D_RangeNamespaceData L N eds from to, eds)),
     a_Reader = (\<lambda>eds. (Inr (Inl (NewShareReader (Width eds div 2))), eds)),
     a_Close = (\<lambda>eds. (None, eds))\<rparr>"

definition Rsmt2DFromShares :: "eds_lib \<Rightarrow> byte list list \<Rightarrow> string + eds" where
  "Rsmt2DFromShares E shares = ComputeExtendedDataSquare E shares"

definition ReadAccessor :: "square_lib \<Rightarrow> eds_lib \<Rightarrow> byte list \<Rightarrow> AxisRoots \<Rightarrow> string + eds" where
  "ReadAccessor L E reader root =
     (let odsSize = length (RowRoots root) div 2 in
      case ReadShares L reader (ShareSize L) odsSize of
        Inl e \<Rightarrow> Inl e
      | Inr shares \<Rightarrow>
          (case Rsmt2DFromShares E shares of
             Inl e \<Rightarrow> Inl e
           | Inr eds \<Rightarrow>
               (case Rsmt2D_DataHash E eds of
                  Inl e \<Rightarrow> Inl e
                | Inr dh \<Rightarrow> if dh \<noteq> RootsHash E root then Inl ''content integrity mismatch'' else Inr eds)))"

section \<open>The files of a block\<close>

text \<open>The indexes have passed the checks of \<^verbatim>\<open>validation\<close>; the second component counts the times the files were closed.\<close>

definition with_count :: "('a \<times> ODSQ4) \<Rightarrow> nat \<Rightarrow> 'a \<times> ODSQ4 \<times> nat" where
  "with_count r n = (fst r, snd r, n)"

definition ODSQ4_accessor :: "square_lib \<Rightarrow> 'p nmt_lib \<Rightarrow> (nat, nat) fmap \<Rightarrow> (ODSQ4 \<times> nat, 'p) accessorStreamer" where
  "ODSQ4_accessor L N cache = \<lparr>
     a_Size = (\<lambda>(o4, n). (Inr (int (ODS_size (oq_ods o4))), o4, n)),
     a_DataHash = (\<lambda>(o4, n). (Inr (ODS_DataHash (oq_ods o4)), o4, n)),
     a_AxisRoots = (\<lambda>(o4, n). (ODS_AxisRoots (oq_ods o4), o4, n)),
     a_Sample = (\<lambda>idx (o4, n). with_count (ODSQ4_Sample L N cache o4 idx) n),
     a_AxisHalf = (\<lambda>ax i (o4, n). with_count (ODSQ4_AxisHalf L cache o4 ax (nat i)) n),
     a_RowNamespaceData = (\<lambda>off ns i (o4, n). with_count (ODSQ4_RowNamespaceData L N cache o4 ns (nat i)) n),
     a_Shares = (\<lambda>(o4, n). with_count (ODSQ4_Shares L o4) n),
     a_RangeNamespaceData = (\<lambda>from to (o4, n). (ODS_RangeNamespaceData L N (oq_ods o4) from to, o4, n)),
     a_Reader = (\<lambda>(o4, n). (Inr (ODS_Reader (oq_ods o4)), o4, n)),
     a_Close = (\<lambda>(o4, n). (None, o4, Suc n))\<rparr>"

section \<open>Checked indexes\<close>

text \<open>The size is kept as a 32-bit number once it is known; zero means that it is not.\<close>

record 's validation =
  v_inner :: 's
  v_size :: "32 word"

definition lift_v :: "'s validation \<Rightarrow> 'a \<times> 's \<Rightarrow> 'a \<times> 's validation" where
  "lift_v f r = (fst r, f\<lparr>v_inner := snd r\<rparr>)"

definition validation_Size :: "('s, 'p) accessorStreamer \<Rightarrow> 's validation \<Rightarrow> (string + int) \<times> 's validation" where
  "validation_Size A f =
     (if v_size f \<noteq> 0 then (Inr (sint (v_size f)), f)
      else
        case a_Size A (v_inner f) of
          (Inl e, s) \<Rightarrow> (Inl e, f\<lparr>v_inner := s\<rparr>)
        | (Inr loaded, s) \<Rightarrow> (Inr loaded, f\<lparr>v_inner := s, v_size := word_of_int loaded\<rparr>))"

definition validation_Sample :: "('s, 'p) accessorStreamer \<Rightarrow> SampleCoords \<Rightarrow> 's validation \<Rightarrow> (string + 'p Sample) \<times> 's validation" where
  "validation_Sample A idx f =
     (case validation_Size A f of
        (Inl e, f1) \<Rightarrow> (Inl e, f1)
      | (Inr sz, f1) \<Rightarrow>
          (case NewSampleID 1 idx sz of
             Inl e \<Rightarrow> (Inl ''sample validation'', f1)
           | Inr _ \<Rightarrow> lift_v f1 (a_Sample A idx (v_inner f1))))"

definition validation_AxisHalf :: "('s, 'p) accessorStreamer \<Rightarrow> axis \<Rightarrow> int \<Rightarrow> 's validation \<Rightarrow> (string + AxisHalf) \<times> 's validation" where
  "validation_AxisHalf A axisType axisIdx f =
     (case validation_Size A f of
        (Inl e, f1) \<Rightarrow> (Inl e, f1)
      | (Inr sz, f1) \<Rightarrow>
          (case NewRowID 1 axisIdx sz of
             Inl e \<Rightarrow> (Inl ''axis half validation'', f1)
           | Inr _ \<Rightarrow> lift_v f1 (a_AxisHalf A axisType axisIdx (v_inner f1))))"

definition validation_RowNamespaceData ::
    "byte list nslib \<Rightarrow> ('s, 'p) accessorStreamer \<Rightarrow> bool \<Rightarrow> byte list \<Rightarrow> int \<Rightarrow> 's validation \<Rightarrow> (string + 'p RowNamespaceData) \<times> 's validation" where
  "validation_RowNamespaceData nsl A off namespace rowIdx f =
     (case validation_Size A f of
        (Inl e, f1) \<Rightarrow> (Inl e, f1)
      | (Inr sz, f1) \<Rightarrow>
          (case NewRowNamespaceDataID nsl 1 rowIdx namespace sz of
             Inl e \<Rightarrow> (Inl ''row namespace data validation'', f1)
           | Inr _ \<Rightarrow> lift_v f1 (a_RowNamespaceData A off namespace rowIdx (v_inner f1))))"

definition validation_RangeNamespaceData :: "('s, 'p) accessorStreamer \<Rightarrow> int \<Rightarrow> int \<Rightarrow> 's validation \<Rightarrow> (string + 'p RangeNamespaceData) \<times> 's validation" where
  "validation_RangeNamespaceData A from to f =
     (if from < 0 then (Inl ''range validation'', f)
      else if from \<ge> to then (Inl ''range validation'', f)
      else
        case validation_Size A f of
          (Inl e, f1) \<Rightarrow> (Inl e, f1)
        | (Inr edsSize, f1) \<Rightarrow>
            let odsSize = edsSize div 2; odsSharesAmount = odsSize * odsSize in
            if from \<ge> odsSharesAmount then (Inl ''range validation'', f1)
            else if to > odsSharesAmount then (Inl ''range validation'', f1)
            else lift_v f1 (a_RangeNamespaceData A from to (v_inner f1)))"

text \<open>The other methods are those of the accessor inside.\<close>

definition WithValidation :: "byte list nslib \<Rightarrow> ('s, 'p) accessorStreamer \<Rightarrow> ('s validation, 'p) accessorStreamer" where
  "WithValidation nsl A = \<lparr>
     a_Size = validation_Size A,
     a_DataHash = (\<lambda>f. lift_v f (a_DataHash A (v_inner f))),
     a_AxisRoots = (\<lambda>f. lift_v f (a_AxisRoots A (v_inner f))),
     a_Sample = validation_Sample A,
     a_AxisHalf = validation_AxisHalf A,
     a_RowNamespaceData = validation_RowNamespaceData nsl A,
     a_Shares = (\<lambda>f. lift_v f (a_Shares A (v_inner f))),
     a_RangeNamespaceData = validation_RangeNamespaceData A,
     a_Reader = (\<lambda>f. lift_v f (a_Reader A (v_inner f))),
     a_Close = (\<lambda>f. lift_v f (a_Close A (v_inner f)))\<rparr>"

section \<open>Closed once\<close>

definition errAccessorClosed :: string where "errAccessorClosed = ''accessor is closed''"

record 's closeOnce =
  co_f :: 's
  closed :: bool

definition closeOnce_Close :: "('s, 'p) accessorStreamer \<Rightarrow> 's closeOnce \<Rightarrow> string option \<times> 's closeOnce" where
  "closeOnce_Close A c =
     (if closed c then (None, c)
      else case a_Close A (co_f c) of (res, s) \<Rightarrow> (res, c\<lparr>co_f := s, closed := True\<rparr>))"

definition closeOnce_call :: "('s \<Rightarrow> (string + 'a) \<times> 's) \<Rightarrow> 's closeOnce \<Rightarrow> (string + 'a) \<times> 's closeOnce" where
  "closeOnce_call method c =
     (if closed c then (Inl errAccessorClosed, c)
      else case method (co_f c) of (res, s) \<Rightarrow> (res, c\<lparr>co_f := s\<rparr>))"

definition WithClosedOnce :: "('s, 'p) accessorStreamer \<Rightarrow> ('s closeOnce, 'p) accessorStreamer" where
  "WithClosedOnce A = \<lparr>
     a_Size = closeOnce_call (a_Size A),
     a_DataHash = closeOnce_call (a_DataHash A),
     a_AxisRoots = closeOnce_call (a_AxisRoots A),
     a_Sample = (\<lambda>idx. closeOnce_call (a_Sample A idx)),
     a_AxisHalf = (\<lambda>ax i. closeOnce_call (a_AxisHalf A ax i)),
     a_RowNamespaceData = (\<lambda>off ns i. closeOnce_call (a_RowNamespaceData A off ns i)),
     a_Shares = closeOnce_call (a_Shares A),
     a_RangeNamespaceData = (\<lambda>from to. closeOnce_call (a_RangeNamespaceData A from to)),
     a_Reader = closeOnce_call (a_Reader A),
     a_Close = closeOnce_Close A\<rparr>"

section \<open>Kept axes\<close>

text \<open>
  The blocks of a tree and what is read from them (\<^verbatim>\<open>share/ipld\<close>), and an LRU cache of axes. \<open>Build\<close> pushes the shares of
  an axis into a tree of a square of the given width and collects its blocks.
\<close>

record ('p, 'b) ipld_lib =
  Build :: "int \<Rightarrow> int \<Rightarrow> byte list list \<Rightarrow> string + byte list \<times> 'b"
  GetProof :: "'b \<Rightarrow> byte list \<Rightarrow> int \<Rightarrow> int \<Rightarrow> string + 'p"
  GetSharesByNamespace :: "'b \<Rightarrow> byte list \<Rightarrow> byte list \<Rightarrow> int \<Rightarrow> string + byte list list \<times> 'p option"

record 'b axisWithProofs =
  half :: AxisHalf
  ax_shares :: "byte list list"
  ax_root :: "byte list"
  ax_proofs :: "'b option"

definition no_axis :: "'b axisWithProofs" where
  "no_axis = \<lparr>half = \<lparr>Shares = [], IsParity = False\<rparr>, ax_shares = [], ax_root = [], ax_proofs = None\<rparr>"

record ('l, 'b) axis_lru =
  al_New :: "nat \<Rightarrow> 'l"
  al_Get :: "int \<Rightarrow> 'l \<Rightarrow> 'b axisWithProofs option \<times> 'l"
  al_Add :: "int \<Rightarrow> 'b axisWithProofs \<Rightarrow> 'l \<Rightarrow> 'l"

definition axisCacheBudget :: int where "axisCacheBudget = 32 * 2 ^ 20"

definition cachedAxisCost :: int where "cachedAxisCost = 4"

definition axisCacheSize :: "square_lib \<Rightarrow> int \<Rightarrow> int" where
  "axisCacheSize L edsSize = max 1 (axisCacheBudget div (cachedAxisCost * max edsSize 1 * int (ShareSize L)))"

text \<open>The two caches, of rows and of columns, are made when one is first used.\<close>

record ('s, 'l) proofsCache =
  pc_inner :: 's
  pc_size :: "32 word"
  pc_dataHash :: "byte list option"
  rootsCache :: "AxisRoots option"
  axisCache :: "('l \<times> 'l) option"
  pc_disableCache :: bool

definition proofsCache_Size :: "('s, 'p) accessorStreamer \<Rightarrow> ('s, 'l) proofsCache \<Rightarrow> (string + int) \<times> ('s, 'l) proofsCache" where
  "proofsCache_Size A c =
     (if pc_size c \<noteq> 0 then (Inr (sint (pc_size c)), c)
      else
        case a_Size A (pc_inner c) of
          (Inl e, s) \<Rightarrow> (Inl e, c\<lparr>pc_inner := s\<rparr>)
        | (Inr loaded, s) \<Rightarrow> (Inr loaded, c\<lparr>pc_inner := s, pc_size := word_of_int loaded\<rparr>))"

definition proofsCache_DataHash :: "('s, 'p) accessorStreamer \<Rightarrow> ('s, 'l) proofsCache \<Rightarrow> (string + byte list) \<times> ('s, 'l) proofsCache" where
  "proofsCache_DataHash A c =
     (case pc_dataHash c of
        Some dh \<Rightarrow> (Inr dh, c)
      | None \<Rightarrow>
          (case a_DataHash A (pc_inner c) of
             (Inl e, s) \<Rightarrow> (Inl e, c\<lparr>pc_inner := s\<rparr>)
           | (Inr loaded, s) \<Rightarrow> (Inr loaded, c\<lparr>pc_inner := s, pc_dataHash := Some loaded\<rparr>)))"

definition proofsCache_AxisRoots :: "('s, 'p) accessorStreamer \<Rightarrow> ('s, 'l) proofsCache \<Rightarrow> (string + AxisRoots) \<times> ('s, 'l) proofsCache" where
  "proofsCache_AxisRoots A c =
     (case rootsCache c of
        Some roots \<Rightarrow> (Inr roots, c)
      | None \<Rightarrow>
          (case a_AxisRoots A (pc_inner c) of
             (Inl e, s) \<Rightarrow> (Inl e, c\<lparr>pc_inner := s\<rparr>)
           | (Inr roots, s) \<Rightarrow> (Inr roots, c\<lparr>pc_inner := s, rootsCache := Some roots\<rparr>)))"

text \<open>Makes the caches ready; the result says whether there is one for the axis. No caller passes another axis than these two.\<close>

definition pc_cache ::
    "square_lib \<Rightarrow> ('l, 'b) axis_lru \<Rightarrow> ('s, 'p) accessorStreamer \<Rightarrow> ('s, 'l) proofsCache \<Rightarrow> ('l \<times> 'l) option \<times> ('s, 'l) proofsCache" where
  "pc_cache L R A c =
     (case proofsCache_Size A c of
        (Inl e, c1) \<Rightarrow> (None, c1)
      | (Inr sz, c1) \<Rightarrow>
          (case axisCache c1 of
             Some ls \<Rightarrow> (Some ls, c1)
           | None \<Rightarrow> let n = nat (axisCacheSize L sz); ls = (al_New R n, al_New R n) in (Some ls, c1\<lparr>axisCache := Some ls\<rparr>)))"

definition storeAxisInCache ::
    "square_lib \<Rightarrow> ('l, 'b) axis_lru \<Rightarrow> ('s, 'p) accessorStreamer \<Rightarrow> axis \<Rightarrow> int \<Rightarrow> 'b axisWithProofs \<Rightarrow> ('s, 'l) proofsCache \<Rightarrow> ('s, 'l) proofsCache" where
  "storeAxisInCache L R A axisType axisIdx ax c =
     (case pc_cache L R A c of
        (None, c1) \<Rightarrow> c1
      | (Some (rows, cols), c1) \<Rightarrow>
          c1\<lparr>axisCache := Some (if axisType = AxisRow then (al_Add R axisIdx ax rows, cols) else (rows, al_Add R axisIdx ax cols))\<rparr>)"

definition getAxisFromCache ::
    "square_lib \<Rightarrow> ('l, 'b) axis_lru \<Rightarrow> ('s, 'p) accessorStreamer \<Rightarrow> axis \<Rightarrow> int \<Rightarrow> ('s, 'l) proofsCache \<Rightarrow> 'b axisWithProofs option \<times> ('s, 'l) proofsCache" where
  "getAxisFromCache L R A axisType axisIdx c =
     (case pc_cache L R A c of
        (None, c1) \<Rightarrow> (None, c1)
      | (Some (rows, cols), c1) \<Rightarrow>
          if axisType = AxisRow
          then (case al_Get R axisIdx rows of (res, rows') \<Rightarrow> (res, c1\<lparr>axisCache := Some (rows', cols)\<rparr>))
          else (case al_Get R axisIdx cols of (res, cols') \<Rightarrow> (res, c1\<lparr>axisCache := Some (rows, cols')\<rparr>)))"

text \<open>An axis from the cache, or a new entry with the half that the accessor inside gives.\<close>

definition axis_entry ::
    "square_lib \<Rightarrow> ('l, 'b) axis_lru \<Rightarrow> ('s, 'p) accessorStreamer \<Rightarrow> axis \<Rightarrow> int \<Rightarrow> ('s, 'l) proofsCache \<Rightarrow> (string + 'b axisWithProofs) \<times> ('s, 'l) proofsCache" where
  "axis_entry L R A axisType axisIdx c =
     (case getAxisFromCache L R A axisType axisIdx c of
        (Some ax, c1) \<Rightarrow> (Inr ax, c1)
      | (None, c1) \<Rightarrow>
          (case a_AxisHalf A axisType axisIdx (pc_inner c1) of
             (Inl e, s) \<Rightarrow> (Inl e, c1\<lparr>pc_inner := s\<rparr>)
           | (Inr h, s) \<Rightarrow> (Inr (no_axis\<lparr>half := h\<rparr>), c1\<lparr>pc_inner := s\<rparr>)))"

definition keep_axis ::
    "square_lib \<Rightarrow> ('l, 'b) axis_lru \<Rightarrow> ('s, 'p) accessorStreamer \<Rightarrow> axis \<Rightarrow> int \<Rightarrow> 'b axisWithProofs \<Rightarrow> ('s, 'l) proofsCache \<Rightarrow> ('s, 'l) proofsCache" where
  "keep_axis L R A axisType axisIdx ax c = (if pc_disableCache c then c else storeAxisInCache L R A axisType axisIdx ax c)"

definition proofsCache_axisWithProofs ::
    "square_lib \<Rightarrow> ('p, 'b) ipld_lib \<Rightarrow> ('l, 'b) axis_lru \<Rightarrow> ('s, 'p) accessorStreamer \<Rightarrow> axis \<Rightarrow> int \<Rightarrow> ('s, 'l) proofsCache
      \<Rightarrow> (string + 'b axisWithProofs) \<times> ('s, 'l) proofsCache" where
  "proofsCache_axisWithProofs L I R A axisType axisIdx c =
     (case axis_entry L R A axisType axisIdx c of
        (Inl e, c1) \<Rightarrow> (Inl e, c1)
      | (Inr ax, c1) \<Rightarrow>
          if ax_proofs ax \<noteq> None then (Inr ax, c1)
          else
            case (if ax_shares ax = [] then Extended L (half ax) else Inr (ax_shares ax)) of
              Inl e \<Rightarrow> (Inl e, c1)
            | Inr shares \<Rightarrow>
                (case proofsCache_Size A c1 of
                   (Inl e, c2) \<Rightarrow> (Inl e, c2)
                 | (Inr sz, c2) \<Rightarrow>
                     (case Build I sz axisIdx shares of
                        Inl e \<Rightarrow> (Inl e, c2)
                      | Inr (root, proofs) \<Rightarrow>
                          let ax1 = ax\<lparr>ax_shares := shares, ax_root := root, ax_proofs := Some proofs\<rparr> in
                          (Inr ax1, keep_axis L R A axisType axisIdx ax1 c2))))"

definition proofsCache_Sample ::
    "square_lib \<Rightarrow> ('p, 'b) ipld_lib \<Rightarrow> ('l, 'b) axis_lru \<Rightarrow> ('s, 'p) accessorStreamer \<Rightarrow> SampleCoords \<Rightarrow> ('s, 'l) proofsCache
      \<Rightarrow> (string + 'p Sample) \<times> ('s, 'l) proofsCache" where
  "proofsCache_Sample L I R A idx c =
     (case getAxisFromCache L R A AxisRow (Row idx) c of
        (found, c1) \<Rightarrow>
          let ax = case_option no_axis id found in
          case ax_proofs ax of
            None \<Rightarrow> (case a_Sample A idx (pc_inner c1) of (res, s) \<Rightarrow> (res, c1\<lparr>pc_inner := s\<rparr>))
          | Some proofs \<Rightarrow>
              if Col idx < 0 \<or> Col idx \<ge> int (length (ax_shares ax)) then (Inl ''index out of range'', c1)
              else
                case proofsCache_Size A c1 of
                  (Inl e, c2) \<Rightarrow> (Inl e, c2)
                | (Inr sz, c2) \<Rightarrow>
                    (case GetProof I proofs (ax_root ax) (Col idx) sz of
                       Inl e \<Rightarrow> (Inl e, c2)
                     | Inr prf \<Rightarrow> (Inr \<lparr>s_Share = ax_shares ax ! nat (Col idx), s_Proof = Some prf, ProofType = AxisRow\<rparr>, c2)))"

definition proofsCache_AxisHalf ::
    "square_lib \<Rightarrow> ('l, 'b) axis_lru \<Rightarrow> ('s, 'p) accessorStreamer \<Rightarrow> axis \<Rightarrow> int \<Rightarrow> ('s, 'l) proofsCache \<Rightarrow> (string + AxisHalf) \<times> ('s, 'l) proofsCache" where
  "proofsCache_AxisHalf L R A axisType axisIdx c =
     (case getAxisFromCache L R A axisType axisIdx c of
        (Some ax, c1) \<Rightarrow> (Inr (half ax), c1)
      | (None, c1) \<Rightarrow>
          (case a_AxisHalf A axisType axisIdx (pc_inner c1) of
             (Inl e, s) \<Rightarrow> (Inl e, c1\<lparr>pc_inner := s\<rparr>)
           | (Inr h, s) \<Rightarrow> (Inr h, keep_axis L R A axisType axisIdx (no_axis\<lparr>half := h\<rparr>) (c1\<lparr>pc_inner := s\<rparr>))))"

definition proofsCache_RowNamespaceData ::
    "square_lib \<Rightarrow> ('p, 'b) ipld_lib \<Rightarrow> ('l, 'b) axis_lru \<Rightarrow> ('s, 'p) accessorStreamer \<Rightarrow> bool \<Rightarrow> byte list \<Rightarrow> int \<Rightarrow> ('s, 'l) proofsCache
      \<Rightarrow> (string + 'p RowNamespaceData) \<times> ('s, 'l) proofsCache" where
  "proofsCache_RowNamespaceData L I R A off namespace rowIdx c =
     (let cached = (\<lambda>c.
          case proofsCache_axisWithProofs L I R A AxisRow rowIdx c of
            (Inl e, c1) \<Rightarrow> (Inl e, c1)
          | (Inr ax, c1) \<Rightarrow>
              (case proofsCache_Size A c1 of
                 (Inl e, c2) \<Rightarrow> (Inl e, c2)
               | (Inr sz, c2) \<Rightarrow>
                   (case GetSharesByNamespace I (the (ax_proofs ax)) (ax_root ax) namespace sz of
                      Inl e \<Rightarrow> (Inl e, c2)
                    | Inr (row, prf) \<Rightarrow> (Inr \<lparr>rnd_Shares = row, rnd_Proof = prf\<rparr>, c2)))) in
      if off then
        (case getAxisFromCache L R A AxisRow rowIdx c of
           (found, c1) \<Rightarrow>
             if ax_proofs (case_option no_axis id found) = None
             then (case a_RowNamespaceData A off namespace rowIdx (pc_inner c1) of (res, s) \<Rightarrow> (res, c1\<lparr>pc_inner := s\<rparr>))
             else cached c1)
      else cached c)"

definition axisShares ::
    "square_lib \<Rightarrow> ('l, 'b) axis_lru \<Rightarrow> ('s, 'p) accessorStreamer \<Rightarrow> axis \<Rightarrow> int \<Rightarrow> ('s, 'l) proofsCache \<Rightarrow> (string + byte list list) \<times> ('s, 'l) proofsCache" where
  "axisShares L R A axisType axisIdx c =
     (case axis_entry L R A axisType axisIdx c of
        (Inl e, c1) \<Rightarrow> (Inl e, c1)
      | (Inr ax, c1) \<Rightarrow>
          if ax_shares ax \<noteq> [] then (Inr (ax_shares ax), c1)
          else
            case Extended L (half ax) of
              Inl e \<Rightarrow> (Inl e, c1)
            | Inr shares \<Rightarrow> (Inr shares, keep_axis L R A axisType axisIdx (ax\<lparr>ax_shares := shares\<rparr>) c1))"

text \<open>
  The loop over the rows of the original square. For a row whose half is the parity one, the shares gathered so far are
  replaced by the extended row before its first half is added.
\<close>

fun pc_shares ::
    "square_lib \<Rightarrow> ('l, 'b) axis_lru \<Rightarrow> ('s, 'p) accessorStreamer \<Rightarrow> nat \<Rightarrow> nat list \<Rightarrow> byte list list \<Rightarrow> ('s, 'l) proofsCache
      \<Rightarrow> (string + byte list list) \<times> ('s, 'l) proofsCache" where
  "pc_shares L R A odsSize [] shares c = (Inr shares, c)"
| "pc_shares L R A odsSize (i # is) shares c =
     (case proofsCache_AxisHalf L R A AxisRow (int i) c of
        (Inl e, c1) \<Rightarrow> (Inl e, c1)
      | (Inr ax, c1) \<Rightarrow>
          if IsParity ax then
            (case axisShares L R A AxisRow (int i) c1 of
               (Inl e, c2) \<Rightarrow> (Inl e, c2)
             | (Inr ext, c2) \<Rightarrow> pc_shares L R A odsSize is (ext @ take odsSize ext) c2)
          else pc_shares L R A odsSize is (shares @ Shares ax) c1)"

definition proofsCache_Shares ::
    "square_lib \<Rightarrow> ('l, 'b) axis_lru \<Rightarrow> ('s, 'p) accessorStreamer \<Rightarrow> ('s, 'l) proofsCache \<Rightarrow> (string + byte list list) \<times> ('s, 'l) proofsCache" where
  "proofsCache_Shares L R A c =
     (case proofsCache_Size A c of
        (Inl e, c1) \<Rightarrow> (Inl e, c1)
      | (Inr sz, c1) \<Rightarrow> let odsSize = nat (sz div 2) in pc_shares L R A odsSize [0..<odsSize] [] c1)"

definition lift_pc :: "('s, 'l) proofsCache \<Rightarrow> 'a \<times> 's \<Rightarrow> 'a \<times> ('s, 'l) proofsCache" where
  "lift_pc c r = (fst r, c\<lparr>pc_inner := snd r\<rparr>)"

definition WithProofsCache ::
    "square_lib \<Rightarrow> ('p, 'b) ipld_lib \<Rightarrow> ('l, 'b) axis_lru \<Rightarrow> ('s, 'p) accessorStreamer \<Rightarrow> (('s, 'l) proofsCache, 'p) accessorStreamer" where
  "WithProofsCache L I R A = \<lparr>
     a_Size = proofsCache_Size A,
     a_DataHash = proofsCache_DataHash A,
     a_AxisRoots = proofsCache_AxisRoots A,
     a_Sample = proofsCache_Sample L I R A,
     a_AxisHalf = proofsCache_AxisHalf L R A,
     a_RowNamespaceData = proofsCache_RowNamespaceData L I R A,
     a_Shares = proofsCache_Shares L R A,
     a_RangeNamespaceData = (\<lambda>from to c. lift_pc c (a_RangeNamespaceData A from to (pc_inner c))),
     a_Reader = (\<lambda>c. lift_pc c (a_Reader A (pc_inner c))),
     a_Close = (\<lambda>c. lift_pc c (a_Close A (pc_inner c)))\<rparr>"

section \<open>Namespaces over rows\<close>

text \<open>The rows are requested at the same time by the code; here they are requested in order.\<close>

fun nd_rows :: "('s, 'p) accessorStreamer \<Rightarrow> byte list \<Rightarrow> nat list \<Rightarrow> 's \<Rightarrow> (string + 'p RowNamespaceData list) \<times> 's" where
  "nd_rows A namespace [] s = (Inr [], s)"
| "nd_rows A namespace (idx # idxs) s =
     (case a_RowNamespaceData A False namespace (int idx) s of
        (Inl e, s1) \<Rightarrow> (Inl e, s1)
      | (Inr rowData, s1) \<Rightarrow>
          (case nd_rows A namespace idxs s1 of
             (Inl e, s2) \<Rightarrow> (Inl e, s2)
           | (Inr rows, s2) \<Rightarrow> (Inr (rowData # rows), s2)))"

definition eds_NamespaceData :: "'p nmt_lib \<Rightarrow> ('s, 'p) accessorStreamer \<Rightarrow> byte list \<Rightarrow> 's \<Rightarrow> (string + 'p NamespaceData) \<times> 's" where
  "eds_NamespaceData N A namespace s =
     (case a_AxisRoots A s of
        (Inl e, s1) \<Rightarrow> (Inl e, s1)
      | (Inr roots, s1) \<Rightarrow>
          (case RowsWithNamespace N roots namespace of
             Inl e \<Rightarrow> (Inl e, s1)
           | Inr rowIdxs \<Rightarrow> nd_rows A namespace rowIdxs s1))"

section \<open>The accessor of a block in the store\<close>

text \<open>\<^verbatim>\<open>wrapAccessor\<close> in \<^verbatim>\<open>store/store.go\<close>. Reading the stream and closing go past the checks of the indexes.\<close>

definition AccessorAndStreamer :: "('s validation, 'p) accessorStreamer \<Rightarrow> ('s, 'p) accessorStreamer \<Rightarrow> ('s validation, 'p) accessorStreamer" where
  "AccessorAndStreamer A S = A\<lparr>a_Reader := (\<lambda>f. lift_v f (a_Reader S (v_inner f))), a_Close := (\<lambda>f. lift_v f (a_Close S (v_inner f)))\<rparr>"

definition wrapAccessor ::
    "square_lib \<Rightarrow> byte list nslib \<Rightarrow> ('p, 'b) ipld_lib \<Rightarrow> ('l, 'b) axis_lru \<Rightarrow> ('s, 'p) accessorStreamer
      \<Rightarrow> (('s, 'l) proofsCache closeOnce validation, 'p) accessorStreamer" where
  "wrapAccessor L nsl I R A =
     (let withCache = WithProofsCache L I R A; closedOnce = WithClosedOnce withCache; sanityChecked = WithValidation nsl closedOnce in
      AccessorAndStreamer sanityChecked closedOnce)"

definition wrap_state :: "'s \<Rightarrow> ('s, 'l) proofsCache closeOnce validation" where
  "wrap_state s = \<lparr>v_inner = \<lparr>co_f = \<lparr>pc_inner = s, pc_size = 0, pc_dataHash = None, rootsCache = None, axisCache = None, pc_disableCache = False\<rparr>,
     closed = False\<rparr>, v_size = 0\<rparr>"

end
