(* ===== verification/EdsAccessProofs.thy ===== *)
theory EdsAccessProofs
  imports EdsAccess
begin

text \<open>
  The contract of an accessor for a square, what a client gets from it, and that the square in memory, the files of a block
  and every wrapper keep it.
\<close>

section \<open>Namespaces of a row\<close>

text \<open>The shares of a namespace stand next to each other in a row, as they do in a square sorted by namespace.\<close>

definition ns_run :: "square_lib \<Rightarrow> byte list \<Rightarrow> byte list list \<Rightarrow> bool" where
  "ns_run L ns ys \<longleftrightarrow> (\<exists>a b. a \<le> b \<and> b \<le> length ys \<and> (\<forall>i < length ys. ShareNamespace L (ys ! i) = ns \<longleftrightarrow> a \<le> i \<and> i < b))"

definition run_of :: "square_lib \<Rightarrow> byte list \<Rightarrow> byte list list \<Rightarrow> nat \<Rightarrow> nat \<Rightarrow> bool" where
  "run_of L ns ys a b \<longleftrightarrow> a < b \<and> b \<le> length ys \<and> (\<forall>i < length ys. ShareNamespace L (ys ! i) = ns \<longleftrightarrow> a \<le> i \<and> i < b)"

lemma ns_scan_inside: "(\<forall>x \<in> set xs. ShareNamespace L x = ns) \<Longrightarrow> ys = [] \<or> ShareNamespace L (hd ys) \<noteq> ns \<Longrightarrow> 0 < c
  \<Longrightarrow> ns_scan L ns i (xs @ ys) (f, c) = (f, c + length xs)"
proof (induction xs arbitrary: i c)
  case Nil
  then show ?case by (cases ys) auto
qed simp

lemma ns_scan_before: "(\<forall>x \<in> set xs. ShareNamespace L x \<noteq> ns) \<Longrightarrow> ns_scan L ns i (xs @ ys) (f, 0) = ns_scan L ns (i + length xs) ys (f, 0)"
  by (induction xs arbitrary: i) auto

lemma ns_scan_none: "(\<forall>x \<in> set ys. ShareNamespace L x \<noteq> ns) \<Longrightarrow> ns_scan L ns 0 ys (0, 0) = (0, 0)"
  using ns_scan_before [of ys L ns 0 "[]" 0] by simp

lemma ns_scan_run:
  assumes "run_of L ns ys a b"
  shows "ns_scan L ns 0 ys (0, 0) = (a, b - a)"
proof -
  have r: "a < b" "b \<le> length ys" "\<And>i. i < length ys \<Longrightarrow> ShareNamespace L (ys ! i) = ns \<longleftrightarrow> a \<le> i \<and> i < b" using assms by (auto simp: run_of_def)
  have "drop a ys = ys ! a # drop (Suc a) ys" using r(1,2) by (simp add: Cons_nth_drop_Suc)
  moreover have "drop (Suc a) ys = slice (Suc a) b ys @ drop b ys"
    using append_take_drop_id [of "b - Suc a" "drop (Suc a) ys"] r(1) by (simp add: slice_def)
  ultimately have split: "take a ys @ ys ! a # slice (Suc a) b ys @ drop b ys = ys" using append_take_drop_id [of a ys] by simp
  have 1: "\<forall>x \<in> set (take a ys). ShareNamespace L x \<noteq> ns" 
  proof
    fix x assume "x \<in> set (take a ys)"
    then obtain i where "i < a" "i < length ys" "x = ys ! i" by (auto simp: in_set_conv_nth)
    then show "ShareNamespace L x \<noteq> ns" using r(3) [of i] by simp
  qed
  have 2: "\<forall>x \<in> set (slice (Suc a) b ys). ShareNamespace L x = ns" using r by (auto simp: in_set_conv_nth slice_def)
  have 3: "drop b ys = [] \<or> ShareNamespace L (hd (drop b ys)) \<noteq> ns" using r by (cases "b < length ys") (auto simp: hd_drop_conv_nth)
  have l: "length (slice (Suc a) b ys) = b - Suc a" "length (take a ys) = a" using r(1,2) by (simp_all add: slice_def)
  have "ns_scan L ns 0 ys (0, 0) = ns_scan L ns a (ys ! a # slice (Suc a) b ys @ drop b ys) (0, 0)"
    using ns_scan_before [OF 1, of 0 "ys ! a # slice (Suc a) b ys @ drop b ys" 0] l unfolding split by simp
  also have "\<dots> = ns_scan L ns (Suc a) (slice (Suc a) b ys @ drop b ys) (a, 1)" using r(3) [of a] r(1,2) by simp
  also have "\<dots> = (a, b - a)" using ns_scan_inside [OF 2 3, of 1 "Suc a" a] l r(1) by simp
  finally show ?thesis .
qed

text \<open>Trees prove that a namespace is absent, and the run of its leaves when it is there.\<close>

definition ns_prove_law :: "square_lib \<Rightarrow> 'p nmt_lib \<Rightarrow> bool" where
  "ns_prove_law L N \<longleftrightarrow> (\<forall>k ax xs r ns. axis_leaves L k xs \<longrightarrow> ax < k \<longrightarrow> TreeRoot N k ax xs = Inr r \<longrightarrow> IsOutsideRange N ns r r = Inr False \<longrightarrow>
     ((\<forall>x \<in> set (take k xs). ShareNamespace L x \<noteq> ns) \<longrightarrow>
        (\<exists>p. ProveNamespace N k ax xs ns = Inr p \<and> \<not> IsEmptyProof N p \<and> IsOfAbsence N p \<and> VerifyNamespace N p ns [] r))
     \<and> (\<forall>a b. run_of L ns (take k xs) a b \<longrightarrow>
        (\<exists>p. ProveRange N k ax xs (int a) (int b) = Inr p \<and> \<not> IsEmptyProof N p \<and> \<not> IsOfAbsence N p
           \<and> VerifyNamespace N p ns (map (\<lambda>x. ShareNamespace L x @ x) (slice a b xs)) r)))"

lemma row_namespace_served:
  assumes law: "ns_prove_law L N" and t: "axis_leaves L k xs" "TreeRoot N k i xs = Inr (RowRoots roots ! i)" "i < k"
    and ns: "ns_run L ns (take k xs)" "IsOutsideRange N ns (RowRoots roots ! i) (RowRoots roots ! i) = Inr False"
  shows "\<exists>d. RowNamespaceDataFromShares L N xs ns i = Inr d \<and> RowNamespaceData_Verify L N roots ns i d = None \<and> shares_ok L (rnd_Shares d)"
proof -
  have len: "length xs = 2 * k" "length xs div 2 = k" "shares_ok L xs" using t(1) by (auto simp: axis_leaves_def)
  obtain a b where ab: "a \<le> b" "b \<le> length (take k xs)" "\<And>j. j < length (take k xs) \<Longrightarrow> ShareNamespace L (take k xs ! j) = ns \<longleftrightarrow> a \<le> j \<and> j < b"
    using ns(1) unfolding ns_run_def by blast
  note lw = law [unfolded ns_prove_law_def, rule_format, OF t(1,3,2) ns(2)]
  show ?thesis
  proof (cases "a < b")
    case True
    then have r: "run_of L ns (take k xs) a b" using ab by (simp add: run_of_def)
    obtain p where p: "ProveRange N k i xs (int a) (int b) = Inr p" "\<not> IsEmptyProof N p" "\<not> IsOfAbsence N p"
        "VerifyNamespace N p ns (map (\<lambda>x. ShareNamespace L x @ x) (slice a b xs)) (RowRoots roots ! i)" using conjunct2 [OF lw] r by blast
    have "slice a b xs \<noteq> []" using True ab(2) len by (simp add: slice_def)
    then show ?thesis using p ns(2) t(2) len True ns_scan_run [OF r] shares_ok_sub [OF len(3) set_slice]
      by (simp add: RowNamespaceDataFromShares_def RowNamespaceData_Verify_def rnd_verifyInclusion_def)
  next
    case False
    have n: "\<forall>x \<in> set (take k xs). ShareNamespace L x \<noteq> ns"
    proof
      fix x assume "x \<in> set (take k xs)"
      then obtain j where "j < length (take k xs)" "x = take k xs ! j" by (auto simp: in_set_conv_nth)
      then show "ShareNamespace L x \<noteq> ns" using ab(3) [of j] False by simp
    qed
    then obtain p where p: "ProveNamespace N k i xs ns = Inr p" "\<not> IsEmptyProof N p" "IsOfAbsence N p" "VerifyNamespace N p ns [] (RowRoots roots ! i)"
      using conjunct1 [OF lw] by blast
    then show ?thesis using ns(2) t(2) len ns_scan_none [OF n]
      by (simp add: RowNamespaceDataFromShares_def RowNamespaceData_Verify_def rnd_verifyInclusion_def shares_ok_def)
  qed
qed

section \<open>The contract\<close>

text \<open>A square with its roots and the namespaces that can be asked for, over packages that have their documented laws.\<close>

definition square_ok :: "square_lib \<Rightarrow> 'p nmt_lib \<Rightarrow> (byte list \<Rightarrow> bool) \<Rightarrow> eds \<Rightarrow> AxisRoots \<Rightarrow> bool" where
  "square_ok L N ns_ok eds roots \<longleftrightarrow> lib_ok L \<and> eds_ok L eds \<and> Width eds < 2 ^ 16 \<and> roots_of N eds roots \<and> prove_law L N \<and> ns_prove_law L N \<and> range_law L N
     \<and> (\<forall>ns. ns_ok ns \<longrightarrow> IsLessThan N ns (ParitySharesNamespace L) \<and> (\<forall>i < Width eds div 2. ns_run L ns (take (Width eds div 2) (eds_row eds i))))"

definition row_inside :: "'p nmt_lib \<Rightarrow> AxisRoots \<Rightarrow> byte list \<Rightarrow> nat \<Rightarrow> bool" where
  "row_inside N roots ns i \<longleftrightarrow> IsOutsideRange N ns (RowRoots roots ! i) (RowRoots roots ! i) = Inr False"

definition good_half :: "eds \<Rightarrow> axis \<Rightarrow> int \<Rightarrow> AxisHalf \<Rightarrow> bool" where
  "good_half eds ax i h \<longleftrightarrow> half_of eds ax (nat i) h \<and> (nat i < Width eds div 2 \<longrightarrow> \<not> IsParity h)"

definition good_sample :: "square_lib \<Rightarrow> 'p nmt_lib \<Rightarrow> eds \<Rightarrow> AxisRoots \<Rightarrow> SampleCoords \<Rightarrow> 'p Sample \<Rightarrow> bool" where
  "good_sample L N eds roots idx x \<longleftrightarrow> Sample_Verify L N roots (nat (Row idx)) (nat (Col idx)) x = None \<and> s_Share x = GetCell eds (nat (Row idx)) (nat (Col idx))"

definition good_row :: "square_lib \<Rightarrow> 'p nmt_lib \<Rightarrow> AxisRoots \<Rightarrow> byte list \<Rightarrow> int \<Rightarrow> 'p RowNamespaceData \<Rightarrow> bool" where
  "good_row L N roots ns i d \<longleftrightarrow> RowNamespaceData_Verify L N roots ns (nat i) d = None \<and> shares_ok L (rnd_Shares d)"

definition in_square :: "eds \<Rightarrow> int \<Rightarrow> bool" where
  "in_square eds i \<longleftrightarrow> 0 \<le> i \<and> i < int (Width eds)"

definition coords_in :: "eds \<Rightarrow> SampleCoords \<Rightarrow> bool" where
  "coords_in eds idx \<longleftrightarrow> in_square eds (Row idx) \<and> in_square eds (Col idx)"

definition gives :: "(string + 'a) \<times> 's \<Rightarrow> ('a \<Rightarrow> bool) \<Rightarrow> ('s \<Rightarrow> bool) \<Rightarrow> bool" where
  "gives r P J = (case r of (Inr x, s) \<Rightarrow> P x \<and> J s | (Inl e, s) \<Rightarrow> False)"

lemma givesI [intro]: "P x \<Longrightarrow> J s \<Longrightarrow> gives (Inr x, s) P J"
  by (simp add: gives_def)

lemma givesE:
  assumes "gives r P J"
  obtains x s where "r = (Inr x, s)" "P x" "J s"
  using assms by (auto simp: gives_def split: prod.splits sum.splits)

lemma rows_with_namespace_total:
  "\<forall>r \<in> set rs. \<exists>b. IsOutsideRange N ns r r = Inr b \<Longrightarrow> \<exists>idxs. rows_with_namespace N ns n rs = Inr idxs"
proof (induction rs arbitrary: n)
  case (Cons r rs)
  then obtain b idxs where "IsOutsideRange N ns r r = Inr b" "rows_with_namespace N ns (Suc n) rs = Inr idxs" by fastforce
  then show ?case by simp
qed simp

locale square_accessor =
  fixes L :: square_lib and N :: "'p nmt_lib" and ns_ok :: "byte list \<Rightarrow> bool" and eds :: eds and roots :: AxisRoots
    and A :: "('s, 'p) accessorStreamer" and J :: "'s \<Rightarrow> bool"
  assumes square: "J s \<Longrightarrow> square_ok L N ns_ok eds roots"
    and Size: "J s \<Longrightarrow> gives (a_Size A s) (\<lambda>n. n = int (Width eds)) J"
    and AxisRoots: "J s \<Longrightarrow> gives (a_AxisRoots A s) (\<lambda>r. r = roots) J"
    and AxisHalf: "J s \<Longrightarrow> in_square eds i \<Longrightarrow> ax = AxisRow \<or> ax = AxisCol \<Longrightarrow> gives (a_AxisHalf A ax i s) (good_half eds ax i) J"
    and Sample: "J s \<Longrightarrow> coords_in eds idx \<Longrightarrow> gives (a_Sample A idx s) (good_sample L N eds roots idx) J"
    and RowNamespaceData: "J s \<Longrightarrow> ns_ok ns \<Longrightarrow> in_square eds i \<Longrightarrow> row_inside N roots ns (nat i)
      \<Longrightarrow> gives (a_RowNamespaceData A off ns i s) (good_row L N roots ns i) J"
    and Shares: "J s \<Longrightarrow> gives (a_Shares A s) (\<lambda>xs. xs = FlattenedODS eds) J"
begin

text \<open>All rows of a namespace, put together, verify and are complete.\<close>

lemma nd_rows_good:
  assumes "J s" "ns_ok ns" "\<forall>i \<in> set idxs. i < Width eds \<and> row_inside N roots ns i"
  shows "gives (nd_rows A ns idxs s) (\<lambda>nd. length nd = length idxs \<and> nd_verify_rows L N roots ns idxs nd = None \<and> (\<forall>d \<in> set nd. shares_ok L (rnd_Shares d))) J"
  using assms
proof (induction idxs arbitrary: s)
  case Nil
  then show ?case by (simp add: gives_def)
next
  case (Cons i idxs)
  have "in_square eds (int i)" using Cons.prems(3) by (simp add: in_square_def)
  then have "gives (a_RowNamespaceData A False ns (int i) s) (good_row L N roots ns (int i)) J" using RowNamespaceData [OF Cons.prems(1,2)] Cons.prems(3) by simp
  then obtain d s1 where d: "a_RowNamespaceData A False ns (int i) s = (Inr d, s1)" "good_row L N roots ns (int i) d" "J s1" by (rule givesE)
  obtain nd s2 where nd: "nd_rows A ns idxs s1 = (Inr nd, s2)" "length nd = length idxs" "nd_verify_rows L N roots ns idxs nd = None" "\<forall>d \<in> set nd. shares_ok L (rnd_Shares d)" "J s2"
    using Cons.IH [OF d(3) Cons.prems(2)] Cons.prems(3) by (auto elim!: givesE)
  then show ?case using d by (auto simp: gives_def good_row_def)
qed

lemma NamespaceData_complete:
  assumes s: "J s" and ns: "ns_ok ns" "ns \<noteq> ParitySharesNamespace L" and law: "namespace_law L N"
  shows "gives (eds_NamespaceData N A ns s) (\<lambda>nd. NamespaceData_Verify L N roots ns nd = None \<and> nd_Flatten nd = filter (\<lambda>x. ShareNamespace L x = ns) (FlattenedODS eds)) J"
proof -
  note sq = square [OF s, unfolded square_ok_def]
  obtain s1 where r: "a_AxisRoots A s = (Inr roots, s1)" "J s1" using AxisRoots [OF s] by (auto elim!: givesE)
  have w: "length (RowRoots roots) = Width eds" using sq by (simp add: roots_of_def)
  have tr: "axis_leaves L (Width eds div 2) (eds_row eds i)" "TreeRoot N (Width eds div 2) i (eds_row eds i) = Inr (RowRoots roots ! i)" if "i < Width eds" for i
    using row_leaves [of L eds i] sq that by (simp_all add: roots_of_def)
  have ok: "\<exists>b. IsOutsideRange N ns r r = Inr b" if r: "r \<in> set (RowRoots roots)" for r
  proof -
    obtain i where "i < Width eds" "r = RowRoots roots ! i" using r w by (metis in_set_conv_nth)
    then show ?thesis using conjunct1 [OF conjunct2 [OF conjunct2 [OF conjunct2 [OF conjunct2 [OF conjunct2 [OF conjunct2 [OF sq]]]]]]] tr [of i]
      unfolding range_law_def by (fastforce simp: IsOutsideRange_def Let_def)
  qed
  obtain idxs where i: "RowsWithNamespace N roots ns = Inr idxs" using rows_with_namespace_total [of "RowRoots roots" N ns 0] ok by (auto simp: RowsWithNamespace_def)
  have rows: "\<forall>i \<in> set idxs. i < Width eds \<and> row_inside N roots ns i" using RowsWithNamespace_filter [OF i] w by (auto simp: row_inside_def)
  obtain nd s2 where nd: "nd_rows A ns idxs s1 = (Inr nd, s2)" "length nd = length idxs" "nd_verify_rows L N roots ns idxs nd = None" "\<forall>d \<in> set nd. shares_ok L (rnd_Shares d)" "J s2"
    using nd_rows_good [OF r(2) ns(1) rows] by (auto elim!: givesE)
  have v: "NamespaceData_Verify L N roots ns nd = None" using nd i by (simp add: NamespaceData_Verify_def)
  have "nd_Flatten nd = filter (\<lambda>x. ShareNamespace L x = ns) (FlattenedODS eds)" using sq ns law nd(4) v by (intro nd_sound) auto
  then show ?thesis using r nd i v by (auto simp: eds_NamespaceData_def gives_def)
qed

end

section \<open>The square in memory\<close>

lemma square_okD:
  assumes "square_ok L N ns_ok eds roots"
  shows "lib_ok L" "eds_ok L eds" "Width eds < 2 ^ 16" "roots_of N eds roots" "prove_law L N" "ns_prove_law L N" "range_law L N"
    "ns_ok ns \<Longrightarrow> IsLessThan N ns (ParitySharesNamespace L)" "ns_ok ns \<Longrightarrow> i < Width eds div 2 \<Longrightarrow> ns_run L ns (take (Width eds div 2) (eds_row eds i))"
  using assms by (auto simp: square_ok_def)

lemma row_of_square:
  assumes sq: "square_ok L N ns_ok eds roots" and ns: "ns_ok ns" and i: "i < Width eds" "row_inside N roots ns i"
  shows "\<exists>d. RowNamespaceDataFromShares L N (eds_row eds i) ns i = Inr d \<and> good_row L N roots ns (int i) d"
proof -
  let ?k = "Width eds div 2"
  have t: "axis_leaves L ?k (eds_row eds i)" "TreeRoot N ?k i (eds_row eds i) = Inr (RowRoots roots ! i)"
    using row_leaves [OF square_okD(2) [OF sq] i(1)] square_okD(4) [OF sq] i(1) by (simp_all add: roots_of_def)
  have k: "i < ?k"
  proof (rule ccontr)
    assume "\<not> i < ?k"
    then show False using parity_outside [OF square_okD(7) [OF sq] t _ square_okD(8) [OF sq ns]] i(2) by (simp add: row_inside_def)
  qed
  show ?thesis using row_namespace_served [OF square_okD(6) [OF sq] t k square_okD(9) [OF sq ns k]] i(2) by (simp add: row_inside_def good_row_def)
qed

lemma getAxis_ok:
  assumes "square_ok L N ns_ok eds roots" "in_square eds i" "ax = AxisRow \<or> ax = AxisCol"
  shows "getAxis L eds ax i = Inr (eds_axis eds ax (nat i))"
proof -
  have "nat i < Width eds" using assms(2) by (auto simp: in_square_def)
  then have "shares_ok L (eds_axis eds ax (nat i))" using eds_okD(2) [OF square_okD(2) [OF assms(1)]] assms(3) by blast
  then show ?thesis using assms(2,3) FromBytes_ok [OF lib_okD(1) [OF square_okD(1) [OF assms(1)]]] by (auto simp: getAxis_def in_square_def eds_axis_def)
qed

lemma coords_inE:
  assumes "coords_in eds idx"
  obtains r c where "idx = \<lparr>Row = int r, Col = int c\<rparr>" "r < Width eds" "c < Width eds"
proof -
  have "idx = \<lparr>Row = int (nat (Row idx)), Col = int (nat (Col idx))\<rparr>" "nat (Row idx) < Width eds" "nat (Col idx) < Width eds"
    using assms by (cases idx; auto simp: coords_in_def in_square_def)+
  then show thesis by (rule that)
qed

lemma SampleForProofAxis_ok:
  assumes sq: "square_ok L N ns_ok eds roots" and idx: "coords_in eds idx"
  shows "\<exists>x. SampleForProofAxis L N eds idx AxisRow = Inr x \<and> good_sample L N eds roots idx x"
proof -
  obtain r c where rc: "idx = \<lparr>Row = int r, Col = int c\<rparr>" "r < Width eds" "c < Width eds" by (rule coords_inE [OF idx])
  have "length (eds_row eds r) = Width eds" using eds_okD(1) [OF square_okD(2) [OF sq] rc(2), of AxisRow] by (simp add: eds_axis_def)
  then have "SampleForProofAxis L N eds idx AxisRow = SampleFromShares N (eds_row eds r) AxisRow idx"
    using getAxis_ok [OF sq, of "int r" AxisRow] rc by (simp add: SampleForProofAxis_def relativeIndexes_def SampleFromShares_def in_square_def eds_axis_def split: sum.split)
  then show ?thesis using sample_served(1) [OF square_okD(2,4,5) [OF sq] rc(2,3)] rc(1) by (simp add: good_sample_def)
qed

definition Rsmt2D_inv :: "square_lib \<Rightarrow> 'p nmt_lib \<Rightarrow> eds_lib \<Rightarrow> (byte list \<Rightarrow> bool) \<Rightarrow> eds \<Rightarrow> AxisRoots \<Rightarrow> eds \<Rightarrow> bool" where
  "Rsmt2D_inv L N E ns_ok eds roots s \<longleftrightarrow> s = eds \<and> square_ok L N ns_ok eds roots \<and> NewDataAvailabilityHeader E eds = Inr roots"

interpretation rs: square_accessor L N ns_ok eds roots "Rsmt2D L N E" "Rsmt2D_inv L N E ns_ok eds roots" for L N E ns_ok eds roots
proof
  fix s assume s: "Rsmt2D_inv L N E ns_ok eds roots s"
  then have sq: "square_ok L N ns_ok eds roots" and e: "s = eds" "NewDataAvailabilityHeader E eds = Inr roots" by (simp_all add: Rsmt2D_inv_def)
  note fb = FromBytes_ok [OF lib_okD(1) [OF square_okD(1) [OF sq]]]
  show "square_ok L N ns_ok eds roots" by (rule sq)
  show "gives (a_Size (Rsmt2D L N E) s) (\<lambda>n. n = int (Width eds)) (Rsmt2D_inv L N E ns_ok eds roots)" using s e by (simp add: Rsmt2D_def gives_def)
  show "gives (a_AxisRoots (Rsmt2D L N E) s) (\<lambda>r. r = roots) (Rsmt2D_inv L N E ns_ok eds roots)" using s e by (simp add: Rsmt2D_def gives_def Rsmt2D_AxisRoots_def)
  show "gives (a_AxisHalf (Rsmt2D L N E) ax i s) (good_half eds ax i) (Rsmt2D_inv L N E ns_ok eds roots)" if "in_square eds i" "ax = AxisRow \<or> ax = AxisCol" for i ax
    using s e getAxis_ok [OF sq that] by (simp add: Rsmt2D_def gives_def Rsmt2D_AxisHalf_def good_half_def half_of_def)
  show "gives (a_Sample (Rsmt2D L N E) idx s) (good_sample L N eds roots idx) (Rsmt2D_inv L N E ns_ok eds roots)" if "coords_in eds idx" for idx
    using s e SampleForProofAxis_ok [OF sq that] by (auto simp: Rsmt2D_def gives_def)
  show "gives (a_RowNamespaceData (Rsmt2D L N E) off ns i s) (good_row L N roots ns i) (Rsmt2D_inv L N E ns_ok eds roots)"
    if "ns_ok ns" "in_square eds i" "row_inside N roots ns (nat i)" for ns i off
  proof -
    have n: "nat i < Width eds" "int (nat i) = i" using that(2) by (auto simp: in_square_def)
    have "shares_ok L (eds_row eds (nat i))" using eds_okD(2) [OF square_okD(2) [OF sq] n(1), of AxisRow] by (simp add: eds_axis_def)
    then show ?thesis using s e that(2) n row_of_square [OF sq that(1) n(1) that(3)] fb by (auto simp: Rsmt2D_def gives_def Rsmt2D_RowNamespaceData_def in_square_def)
  qed
  show "gives (a_Shares (Rsmt2D L N E) s) (\<lambda>xs. xs = FlattenedODS eds) (Rsmt2D_inv L N E ns_ok eds roots)"
    using s e fb FlattenedODS_shares(1) [OF square_okD(2) [OF sq]] by (simp add: Rsmt2D_def gives_def Rsmt2D_Shares_def)
qed

section \<open>The files of a block\<close>

lemma ODSQ4_AxisHalf_low:
  assumes b: "block_ok L nsSize roots hash eds" and o4: "ODSQ4_valid L roots hash eds o4" and i: "i < Width eds div 2" "ax = AxisRow \<or> ax = AxisCol"
  shows "ODSQ4_AxisHalf L cache o4 ax i = (Inr \<lparr>Shares = take (Width eds div 2) (eds_axis eds ax i), IsParity = False\<rparr>, o4)"
proof -
  have f: "ODS_valid L roots hash eds (oq_ods o4)" using o4 by (simp add: ODSQ4_valid_def)
  show ?thesis using i ODS_readAxisHalf_ok [OF b f i] ODS_valid_size [OF b f] by (simp add: ODSQ4_AxisHalf_def ODS_AxisHalf_def)
qed

definition files_inv :: "square_lib \<Rightarrow> 'p nmt_lib \<Rightarrow> (nat, nat) fmap \<Rightarrow> (byte list \<Rightarrow> bool) \<Rightarrow> nat \<Rightarrow> byte list \<Rightarrow> eds \<Rightarrow> AxisRoots \<Rightarrow> ODSQ4 \<times> nat \<Rightarrow> bool" where
  "files_inv L N cache ns_ok nsSize hash eds roots s \<longleftrightarrow> block_ok L nsSize roots hash eds \<and> codec_cache_ok cache \<and> square_ok L N ns_ok eds roots
     \<and> ODSQ4_valid L roots hash eds (fst s)"

interpretation fs: square_accessor L N ns_ok eds roots "ODSQ4_accessor L N cache" "files_inv L N cache ns_ok nsSize hash eds roots" for L N cache ns_ok nsSize hash eds roots
proof
  let ?J = "files_inv L N cache ns_ok nsSize hash eds roots" and ?A = "ODSQ4_accessor L N cache"
  fix s assume s: "?J s"
  obtain o4 n where o4: "s = (o4, n)" by fastforce
  then have b: "block_ok L nsSize roots hash eds" "ODSQ4_valid L roots hash eds o4" "codec_cache_ok cache" and sq: "square_ok L N ns_ok eds roots" using s by (auto simp: files_inv_def)
  have f: "ODS_valid L roots hash eds (oq_ods o4)" using b(2) by (simp add: ODSQ4_valid_def)
  have J: "?J (o41, n)" if "ODSQ4_valid L roots hash eds o41" for o41 using that b sq by (simp add: files_inv_def)
  show "square_ok L N ns_ok eds roots" by (rule sq)
  show "gives (a_Size ?A s) (\<lambda>n. n = int (Width eds)) ?J" using s o4 ODS_valid_size [OF b(1) f] by (simp add: ODSQ4_accessor_def gives_def)
  show "gives (a_AxisRoots ?A s) (\<lambda>r. r = roots) ?J" using s o4 ODS_AxisRoots_ok [OF b(1) f] by (simp add: ODSQ4_accessor_def gives_def)
  show "gives (a_AxisHalf ?A ax i s) (good_half eds ax i) ?J" if "in_square eds i" "ax = AxisRow \<or> ax = AxisCol" for i ax
  proof -
    have i: "nat i < Width eds" using that(1) by (auto simp: in_square_def)
    show ?thesis using ODSQ4_AxisHalf_ok [OF b i that(2)] ODSQ4_AxisHalf_low [OF b(1,2) _ that(2), of "nat i" cache] J o4
      by (auto simp: ODSQ4_accessor_def gives_def with_count_def good_half_def)
  qed
  have row: "\<exists>o41. ODSQ4_row L cache o4 i = (Inr (eds_row eds i), o41) \<and> ODSQ4_valid L roots hash eds o41" if "i < Width eds" for i
    by (rule ODSQ4_row_ok [OF b that])
  show "gives (a_Sample ?A idx s) (good_sample L N eds roots idx) ?J" if idx: "coords_in eds idx" for idx
  proof -
    obtain r c where rc: "idx = \<lparr>Row = int r, Col = int c\<rparr>" "r < Width eds" "c < Width eds" by (rule coords_inE [OF idx])
    show ?thesis using row [OF rc(2)] sample_served(1) [OF square_okD(2,4,5) [OF sq] rc(2,3)] rc(1) J o4
      by (auto simp: ODSQ4_accessor_def gives_def with_count_def ODSQ4_Sample_def good_sample_def)
  qed
  show "gives (a_RowNamespaceData ?A off ns i s) (good_row L N roots ns i) ?J" if "ns_ok ns" "in_square eds i" "row_inside N roots ns (nat i)" for ns i off
  proof -
    have n: "nat i < Width eds" "int (nat i) = i" using that(2) by (auto simp: in_square_def)
    show ?thesis using row [OF n(1)] row_of_square [OF sq that(1) n(1) that(3)] n(2) J o4 by (auto simp: ODSQ4_accessor_def gives_def with_count_def ODSQ4_RowNamespaceData_def)
  qed
  show "gives (a_Shares ?A s) (\<lambda>xs. xs = FlattenedODS eds) ?J" using ODSQ4_Shares_ok [OF b(1,2)] J o4 by (auto simp: ODSQ4_accessor_def gives_def with_count_def)
qed

section \<open>Checked indexes\<close>

text \<open>A size that is kept is that of the square, which is small enough for 32 bits.\<close>

definition size_kept :: "eds \<Rightarrow> 32 word \<Rightarrow> bool" where
  "size_kept eds w \<longleftrightarrow> w = 0 \<or> sint w = int (Width eds)"

lemma size_kept_new: "Width eds < 2 ^ 16 \<Longrightarrow> size_kept eds (word_of_int (int (Width eds)))"
proof -
  assume w: "Width eds < 2 ^ 16"
  then have "unat (word_of_nat (Width eds) :: 32 word) = Width eds" by (simp add: unat_of_nat)
  then have "sint (word_of_nat (Width eds) :: 32 word) = int (Width eds)" using w by (simp add: sint_uint uint_nat signed_take_bit_int_eq_self)
  then show ?thesis by (simp add: size_kept_def)
qed

lemmas id_checks = NewRowID_def NewSampleID_def SampleID_Verify_def SampleID_Validate_def RowID_Verify_def RowID_Validate_def EdsID_Validate_def Let_def

lemma NewRowID_inside: "in_square eds i \<Longrightarrow> \<exists>rid. NewRowID 1 i (int (Width eds)) = Inr rid"
  by (auto simp: id_checks in_square_def)

lemma NewRowID_outside: "\<not> in_square eds i \<Longrightarrow> \<exists>e. NewRowID 1 i (int (Width eds)) = Inl e"
  by (auto simp: id_checks in_square_def)

lemma NewSampleID_inside: "coords_in eds idx \<Longrightarrow> \<exists>sid. NewSampleID 1 idx (int (Width eds)) = Inr sid"
  by (auto simp: id_checks in_square_def coords_in_def)

lemma NewSampleID_outside: "\<not> coords_in eds idx \<Longrightarrow> \<exists>e. NewSampleID 1 idx (int (Width eds)) = Inl e"
  by (auto simp: id_checks in_square_def coords_in_def)

context square_accessor
begin

definition v_inv :: "'s validation \<Rightarrow> bool" where
  "v_inv f \<longleftrightarrow> J (v_inner f) \<and> size_kept eds (v_size f)"

lemma size_kept_J: "J s \<Longrightarrow> size_kept eds (word_of_int (int (Width eds)))"
  using size_kept_new square_okD(3) [OF square] by blast

lemma validation_Size_ok:
  assumes "v_inv f"
  shows "gives (validation_Size A f) (\<lambda>n. n = int (Width eds)) v_inv"
proof (cases "v_size f = 0")
  case True
  have J: "J (v_inner f)" using assms by (simp add: v_inv_def)
  obtain s where "a_Size A (v_inner f) = (Inr (int (Width eds)), s)" "J s" using Size [OF J] by (auto elim!: givesE)
  then show ?thesis using True size_kept_J [OF J] by (simp add: validation_Size_def gives_def v_inv_def)
next
  case False
  then show ?thesis using assms by (auto simp: validation_Size_def gives_def v_inv_def size_kept_def)
qed

lemma lift_ok: "v_inv f \<Longrightarrow> gives r P J \<Longrightarrow> gives (lift_v f r) P v_inv"
  by (auto simp: v_inv_def lift_v_def gives_def split: prod.splits sum.splits)

lemma validated:
  assumes ns: "\<And>ns i. ns_ok ns \<Longrightarrow> in_square eds i \<Longrightarrow> \<exists>did. NewRowNamespaceDataID nsl 1 i ns (int (Width eds)) = Inr did"
  shows "square_accessor L N ns_ok eds roots (WithValidation nsl A) v_inv"
proof
  fix f assume f: "v_inv f"
  then have J: "J (v_inner f)" by (simp add: v_inv_def)
  obtain f1 where f1: "validation_Size A f = (Inr (int (Width eds)), f1)" "v_inv f1" using validation_Size_ok [OF f] by (auto elim!: givesE)
  then have J1: "J (v_inner f1)" by (simp add: v_inv_def)
  show "square_ok L N ns_ok eds roots" by (rule square [OF J])
  show "gives (a_Size (WithValidation nsl A) f) (\<lambda>n. n = int (Width eds)) v_inv" using validation_Size_ok [OF f] by (simp add: WithValidation_def)
  show "gives (a_AxisRoots (WithValidation nsl A) f) (\<lambda>r. r = roots) v_inv" using lift_ok [OF f AxisRoots [OF J]] by (simp add: WithValidation_def)
  show "gives (a_AxisHalf (WithValidation nsl A) ax i f) (good_half eds ax i) v_inv" if "in_square eds i" "ax = AxisRow \<or> ax = AxisCol" for i ax
  proof -
    show ?thesis using NewRowID_inside [OF that(1)] f1(1) lift_ok [OF f1(2) AxisHalf [OF J1 that]] by (auto simp: WithValidation_def validation_AxisHalf_def)
  qed
  show "gives (a_Sample (WithValidation nsl A) idx f) (good_sample L N eds roots idx) v_inv" if "coords_in eds idx" for idx
  proof -
    show ?thesis using NewSampleID_inside [OF that] f1(1) lift_ok [OF f1(2) Sample [OF J1 that]] by (auto simp: WithValidation_def validation_Sample_def)
  qed
  show "gives (a_RowNamespaceData (WithValidation nsl A) off x i f) (good_row L N roots x i) v_inv" if "ns_ok x" "in_square eds i" "row_inside N roots x (nat i)" for x i off
    using f1(1) lift_ok [OF f1(2) RowNamespaceData [OF J1 that]] ns [OF that(1,2)] by (auto simp: WithValidation_def validation_RowNamespaceData_def)
  show "gives (a_Shares (WithValidation nsl A) f) (\<lambda>xs. xs = FlattenedODS eds) v_inv" using lift_ok [OF f Shares [OF J]] by (simp add: WithValidation_def)
qed

text \<open>Requests outside the square are refused without reaching the accessor inside.\<close>

lemma half_refused: "v_inv f \<Longrightarrow> \<not> in_square eds i \<Longrightarrow> \<exists>e f1. validation_AxisHalf A ax i f = (Inl e, f1) \<and> v_inv f1"
  using validation_Size_ok [of f] NewRowID_outside [of eds i] by (auto simp: validation_AxisHalf_def elim!: givesE)

lemma sample_refused: "v_inv f \<Longrightarrow> \<not> coords_in eds idx \<Longrightarrow> \<exists>e f1. validation_Sample A idx f = (Inl e, f1) \<and> v_inv f1"
  using validation_Size_ok [of f] NewSampleID_outside [of eds idx] by (auto simp: validation_Sample_def elim!: givesE)

section \<open>Closed once\<close>

definition co_inv :: "'s closeOnce \<Rightarrow> bool" where
  "co_inv c \<longleftrightarrow> J (co_f c) \<and> \<not> closed c"

lemma call_open: "co_inv c \<Longrightarrow> closeOnce_call call c = (fst (call (co_f c)), c\<lparr>co_f := snd (call (co_f c))\<rparr>)"
  by (simp add: co_inv_def closeOnce_call_def split: prod.split)

lemma call_ok: "co_inv c \<Longrightarrow> gives r P J \<Longrightarrow> gives (fst r, c\<lparr>co_f := snd r\<rparr>) P co_inv"
  by (auto simp: co_inv_def gives_def split: prod.splits sum.splits)

lemma closed_once: "square_accessor L N ns_ok eds roots (WithClosedOnce A) co_inv"
proof
  fix c assume c: "co_inv c"
  then have J: "J (co_f c)" by (simp add: co_inv_def)
  show "square_ok L N ns_ok eds roots" by (rule square [OF J])
  show "gives (a_Size (WithClosedOnce A) c) (\<lambda>n. n = int (Width eds)) co_inv" using call_ok [OF c Size [OF J]] by (simp add: WithClosedOnce_def call_open [OF c])
  show "gives (a_AxisRoots (WithClosedOnce A) c) (\<lambda>r. r = roots) co_inv" using call_ok [OF c AxisRoots [OF J]] by (simp add: WithClosedOnce_def call_open [OF c])
  show "gives (a_AxisHalf (WithClosedOnce A) ax i c) (good_half eds ax i) co_inv" if "in_square eds i" "ax = AxisRow \<or> ax = AxisCol" for i ax
    using call_ok [OF c AxisHalf [OF J that]] by (simp add: WithClosedOnce_def call_open [OF c])
  show "gives (a_Sample (WithClosedOnce A) idx c) (good_sample L N eds roots idx) co_inv" if "coords_in eds idx" for idx
    using call_ok [OF c Sample [OF J that]] by (simp add: WithClosedOnce_def call_open [OF c])
  show "gives (a_RowNamespaceData (WithClosedOnce A) off x i c) (good_row L N roots x i) co_inv" if "ns_ok x" "in_square eds i" "row_inside N roots x (nat i)" for x i off
    using call_ok [OF c RowNamespaceData [OF J that]] by (simp add: WithClosedOnce_def call_open [OF c])
  show "gives (a_Shares (WithClosedOnce A) c) (\<lambda>xs. xs = FlattenedODS eds) co_inv" using call_ok [OF c Shares [OF J]] by (simp add: WithClosedOnce_def call_open [OF c])
qed

end

end
