(* ===== verification/ProofsCache.thy ===== *)
theory ProofsCache
  imports EdsAccessProofs
begin

text \<open>
  The accessor that keeps axes and their trees has the contract of the accessor inside, for any cache that may forget entries
  but never mixes them up.
\<close>

section \<open>The packages\<close>

definition al_ok :: "('l, 'b) axis_lru \<Rightarrow> ('l \<Rightarrow> int \<Rightarrow> 'b axisWithProofs option) \<Rightarrow> bool" where
  "al_ok R view \<longleftrightarrow> (\<forall>n. view (al_New R n) = Map.empty)
     \<and> (\<forall>k l. fst (al_Get R k l) = view l k \<and> view (snd (al_Get R k l)) \<subseteq>\<^sub>m view l)
     \<and> (\<forall>k v l. view (al_Add R k v l) \<subseteq>\<^sub>m (view l)(k \<mapsto> v))"

text \<open>Blocks made from the leaves of an axis prove each leaf, and the leaves of a namespace.\<close>

definition blocks_ok :: "square_lib \<Rightarrow> 'p nmt_lib \<Rightarrow> ('p, 'b) ipld_lib \<Rightarrow> nat \<Rightarrow> nat \<Rightarrow> byte list list \<Rightarrow> byte list \<Rightarrow> 'b \<Rightarrow> bool" where
  "blocks_ok L N I k ax xs r b \<longleftrightarrow>
     (\<forall>i < 2 * k. \<exists>p. GetProof I b r (int i) (int (2 * k)) = Inr p \<and> \<not> IsEmptyProof N p \<and> PStart N p = int i \<and> PEnd N p = int i + 1
        \<and> VerifyInclusion N p (if i \<ge> k \<or> ax \<ge> k then ParitySharesNamespace L else ShareNamespace L (xs ! i)) [xs ! i] r)
     \<and> (\<forall>ns. ax < k \<longrightarrow> ns_run L ns (take k xs) \<longrightarrow> IsOutsideRange N ns r r = Inr False \<longrightarrow>
        (\<exists>ys p. GetSharesByNamespace I b r ns (int (2 * k)) = Inr (ys, Some p) \<and> \<not> IsEmptyProof N p \<and> (ys = [] \<longleftrightarrow> IsOfAbsence N p) \<and> shares_ok L ys
           \<and> VerifyNamespace N p ns (map (\<lambda>x. ShareNamespace L x @ x) ys) r))"

definition ipld_law :: "square_lib \<Rightarrow> 'p nmt_lib \<Rightarrow> ('p, 'b) ipld_lib \<Rightarrow> bool" where
  "ipld_law L N I \<longleftrightarrow> (\<forall>k ax xs r. axis_leaves L k xs \<longrightarrow> TreeRoot N k ax xs = Inr r \<longrightarrow>
     (\<exists>b. Build I (int (2 * k)) (int ax) xs = Inr (r, b) \<and> blocks_ok L N I k ax xs r b))"

section \<open>Entries\<close>

definition entry_ok :: "square_lib \<Rightarrow> 'p nmt_lib \<Rightarrow> ('p, 'b) ipld_lib \<Rightarrow> eds \<Rightarrow> axis \<Rightarrow> int \<Rightarrow> 'b axisWithProofs \<Rightarrow> bool" where
  "entry_ok L N I eds ax i e \<longleftrightarrow> in_square eds i \<and> good_half eds ax i (half e) \<and> (ax_shares e = [] \<or> ax_shares e = eds_axis eds ax (nat i))
     \<and> (\<forall>b. ax_proofs e = Some b \<longrightarrow> ax_shares e = eds_axis eds ax (nat i)
          \<and> TreeRoot N (Width eds div 2) (nat i) (eds_axis eds ax (nat i)) = Inr (ax_root e)
          \<and> blocks_ok L N I (Width eds div 2) (nat i) (eds_axis eds ax (nat i)) (ax_root e) b)"

context square_accessor
begin

definition kept :: "('p, 'b) ipld_lib \<Rightarrow> ('l \<Rightarrow> int \<Rightarrow> 'b axisWithProofs option) \<Rightarrow> axis \<Rightarrow> 'l \<Rightarrow> bool" where
  "kept I view ax l \<longleftrightarrow> (\<forall>i e. view l i = Some e \<longrightarrow> entry_ok L N I eds ax i e)"

definition pc_inv :: "('p, 'b) ipld_lib \<Rightarrow> ('l, 'b) axis_lru \<Rightarrow> ('l \<Rightarrow> int \<Rightarrow> 'b axisWithProofs option) \<Rightarrow> ('s, 'l) proofsCache \<Rightarrow> bool" where
  "pc_inv I R view c \<longleftrightarrow> al_ok R view \<and> ipld_law L N I \<and> J (pc_inner c) \<and> size_kept eds (pc_size c) \<and> (\<forall>r. rootsCache c = Some r \<longrightarrow> r = roots)
     \<and> (\<forall>rows cols. axisCache c = Some (rows, cols) \<longrightarrow> kept I view AxisRow rows \<and> kept I view AxisCol cols)"

lemma kept_new: "al_ok R view \<Longrightarrow> kept I view ax (al_New R n)"
  by (simp add: kept_def al_ok_def)

lemma kept_get: "al_ok R view \<Longrightarrow> kept I view ax l \<Longrightarrow> kept I view ax (snd (al_Get R k l))"
  unfolding al_ok_def kept_def map_le_def by (metis domI)

lemma kept_add:
  assumes "al_ok R view" "kept I view ax l" "entry_ok L N I eds ax i e"
  shows "kept I view ax (al_Add R i e l)"
proof -
  have "view (al_Add R i e l) \<subseteq>\<^sub>m (view l)(i \<mapsto> e)" using assms(1) by (simp add: al_ok_def)
  then have "((view l)(i \<mapsto> e)) j = Some x" if "view (al_Add R i e l) j = Some x" for j x using that by (metis domI map_le_def)
  then show ?thesis using assms(2,3) unfolding kept_def by (metis fun_upd_apply option.inject)
qed

lemma get_view: "al_ok R view \<Longrightarrow> fst (al_Get R k l) = view l k"
  by (simp add: al_ok_def)

lemma pc_invD: "pc_inv I R view c \<Longrightarrow> al_ok R view" "pc_inv I R view c \<Longrightarrow> ipld_law L N I" "pc_inv I R view c \<Longrightarrow> J (pc_inner c)"
  by (simp_all add: pc_inv_def)

lemma proofsCache_Size_ok:
  assumes "pc_inv I R view c"
  shows "\<exists>c1. proofsCache_Size A c = (Inr (int (Width eds)), c1) \<and> pc_inv I R view c1"
proof (cases "pc_size c = 0")
  case True
  have J: "J (pc_inner c)" using assms by (simp add: pc_inv_def)
  obtain s where "a_Size A (pc_inner c) = (Inr (int (Width eds)), s)" "J s" using Size [OF J] by (auto elim!: givesE)
  then show ?thesis using True pc_invD(1,2) [OF assms] size_kept_J [OF J] assms by (simp add: proofsCache_Size_def pc_inv_def)
next
  case False
  then show ?thesis using assms by (auto simp: proofsCache_Size_def pc_inv_def size_kept_def)
qed

lemma pc_cache_ok:
  assumes "pc_inv I R view c"
  shows "\<exists>rows cols c1. pc_cache L R A c = (Some (rows, cols), c1) \<and> pc_inv I R view c1 \<and> kept I view AxisRow rows \<and> kept I view AxisCol cols"
proof -
  obtain c1 where c1: "proofsCache_Size A c = (Inr (int (Width eds)), c1)" "pc_inv I R view c1" using proofsCache_Size_ok [OF assms] by blast
  show ?thesis
  proof (cases "axisCache c1")
    case None
    then show ?thesis using c1 kept_new [OF pc_invD(1) [OF c1(2)]] by (simp add: pc_cache_def Let_def pc_inv_def)
  next
    case (Some ls)
    then show ?thesis using c1 by (cases ls) (auto simp: pc_cache_def pc_inv_def)
  qed
qed

lemma getAxisFromCache_ok:
  assumes "pc_inv I R view c" "ax = AxisRow \<or> ax = AxisCol"
  shows "\<exists>res c1. getAxisFromCache L R A ax i c = (res, c1) \<and> pc_inv I R view c1 \<and> (\<forall>e. res = Some e \<longrightarrow> entry_ok L N I eds ax i e)"
proof -
  obtain rows cols c1 where c1: "pc_cache L R A c = (Some (rows, cols), c1)" "pc_inv I R view c1" "kept I view AxisRow rows" "kept I view AxisCol cols"
    using pc_cache_ok [OF assms(1)] by blast
  have "entry_ok L N I eds AxisRow i e" if "fst (al_Get R i rows) = Some e" for e using that c1(3) get_view [OF pc_invD(1) [OF c1(2)]] by (simp add: kept_def)
  moreover have "entry_ok L N I eds AxisCol i e" if "fst (al_Get R i cols) = Some e" for e using that c1(4) get_view [OF pc_invD(1) [OF c1(2)]] by (simp add: kept_def)
  moreover have "pc_inv I R view (c1\<lparr>axisCache := Some (snd (al_Get R i rows), cols)\<rparr>)" "pc_inv I R view (c1\<lparr>axisCache := Some (rows, snd (al_Get R i cols))\<rparr>)"
    using c1 kept_get [OF pc_invD(1) [OF c1(2)]] by (auto simp: pc_inv_def)
  ultimately show ?thesis using c1(1) assms(2) by (auto simp: getAxisFromCache_def split: prod.splits)
qed

lemma keep_axis_ok:
  assumes "pc_inv I R view c" "ax = AxisRow \<or> ax = AxisCol" "entry_ok L N I eds ax i e"
  shows "pc_inv I R view (keep_axis L R A ax i e c)"
proof -
  obtain rows cols c1 where c1: "pc_cache L R A c = (Some (rows, cols), c1)" "pc_inv I R view c1" "kept I view AxisRow rows" "kept I view AxisCol cols"
    using pc_cache_ok [OF assms(1)] by blast
  then have "pc_inv I R view (storeAxisInCache L R A ax i e c)" using assms(2,3) kept_add [OF pc_invD(1) [OF c1(2)]] by (auto simp: storeAxisInCache_def pc_inv_def)
  then show ?thesis using assms(1) by (simp add: keep_axis_def)
qed

lemma entry_new: "in_square eds i \<Longrightarrow> good_half eds ax i h \<Longrightarrow> entry_ok L N I eds ax i (no_axis\<lparr>half := h\<rparr>)"
  by (simp add: entry_ok_def no_axis_def)

lemma axis_entry_ok:
  assumes "pc_inv I R view c" "in_square eds i" "ax = AxisRow \<or> ax = AxisCol"
  shows "gives (axis_entry L R A ax i c) (entry_ok L N I eds ax i) (pc_inv I R view)"
proof -
  obtain res c1 where g: "getAxisFromCache L R A ax i c = (res, c1)" "pc_inv I R view c1" "\<And>e. res = Some e \<Longrightarrow> entry_ok L N I eds ax i e"
    using getAxisFromCache_ok [OF assms(1,3)] by blast
  show ?thesis
  proof (cases res)
    case None
    have "J (pc_inner c1)" using g(2) by (simp add: pc_inv_def)
    then obtain h s where "a_AxisHalf A ax i (pc_inner c1) = (Inr h, s)" "good_half eds ax i h" "J s" using AxisHalf [OF _ assms(2,3)] by (blast elim: givesE)
    then show ?thesis using g(1,2) None entry_new [OF assms(2)] by (simp add: axis_entry_def gives_def pc_inv_def)
  next
    case (Some e)
    then show ?thesis using g by (simp add: axis_entry_def gives_def)
  qed
qed

lemma proofsCache_AxisHalf_ok:
  assumes "pc_inv I R view c" "in_square eds i" "ax = AxisRow \<or> ax = AxisCol"
  shows "gives (proofsCache_AxisHalf L R A ax i c) (good_half eds ax i) (pc_inv I R view)"
proof -
  obtain res c1 where g: "getAxisFromCache L R A ax i c = (res, c1)" "pc_inv I R view c1" "\<And>e. res = Some e \<Longrightarrow> entry_ok L N I eds ax i e"
    using getAxisFromCache_ok [OF assms(1,3)] by blast
  show ?thesis
  proof (cases res)
    case None
    have "J (pc_inner c1)" using g(2) by (simp add: pc_inv_def)
    then obtain h s where h: "a_AxisHalf A ax i (pc_inner c1) = (Inr h, s)" "good_half eds ax i h" "J s" using AxisHalf [OF _ assms(2,3)] by (blast elim: givesE)
    have "pc_inv I R view (c1\<lparr>pc_inner := s\<rparr>)" using g(2) h(3) by (simp add: pc_inv_def)
    then show ?thesis using g(1) None h keep_axis_ok [OF _ assms(3) entry_new [OF assms(2) h(2)]] by (simp add: proofsCache_AxisHalf_def gives_def)
  next
    case (Some e)
    then show ?thesis using g by (auto simp: proofsCache_AxisHalf_def gives_def entry_ok_def)
  qed
qed

lemma axis_extended:
  assumes "pc_inv I R view c" "in_square eds i" "ax = AxisRow \<or> ax = AxisCol" "good_half eds ax i h"
  shows "Extended L h = Inr (eds_axis eds ax (nat i))" "axis_leaves L (Width eds div 2) (eds_axis eds ax (nat i))" "eds_axis eds ax (nat i) \<noteq> []"
proof -
  note sq = square [OF pc_invD(3) [OF assms(1)]]
  have i: "nat i < Width eds" using assms(2) by (auto simp: in_square_def)
  show "Extended L h = Inr (eds_axis eds ax (nat i))" using half_Extended [OF square_okD(1,2) [OF sq] i assms(3)] assms(4) by (simp add: good_half_def)
  show "axis_leaves L (Width eds div 2) (eds_axis eds ax (nat i))" by (rule eds_leaves [OF square_okD(2) [OF sq] i assms(3)])
  then show "eds_axis eds ax (nat i) \<noteq> []" by (auto simp: axis_leaves_def)
qed

lemma axisShares_ok:
  assumes "pc_inv I R view c" "in_square eds i" "ax = AxisRow \<or> ax = AxisCol"
  shows "gives (axisShares L R A ax i c) (\<lambda>xs. xs = eds_axis eds ax (nat i)) (pc_inv I R view)"
proof -
  obtain e c1 where e: "axis_entry L R A ax i c = (Inr e, c1)" "entry_ok L N I eds ax i e" "pc_inv I R view c1" using axis_entry_ok [OF assms] by (rule givesE)
  have h: "good_half eds ax i (half e)" using e(2) by (simp add: entry_ok_def)
  note x = axis_extended [OF assms h]
  show ?thesis
  proof (cases "ax_shares e = []")
    case True
    then have "entry_ok L N I eds ax i (e\<lparr>ax_shares := eds_axis eds ax (nat i)\<rparr>)" using e(2) x(3) by (auto simp: entry_ok_def)
    then show ?thesis using True e(1) x(1) keep_axis_ok [OF e(3) assms(3)] by (simp add: axisShares_def gives_def)
  next
    case False
    then show ?thesis using e by (auto simp: axisShares_def gives_def entry_ok_def)
  qed
qed

lemma root_of_axis: "J s \<Longrightarrow> nat i < Width eds \<Longrightarrow> ax = AxisRow \<or> ax = AxisCol \<Longrightarrow> \<exists>r. TreeRoot N (Width eds div 2) (nat i) (eds_axis eds ax (nat i)) = Inr r"
  using square_okD(4) [OF square, of s] by (auto simp: roots_of_def eds_axis_def)

lemma withProofs_ok:
  assumes "pc_inv I R view c" "in_square eds i" "ax = AxisRow \<or> ax = AxisCol"
  shows "gives (proofsCache_axisWithProofs L I R A ax i c) (\<lambda>e. entry_ok L N I eds ax i e \<and> ax_proofs e \<noteq> None) (pc_inv I R view)"
proof -
  obtain e c1 where e: "axis_entry L R A ax i c = (Inr e, c1)" "entry_ok L N I eds ax i e" "pc_inv I R view c1" using axis_entry_ok [OF assms] by (rule givesE)
  show ?thesis
  proof (cases "ax_proofs e")
    case None
    have h: "good_half eds ax i (half e)" using e(2) by (simp add: entry_ok_def)
    note x = axis_extended [OF assms h]
    let ?xs = "eds_axis eds ax (nat i)" and ?k = "Width eds div 2"
    have s: "(if ax_shares e = [] then Extended L (half e) else Inr (ax_shares e)) = Inr ?xs" using x(1) e(2) by (auto simp: entry_ok_def)
    obtain c2 where c2: "proofsCache_Size A c1 = (Inr (int (Width eds)), c2)" "pc_inv I R view c2" using proofsCache_Size_ok [OF e(3)] by blast
    have i: "nat i < Width eds" "int (nat i) = i" using assms(2) by (auto simp: in_square_def)
    have k: "int (Width eds) = int (2 * ?k)" using square_okD(2) [OF square [OF pc_invD(3) [OF assms(1)]]] by (auto simp: eds_ok_def)
    obtain r where r: "TreeRoot N ?k (nat i) ?xs = Inr r" using root_of_axis [OF pc_invD(3) [OF assms(1)] i(1) assms(3)] by blast
    obtain b where b: "Build I (int (2 * ?k)) (int (nat i)) ?xs = Inr (r, b)" "blocks_ok L N I ?k (nat i) ?xs r b"
      using pc_invD(2) [OF assms(1)] x(2) r unfolding ipld_law_def by blast
    let ?e = "e\<lparr>ax_shares := ?xs, ax_root := r, ax_proofs := Some b\<rparr>"
    have "entry_ok L N I eds ax i ?e" using e(2) r b(2) by (simp add: entry_ok_def)
    moreover have "Build I (int (Width eds)) i ?xs = Inr (r, b)" using b(1) k i(2) by simp
    ultimately show ?thesis using e(1) None s c2 keep_axis_ok [OF c2(2) assms(3)] by (simp add: proofsCache_axisWithProofs_def gives_def Let_def)
  next
    case (Some b)
    then show ?thesis using e by (simp add: proofsCache_axisWithProofs_def gives_def)
  qed
qed

lemma proofsCache_Sample_ok:
  assumes "pc_inv I R view c" "coords_in eds idx"
  shows "gives (proofsCache_Sample L I R A idx c) (good_sample L N eds roots idx) (pc_inv I R view)"
proof -
  obtain res c1 where g: "getAxisFromCache L R A AxisRow (Row idx) c = (res, c1)" "pc_inv I R view c1" "\<And>e. res = Some e \<Longrightarrow> entry_ok L N I eds AxisRow (Row idx) e"
    using getAxisFromCache_ok [OF assms(1), of AxisRow "Row idx"] by blast
  show ?thesis
  proof (cases "ax_proofs (case_option no_axis id res)")
    case None
    obtain x s where "a_Sample A idx (pc_inner c1) = (Inr x, s)" "good_sample L N eds roots idx x" "J s"
      using Sample [OF pc_invD(3) [OF g(2)] assms(2)] by (rule givesE)
    then show ?thesis using None g(1,2) by (simp add: proofsCache_Sample_def gives_def pc_inv_def Let_def)
  next
    case (Some b)
    then obtain e where e: "res = Some e" "ax_proofs e = Some b" by (cases res) (simp_all add: no_axis_def)
    obtain r cc where rc: "idx = \<lparr>Row = int r, Col = int cc\<rparr>" "r < Width eds" "cc < Width eds" by (rule coords_inE [OF assms(2)])
    let ?k = "Width eds div 2"
    have sq: "square_ok L N ns_ok eds roots" by (rule square [OF pc_invD(3) [OF assms(1)]])
    have k: "Width eds = 2 * ?k" using square_okD(2) [OF sq] by (auto simp: eds_ok_def)
    have en: "ax_shares e = eds_row eds r" "TreeRoot N ?k r (eds_row eds r) = Inr (ax_root e)" "blocks_ok L N I ?k r (eds_row eds r) (ax_root e) b"
      using g(3) [OF e(1)] e(2) rc(1) by (simp_all add: entry_ok_def eds_axis_def)
    have root: "ax_root e = RowRoots roots ! r" "length (RowRoots roots) = Width eds" using en(2) square_okD(4) [OF sq] rc(2) by (auto simp: roots_of_def)
    obtain c2 where c2: "proofsCache_Size A c1 = (Inr (int (Width eds)), c2)" "pc_inv I R view c2" using proofsCache_Size_ok [OF g(2)] by blast
    have len: "length (eds_row eds r) = Width eds" using eds_okD(1) [OF square_okD(2) [OF sq] rc(2), of AxisRow] by (simp add: eds_axis_def)
    obtain p where p: "GetProof I b (ax_root e) (int cc) (int (Width eds)) = Inr p" "\<not> IsEmptyProof N p" "PStart N p = int cc" "PEnd N p = int cc + 1"
      "VerifyInclusion N p (if cc \<ge> ?k \<or> r \<ge> ?k then ParitySharesNamespace L else ShareNamespace L (eds_row eds r ! cc)) [eds_row eds r ! cc] (ax_root e)"
      using conjunct1 [OF en(3) [unfolded blocks_ok_def k [symmetric]], rule_format, OF rc(3)] by blast
    have "eds_row eds r ! cc = GetCell eds r cc" by (simp add: eds_row_def)
    then have "good_sample L N eds roots idx \<lparr>s_Share = eds_row eds r ! cc, s_Proof = Some p, ProofType = AxisRow\<rparr>" using p root rc
      by (auto simp: good_sample_def Sample_Verify_def Sample_verifyInclusion_def inclusionNamespace_def RootHashForCoordinates_def split: if_splits)
    then show ?thesis using g(1) e en(1) c2 p(1) rc len by (simp add: proofsCache_Sample_def gives_def Let_def)
  qed
qed

lemma proofsCache_Row_ok:
  assumes "pc_inv I R view c" "ns_ok ns" "in_square eds i" "row_inside N roots ns (nat i)"
  shows "gives (proofsCache_RowNamespaceData L I R A off ns i c) (good_row L N roots ns i) (pc_inv I R view)"
proof -
  let ?k = "Width eds div 2" and ?i = "nat i"
  have sq: "square_ok L N ns_ok eds roots" by (rule square [OF pc_invD(3) [OF assms(1)]])
  have k: "Width eds = 2 * ?k" using square_okD(2) [OF sq] by (auto simp: eds_ok_def)
  have i: "?i < Width eds" using assms(3) by (auto simp: in_square_def)
  have t: "axis_leaves L ?k (eds_row eds ?i)" "TreeRoot N ?k ?i (eds_row eds ?i) = Inr (RowRoots roots ! ?i)"
    using row_leaves [OF square_okD(2) [OF sq] i] square_okD(4) [OF sq] i by (simp_all add: roots_of_def)
  have low: "?i < ?k"
  proof (rule ccontr)
    assume "\<not> ?i < ?k"
    then show False using parity_outside [OF square_okD(7) [OF sq] t _ square_okD(8) [OF sq assms(2)]] assms(4) by (simp add: row_inside_def)
  qed
  let ?cached = "\<lambda>c. case proofsCache_axisWithProofs L I R A AxisRow i c of (Inl e, c1) \<Rightarrow> (Inl e, c1)
        | (Inr ax, c1) \<Rightarrow> (case proofsCache_Size A c1 of (Inl e, c2) \<Rightarrow> (Inl e, c2)
             | (Inr sz, c2) \<Rightarrow> (case GetSharesByNamespace I (the (ax_proofs ax)) (ax_root ax) ns sz of Inl e \<Rightarrow> (Inl e, c2)
                    | Inr (row, prf) \<Rightarrow> (Inr \<lparr>rnd_Shares = row, rnd_Proof = prf\<rparr>, c2)))"
  have cached: "gives (?cached c') (good_row L N roots ns i) (pc_inv I R view)" if c': "pc_inv I R view c'" for c'
  proof -
    obtain e c1 where e: "proofsCache_axisWithProofs L I R A AxisRow i c' = (Inr e, c1)" "entry_ok L N I eds AxisRow i e \<and> ax_proofs e \<noteq> None" "pc_inv I R view c1"
      using withProofs_ok [OF c' assms(3), of AxisRow] by (blast elim: givesE)
    obtain b where b: "ax_proofs e = Some b" using e(2) by auto
    have en: "TreeRoot N ?k ?i (eds_row eds ?i) = Inr (ax_root e)" "blocks_ok L N I ?k ?i (eds_row eds ?i) (ax_root e) b"
      using e(2) b by (simp_all add: entry_ok_def eds_axis_def)
    have root: "ax_root e = RowRoots roots ! ?i" using en(1) t(2) by simp
    obtain c2 where c2: "proofsCache_Size A c1 = (Inr (int (Width eds)), c2)" "pc_inv I R view c2" using proofsCache_Size_ok [OF e(3)] by blast
    obtain ys p where y: "GetSharesByNamespace I b (ax_root e) ns (int (Width eds)) = Inr (ys, Some p)" "\<not> IsEmptyProof N p" "ys = [] \<longleftrightarrow> IsOfAbsence N p"
        "shares_ok L ys" "VerifyNamespace N p ns (map (\<lambda>x. ShareNamespace L x @ x) ys) (ax_root e)"
      using conjunct2 [OF en(2) [unfolded blocks_ok_def k [symmetric]], rule_format, OF low square_okD(9) [OF sq assms(2) low] assms(4) [unfolded row_inside_def root [symmetric]]]
      by blast
    then have "good_row L N roots ns i \<lparr>rnd_Shares = ys, rnd_Proof = Some p\<rparr>" using root assms(4)
      by (auto simp: good_row_def RowNamespaceData_Verify_def rnd_verifyInclusion_def row_inside_def Let_def)
    then show ?thesis using e(1) b c2 y(1) by (simp add: gives_def)
  qed
  obtain res c1 where g: "getAxisFromCache L R A AxisRow i c = (res, c1)" "pc_inv I R view c1" using getAxisFromCache_ok [OF assms(1), of AxisRow i] by blast
  obtain d s where "a_RowNamespaceData A off ns i (pc_inner c1) = (Inr d, s)" "good_row L N roots ns i d" "J s"
    using RowNamespaceData [OF pc_invD(3) [OF g(2)] assms(2-4)] by (rule givesE)
  then have "gives (case a_RowNamespaceData A off ns i (pc_inner c1) of (res, s) \<Rightarrow> (res, c1\<lparr>pc_inner := s\<rparr>)) (good_row L N roots ns i) (pc_inv I R view)"
    using g(2) by (simp add: gives_def pc_inv_def)
  then show ?thesis unfolding proofsCache_RowNamespaceData_def Let_def using cached [OF assms(1)] cached [OF g(2)] g(1) by (cases off) simp_all
qed

lemma pc_shares_ok:
  assumes "pc_inv I R view c" "\<forall>i \<in> set is. i < Width eds div 2"
  shows "gives (pc_shares L R A (Width eds div 2) is shares c) (\<lambda>xs. xs = shares @ concat (map (\<lambda>i. take (Width eds div 2) (eds_row eds i)) is)) (pc_inv I R view)"
  using assms
proof (induction "is" arbitrary: shares c)
  case (Cons i "is")
  have i: "in_square eds (int i)" using Cons.prems(2) by (auto simp: in_square_def)
  obtain h c1 where h: "proofsCache_AxisHalf L R A AxisRow (int i) c = (Inr h, c1)" "good_half eds AxisRow (int i) h" "pc_inv I R view c1"
    using proofsCache_AxisHalf_ok [OF Cons.prems(1) i, of AxisRow] by (blast elim: givesE)
  then have "h = \<lparr>Shares = take (Width eds div 2) (eds_row eds i), IsParity = False\<rparr>" using Cons.prems(2) by (auto simp: good_half_def half_of_def eds_axis_def)
  then show ?case using h Cons.IH [OF h(3), of "shares @ take (Width eds div 2) (eds_row eds i)"] Cons.prems(2) by simp
qed (simp add: gives_def)

lemma proofsCache_Shares_ok:
  assumes "pc_inv I R view c"
  shows "gives (proofsCache_Shares L R A c) (\<lambda>xs. xs = FlattenedODS eds) (pc_inv I R view)"
proof -
  obtain c1 where c1: "proofsCache_Size A c = (Inr (int (Width eds)), c1)" "pc_inv I R view c1" using proofsCache_Size_ok [OF assms] by blast
  have "nat (int (Width eds) div 2) = Width eds div 2" by (metis nat_int of_nat_numeral zdiv_int)
  then show ?thesis using c1 pc_shares_ok [OF c1(2), of "[0..<Width eds div 2]" "[]"] by (simp add: proofsCache_Shares_def Let_def FlattenedODS_rows)
qed

lemma proofsCache_Roots_ok:
  assumes "pc_inv I R view c"
  shows "gives (proofsCache_AxisRoots A c) (\<lambda>r. r = roots) (pc_inv I R view)"
proof (cases "rootsCache c")
  case None
  obtain s where "a_AxisRoots A (pc_inner c) = (Inr roots, s)" "J s" using AxisRoots [OF pc_invD(3) [OF assms]] by (auto elim!: givesE)
  then show ?thesis using None assms by (simp add: proofsCache_AxisRoots_def gives_def pc_inv_def)
next
  case (Some r)
  then show ?thesis using assms by (simp add: proofsCache_AxisRoots_def gives_def pc_inv_def)
qed

lemma with_cache: "square_accessor L N ns_ok eds roots (WithProofsCache L I R A) (pc_inv I R view)"
proof
  fix c assume c: "pc_inv I R view c"
  show "square_ok L N ns_ok eds roots" by (rule square [OF pc_invD(3) [OF c]])
  show "gives (a_Size (WithProofsCache L I R A) c) (\<lambda>n. n = int (Width eds)) (pc_inv I R view)"
    using proofsCache_Size_ok [OF c] by (auto simp: WithProofsCache_def gives_def)
  show "gives (a_AxisRoots (WithProofsCache L I R A) c) (\<lambda>r. r = roots) (pc_inv I R view)"
    using proofsCache_Roots_ok [OF c] by (simp add: WithProofsCache_def)
  show "gives (a_AxisHalf (WithProofsCache L I R A) ax i c) (good_half eds ax i) (pc_inv I R view)" if "in_square eds i" "ax = AxisRow \<or> ax = AxisCol" for i ax
    using proofsCache_AxisHalf_ok [OF c that] by (simp add: WithProofsCache_def)
  show "gives (a_Sample (WithProofsCache L I R A) idx c) (good_sample L N eds roots idx) (pc_inv I R view)" if "coords_in eds idx" for idx
    using proofsCache_Sample_ok [OF c that] by (simp add: WithProofsCache_def)
  show "gives (a_RowNamespaceData (WithProofsCache L I R A) off x i c) (good_row L N roots x i) (pc_inv I R view)"
    if "ns_ok x" "in_square eds i" "row_inside N roots x (nat i)" for x i off using proofsCache_Row_ok [OF c that] by (simp add: WithProofsCache_def)
  show "gives (a_Shares (WithProofsCache L I R A) c) (\<lambda>xs. xs = FlattenedODS eds) (pc_inv I R view)"
    using proofsCache_Shares_ok [OF c] by (simp add: WithProofsCache_def)
qed

text \<open>All wrappers together.\<close>

definition stack_inv :: "byte list nslib \<Rightarrow> ('p, 'b) ipld_lib \<Rightarrow> ('l, 'b) axis_lru \<Rightarrow> ('l \<Rightarrow> int \<Rightarrow> 'b axisWithProofs option)
    \<Rightarrow> ('s, 'l) proofsCache closeOnce validation \<Rightarrow> bool" where
  "stack_inv nsl I R view f \<longleftrightarrow> (\<forall>ns i. ns_ok ns \<longrightarrow> in_square eds i \<longrightarrow> (\<exists>did. NewRowNamespaceDataID nsl 1 i ns (int (Width eds)) = Inr did))
     \<and> pc_inv I R view (co_f (v_inner f)) \<and> \<not> closed (v_inner f) \<and> size_kept eds (v_size f)"

end

lemma gives_mono: "gives r P J \<Longrightarrow> (\<And>s. J s \<Longrightarrow> J' s) \<Longrightarrow> gives r P J'"
  by (auto simp: gives_def split: prod.splits sum.splits)

lemma square_accessor_if:
  assumes "\<And>s. J' s \<Longrightarrow> H" "\<And>s. J' s \<longleftrightarrow> H \<and> J s" "H \<Longrightarrow> square_accessor L N ns_ok eds roots A J"
  shows "square_accessor L N ns_ok eds roots A J'"
proof (cases H)
  case True
  then have "J' = J" using assms(2) by (intro ext) simp
  then show ?thesis using assms(3) True by simp
next
  case False
  then show ?thesis using assms(1) by (unfold_locales) blast+
qed

lemma streamer_part:
  assumes "square_accessor L N ns_ok eds roots A J"
  shows "square_accessor L N ns_ok eds roots (AccessorAndStreamer A S) J"
  using assms by (simp add: square_accessor_def AccessorAndStreamer_def)

context square_accessor
begin

lemma stack: "square_accessor L N ns_ok eds roots (wrapAccessor L nsl I R A) (stack_inv nsl I R view)"
proof (rule square_accessor_if)
  let ?H = "\<forall>ns i. ns_ok ns \<longrightarrow> in_square eds i \<longrightarrow> (\<exists>did. NewRowNamespaceDataID nsl 1 i ns (int (Width eds)) = Inr did)"
  let ?co = "square_accessor.co_inv (pc_inv I R view)"
  have co: "square_accessor L N ns_ok eds roots (WithClosedOnce (WithProofsCache L I R A)) ?co" by (rule square_accessor.closed_once [OF with_cache])
  show ?H if "stack_inv nsl I R view f" for f using that unfolding stack_inv_def by blast
  show "stack_inv nsl I R view f \<longleftrightarrow> ?H \<and> square_accessor.v_inv eds ?co f" for f
    unfolding stack_inv_def square_accessor.v_inv_def [OF co] square_accessor.co_inv_def [OF with_cache] by blast
  assume H: ?H
  have "square_accessor L N ns_ok eds roots (WithValidation nsl (WithClosedOnce (WithProofsCache L I R A))) (square_accessor.v_inv eds ?co)"
    by (rule square_accessor.validated [OF co]) (use H in blast)
  then show "square_accessor L N ns_ok eds roots (wrapAccessor L nsl I R A) (square_accessor.v_inv eds ?co)"
    unfolding wrapAccessor_def Let_def by (rule streamer_part)
qed

end

end
