(* ===== verification/EdsAccessProperties.thy ===== *)
theory EdsAccessProperties
  imports ProofsCache
begin

text \<open>
  What clients of accessors get, whichever implementation and wrappers are underneath.
\<close>

section \<open>Requests and answers\<close>

datatype request = QSize | QRoots | QHalf axis int | QSample SampleCoords | QShares | QRow bool "byte list" int

datatype 'p answer = AErr | ASize int | ARoots AxisRoots | AHalf AxisHalf | ASample "'p Sample" | AShares "byte list list" | ARow "'p RowNamespaceData"

definition answer_of :: "('a \<Rightarrow> 'p answer) \<Rightarrow> (string + 'a) \<times> 's \<Rightarrow> 'p answer \<times> 's" where
  "answer_of f r = (case_sum (\<lambda>e. AErr) f (fst r), snd r)"

fun ask :: "('s, 'p) accessorStreamer \<Rightarrow> request \<Rightarrow> 's \<Rightarrow> 'p answer \<times> 's" where
  "ask A QSize s = answer_of ASize (a_Size A s)"
| "ask A QRoots s = answer_of ARoots (a_AxisRoots A s)"
| "ask A (QHalf ax i) s = answer_of AHalf (a_AxisHalf A ax i s)"
| "ask A (QSample idx) s = answer_of ASample (a_Sample A idx s)"
| "ask A QShares s = answer_of AShares (a_Shares A s)"
| "ask A (QRow off ns i) s = answer_of ARow (a_RowNamespaceData A off ns i s)"







section \<open>Properties\<close>






lemma closed_calls:
  assumes c: "closed (v_inner f1)"
  shows "fst (ask (AccessorAndStreamer (WithValidation nsl (WithClosedOnce A)) (WithClosedOnce A)) QRoots f1) = AErr"
    "fst (ask (AccessorAndStreamer (WithValidation nsl (WithClosedOnce A)) (WithClosedOnce A)) (QHalf ax i) f1) = AErr"
    "fst (ask (AccessorAndStreamer (WithValidation nsl (WithClosedOnce A)) (WithClosedOnce A)) (QSample idx) f1) = AErr"
    "fst (ask (AccessorAndStreamer (WithValidation nsl (WithClosedOnce A)) (WithClosedOnce A)) QShares f1) = AErr"
    "fst (ask (AccessorAndStreamer (WithValidation nsl (WithClosedOnce A)) (WithClosedOnce A)) (QRow off ns i) f1) = AErr"
    "a_Close (AccessorAndStreamer (WithValidation nsl (WithClosedOnce A)) (WithClosedOnce A)) f1 = (None, f1)"
proof -
  let ?C = "WithClosedOnce A"
  have call: "closeOnce_call m (v_inner f1) = (Inl errAccessorClosed, v_inner f1)" for m :: "'a \<Rightarrow> (string + 'z) \<times> 'a" using c by (simp add: closeOnce_call_def)
  have sz: "validation_Size ?C f1 = (Inr (sint (v_size f1)), f1) \<or> validation_Size ?C f1 = (Inl errAccessorClosed, f1)"
    by (simp add: validation_Size_def WithClosedOnce_def call)
  have "\<exists>e. fst (validation_AxisHalf ?C ax i f1) = Inl e" using sz
    by (auto simp: validation_AxisHalf_def lift_v_def WithClosedOnce_def call split: sum.splits)
  moreover have "\<exists>e. fst (validation_Sample ?C idx f1) = Inl e" using sz
    by (auto simp: validation_Sample_def lift_v_def WithClosedOnce_def call split: sum.splits)
  moreover have "\<exists>e. fst (validation_RowNamespaceData nsl ?C off ns i f1) = Inl e" using sz
    by (auto simp: validation_RowNamespaceData_def lift_v_def WithClosedOnce_def call split: sum.splits)
  ultimately show "fst (ask (AccessorAndStreamer (WithValidation nsl ?C) ?C) QRoots f1) = AErr"
    "fst (ask (AccessorAndStreamer (WithValidation nsl ?C) ?C) (QHalf ax i) f1) = AErr"
    "fst (ask (AccessorAndStreamer (WithValidation nsl ?C) ?C) (QSample idx) f1) = AErr"
    "fst (ask (AccessorAndStreamer (WithValidation nsl ?C) ?C) QShares f1) = AErr"
    "fst (ask (AccessorAndStreamer (WithValidation nsl ?C) ?C) (QRow off ns i) f1) = AErr"
    "a_Close (AccessorAndStreamer (WithValidation nsl ?C) ?C) f1 = (None, f1)"
    using c by (auto simp: AccessorAndStreamer_def WithValidation_def answer_of_def lift_v_def WithClosedOnce_def call closeOnce_Close_def)
qed

text \<open>After it was closed an accessor refuses every request but that for its size, and closing it again does nothing.\<close>

theorem closed_accessor_refuses:
  assumes "a_Close (wrapAccessor L nsl I R A) f = (res, f1)" "q \<noteq> QSize"
  shows "fst (ask (wrapAccessor L nsl I R A) q f1) = AErr \<and> a_Close (wrapAccessor L nsl I R A) f1 = (None, f1)"
proof -
  have c: "closed (v_inner f1)" using assms(1)
    by (auto simp: wrapAccessor_def AccessorAndStreamer_def WithClosedOnce_def closeOnce_Close_def lift_v_def Let_def split: if_splits prod.splits)
  show ?thesis using assms(2) closed_calls [OF c] by (cases q) (auto simp: wrapAccessor_def Let_def)
qed

end
