(* ===== verification/EdsStream.thy ===== *)
theory EdsStream
  imports EdsAccessProperties
begin

text \<open>
  A block sent as a stream: what the accessor of the sender delivers, the receiver turns into the same square.
\<close>

section \<open>The sender\<close>

text \<open>The bytes a client gets that reads pieces of the sizes \<open>ks\<close>, and whether the stream has ended.\<close>

definition stream_bytes :: "nat list \<Rightarrow> ODS \<Rightarrow> string + byte list \<times> bool" where
  "stream_bytes ks f =
     (case ODS_Reader f of
        Inl r \<Rightarrow> sr_drain (square_getShare (the (ods f))) ks r
      | Inr bs \<Rightarrow> Inr (take (sum_list ks) bs, length bs < sum_list ks))"

lemma sum_list_pos: "(\<And>k. k \<in> set ks \<Longrightarrow> 0 < k) \<Longrightarrow> length ks \<le> sum_list (ks :: nat list)"
proof (induction ks)
  case (Cons k ks)
  then have "0 < k" "length ks \<le> sum_list ks" by auto
  then show ?case by simp
qed simp

lemma stream_bytes_ok:
  assumes b: "block_ok L nsSize roots hash eds" and f: "ODS_valid L roots hash eds f"
    and ks: "\<And>k. k \<in> set ks \<Longrightarrow> 0 < k" "Width eds * Width eds * ShareSize L < length ks"
  shows "\<exists>ys. stream_bytes ks f = Inr (concat ys, True) \<and> (ys = filled L eds \<or> ys = FlattenedODS eds)"
proof -
  note d = block_okD [OF b] and h = ODS_header_sizes [OF b]
  let ?k = "Width eds div 2"
  obtain k where k: "Width eds = 2 * k" "0 < k" "?k = k" using eds_half [OF d(3)] .
  have len: "length (concat ys) < length ks" if "shares_ok L ys" "length ys \<le> k * k" for ys
  proof -
    have "length (concat ys) \<le> k * k * ShareSize L" using length_concat_shares [OF that(1)] that(2) by simp
    also have "\<dots> \<le> Width eds * Width eds * ShareSize L" using k(1) by simp
    finally show ?thesis using ks(2) by linarith
  qed
  have sum: "length ks \<le> sum_list ks" by (rule sum_list_pos) (rule ks(1))
  show ?thesis
  proof (cases "ods f")
    case None
    obtain m where m: "FlattenedODS eds = filled L eds @ replicate m (TailPaddingShare L)" "length (filled L eds) + m = ?k * ?k" using filled_length [OF b] .
    note l = length_concat_shares [OF filled_shares [OF d(3)]]
    have fs: "length (filled L eds) \<le> k * k" using m(2) k(3) by simp
    have n: "ODS_size f * ODS_size f div 4 = k * k" using ODS_valid_size [OF b f] k(1) by simp
    have "length (concat (filled L eds)) \<le> ShareSize L * (k * k)" using l fs by (simp add: mult.commute)
    then have "ODS_Reader f = Inr (concat (filled L eds))" using None n ODS_valid_drop [OF b f] f h(2) by (simp add: ODS_Reader_def ODS_valid_def)
    moreover have "length (concat (filled L eds)) < sum_list ks" using len [OF filled_shares [OF d(3)] fs] sum by linarith
    ultimately show ?thesis by (auto simp: stream_bytes_def)
  next
    case (Some s)
    then have s: "s = ods_of eds" using f by (auto simp: ODS_valid_def)
    have row: "length (ods_of eds ! i) = k" if "i < k" for i using eds_okD(1) [OF d(3), of i AxisRow] that k by (simp add: ods_of_def eds_axis_def eds_row_def)
    have rows: "map (\<lambda>i. ods_of eds ! i) [0..<k] = ods_of eds" using k by (intro nth_equalityI) (auto simp: ods_of_def)
    have fl: "concat (ods_of eds) = FlattenedODS eds" unfolding FlattenedODS_rows
      using eds_okD(1) [OF d(3)] by (intro arg_cong [where f = concat] nth_equalityI) (auto simp: ods_of_def eds_row_def)
    have left: "sr_left (\<lambda>i j. ods_of eds ! i ! j) (NewShareReader k) = concat (FlattenedODS eds)"
      using sr_left_new [of k "\<lambda>i. ods_of eds ! i", OF row] rows fl by simp
    have ln: "length (ods_of eds) = k" using k by (simp add: ods_of_def)
    have "sr_drain (\<lambda>i j. Inr (ods_of eds ! i ! j)) ks (NewShareReader k) = Inr (concat (FlattenedODS eds), True)"
    proof (subst sr_drain_all)
      show "0 < x" if "x \<in> set ks" for x by (rule ks(1) [OF that])
      show "length (sr_left (\<lambda>i j. ods_of eds ! i ! j) (NewShareReader k)) < length ks"
        unfolding left using FlattenedODS_shares [OF d(3)] k(3) by (intro len) auto
      show "ods_of eds ! (i div sr_odsSize (NewShareReader k)) ! (i mod sr_odsSize (NewShareReader k)) \<noteq> []" if "i < total (NewShareReader k)" for i
      proof -
        have i: "i div k < k" "i mod k < k" using that k(2) by (simp_all add: NewShareReader_def less_mult_imp_div_less)
        have "ods_of eds ! (i div k) \<in> set (ods_of eds)" "ods_of eds ! (i div k) ! (i mod k) \<in> set (ods_of eds ! (i div k))"
          using i row [OF i(1)] ln by (simp_all add: nth_mem)
        then have "ods_of eds ! (i div k) ! (i mod k) \<in> set (concat (ods_of eds))" by auto
        then have "length (ods_of eds ! (i div k) ! (i mod k)) = ShareSize L" using FlattenedODS_shares(1) [OF d(3)] fl by (simp add: shares_ok_def)
        then show ?thesis using d(7) by (auto simp: NewShareReader_def)
      qed
    qed (simp add: left)
    moreover have "square_getShare (ods_of eds) = (\<lambda>i j. Inr (ods_of eds ! i ! j))" by (intro ext) (simp add: square_getShare_def)
    ultimately show ?thesis using Some s ln by (auto simp: stream_bytes_def ODS_Reader_def square_reader_def)
  qed
qed

section \<open>The receiver\<close>

text \<open>The square of its original shares, and the roots of the square.\<close>

definition compute_ok :: "eds_lib \<Rightarrow> eds \<Rightarrow> AxisRoots \<Rightarrow> bool" where
  "compute_ok E eds roots \<longleftrightarrow> ComputeExtendedDataSquare E (FlattenedODS eds) = Inr eds \<and> NewDataAvailabilityHeader E eds = Inr roots"

lemma ReadAccessor_ok:
  assumes b: "block_ok L nsSize roots hash eds" and E: "compute_ok E eds roots" and ys: "ys = filled L eds \<or> ys = FlattenedODS eds"
  shows "ReadAccessor L E (concat ys) roots = Inr eds"
proof -
  note d = block_okD [OF b]
  let ?k = "Width eds div 2"
  obtain m where m: "FlattenedODS eds = filled L eds @ replicate m (TailPaddingShare L)" "length (filled L eds) + m = ?k * ?k" using filled_length [OF b] .
  have w: "length (RowRoots roots) = Width eds" using b by (simp add: block_ok_def)
  have "ReadShares L (concat ys) (ShareSize L) ?k = Inr (FlattenedODS eds)"
  proof (cases "ys = filled L eds")
    case True
    then show ?thesis using ReadShares_ok [OF d(2) filled_shares [OF d(3)], of ?k "[]"] m by simp
  next
    case False
    then show ?thesis using ys ReadShares_ok [OF d(2) FlattenedODS_shares(1) [OF d(3)], of ?k "[]"] FlattenedODS_shares(2) [OF d(3)] by simp
  qed
  then show ?thesis using E w by (simp add: ReadAccessor_def compute_ok_def Rsmt2DFromShares_def Rsmt2D_DataHash_def)
qed

text \<open>C17. A block sent as a stream arrives: whatever was read from the files before, a receiver that reads pieces of any sizes
  until the stream ends, and knows the roots, gets the square of the sender.\<close>

theorem block_stream_roundtrip:
  assumes "block_ok L nsSize roots hash eds" "codec_cache_ok cache" "ODS_content L nsSize roots hash eds = Inr content" "OpenODS content = Inr f"
    and "path = None \<or> path = Some (writeQ4 eds)" "allowed (block_pre (Width eds)) (block_step L N cache) reads (ODSWithQ4 f path)"
    and "compute_ok E eds roots" "\<forall>k \<in> set ks. 0 < k" "Width eds * Width eds * ShareSize L < length ks"
  shows "\<exists>o4 bs. run_ops (block_step L N cache) reads (ODSWithQ4 f path) = Some o4 \<and> stream_bytes ks (oq_ods o4) = Inr (bs, True) \<and> ReadAccessor L E bs roots = Inr eds"
proof -
  obtain o4 where o4: "run_ops (block_step L N cache) reads (ODSWithQ4 f path) = Some o4" "ODS_valid L roots hash eds (oq_ods o4)"
    using after_reads [OF assms(1-6)] by (auto simp: ODSQ4_valid_def)
  obtain ys where ys: "stream_bytes ks (oq_ods o4) = Inr (concat ys, True)" "ys = filled L eds \<or> ys = FlattenedODS eds"
    using stream_bytes_ok [OF assms(1) o4(2) _ assms(9)] assms(8) by blast
  show ?thesis using o4(1) ys(1) ReadAccessor_ok [OF assms(1,7) ys(2)] by blast
qed

section \<open>A block\<close>

text \<open>Squares of the code that repeats the data, and their roots.\<close>

definition rep_compute :: "byte list list \<Rightarrow> string + eds" where
  "rep_compute xs =
     (let k = length (takeWhile (\<lambda>k. k * k < length xs) [0..<length xs]);
          rows = map (\<lambda>i. slice (i * k) ((i + 1) * k) xs @ slice (i * k) ((i + 1) * k) xs) [0..<k] in
      if k * k \<noteq> length xs then Inl ''not a square'' else Inr (rows @ rows))"

definition rep_E :: eds_lib where
  "rep_E = \<lparr>
     NewDataAvailabilityHeader = (\<lambda>eds. let k = Width eds div 2 in
        Inr \<lparr>RowRoots = map (\<lambda>i. wide_root k i (eds_row eds i)) [0..<Width eds], ColumnRoots = map (\<lambda>i. wide_root k i (eds_col eds i)) [0..<Width eds]\<rparr>),
     RootsHash = (\<lambda>r. concat (RowRoots r) @ concat (ColumnRoots r)),
     ComputeExtendedDataSquare = rep_compute\<rparr>"

lemma rep_compute_ok: "compute_ok rep_E rep_eds wide_roots"
proof -
  have "rep_compute (FlattenedODS rep_eds) = Inr rep_eds" unfolding rep_FlattenedODS by code_simp
  then show ?thesis by (simp add: compute_ok_def rep_E_def wide_roots_def rep_width Let_def)
qed

theorem block_stream_roundtrip_witness:
  "\<exists>o4 bs. run_ops (block_step rep_lib wide_lib fmempty) rep_reads (ODSWithQ4 rep_open None) = Some o4
    \<and> stream_bytes (replicate 40 3) (oq_ods o4) = Inr (bs, True) \<and> ReadAccessor rep_lib rep_E bs wide_roots = Inr rep_eds"
proof -
  have "ShareSize rep_lib = 2" by (simp add: rep_lib_def)
  then show ?thesis
    using block_stream_roundtrip [OF rep_block_ok empty_codec_cache rep_content_ok rep_open_ok disjI1 [OF refl] rep_reads_ok rep_compute_ok, of "replicate 40 3"] rep_width by simp
qed

end
