(* ===== verification/EdsExamples.thy ===== *)
theory EdsExamples
  imports EdsStream
begin

text \<open>
  The accessor of a stored block at work on \<^const>\<open>rep_eds\<close>, and a use of the kept axes that loses shares.
\<close>

section \<open>The packages\<close>

text \<open>Blocks of a tree that are its leaves, as any tree package with the laws gives them.\<close>

definition leaf_blocks :: "square_lib \<Rightarrow> 'p nmt_lib \<Rightarrow> ('p, nat \<times> byte list list) ipld_lib" where
  "leaf_blocks L N = \<lparr>
     Build = (\<lambda>sz ax xs. map_sum id (\<lambda>r. (r, nat ax, xs)) (TreeRoot N (nat sz div 2) (nat ax) xs)),
     GetProof = (\<lambda>(ax, xs) r i n. ProveRange N (nat n div 2) ax xs i (i + 1)),
     GetSharesByNamespace = (\<lambda>(ax, xs) r ns n. map_sum id (\<lambda>d. (rnd_Shares d, rnd_Proof d)) (RowNamespaceDataFromShares L N xs ns ax))\<rparr>"






section \<open>The accessor of a stored block\<close>

text \<open>A cache of one axis.\<close>

definition one_axis :: "((int \<times> 'b axisWithProofs) option, 'b) axis_lru" where
  "one_axis = \<lparr>al_New = (\<lambda>n. None), al_Get = (\<lambda>k l. (case l of Some (k', e) \<Rightarrow> if k' = k then Some e else None | None \<Rightarrow> None, l)), al_Add = (\<lambda>k e l. Some (k, e))\<rparr>"



definition ex_nsl :: "byte list nslib" where
  "ex_nsl = \<lparr>NamespaceSize = 1, NewNamespaceFromBytes = Some, Bytes = id, ValidateForData = (\<lambda>ns. ns \<noteq> [255])\<rparr>"





abbreviation ex_accessor :: "((ODSQ4 \<times> nat, (int \<times> (nat \<times> byte list list) axisWithProofs) option) proofsCache closeOnce validation, leaf_proof) accessorStreamer" where
  "ex_accessor \<equiv> wrapAccessor rep_lib ex_nsl (leaf_blocks rep_lib wide_lib) one_axis (ODSQ4_accessor rep_lib wide_lib fmempty)"





theorem closed_accessor_refuses_witness:
  "fst (ask ex_accessor QShares (snd (a_Close ex_accessor (wrap_state (ODSWithQ4 rep_open None, 0))))) = AErr
    \<and> a_Close ex_accessor (snd (a_Close ex_accessor (wrap_state (ODSWithQ4 rep_open None, 0)))) = (None, snd (a_Close ex_accessor (wrap_state (ODSWithQ4 rep_open None, 0))))"
  by (rule closed_accessor_refuses [of _ _ _ _ _ _ "fst (a_Close ex_accessor (wrap_state (ODSWithQ4 rep_open None, 0)))"]) simp_all

section \<open>Parity halves\<close>




end
