(* ===== verification/FileSystem.thy ===== *)
theory FileSystem
  imports Prelude
begin

text \<open>
  The calls of the operating system that the block store makes (package \<^verbatim>\<open>os\<close>), on a file system of directories, files with hard
  links, and symbolic links. Every call may fail, and the process may die in any of them; what a process has written stays. The
  outcomes of the calls to come are a list, so that a statement over all lists covers every fault at every place.
\<close>

section \<open>Errors\<close>

text \<open>A Go error is the list of the errors it wraps or joins; \<^verbatim>\<open>nil\<close> is the empty list. \<^verbatim>\<open>errors.Is\<close> is membership,
  \<^verbatim>\<open>errors.Join\<close> puts two lists together and \<^verbatim>\<open>fmt.Errorf\<close> with \<^verbatim>\<open>%w\<close> keeps a list as it is.\<close>

datatype os_error = ErrExist | ErrNotExist | ErrStoreNotFound | ErrOther

type_synonym go_error = "os_error list"

definition errors_Is :: "go_error \<Rightarrow> os_error \<Rightarrow> bool" where
  "errors_Is err e \<longleftrightarrow> e \<in> set err"

fun err_of :: "os_error + 'a \<Rightarrow> go_error" where
  "err_of (Inl e) = [e]"
| "err_of (Inr _) = []"

section \<open>The file system\<close>

type_synonym path = "string list"

datatype node = Dir | Regular nat | Symlink path

text \<open>What happens to a call: it works, fails without effect, writes a few bytes and fails, or the process dies in it, a write
  having got some bytes through.\<close>

datatype fault = Fine | Fails | Cut nat | Dies nat

record fsys =
  nodes :: "(path, node) fmap"
  inodes :: "(nat, byte list) fmap"
  inodeNext :: nat
  faults :: "fault list"
  down :: bool

definition take_fault :: "fsys \<Rightarrow> fault \<times> fsys" where
  "take_fault fs = (case faults fs of [] \<Rightarrow> (Fine, fs) | f # fl \<Rightarrow> (f, fs\<lparr>faults := fl\<rparr>))"

definition syscall :: "(fsys \<Rightarrow> (os_error + 'a) \<times> fsys) \<Rightarrow> fsys \<Rightarrow> (os_error + 'a) \<times> fsys" where
  "syscall call fs =
     (if down fs then (Inl ErrOther, fs)
      else
        case take_fault fs of
          (Fine, fs1) \<Rightarrow> call fs1
        | (Dies _, fs1) \<Rightarrow> (Inl ErrOther, fs1\<lparr>down := True\<rparr>)
        | (_, fs1) \<Rightarrow> (Inl ErrOther, fs1))"

text \<open>The target of a symbolic link is relative to the directory of the link; at most 40 links are followed.\<close>

definition join_path :: "path \<Rightarrow> path \<Rightarrow> path" where
  "join_path dir target = foldl (\<lambda>d c. if c = ''..'' then butlast d else d @ [c]) dir target"

fun follow :: "nat \<Rightarrow> (path, node) fmap \<Rightarrow> path \<Rightarrow> path" where
  "follow 0 ns p = p"
| "follow (Suc n) ns p = (case fmlookup ns p of Some (Symlink t) \<Rightarrow> follow n ns (join_path (butlast p) t) | _ \<Rightarrow> p)"

definition in_dir :: "fsys \<Rightarrow> path \<Rightarrow> bool" where
  "in_dir fs p \<longleftrightarrow> fmlookup (nodes fs) (butlast p) = Some Dir"

section \<open>The calls\<close>

definition add_node :: "path \<Rightarrow> node \<Rightarrow> fsys \<Rightarrow> (os_error + unit) \<times> fsys" where
  "add_node p n fs =
     (if fmlookup (nodes fs) p \<noteq> None then (Inl ErrExist, fs)
      else if \<not> in_dir fs p then (Inl ErrNotExist, fs)
      else (Inr (), fs\<lparr>nodes := fmupd p n (nodes fs)\<rparr>))"

definition os_Mkdir :: "path \<Rightarrow> fsys \<Rightarrow> (os_error + unit) \<times> fsys" where
  "os_Mkdir p = syscall (add_node p Dir)"

definition os_Symlink :: "path \<Rightarrow> path \<Rightarrow> fsys \<Rightarrow> (os_error + unit) \<times> fsys" where
  "os_Symlink target p = syscall (add_node p (Symlink target))"

definition os_Link :: "path \<Rightarrow> path \<Rightarrow> fsys \<Rightarrow> (os_error + unit) \<times> fsys" where
  "os_Link old new = syscall (\<lambda>fs. case fmlookup (nodes fs) old of
       None \<Rightarrow> (Inl ErrNotExist, fs)
     | Some Dir \<Rightarrow> (Inl ErrOther, fs)
     | Some n \<Rightarrow> add_node new n fs)"

text \<open>Opening a file that must not exist yet (\<^verbatim>\<open>O_CREATE|O_EXCL\<close>), for writing.\<close>

definition os_Create :: "path \<Rightarrow> fsys \<Rightarrow> (os_error + nat) \<times> fsys" where
  "os_Create p = syscall (\<lambda>fs.
     let i = inodeNext fs in
     case add_node p (Regular i) fs of
       (Inl e, fs1) \<Rightarrow> (Inl e, fs1)
     | (Inr _, fs1) \<Rightarrow> (Inr i, fs1\<lparr>inodes := fmupd i [] (inodes fs1), inodeNext := Suc i\<rparr>))"

definition inode_content :: "fsys \<Rightarrow> nat \<Rightarrow> byte list" where
  "inode_content fs i = (case fmlookup (inodes fs) i of None \<Rightarrow> [] | Some bs \<Rightarrow> bs)"

definition append_inode :: "nat \<Rightarrow> byte list \<Rightarrow> fsys \<Rightarrow> fsys" where
  "append_inode i bs fs = fs\<lparr>inodes := fmupd i (inode_content fs i @ bs) (inodes fs)\<rparr>"

text \<open>The writes of one file through a buffer, as one: they arrive in order and stop at the first that fails.\<close>

definition os_Write :: "nat \<Rightarrow> byte list \<Rightarrow> fsys \<Rightarrow> (os_error + unit) \<times> fsys" where
  "os_Write i bs fs =
     (if down fs then (Inl ErrOther, fs)
      else
        case take_fault fs of
          (Fine, fs1) \<Rightarrow> (Inr (), append_inode i bs fs1)
        | (Fails, fs1) \<Rightarrow> (Inl ErrOther, fs1)
        | (Cut n, fs1) \<Rightarrow> (Inl ErrOther, append_inode i (take n bs) fs1)
        | (Dies n, fs1) \<Rightarrow> (Inl ErrOther, (append_inode i (take n bs) fs1)\<lparr>down := True\<rparr>))"

definition os_Close :: "fsys \<Rightarrow> (os_error + unit) \<times> fsys" where
  "os_Close = syscall (\<lambda>fs. (Inr (), fs))"

text \<open>Opening for reading gives the content; a file is read after everything that is written to it.\<close>

definition os_Open :: "path \<Rightarrow> fsys \<Rightarrow> (os_error + byte list) \<times> fsys" where
  "os_Open p = syscall (\<lambda>fs. case fmlookup (nodes fs) (follow 40 (nodes fs) p) of
       Some (Regular i) \<Rightarrow> (Inr (inode_content fs i), fs)
     | None \<Rightarrow> (Inl ErrNotExist, fs)
     | _ \<Rightarrow> (Inl ErrOther, fs))"

definition os_Read :: "byte list \<Rightarrow> fsys \<Rightarrow> (os_error + byte list) \<times> fsys" where
  "os_Read content = syscall (\<lambda>fs. (Inr content, fs))"

definition os_Stat :: "path \<Rightarrow> fsys \<Rightarrow> (os_error + int) \<times> fsys" where
  "os_Stat p = syscall (\<lambda>fs. case fmlookup (nodes fs) (follow 40 (nodes fs) p) of
       Some (Regular i) \<Rightarrow> (Inr (int (length (inode_content fs i))), fs)
     | Some Dir \<Rightarrow> (Inr 0, fs)
     | Some (Symlink _) \<Rightarrow> (Inl ErrOther, fs)
     | None \<Rightarrow> (Inl ErrNotExist, fs))"

definition os_Remove :: "path \<Rightarrow> fsys \<Rightarrow> (os_error + unit) \<times> fsys" where
  "os_Remove p = syscall (\<lambda>fs. case fmlookup (nodes fs) p of
       None \<Rightarrow> (Inl ErrNotExist, fs)
     | Some Dir \<Rightarrow> (Inl ErrOther, fs)
     | Some _ \<Rightarrow> (Inr (), fs\<lparr>nodes := fmdrop p (nodes fs)\<rparr>))"

end
