(* ===== verification/Store.thy ===== *)
theory Store
  imports FileSystem EdsAccess AccessorCache
begin

text \<open>
  The block store (\<^verbatim>\<open>store/store.go\<close>, \<^verbatim>\<open>striplock.go\<close>, \<^verbatim>\<open>store_options.go\<close>, \<^verbatim>\<open>store_cache.go\<close>) on a file system whose calls may
  fail and in which the process may die, the creation of block files (\<^verbatim>\<open>store/file\<close>) and the empty block (\<^verbatim>\<open>share/empty.go\<close>).
  Operations run one at a time; the locks that make them do so are modelled on their own.
\<close>

section \<open>The empty block\<close>

text \<open>\<open>minHash\<close> is the hash of the least header of the application; a mismatch panics.\<close>

definition computeEmpty :: "square_lib \<Rightarrow> eds_lib \<Rightarrow> nat \<Rightarrow> byte list \<Rightarrow> (eds \<times> AxisRoots \<times> byte list) option" where
  "computeEmpty L E minShareCount minHash =
     (case ComputeExtendedDataSquare E (replicate minShareCount (TailPaddingShare L)) of
        Inl e \<Rightarrow> None
      | Inr eds \<Rightarrow>
          (case NewDataAvailabilityHeader E eds of
             Inl e \<Rightarrow> None
           | Inr roots \<Rightarrow> if minHash \<noteq> RootsHash E roots then None else Some (eds, roots, RootsHash E roots)))"

section \<open>Creating and checking the files of a block\<close>

text \<open>A square whose shares have no valid namespaces is given up after the header was written.\<close>

definition CreateODS :: "square_lib \<Rightarrow> nat \<Rightarrow> eds_lib \<Rightarrow> path \<Rightarrow> AxisRoots \<Rightarrow> eds \<Rightarrow> fsys \<Rightarrow> go_error \<times> fsys" where
  "CreateODS L nsSize E p roots eds fs =
     (case os_Create p fs of
        (Inl e, fs1) \<Rightarrow> ([e], fs1)
      | (Inr f, fs1) \<Rightarrow>
          let (err, fs2) =
                (case ODS_content L nsSize roots (RootsHash E roots) eds of
                   Inl e \<Rightarrow> ([ErrOther], snd (os_Write f (writeHeader (ODS_header (RootsHash E roots) eds)) fs1))
                 | Inr bs \<Rightarrow> map_prod err_of id (os_Write f bs fs1));
              (errClose, fs3) = os_Close fs2 in
          (err @ err_of errClose, fs3))"

definition createQ4 :: "path \<Rightarrow> eds \<Rightarrow> fsys \<Rightarrow> go_error \<times> fsys" where
  "createQ4 p eds fs =
     (case os_Create p fs of
        (Inl e, fs1) \<Rightarrow> ([e], fs1)
      | (Inr f, fs1) \<Rightarrow>
          let (err, fs2) = os_Write f (writeQ4 eds) fs1;
              (errClose, fs3) = os_Close fs2 in
          (err_of err @ err_of errClose, fs3))"

text \<open>The two files are written at the same time: when the process dies in one, the other may have got anywhere.\<close>

definition CreateODSQ4 :: "square_lib \<Rightarrow> nat \<Rightarrow> eds_lib \<Rightarrow> path \<Rightarrow> path \<Rightarrow> AxisRoots \<Rightarrow> eds \<Rightarrow> fsys \<Rightarrow> go_error \<times> fsys" where
  "CreateODSQ4 L nsSize E pathODS q4Path roots eds fs =
     (let (err, fs1) = CreateODS L nsSize E pathODS roots eds fs;
          (q4Err, fs2) = createQ4 q4Path eds (fs1\<lparr>down := down fs\<rparr>) in
      (err @ q4Err, fs2\<lparr>down := down fs1 \<or> down fs2\<rparr>))"

definition OpenODS_file :: "path \<Rightarrow> fsys \<Rightarrow> (go_error + ODS) \<times> fsys" where
  "OpenODS_file p fs =
     (case os_Open p fs of
        (Inl e, fs1) \<Rightarrow> (Inl [e], fs1)
      | (Inr content, fs1) \<Rightarrow>
          (case os_Read content fs1 of
             (Inl e, fs2) \<Rightarrow> (Inl [e], fs2)
           | (Inr content, fs2) \<Rightarrow> (case OpenODS content of Inl e \<Rightarrow> (Inl [ErrOther], fs2) | Inr f \<Rightarrow> (Inr f, fs2))))"

definition ValidateODSSize_file :: "square_lib \<Rightarrow> path \<Rightarrow> eds \<Rightarrow> fsys \<Rightarrow> go_error \<times> fsys" where
  "ValidateODSSize_file L p eds fs =
     (case OpenODS_file p fs of
        (Inl e, fs1) \<Rightarrow> (e, fs1)
      | (Inr f, fs1) \<Rightarrow>
          (case os_Read (fl f) fs1 of
             (Inl e, fs2) \<Rightarrow> ([e], fs2)
           | (Inr content, fs2) \<Rightarrow> (case ValidateODSSize L content eds of Some e \<Rightarrow> ([ErrOther], fs2) | None \<Rightarrow> ([], fs2))))"

definition validateQ4Size_file :: "path \<Rightarrow> eds \<Rightarrow> fsys \<Rightarrow> go_error \<times> fsys" where
  "validateQ4Size_file p eds fs =
     (case os_Open p fs of
        (Inl e, fs1) \<Rightarrow> ([e], fs1)
      | (Inr content, fs1) \<Rightarrow>
          (case os_Read content fs1 of
             (Inl e, fs2) \<Rightarrow> ([e], fs2)
           | (Inr content, fs2) \<Rightarrow> (case validateQ4Size content eds of Some e \<Rightarrow> ([ErrOther], fs2) | None \<Rightarrow> ([], fs2))))"

definition ValidateODSQ4Size :: "square_lib \<Rightarrow> path \<Rightarrow> path \<Rightarrow> eds \<Rightarrow> fsys \<Rightarrow> go_error \<times> fsys" where
  "ValidateODSQ4Size L pathODS q4Path eds fs =
     (case ValidateODSSize_file L pathODS eds fs of
        ([], fs1) \<Rightarrow> validateQ4Size_file q4Path eds fs1
      | (err, fs1) \<Rightarrow> (err, fs1))"

section \<open>Paths\<close>

text \<open>\<^verbatim>\<open>strconv.Itoa\<close>.\<close>

fun nat_digits :: "nat \<Rightarrow> string" where
  "nat_digits n = (if n < 10 then [''0123456789'' ! n] else nat_digits (n div 10) @ [''0123456789'' ! (n mod 10)])"

definition Itoa :: "int \<Rightarrow> string" where
  "Itoa i = (if i < 0 then CHR ''-'' # nat_digits (nat (- i)) else nat_digits (nat i))"

definition blocksPath :: path where "blocksPath = [''blocks'']"

definition heightsPath :: path where "heightsPath = blocksPath @ [''heights'']"

definition odsFileExt :: string where "odsFileExt = ''.ods''"

definition q4FileExt :: string where "q4FileExt = ''.q4''"

definition hashToPath :: "path \<Rightarrow> byte list \<Rightarrow> string \<Rightarrow> path" where
  "hashToPath base dh ext = base @ blocksPath @ [DataHash_String dh @ ext]"

definition hashToRelativePath :: "byte list \<Rightarrow> string \<Rightarrow> path" where
  "hashToRelativePath dh ext = [''..'', DataHash_String dh @ ext]"

definition heightToPath :: "path \<Rightarrow> u64 \<Rightarrow> string \<Rightarrow> path" where
  "heightToPath base h ext = base @ heightsPath @ [Itoa (sint h) @ ext]"

definition mkdir :: "path \<Rightarrow> fsys \<Rightarrow> go_error \<times> fsys" where
  "mkdir p fs = (case os_Mkdir p fs of (r, fs1) \<Rightarrow> (if errors_Is (err_of r) ErrExist then [] else err_of r, fs1))"

definition hardLink :: "path \<Rightarrow> path \<Rightarrow> fsys \<Rightarrow> go_error \<times> fsys" where
  "hardLink p linkpath fs = map_prod err_of id (os_Link p linkpath fs)"

definition symlink :: "path \<Rightarrow> path \<Rightarrow> fsys \<Rightarrow> go_error \<times> fsys" where
  "symlink p linkpath fs = map_prod err_of id (os_Symlink p linkpath fs)"

definition file_exists :: "path \<Rightarrow> fsys \<Rightarrow> (go_error + bool) \<times> fsys" where
  "file_exists p fs =
     (case os_Stat p fs of
        (Inr _, fs1) \<Rightarrow> (Inr True, fs1)
      | (Inl e, fs1) \<Rightarrow> (if errors_Is [e] ErrNotExist then Inr False else Inl [e], fs1))"

definition remove_file :: "path \<Rightarrow> fsys \<Rightarrow> go_error \<times> fsys" where
  "remove_file p fs = (case os_Remove p fs of (r, fs1) \<Rightarrow> (if errors_Is (err_of r) ErrNotExist then [] else err_of r, fs1))"

definition fileSize :: "path \<Rightarrow> fsys \<Rightarrow> int \<times> fsys" where
  "fileSize p fs = (case os_Stat p fs of (Inl e, fs1) \<Rightarrow> (0, fs1) | (Inr n, fs1) \<Rightarrow> (n, fs1))"

section \<open>The store\<close>

text \<open>
  What a caller gets: the square just put, or the files of a block, under \<^const>\<open>wrapAccessor\<close>. The cache of accessors is an
  interface; a loader may open files.
\<close>

datatype opened = InMemory eds | OnDisk ODS "byte list option"

record 'c Cache =
  c_Has :: "u64 \<Rightarrow> 'c \<Rightarrow> bool"
  c_Get :: "u64 \<Rightarrow> 'c \<Rightarrow> (go_error + opened) \<times> 'c"
  c_GetOrLoad :: "u64 \<Rightarrow> (fsys \<Rightarrow> (go_error + opened) \<times> fsys) \<Rightarrow> 'c \<times> fsys \<Rightarrow> (go_error + opened) \<times> 'c \<times> fsys"
  c_Remove :: "u64 \<Rightarrow> 'c \<Rightarrow> go_error \<times> 'c"

record 'c Store =
  basepath :: path
  cache :: 'c
  disk :: fsys

text \<open>What the store is built over: the packages of shares and squares, the empty block and the operations of its cache.\<close>

record 'c store_env =
  se_lib :: square_lib
  se_nsSize :: nat
  se_eds :: eds_lib
  EmptyEDS :: eds
  EmptyEDSRoots :: AxisRoots
  EmptyEDSDataHash :: "byte list"
  se_cache :: "'c Cache"
  newCache :: "int \<Rightarrow> 'c"

definition on_disk :: "(fsys \<Rightarrow> 'a \<times> fsys) \<Rightarrow> 'c Store \<Rightarrow> 'a \<times> 'c Store" where
  "on_disk f s = (case f (disk s) of (r, fs) \<Rightarrow> (r, s\<lparr>disk := fs\<rparr>))"

definition cache_remove :: "'c store_env \<Rightarrow> u64 \<Rightarrow> 'c Store \<Rightarrow> go_error \<times> 'c Store" where
  "cache_remove K h s = (case c_Remove (se_cache K) h (cache s) of (err, c) \<Rightarrow> (err, s\<lparr>cache := c\<rparr>))"

definition linkHeight :: "'c store_env \<Rightarrow> byte list \<Rightarrow> u64 \<Rightarrow> 'c Store \<Rightarrow> go_error \<times> 'c Store" where
  "linkHeight K dh h s =
     (let linktoOds = heightToPath (basepath s) h odsFileExt in
      if IsEmptyEDS (EmptyEDSDataHash K) dh then on_disk (symlink (hashToRelativePath dh odsFileExt) linktoOds) s
      else on_disk (hardLink (hashToPath (basepath s) dh odsFileExt) linktoOds) s)"

definition removeODS :: "'c store_env \<Rightarrow> u64 \<Rightarrow> byte list \<Rightarrow> 'c Store \<Rightarrow> go_error \<times> 'c Store" where
  "removeODS K h dh s =
     (case cache_remove K h s of
        (e # es, s1) \<Rightarrow> (e # es, s1)
      | ([], s1) \<Rightarrow>
          (case on_disk (remove_file (heightToPath (basepath s) h odsFileExt)) s1 of
             (e # es, s2) \<Rightarrow> (e # es, s2)
           | ([], s2) \<Rightarrow>
               if IsEmptyEDS (EmptyEDSDataHash K) dh then ([], s2)
               else on_disk (remove_file (hashToPath (basepath s) dh odsFileExt)) s2))"

definition removeQ4 :: "'c store_env \<Rightarrow> u64 \<Rightarrow> byte list \<Rightarrow> 'c Store \<Rightarrow> go_error \<times> 'c Store" where
  "removeQ4 K h dh s =
     (if IsEmptyEDS (EmptyEDSDataHash K) dh then ([], s)
      else
        case cache_remove K h s of
          (e # es, s1) \<Rightarrow> (e # es, s1)
        | ([], s1) \<Rightarrow> on_disk (remove_file (hashToPath (basepath s) dh q4FileExt)) s1)"

definition removeODSQ4 :: "'c store_env \<Rightarrow> u64 \<Rightarrow> byte list \<Rightarrow> 'c Store \<Rightarrow> go_error \<times> 'c Store" where
  "removeODSQ4 K h dh s =
     (case removeODS K h dh s of
        (e # es, s1) \<Rightarrow> (e # es, s1)
      | ([], s1) \<Rightarrow> removeQ4 K h dh s1)"

definition validateAndRecoverODSQ4 :: "'c store_env \<Rightarrow> eds \<Rightarrow> AxisRoots \<Rightarrow> u64 \<Rightarrow> path \<Rightarrow> path \<Rightarrow> 'c Store \<Rightarrow> go_error \<times> 'c Store" where
  "validateAndRecoverODSQ4 K square roots h pathODS q4Path s =
     (case on_disk (ValidateODSQ4Size (se_lib K) pathODS q4Path square) s of
        ([], s1) \<Rightarrow> ([], s1)
      | (_, s1) \<Rightarrow>
          (case removeODSQ4 K h (RootsHash (se_eds K) roots) s1 of
             ([], s2) \<Rightarrow> on_disk (CreateODSQ4 (se_lib K) (se_nsSize K) (se_eds K) pathODS q4Path roots square) s2
           | (err, s2) \<Rightarrow> (err, s2)))"

definition validateAndRecoverODS :: "'c store_env \<Rightarrow> eds \<Rightarrow> AxisRoots \<Rightarrow> u64 \<Rightarrow> path \<Rightarrow> 'c Store \<Rightarrow> go_error \<times> 'c Store" where
  "validateAndRecoverODS K square roots h pathODS s =
     (case on_disk (ValidateODSSize_file (se_lib K) pathODS square) s of
        ([], s1) \<Rightarrow> ([], s1)
      | (_, s1) \<Rightarrow>
          (case removeODS K h (RootsHash (se_eds K) roots) s1 of
             ([], s2) \<Rightarrow> on_disk (CreateODS (se_lib K) (se_nsSize K) (se_eds K) pathODS roots square) s2
           | (err, s2) \<Rightarrow> (err, s2)))"

text \<open>The last part of both ways to create the files of a block: a height that is already linked is a success.\<close>

definition link_created ::
    "'c store_env \<Rightarrow> (u64 \<Rightarrow> byte list \<Rightarrow> 'c Store \<Rightarrow> go_error \<times> 'c Store) \<Rightarrow> byte list \<Rightarrow> u64 \<Rightarrow> 'c Store \<Rightarrow> (bool \<times> go_error) \<times> 'c Store" where
  "link_created K undo dh h s =
     (case linkHeight K dh h s of
        (err, s1) \<Rightarrow>
          if errors_Is err ErrExist then ((True, []), s1)
          else if err \<noteq> [] then (case undo h dh s1 of (removeErr, s2) \<Rightarrow> ((False, err @ removeErr), s2))
          else ((False, []), s1))"

definition createODSQ4File :: "'c store_env \<Rightarrow> eds \<Rightarrow> AxisRoots \<Rightarrow> u64 \<Rightarrow> 'c Store \<Rightarrow> (bool \<times> go_error) \<times> 'c Store" where
  "createODSQ4File K square roots h s =
     (let dh = RootsHash (se_eds K) roots;
          pathODS = hashToPath (basepath s) dh odsFileExt;
          q4Path = hashToPath (basepath s) dh q4FileExt;
          (err, s1) = on_disk (CreateODSQ4 (se_lib K) (se_nsSize K) (se_eds K) pathODS q4Path roots square) s in
      if err \<noteq> [] \<and> \<not> errors_Is err ErrExist
      then (case removeODSQ4 K h dh s1 of (removeErr, s2) \<Rightarrow> ((False, err @ removeErr), s2))
      else
        case (if errors_Is err ErrExist then validateAndRecoverODSQ4 K square roots h pathODS q4Path s1 else ([], s1)) of
          ([], s2) \<Rightarrow> link_created K (removeODSQ4 K) dh h s2
        | (err, s2) \<Rightarrow> ((False, err), s2))"

definition createODSFile :: "'c store_env \<Rightarrow> eds \<Rightarrow> AxisRoots \<Rightarrow> u64 \<Rightarrow> 'c Store \<Rightarrow> (bool \<times> go_error) \<times> 'c Store" where
  "createODSFile K square roots h s =
     (let dh = RootsHash (se_eds K) roots;
          pathODS = hashToPath (basepath s) dh odsFileExt;
          (err, s1) = on_disk (CreateODS (se_lib K) (se_nsSize K) (se_eds K) pathODS roots square) s in
      if err \<noteq> [] \<and> \<not> errors_Is err ErrExist
      then (case removeODS K h dh s1 of (removeErr, s2) \<Rightarrow> ((False, err @ removeErr), s2))
      else
        case (if errors_Is err ErrExist then validateAndRecoverODS K square roots h pathODS s1 else ([], s1)) of
          ([], s2) \<Rightarrow> link_created K (removeODS K) dh h s2
        | (err, s2) \<Rightarrow> ((False, err), s2))"

text \<open>Before it is written a block is put into the cache, from where it can be read meanwhile; a failure there is only logged.\<close>

definition accessorLoader :: "eds \<Rightarrow> fsys \<Rightarrow> (go_error + opened) \<times> fsys" where
  "accessorLoader square fs = (Inr (InMemory square), fs)"

definition cache_load :: "'c store_env \<Rightarrow> u64 \<Rightarrow> (fsys \<Rightarrow> (go_error + opened) \<times> fsys) \<Rightarrow> 'c Store \<Rightarrow> (go_error + opened) \<times> 'c Store" where
  "cache_load K h loader s =
     (case c_GetOrLoad (se_cache K) h loader (cache s, disk s) of (r, c, fs) \<Rightarrow> (r, s\<lparr>cache := c, disk := fs\<rparr>))"

definition put :: "'c store_env \<Rightarrow> AxisRoots \<Rightarrow> u64 \<Rightarrow> eds \<Rightarrow> bool \<Rightarrow> 'c Store \<Rightarrow> go_error \<times> 'c Store" where
  "put K roots h square withQ4 s =
     (let dh = RootsHash (se_eds K) roots in
      if IsEmptyEDS (EmptyEDSDataHash K) dh
      then (case linkHeight K dh h s of (err, s1) \<Rightarrow> (if errors_Is err ErrExist then [] else err, s1))
      else
        let (_, s1) = cache_load K h (accessorLoader square) s;
            ((exists, err), s2) = (if withQ4 then createODSQ4File K square roots h s1 else createODSFile K square roots h s1) in
        (if exists then [] else err, s2))"

definition PutODSQ4 :: "'c store_env \<Rightarrow> AxisRoots \<Rightarrow> u64 \<Rightarrow> eds \<Rightarrow> 'c Store \<Rightarrow> go_error \<times> 'c Store" where
  "PutODSQ4 K roots h square = put K roots h square True"

definition PutODS :: "'c store_env \<Rightarrow> AxisRoots \<Rightarrow> u64 \<Rightarrow> eds \<Rightarrow> 'c Store \<Rightarrow> go_error \<times> 'c Store" where
  "PutODS K roots h square = put K roots h square False"

text \<open>The file of the fourth quadrant is opened when it is first needed; here it is looked up together with the first file.\<close>

definition q4_content :: "path \<Rightarrow> fsys \<Rightarrow> byte list option" where
  "q4_content p fs = (case fmlookup (nodes fs) (follow 40 (nodes fs) p) of Some (Regular i) \<Rightarrow> Some (inode_content fs i) | _ \<Rightarrow> None)"

definition openAccessor :: "path \<Rightarrow> path \<Rightarrow> fsys \<Rightarrow> (go_error + opened) \<times> fsys" where
  "openAccessor base p fs =
     (case OpenODS_file p fs of
        (Inl e, fs1) \<Rightarrow> (Inl (if errors_Is e ErrNotExist then [ErrStoreNotFound] else e), fs1)
      | (Inr f, fs1) \<Rightarrow> (Inr (OnDisk f (q4_content (hashToPath base (ODS_DataHash f) q4FileExt) fs1)), fs1))"

definition GetByHash :: "'c store_env \<Rightarrow> byte list \<Rightarrow> 'c Store \<Rightarrow> (go_error + opened) \<times> 'c Store" where
  "GetByHash K dh s =
     (if IsEmptyEDS (EmptyEDSDataHash K) dh then (Inr (InMemory (EmptyEDS K)), s)
      else on_disk (openAccessor (basepath s) (hashToPath (basepath s) dh odsFileExt)) s)"

definition GetByHeight :: "'c store_env \<Rightarrow> u64 \<Rightarrow> 'c Store \<Rightarrow> (go_error + opened) \<times> 'c Store" where
  "GetByHeight K h s =
     (case c_Get (se_cache K) h (cache s) of
        (Inr f, c) \<Rightarrow> (Inr f, s\<lparr>cache := c\<rparr>)
      | (Inl e, c) \<Rightarrow> on_disk (openAccessor (basepath s) (heightToPath (basepath s) h odsFileExt)) (s\<lparr>cache := c\<rparr>))"

definition HasByHash :: "'c store_env \<Rightarrow> byte list \<Rightarrow> 'c Store \<Rightarrow> (go_error + bool) \<times> 'c Store" where
  "HasByHash K dh s =
     (if IsEmptyEDS (EmptyEDSDataHash K) dh then (Inr True, s) else on_disk (file_exists (hashToPath (basepath s) dh odsFileExt)) s)"

definition HasByHeight :: "'c store_env \<Rightarrow> u64 \<Rightarrow> 'c Store \<Rightarrow> (go_error + bool) \<times> 'c Store" where
  "HasByHeight K h s =
     (if c_Has (se_cache K) h (cache s) then (Inr True, s) else on_disk (file_exists (heightToPath (basepath s) h odsFileExt)) s)"

definition HasQ4ByHash :: "byte list \<Rightarrow> 'c Store \<Rightarrow> (go_error + bool) \<times> 'c Store" where
  "HasQ4ByHash dh s = on_disk (file_exists (hashToPath (basepath s) dh q4FileExt)) s"

text \<open>The sizes of the files are taken for the metrics before they are removed.\<close>

definition RemoveODSQ4 :: "'c store_env \<Rightarrow> u64 \<Rightarrow> byte list \<Rightarrow> 'c Store \<Rightarrow> go_error \<times> 'c Store" where
  "RemoveODSQ4 K h dh s =
     removeODSQ4 K h dh
       (if IsEmptyEDS (EmptyEDSDataHash K) dh then s
        else snd (on_disk (fileSize (hashToPath (basepath s) dh q4FileExt)) (snd (on_disk (fileSize (hashToPath (basepath s) dh odsFileExt)) s))))"

definition RemoveQ4 :: "'c store_env \<Rightarrow> u64 \<Rightarrow> byte list \<Rightarrow> 'c Store \<Rightarrow> go_error \<times> 'c Store" where
  "RemoveQ4 K h dh s =
     removeQ4 K h dh
       (if IsEmptyEDS (EmptyEDSDataHash K) dh then s else snd (on_disk (fileSize (hashToPath (basepath s) dh q4FileExt)) s))"

section \<open>Starting\<close>

record store_Parameters =
  RecentBlocksCacheSize :: int

definition store_DefaultParameters :: store_Parameters where
  "store_DefaultParameters = \<lparr>RecentBlocksCacheSize = 10\<rparr>"

definition store_Validate :: "store_Parameters \<Rightarrow> go_error" where
  "store_Validate p = (if RecentBlocksCacheSize p < 0 then [ErrOther] else [])"

definition populateEmptyFile :: "'c store_env \<Rightarrow> 'c Store \<Rightarrow> go_error \<times> 'c Store" where
  "populateEmptyFile K s =
     (let pathOds = hashToPath (basepath s) (EmptyEDSDataHash K) odsFileExt;
          q4Path = hashToPath (basepath s) (EmptyEDSDataHash K) q4FileExt;
          (err1, s1) = on_disk (remove_file pathOds) s;
          (err2, s2) = on_disk (remove_file q4Path) s1 in
      if err1 @ err2 \<noteq> [] then (err1 @ err2, s2)
      else on_disk (CreateODSQ4 (se_lib K) (se_nsSize K) (se_eds K) pathOds q4Path (EmptyEDSRoots K) (EmptyEDS K)) s2)"

definition NewStore :: "'c store_env \<Rightarrow> store_Parameters \<Rightarrow> path \<Rightarrow> fsys \<Rightarrow> (go_error + 'c Store) \<times> fsys" where
  "NewStore K params basePath fs =
     (if store_Validate params \<noteq> [] then (Inl (store_Validate params), fs)
      else
        case mkdir (basePath @ blocksPath) fs of
          (e # es, fs1) \<Rightarrow> (Inl (e # es), fs1)
        | ([], fs1) \<Rightarrow>
            (case mkdir (basePath @ heightsPath) fs1 of
               (e # es, fs2) \<Rightarrow> (Inl (e # es), fs2)
             | ([], fs2) \<Rightarrow>
                 (case populateEmptyFile K \<lparr>basepath = basePath, cache = newCache K (RecentBlocksCacheSize params), disk = fs2\<rparr> of
                    (e # es, s) \<Rightarrow> (Inl (e # es), disk s)
                  | ([], s) \<Rightarrow> (Inr s, disk s))))"

section \<open>Locks\<close>

datatype store_lock = HashLock nat | HeightLock nat

text \<open>A hash of less than two bytes and a table whose sz is no 16-bit number other than zero panic.\<close>

definition byHeight :: "nat \<Rightarrow> u64 \<Rightarrow> store_lock" where
  "byHeight sz h = HeightLock (unat (h mod of_nat sz))"

definition byHash :: "nat \<Rightarrow> byte list \<Rightarrow> store_lock option" where
  "byHash sz dh =
     (let n = length dh; last = (ucast (dh ! (n - 1)) :: u16) OR push_bit 8 (ucast (dh ! (n - 2))) in
      if n < 2 \<or> (of_nat sz :: u16) = 0 then None else Some (HashLock (unat (last mod of_nat sz))))"

definition byHashAndHeight :: "nat \<Rightarrow> byte list \<Rightarrow> u64 \<Rightarrow> store_lock list option" where
  "byHashAndHeight sz dh h = map_option (\<lambda>l. [l, byHeight sz h]) (byHash sz dh)"

section \<open>A second cache\<close>

definition NewDoubleCache :: "'c Cache \<Rightarrow> 'd Cache \<Rightarrow> ('c \<times> 'd) Cache" where
  "NewDoubleCache A B = \<lparr>
     c_Has = (\<lambda>h (a, b). Double_Has (\<lambda>h. c_Has A h a) (\<lambda>h. c_Has B h b) h),
     c_Get = (\<lambda>h. Double_Get (c_Get A h) (c_Get B h)),
     c_GetOrLoad = (\<lambda>h loader ((a, b), fs).
       case Double_GetOrLoad (c_Get B h) (c_GetOrLoad A h loader) ((a, fs), b) of (r, (a1, fs1), b1) \<Rightarrow> (r, (a1, b1), fs1)),
     c_Remove = (\<lambda>h (a, b). case (c_Remove A h a, c_Remove B h b) of ((err1, a1), (err2, b1)) \<Rightarrow> (err1 @ err2, a1, b1))\<rparr>"

definition NoopCache :: "unit Cache" where
  "NoopCache = \<lparr>
     c_Has = (\<lambda>h _. Noop_Has h),
     c_Get = (\<lambda>h c. (map_sum (\<lambda>_. [ErrOther]) id (Noop_Get h), c)),
     c_GetOrLoad = (\<lambda>h loader (c, fs). case loader fs of (r, fs1) \<Rightarrow> (r, c, fs1)),
     c_Remove = (\<lambda>h c. ([], c))\<rparr>"

text \<open>The store with a further cache; it reads from both, and puts go to the first.\<close>

definition WithCache :: "'d Cache \<Rightarrow> (int \<Rightarrow> 'd) \<Rightarrow> int \<Rightarrow> 'c store_env \<Rightarrow> 'c Store \<Rightarrow> go_error + ('c \<times> 'd) store_env \<times> ('c \<times> 'd) Store" where
  "WithCache D newD sz K s =
     (if sz \<le> 0 then Inl [ErrOther]
      else Inr (\<lparr>se_lib = se_lib K, se_nsSize = se_nsSize K, se_eds = se_eds K, EmptyEDS = EmptyEDS K, EmptyEDSRoots = EmptyEDSRoots K,
                 EmptyEDSDataHash = EmptyEDSDataHash K, se_cache = NewDoubleCache (se_cache K) D, newCache = (\<lambda>n. (newCache K n, newD sz))\<rparr>,
               \<lparr>basepath = basepath s, cache = (cache s, newD sz), disk = disk s\<rparr>))"

definition CachedStore_openFile :: "u64 \<Rightarrow> ('c \<times> 'd) Store \<Rightarrow> fsys \<Rightarrow> (go_error + opened) \<times> fsys" where
  "CachedStore_openFile h s fs = openAccessor (basepath s) (heightToPath (basepath s) h odsFileExt) fs"

definition CachedStore_GetByHeight :: "'c Cache \<Rightarrow> 'd Cache \<Rightarrow> u64 \<Rightarrow> ('c \<times> 'd) Store \<Rightarrow> (go_error + opened) \<times> ('c \<times> 'd) Store" where
  "CachedStore_GetByHeight A B h s =
     (case c_Get A h (fst (cache s)) of
        (Inr acc, a) \<Rightarrow> (Inr acc, s\<lparr>cache := (a, snd (cache s))\<rparr>)
      | (Inl e, a) \<Rightarrow>
          (case c_GetOrLoad B h (CachedStore_openFile h s) (snd (cache s), disk s) of
             (r, b, fs) \<Rightarrow> (r, s\<lparr>cache := (a, b), disk := fs\<rparr>)))"

definition CachedStore_HasByHeight :: "('c \<times> 'd) store_env \<Rightarrow> u64 \<Rightarrow> ('c \<times> 'd) Store \<Rightarrow> (go_error + bool) \<times> ('c \<times> 'd) Store" where
  "CachedStore_HasByHeight K h s = HasByHeight K h s"

end
