(* ===== verification/StoreProofs.thy ===== *)
theory StoreProofs
  imports Store EdsStream "HOL-Library.Sublist"
begin

text \<open>
  What the block store keeps on disk whatever calls fail and whenever the process dies: files under hashes are prefixes of the
  right content, and a height is linked only to complete files.
\<close>

section \<open>Paths\<close>

declare nat_digits.simps [simp del]

lemma digit_inj: "m < 10 \<Longrightarrow> n < 10 \<Longrightarrow> ''0123456789'' ! m = ''0123456789'' ! n \<Longrightarrow> m = n"
  by (rule nth_eq_iff_index_eq [THEN iffD1]) auto

lemma nat_digits_not_Nil [simp]: "nat_digits n \<noteq> []" "[] \<noteq> nat_digits n"
  by (subst nat_digits.simps, simp)+

lemma nat_digits_inj: "nat_digits m = nat_digits n \<Longrightarrow> m = n"
proof (induction m arbitrary: n rule: nat_digits.induct)
  case (1 m)
  show ?case
  proof (cases "m < 10")
    case m: True
    then have "n < 10" using "1.prems" by (auto simp: nat_digits.simps [of m] nat_digits.simps [of n] split: if_splits)
    then show ?thesis using m "1.prems" digit_inj [of m n] by (simp add: nat_digits.simps [of m] nat_digits.simps [of n])
  next
    case m: False
    then have n: "\<not> n < 10" using "1.prems" by (auto simp: nat_digits.simps [of m] nat_digits.simps [of n])
    have "nat_digits (m div 10) = nat_digits (n div 10)" and d: "''0123456789'' ! (m mod 10) = ''0123456789'' ! (n mod 10)"
      using "1.prems" m n by (simp_all add: nat_digits.simps [of m] nat_digits.simps [of n])
    then have "m div 10 = n div 10" using "1.IH" m by blast
    moreover have "m mod 10 = n mod 10" using digit_inj [OF _ _ d] by simp
    ultimately show ?thesis by (metis div_mult_mod_eq)
  qed
qed

lemma digits_no_sign: "c \<in> set (nat_digits n) \<Longrightarrow> c \<noteq> CHR ''-''"
proof (induction n rule: nat_digits.induct)
  case (1 n)
  have d: "''0123456789'' ! k \<noteq> CHR ''-''" if "k < 10" for k
  proof -
    have "''0123456789'' ! k \<in> set ''0123456789''" using that by (intro nth_mem) simp
    then show ?thesis by auto
  qed
  show ?case using "1.IH" "1.prems" d [of n] d [of "n mod 10"] by (subst (asm) nat_digits.simps) (auto split: if_splits)
qed

lemma Itoa_inj: "Itoa i = Itoa j \<Longrightarrow> i = j"
proof -
  have *: "nat_digits m \<noteq> CHR ''-'' # xs" for m xs using digits_no_sign [of "CHR ''-''" m] by auto
  assume "Itoa i = Itoa j"
  then show "i = j" using nat_digits_inj [of "nat (- i)" "nat (- j)"] nat_digits_inj [of "nat i" "nat j"] * *[symmetric]
    by (auto simp: Itoa_def split: if_splits)
qed

lemma hexdigit_inj: "a < 16 \<Longrightarrow> b < 16 \<Longrightarrow> hexdigit a = hexdigit b \<Longrightarrow> a = b"
proof -
  assume "a < 16" "b < 16" "hexdigit a = hexdigit b"
  then have "unat a < 16" "unat b < 16" "''0123456789ABCDEF'' ! unat a = ''0123456789ABCDEF'' ! unat b"
    by (auto simp: hexdigit_def word_less_nat_alt)
  then have "unat a = unat b" by (intro nth_eq_iff_index_eq [THEN iffD1]) auto
  then show "a = b" by (rule unsigned_word_eqI)
qed

lemma DataHash_String_inj: "DataHash_String dh = DataHash_String dh' \<Longrightarrow> dh = dh'"
proof (induction dh arbitrary: dh')
  case Nil
  then show ?case by (cases dh') (simp_all add: DataHash_String_def)
next
  case (Cons b bs)
  then obtain c cs where dh': "dh' = c # cs" by (cases dh') (simp_all add: DataHash_String_def)
  have "hexdigit (b div 16) = hexdigit (c div 16)" "hexdigit (b mod 16) = hexdigit (c mod 16)" "DataHash_String bs = DataHash_String cs"
    using Cons.prems by (simp_all add: dh' DataHash_String_def)
  moreover have "x div 16 < 16 \<and> x mod 16 < 16" for x :: byte
    using unsigned_less [of x, where 'a = nat] by (auto simp: word_less_nat_alt unat_div unat_mod)
  ultimately have "b div 16 = c div 16" "b mod 16 = c mod 16" "bs = cs" using Cons.IH hexdigit_inj by blast+
  then show ?case unfolding dh' by (metis div_mult_mod_eq)
qed

lemma hash_ods_eq [simp]: "hashToPath base dh odsFileExt = hashToPath base dh' odsFileExt \<longleftrightarrow> dh = dh'"
  by (auto simp: hashToPath_def dest: DataHash_String_inj)

lemma hash_q4_eq [simp]: "hashToPath base dh q4FileExt = hashToPath base dh' q4FileExt \<longleftrightarrow> dh = dh'"
  by (auto simp: hashToPath_def dest: DataHash_String_inj)

lemma ext_neq: "a @ odsFileExt \<noteq> b @ q4FileExt"
proof
  assume "a @ odsFileExt = b @ q4FileExt"
  then have "rev odsFileExt @ rev a = rev q4FileExt @ rev b" by (metis rev_append)
  then show False by (simp add: odsFileExt_def q4FileExt_def)
qed

lemma hash_ods_q4 [simp]: "hashToPath base dh odsFileExt \<noteq> hashToPath base dh' q4FileExt" "hashToPath base dh q4FileExt \<noteq> hashToPath base dh' odsFileExt"
  using ext_neq [of "DataHash_String dh" "DataHash_String dh'"] ext_neq [of "DataHash_String dh'" "DataHash_String dh"] by (auto simp: hashToPath_def)

lemma hash_height [simp]: "hashToPath base dh ext \<noteq> heightToPath base h ext'" "heightToPath base h ext' \<noteq> hashToPath base dh ext"
  by (simp_all add: hashToPath_def heightToPath_def heightsPath_def blocksPath_def)

lemma height_eq [simp]: "heightToPath base h odsFileExt = heightToPath base h' odsFileExt \<longleftrightarrow> h = h'"
  using Itoa_inj [of "sint h" "sint h'"] signed_word_eqI [of h h'] by (auto simp: heightToPath_def)

lemma dir_neq_hash: "hashToPath base dh odsFileExt \<noteq> base @ heightsPath" "hashToPath base dh q4FileExt \<noteq> base @ heightsPath"
    "hashToPath base dh ext \<noteq> base @ blocksPath" "heightToPath base h ext \<noteq> base @ heightsPath" "heightToPath base h ext \<noteq> base @ blocksPath"
proof -
  have "rev (a @ ''.ods'') \<noteq> rev ''heights''" "rev (a @ ''.q4'') \<noteq> rev ''heights''" for a by simp_all
  then have "a @ ''.ods'' \<noteq> ''heights''" "a @ ''.q4'' \<noteq> ''heights''" for a by metis+
  then show "hashToPath base dh odsFileExt \<noteq> base @ heightsPath" "hashToPath base dh q4FileExt \<noteq> base @ heightsPath"
      "hashToPath base dh ext \<noteq> base @ blocksPath" "heightToPath base h ext \<noteq> base @ heightsPath" "heightToPath base h ext \<noteq> base @ blocksPath"
    by (simp_all add: hashToPath_def heightToPath_def heightsPath_def blocksPath_def odsFileExt_def q4FileExt_def)
qed

section \<open>System calls\<close>

text \<open>Two states with the same files.\<close>

definition same_files :: "fsys \<Rightarrow> fsys \<Rightarrow> bool" where
  "same_files fs fs1 \<longleftrightarrow> nodes fs1 = nodes fs \<and> inode_content fs1 = inode_content fs \<and> inodeNext fs1 = inodeNext fs"

lemma same_files_refl [simp]: "same_files fs fs" "same_files fs (fs\<lparr>faults := xs\<rparr>)" "same_files fs (fs\<lparr>faults := xs, down := d\<rparr>)" "same_files fs (fs\<lparr>down := d\<rparr>)"
  by (simp_all add: same_files_def inode_content_def fun_eq_iff)

lemma same_files_trans: "same_files a b \<Longrightarrow> same_files b c \<Longrightarrow> same_files a c"
  by (simp add: same_files_def)

text \<open>A new file with some content.\<close>

definition new_file :: "path \<Rightarrow> byte list \<Rightarrow> fsys \<Rightarrow> fsys \<Rightarrow> bool" where
  "new_file p bs fs fs1 \<longleftrightarrow> fmlookup (nodes fs) p = None \<and> nodes fs1 = fmupd p (Regular (inodeNext fs)) (nodes fs)
     \<and> inode_content fs1 = (inode_content fs)(inodeNext fs := bs) \<and> inodeNext fs1 = Suc (inodeNext fs)"

lemma take_fault_same: "take_fault fs = (f, fs1) \<Longrightarrow> same_files fs fs1 \<and> down fs1 = down fs"
  by (auto simp: take_fault_def split: list.splits)

lemma syscall_cases:
  assumes "syscall call fs = (r, fs1)"
  obtains (fault) "r = Inl ErrOther" "same_files fs fs1" | (works) fs0 where "same_files fs fs0" "\<not> down fs" "\<not> down fs0" "call fs0 = (r, fs1)"
  using assms take_fault_same [of fs]
  by (fastforce simp: syscall_def split: if_splits prod.splits fault.splits intro: same_files_trans [OF _ same_files_refl(4)])

lemma add_node_cases:
  assumes "add_node p n fs = (r, fs1)"
  obtains (fault) e where "r = Inl e" "fs1 = fs" "e = ErrExist \<longleftrightarrow> fmlookup (nodes fs) p \<noteq> None"
  | (works) "r = Inr ()" "fs1 = fs\<lparr>nodes := fmupd p n (nodes fs)\<rparr>" "fmlookup (nodes fs) p = None"
  using assms by (auto simp: add_node_def split: if_splits)

lemma os_Create_cases:
  assumes "os_Create p fs = (r, fs1)"
  obtains (fault) e where "r = Inl e" "same_files fs fs1" "e = ErrExist \<Longrightarrow> fmlookup (nodes fs) p \<noteq> None"
  | (works) "r = Inr (inodeNext fs)" "new_file p [] fs fs1"
  using assms unfolding os_Create_def
proof (cases rule: syscall_cases)
  case (works fs0)
  show thesis
  proof (cases "fst (add_node p (Regular (inodeNext fs0)) fs0)")
    case (Inl e)
    then show thesis using works that(1) [of e]
      by (auto simp: Let_def same_files_def split: prod.splits sum.splits elim!: add_node_cases)
  next
    case (Inr u)
    then show thesis using works that(2)
      by (auto simp: Let_def same_files_def new_file_def inode_content_def fun_eq_iff split: prod.splits sum.splits elim!: add_node_cases)
  qed
qed (use that in auto)

lemma os_Write_cases:
  assumes "os_Write i bs fs = (r, fs1)"
  obtains n where "nodes fs1 = nodes fs" "inodeNext fs1 = inodeNext fs" "inode_content fs1 = (inode_content fs)(i := inode_content fs i @ take n bs)"
    "r = Inr () \<Longrightarrow> length bs \<le> n"
proof -
  have app: "inode_content (append_inode i b fs') = (inode_content fs')(i := inode_content fs' i @ b)" for b fs'
    by (auto simp: append_inode_def inode_content_def)
  have app2: "inode_content ((append_inode i b fs')\<lparr>down := d\<rparr>) = inode_content (append_inode i b fs')" for b d fs'
    by (simp add: inode_content_def fun_eq_iff)
  obtain f fs0 where f: "take_fault fs = (f, fs0)" by fastforce
  then have s: "nodes fs0 = nodes fs" "inodeNext fs0 = inodeNext fs" "inode_content fs0 = inode_content fs" using take_fault_same by (auto simp: same_files_def)
  show thesis
  proof (cases "down fs")
    case True
    then show thesis using assms that [of 0] by (auto simp: os_Write_def)
  next
    case False
    show thesis
    proof (cases f)
      case Fine
      then show thesis using assms f s False that [of "length bs"] by (auto simp: os_Write_def app) (simp add: append_inode_def)
    next
      case Fails
      then show thesis using assms f s False that [of 0] by (auto simp: os_Write_def)
    next
      case (Cut n)
      then show thesis using assms f s False that [of n] by (auto simp: os_Write_def app) (simp add: append_inode_def)
    next
      case (Dies n)
      then show thesis using assms f s False that [of n] by (auto simp: os_Write_def app app2) (simp add: append_inode_def)
    qed
  qed
qed

lemma os_Close_same: "os_Close fs = (r, fs1) \<Longrightarrow> same_files fs fs1"
  unfolding os_Close_def by (erule syscall_cases) auto

lemma os_Read_cases: "os_Read c fs = (r, fs1) \<Longrightarrow> same_files fs fs1 \<and> (\<forall>c1. r = Inr c1 \<longrightarrow> c1 = c)"
  unfolding os_Read_def by (erule syscall_cases) auto

lemma os_Open_cases:
  assumes "os_Open p fs = (r, fs1)"
  shows "same_files fs fs1 \<and> (\<forall>c. r = Inr c \<longrightarrow> (\<exists>i. fmlookup (nodes fs) (follow 40 (nodes fs) p) = Some (Regular i) \<and> c = inode_content fs i))"
  using assms unfolding os_Open_def by (cases rule: syscall_cases) (auto simp: same_files_def split: option.splits node.splits)

lemma os_Stat_same: "os_Stat p fs = (r, fs1) \<Longrightarrow> same_files fs fs1"
  unfolding os_Stat_def by (erule syscall_cases) (auto simp: same_files_def split: option.splits node.splits)

lemma os_Remove_cases:
  assumes "os_Remove p fs = (r, fs1)"
  obtains (fault) e where "r = Inl e" "same_files fs fs1" "e = ErrNotExist \<Longrightarrow> fmlookup (nodes fs) p = None"
  | (works) fs0 where "r = Inr ()" "same_files fs fs0" "fs1 = fs0\<lparr>nodes := fmdrop p (nodes fs0)\<rparr>"
  using assms unfolding os_Remove_def
  by (cases rule: syscall_cases) (auto simp: same_files_def split: option.splits node.splits)

section \<open>Blocks and their files\<close>

text \<open>\<open>blk\<close> gives the roots and the square behind a data hash.\<close>

definition block_known :: "'c store_env \<Rightarrow> (byte list \<Rightarrow> AxisRoots \<times> eds) \<Rightarrow> byte list \<Rightarrow> bool" where
  "block_known K blk dh \<longleftrightarrow> block_ok (se_lib K) (se_nsSize K) (fst (blk dh)) dh (snd (blk dh)) \<and> RootsHash (se_eds K) (fst (blk dh)) = dh"

definition ods_bytes :: "'c store_env \<Rightarrow> (byte list \<Rightarrow> AxisRoots \<times> eds) \<Rightarrow> byte list \<Rightarrow> byte list" where
  "ods_bytes K blk dh = projr (ODS_content (se_lib K) (se_nsSize K) (fst (blk dh)) dh (snd (blk dh)))"

definition q4_bytes :: "(byte list \<Rightarrow> AxisRoots \<times> eds) \<Rightarrow> byte list \<Rightarrow> byte list" where
  "q4_bytes blk dh = writeQ4 (snd (blk dh))"

lemma ods_bytes_ok: "block_known K blk dh \<Longrightarrow> ODS_content (se_lib K) (se_nsSize K) (fst (blk dh)) dh (snd (blk dh)) = Inr (ods_bytes K blk dh)"
  using ODS_content_ok by (fastforce simp: block_known_def ods_bytes_def)

lemma new_file_same: "new_file p bs fs fs1 \<Longrightarrow> same_files fs1 fs2 \<Longrightarrow> new_file p bs fs fs2"
  by (simp add: new_file_def same_files_def)

lemma same_new_file: "same_files fs fs1 \<Longrightarrow> new_file p bs fs1 fs2 \<Longrightarrow> new_file p bs fs fs2"
  by (simp add: new_file_def same_files_def)

lemma new_file_write:
  assumes "new_file p [] fs fs1" "os_Write (inodeNext fs) bs fs1 = (r, fs2)"
  obtains n where "new_file p (take n bs) fs fs2" "r = Inr () \<Longrightarrow> length bs \<le> n"
  using assms(2) by (cases rule: os_Write_cases) (use assms(1) that in \<open>auto simp: new_file_def\<close>)

definition created :: "path \<Rightarrow> byte list \<Rightarrow> go_error \<Rightarrow> fsys \<Rightarrow> fsys \<Rightarrow> bool" where
  "created p bs err fs fs1 \<longleftrightarrow>
     (err \<noteq> [] \<and> same_files fs fs1 \<and> (errors_Is err ErrExist \<longrightarrow> fmlookup (nodes fs) p \<noteq> None))
     \<or> (\<exists>n. new_file p (take n bs) fs fs1 \<and> (err = [] \<longrightarrow> length bs \<le> n))"

lemma created_same: "same_files fs fs1 \<Longrightarrow> created p bs err fs1 fs2 \<Longrightarrow> same_files fs2 fs3 \<Longrightarrow> created p bs err fs fs3"
  unfolding created_def same_files_def new_file_def by auto

lemma write_created:
  assumes "new_file p [] fs fs1" "os_Write (inodeNext fs) bs fs1 = (r, fs2)" "os_Close fs2 = (c, fs3)"
  shows "created p bs (err_of r @ err_of c) fs fs3"
  using assms(1,2)
proof (rule new_file_write)
  fix n assume n: "new_file p (take n bs) fs fs2" "r = Inr () \<Longrightarrow> length bs \<le> n"
  have "new_file p (take n bs) fs fs3" using new_file_same [OF n(1) os_Close_same [OF assms(3)]] .
  moreover have "err_of r @ err_of c = [] \<longrightarrow> length bs \<le> n" using n(2) by (cases r) auto
  ultimately show ?thesis unfolding created_def by blast
qed

lemma CreateODS_created:
  assumes "block_known K blk dh" "CreateODS (se_lib K) (se_nsSize K) (se_eds K) p (fst (blk dh)) (snd (blk dh)) fs = (err, fs1)"
  shows "created p (ods_bytes K blk dh) err fs fs1"
proof -
  obtain r fsa where c: "os_Create p fs = (r, fsa)" by fastforce
  then show ?thesis
  proof (cases rule: os_Create_cases)
    case (fault e)
    then show ?thesis using assms(2) c by (auto simp: CreateODS_def created_def errors_Is_def)
  next
    case works
    obtain r2 fs2 where w: "os_Write (inodeNext fs) (ods_bytes K blk dh) fsa = (r2, fs2)" by fastforce
    obtain r3 fs3 where cl: "os_Close fs2 = (r3, fs3)" by fastforce
    show ?thesis using assms write_created [OF works(2) w cl] c works(1) w cl ods_bytes_ok [OF assms(1)]
      by (auto simp: CreateODS_def block_known_def)
  qed
qed

lemma createQ4_created:
  assumes "createQ4 p (snd (blk dh)) fs = (err, fs1)"
  shows "created p (q4_bytes blk dh) err fs fs1"
proof -
  obtain r fsa where c: "os_Create p fs = (r, fsa)" by fastforce
  then show ?thesis
  proof (cases rule: os_Create_cases)
    case (fault e)
    then show ?thesis using assms c by (auto simp: createQ4_def created_def errors_Is_def)
  next
    case works
    obtain r2 fs2 where w: "os_Write (inodeNext fs) (q4_bytes blk dh) fsa = (r2, fs2)" by fastforce
    obtain r3 fs3 where cl: "os_Close fs2 = (r3, fs3)" by fastforce
    show ?thesis using assms write_created [OF works(2) w cl] c works(1) w cl by (auto simp: createQ4_def q4_bytes_def)
  qed
qed

lemma CreateODSQ4_created:
  assumes "block_known K blk dh" "CreateODSQ4 (se_lib K) (se_nsSize K) (se_eds K) p q (fst (blk dh)) (snd (blk dh)) fs = (err, fs2)"
  obtains e1 e2 fs1 where "created p (ods_bytes K blk dh) e1 fs fs1" "created q (q4_bytes blk dh) e2 fs1 fs2" "err = e1 @ e2"
proof -
  obtain e1 fs1 where 1: "CreateODS (se_lib K) (se_nsSize K) (se_eds K) p (fst (blk dh)) (snd (blk dh)) fs = (e1, fs1)" by fastforce
  obtain e2 fs3 where 2: "createQ4 q (snd (blk dh)) (fs1\<lparr>down := down fs\<rparr>) = (e2, fs3)" by fastforce
  have "created q (q4_bytes blk dh) e2 fs1 fs2" if "fs2 = fs3\<lparr>down := d\<rparr>" for d
    using created_same [OF same_files_refl(4) createQ4_created [where blk = blk and dh = dh, OF 2] same_files_refl(4)] that by simp
  then show thesis using assms(2) 1 2 CreateODS_created [OF assms(1) 1] that by (auto simp: CreateODSQ4_def Let_def)
qed

lemma OpenODS_file_cases:
  assumes "OpenODS_file p fs = (r, fs1)"
  shows "same_files fs fs1 \<and> (\<forall>f. r = Inr f \<longrightarrow> (\<exists>i. fmlookup (nodes fs) (follow 40 (nodes fs) p) = Some (Regular i) \<and> OpenODS (inode_content fs i) = Inr f))"
proof -
  obtain r1 fsa where o: "os_Open p fs = (r1, fsa)" by fastforce
  show ?thesis
  proof (cases r1)
    case (Inl e)
    then show ?thesis using assms o os_Open_cases [OF o] by (auto simp: OpenODS_file_def)
  next
    case (Inr c)
    obtain r2 fsb where rd: "os_Read c fsa = (r2, fsb)" by fastforce
    then have "same_files fs fsb" using os_Open_cases [OF o] os_Read_cases [OF rd] same_files_trans by blast
    then show ?thesis using assms o Inr rd os_Open_cases [OF o] os_Read_cases [OF rd] by (auto simp: OpenODS_file_def split: sum.splits)
  qed
qed

lemma OpenODS_fl: "OpenODS c = Inr f \<Longrightarrow> fl f = c"
  by (auto simp: OpenODS_def split: sum.splits)

lemma ValidateODSSize_file_cases:
  assumes "ValidateODSSize_file L p eds fs = (err, fs1)"
  shows "same_files fs fs1 \<and> (err = [] \<longrightarrow> (\<exists>i. fmlookup (nodes fs) (follow 40 (nodes fs) p) = Some (Regular i) \<and> ValidateODSSize L (inode_content fs i) eds = None))"
proof -
  obtain r fsa where o: "OpenODS_file p fs = (r, fsa)" by fastforce
  show ?thesis
  proof (cases r)
    case (Inl e)
    then have "e \<noteq> []" using o by (auto simp: OpenODS_file_def split: prod.splits sum.splits)
    then show ?thesis using assms o Inl OpenODS_file_cases [OF o] by (auto simp: ValidateODSSize_file_def)
  next
    case (Inr f)
    obtain r2 fsb where rd: "os_Read (fl f) fsa = (r2, fsb)" by fastforce
    then have "same_files fs fsb" using OpenODS_file_cases [OF o] os_Read_cases [OF rd] same_files_trans by blast
    then show ?thesis using assms o Inr rd OpenODS_file_cases [OF o] os_Read_cases [OF rd]
      by (auto simp: ValidateODSSize_file_def dest!: OpenODS_fl split: sum.splits option.splits)
  qed
qed

lemma validateQ4Size_file_cases:
  assumes "validateQ4Size_file p eds fs = (err, fs1)"
  shows "same_files fs fs1 \<and> (err = [] \<longrightarrow> (\<exists>i. fmlookup (nodes fs) (follow 40 (nodes fs) p) = Some (Regular i) \<and> validateQ4Size (inode_content fs i) eds = None))"
proof -
  obtain r fsa where o: "os_Open p fs = (r, fsa)" by fastforce
  show ?thesis
  proof (cases r)
    case (Inl e)
    then show ?thesis using assms o os_Open_cases [OF o] by (auto simp: validateQ4Size_file_def)
  next
    case (Inr c)
    obtain r2 fsb where rd: "os_Read c fsa = (r2, fsb)" by fastforce
    then have "same_files fs fsb" using os_Open_cases [OF o] os_Read_cases [OF rd] same_files_trans by blast
    then show ?thesis using assms o Inr rd os_Open_cases [OF o] os_Read_cases [OF rd]
      by (auto simp: validateQ4Size_file_def split: sum.splits option.splits)
  qed
qed

section \<open>The invariant of the files\<close>

definition file_at :: "fsys \<Rightarrow> path \<Rightarrow> byte list \<Rightarrow> bool" where
  "file_at fs p bs \<longleftrightarrow> (\<exists>i. fmlookup (nodes fs) p = Some (Regular i) \<and> inode_content fs i = bs)"

definition partial_at :: "fsys \<Rightarrow> path \<Rightarrow> byte list \<Rightarrow> bool" where
  "partial_at fs p bs \<longleftrightarrow> fmlookup (nodes fs) p = None \<or> (\<exists>n. file_at fs p (take n bs))"

definition fresh_inodes :: "fsys \<Rightarrow> bool" where
  "fresh_inodes fs \<longleftrightarrow> (\<forall>p i. fmlookup (nodes fs) p = Some (Regular i) \<longrightarrow> i < inodeNext fs)"

text \<open>\<open>chain\<close> gives the data hash of each height. Data hashes tell squares apart, and no two heights but those of empty blocks
  have the same.\<close>

definition env_ok :: "'c store_env \<Rightarrow> (byte list \<Rightarrow> AxisRoots \<times> eds) \<Rightarrow> (u64 \<Rightarrow> byte list) \<Rightarrow> bool" where
  "env_ok K blk chain \<longleftrightarrow> (\<forall>h. block_known K blk (chain h)) \<and> block_known K blk (EmptyEDSDataHash K)
     \<and> blk (EmptyEDSDataHash K) = (EmptyEDSRoots K, EmptyEDS K)
     \<and> (\<forall>h1 h2. chain h1 = chain h2 \<longrightarrow> chain h1 \<noteq> EmptyEDSDataHash K \<longrightarrow> h1 = h2)"

abbreviation hashes :: "'c store_env \<Rightarrow> (u64 \<Rightarrow> byte list) \<Rightarrow> byte list set" where
  "hashes K chain \<equiv> insert (EmptyEDSDataHash K) (range chain)"

definition linked :: "path \<Rightarrow> fsys \<Rightarrow> u64 \<Rightarrow> bool" where
  "linked base fs h \<longleftrightarrow> fmlookup (nodes fs) (heightToPath base h odsFileExt) \<noteq> None"

text \<open>How the fourth quadrant of a height is stored: always, never, or in any way.\<close>

definition q4_inv :: "'c store_env \<Rightarrow> (byte list \<Rightarrow> AxisRoots \<times> eds) \<Rightarrow> (u64 \<Rightarrow> byte list) \<Rightarrow> (u64 \<Rightarrow> bool option) \<Rightarrow> path \<Rightarrow> fsys \<Rightarrow> bool" where
  "q4_inv K blk chain mode base fs \<longleftrightarrow> (\<forall>h. chain h \<noteq> EmptyEDSDataHash K \<longrightarrow>
     (mode h = Some False \<longrightarrow> fmlookup (nodes fs) (hashToPath base (chain h) q4FileExt) = None)
     \<and> (mode h = Some True \<longrightarrow> linked base fs h \<longrightarrow> file_at fs (hashToPath base (chain h) q4FileExt) (q4_bytes blk (chain h))))"

definition height_inv :: "'c store_env \<Rightarrow> (byte list \<Rightarrow> AxisRoots \<times> eds) \<Rightarrow> (u64 \<Rightarrow> byte list) \<Rightarrow> path \<Rightarrow> fsys \<Rightarrow> bool" where
  "height_inv K blk chain base fs \<longleftrightarrow> (\<forall>h. linked base fs h \<longrightarrow>
     (if chain h = EmptyEDSDataHash K
      then fmlookup (nodes fs) (heightToPath base h odsFileExt) = Some (Symlink (hashToRelativePath (chain h) odsFileExt))
      else file_at fs (heightToPath base h odsFileExt) (ods_bytes K blk (chain h))))"

definition dirs_plain :: "path \<Rightarrow> fsys \<Rightarrow> bool" where
  "dirs_plain base fs \<longleftrightarrow> fmlookup (nodes fs) (base @ blocksPath) \<in> {None, Some Dir} \<and> fmlookup (nodes fs) (base @ heightsPath) \<in> {None, Some Dir}"

definition fs_inv :: "'c store_env \<Rightarrow> (byte list \<Rightarrow> AxisRoots \<times> eds) \<Rightarrow> (u64 \<Rightarrow> byte list) \<Rightarrow> (u64 \<Rightarrow> bool option) \<Rightarrow> path \<Rightarrow> fsys \<Rightarrow> bool" where
  "fs_inv K blk chain mode base fs \<longleftrightarrow> fresh_inodes fs
     \<and> (\<forall>dh \<in> hashes K chain. partial_at fs (hashToPath base dh odsFileExt) (ods_bytes K blk dh) \<and> partial_at fs (hashToPath base dh q4FileExt) (q4_bytes blk dh))
     \<and> height_inv K blk chain base fs \<and> q4_inv K blk chain mode base fs \<and> dirs_plain base fs"

lemmas inv_defs = fs_inv_def height_inv_def q4_inv_def linked_def partial_at_def file_at_def fresh_inodes_def dirs_plain_def

lemma fs_inv_same: "same_files fs fs1 \<Longrightarrow> fs_inv K blk chain mode base fs \<Longrightarrow> fs_inv K blk chain mode base fs1"
  by (simp add: inv_defs same_files_def cong: if_cong)

lemma height_inv_frame:
  assumes "height_inv K blk chain base fs"
    and "\<And>h. linked base fs1 h \<Longrightarrow> fmlookup (nodes fs1) (heightToPath base h odsFileExt) = fmlookup (nodes fs) (heightToPath base h odsFileExt)"
    and "\<And>h bs. linked base fs1 h \<Longrightarrow> file_at fs (heightToPath base h odsFileExt) bs \<Longrightarrow> file_at fs1 (heightToPath base h odsFileExt) bs"
  shows "height_inv K blk chain base fs1"
  unfolding height_inv_def
proof (intro allI impI)
  fix h assume l: "linked base fs1 h"
  then have "linked base fs h" using assms(2) by (simp add: linked_def)
  then show "if chain h = EmptyEDSDataHash K then fmlookup (nodes fs1) (heightToPath base h odsFileExt) = Some (Symlink (hashToRelativePath (chain h) odsFileExt))
      else file_at fs1 (heightToPath base h odsFileExt) (ods_bytes K blk (chain h))"
    using assms(1,3) assms(2) [OF l] l by (auto simp: height_inv_def split: if_splits)
qed

lemma drop_file_at: "file_at fs p bs \<Longrightarrow> p \<noteq> q \<Longrightarrow> file_at (fs\<lparr>nodes := fmdrop q (nodes fs)\<rparr>) p bs"
  by (auto simp: file_at_def inode_content_def)

lemma drop_partial: "partial_at fs p bs \<Longrightarrow> partial_at (fs\<lparr>nodes := fmdrop q (nodes fs)\<rparr>) p bs"
  by (cases "p = q") (auto simp: partial_at_def intro: drop_file_at)

lemma fs_inv_drop:
  assumes "fs_inv K blk chain mode base fs"
    and "\<And>h. chain h \<noteq> EmptyEDSDataHash K \<Longrightarrow> mode h = Some True \<Longrightarrow> p = hashToPath base (chain h) q4FileExt \<Longrightarrow> \<not> linked base fs h"
  shows "fs_inv K blk chain mode base (fs\<lparr>nodes := fmdrop p (nodes fs)\<rparr>)" (is "fs_inv _ _ _ _ _ ?fs")
proof -
  have "height_inv K blk chain base ?fs"
    by (rule height_inv_frame [of K blk chain base fs]) (use assms(1) in \<open>auto simp: fs_inv_def linked_def intro: drop_file_at split: if_splits\<close>)
  moreover have "q4_inv K blk chain mode base ?fs"
    using assms drop_file_at [of fs "hashToPath base (chain h) q4FileExt" _ p for h] by (auto simp: fs_inv_def q4_inv_def linked_def split: if_splits)
  moreover have "dirs_plain base ?fs" using assms(1) by (auto simp: fs_inv_def dirs_plain_def)
  ultimately show ?thesis using assms(1) by (auto simp: fs_inv_def fresh_inodes_def drop_partial split: if_splits)
qed

lemma new_file_at:
  assumes "new_file q bs fs fs1" "fresh_inodes fs"
  shows "file_at fs p cs \<Longrightarrow> file_at fs1 p cs" "p \<noteq> q \<Longrightarrow> fmlookup (nodes fs1) p = fmlookup (nodes fs) p" "file_at fs1 q bs" "fresh_inodes fs1"
proof -
  note d = assms [unfolded new_file_def fresh_inodes_def]
  show "file_at fs1 p cs" if at: "file_at fs p cs"
  proof -
    obtain i where "fmlookup (nodes fs) p = Some (Regular i)" "inode_content fs i = cs" using at by (auto simp: file_at_def)
    moreover from this have "i \<noteq> inodeNext fs" "p \<noteq> q" using d by auto
    ultimately show ?thesis using d by (simp add: file_at_def)
  qed
qed (use assms in \<open>auto simp: new_file_def file_at_def fresh_inodes_def less_SucI split: if_splits\<close>)

lemma new_partial:
  assumes "new_file q bs fs fs1" "fresh_inodes fs" "partial_at fs p cs" "p = q \<Longrightarrow> \<exists>n. bs = take n cs"
  shows "partial_at fs1 p cs"
  using assms new_file_at [OF assms(1,2)] by (cases "p = q") (auto simp: partial_at_def)

lemma fs_inv_new_ods:
  assumes "fs_inv K blk chain mode base fs" "new_file (hashToPath base dh odsFileExt) (take n (ods_bytes K blk dh)) fs fs1"
  shows "fs_inv K blk chain mode base fs1"
proof -
  have f: "fresh_inodes fs" using assms(1) by (simp add: fs_inv_def)
  note new = new_file_at [OF assms(2) f]
  have l: "linked base fs1 h = linked base fs h" for h using new(2) by (simp add: linked_def)
  have "height_inv K blk chain base fs1" by (rule height_inv_frame [of K blk chain base fs]) (use assms(1) new(1,2) in \<open>auto simp: fs_inv_def\<close>)
  moreover have "q4_inv K blk chain mode base fs1" using assms(1) new(1,2) by (auto simp: fs_inv_def q4_inv_def l)
  moreover have "partial_at fs1 (hashToPath base d odsFileExt) (ods_bytes K blk d)" "partial_at fs1 (hashToPath base d q4FileExt) (q4_bytes blk d)"
    if "d \<in> hashes K chain" for d
  proof -
    have "partial_at fs (hashToPath base d odsFileExt) (ods_bytes K blk d)" "partial_at fs (hashToPath base d q4FileExt) (q4_bytes blk d)"
      using that assms(1) unfolding fs_inv_def by blast+
    then show "partial_at fs1 (hashToPath base d odsFileExt) (ods_bytes K blk d)" "partial_at fs1 (hashToPath base d q4FileExt) (q4_bytes blk d)"
      by (auto intro!: new_partial [OF assms(2) f])
  qed
  moreover have "dirs_plain base fs1" using assms(1) new(2) dir_neq_hash(1,2,3) [of base dh, symmetric] by (simp add: fs_inv_def dirs_plain_def)
  ultimately show ?thesis using new(4) by (simp add: fs_inv_def)
qed

lemma fs_inv_new_q4:
  assumes "fs_inv K blk chain mode base fs" "new_file (hashToPath base dh q4FileExt) (take n (q4_bytes blk dh)) fs fs1"
    and "\<And>h. chain h = dh \<Longrightarrow> dh \<noteq> EmptyEDSDataHash K \<Longrightarrow> mode h \<noteq> Some False"
  shows "fs_inv K blk chain mode base fs1"
proof -
  have f: "fresh_inodes fs" using assms(1) by (simp add: fs_inv_def)
  note new = new_file_at [OF assms(2) f]
  have l: "linked base fs1 h = linked base fs h" for h using new(2) by (simp add: linked_def)
  have "height_inv K blk chain base fs1" by (rule height_inv_frame [of K blk chain base fs]) (use assms(1) new(1,2) in \<open>auto simp: fs_inv_def\<close>)
  moreover have "q4_inv K blk chain mode base fs1"
    using assms(1,3) new(1) new(2) [of "hashToPath base (chain h) q4FileExt" for h] by (auto simp: fs_inv_def q4_inv_def l) metis
  moreover have "partial_at fs1 (hashToPath base d odsFileExt) (ods_bytes K blk d)" "partial_at fs1 (hashToPath base d q4FileExt) (q4_bytes blk d)"
    if "d \<in> hashes K chain" for d
  proof -
    have "partial_at fs (hashToPath base d odsFileExt) (ods_bytes K blk d)" "partial_at fs (hashToPath base d q4FileExt) (q4_bytes blk d)"
      using that assms(1) unfolding fs_inv_def by blast+
    then show "partial_at fs1 (hashToPath base d odsFileExt) (ods_bytes K blk d)" "partial_at fs1 (hashToPath base d q4FileExt) (q4_bytes blk d)"
      by (auto intro!: new_partial [OF assms(2) f])
  qed
  moreover have "dirs_plain base fs1" using assms(1) new(2) dir_neq_hash(1,2,3) [of base dh, symmetric] by (simp add: fs_inv_def dirs_plain_def)
  ultimately show ?thesis using new(4) by (simp add: fs_inv_def)
qed

lemma upd_file_at: "file_at fs p bs \<Longrightarrow> p \<noteq> q \<Longrightarrow> file_at (fs\<lparr>nodes := fmupd q n (nodes fs)\<rparr>) p bs"
  by (auto simp: file_at_def inode_content_def)

lemma upd_partial: "partial_at fs p bs \<Longrightarrow> p \<noteq> q \<Longrightarrow> partial_at (fs\<lparr>nodes := fmupd q n (nodes fs)\<rparr>) p bs"
  by (auto simp: partial_at_def intro: upd_file_at)

text \<open>A node added at a path that is neither a hash nor a height.\<close>

lemma fs_inv_other:
  assumes "fs_inv K blk chain mode base fs" "\<And>i. n \<noteq> Regular i"
    and "\<And>dh. p \<noteq> hashToPath base dh odsFileExt" "\<And>dh. p \<noteq> hashToPath base dh q4FileExt" "\<And>h. p \<noteq> heightToPath base h odsFileExt"
    and "p = base @ blocksPath \<or> p = base @ heightsPath \<Longrightarrow> n = Dir"
  shows "fs_inv K blk chain mode base (fs\<lparr>nodes := fmupd p n (nodes fs)\<rparr>)" (is "fs_inv _ _ _ _ _ ?fs")
proof -
  note neq = assms(3-5) [symmetric]
  have "height_inv K blk chain base ?fs"
    by (rule height_inv_frame [of K blk chain base fs]) (use assms neq in \<open>auto simp: fs_inv_def linked_def intro: upd_file_at split: if_splits\<close>)
  moreover have "q4_inv K blk chain mode base ?fs" using assms(1) neq by (auto simp: fs_inv_def q4_inv_def linked_def intro: upd_file_at split: if_splits)
  moreover have "dirs_plain base ?fs" using assms(1,6) by (auto simp: fs_inv_def dirs_plain_def)
  ultimately show ?thesis using assms(1,2) neq by (auto simp: fs_inv_def fresh_inodes_def upd_partial split: if_splits)
qed

text \<open>A height linked to the complete file of its block.\<close>

lemma fs_inv_link:
  assumes inv: "fs_inv K blk chain mode base fs" and h: "chain h \<noteq> EmptyEDSDataHash K" "fmlookup (nodes fs) (heightToPath base h odsFileExt) = None"
    and i: "fmlookup (nodes fs) (hashToPath base (chain h) odsFileExt) = Some (Regular i)" "inode_content fs i = ods_bytes K blk (chain h)"
    and q4: "mode h = Some True \<Longrightarrow> file_at fs (hashToPath base (chain h) q4FileExt) (q4_bytes blk (chain h))"
  shows "fs_inv K blk chain mode base (fs\<lparr>nodes := fmupd (heightToPath base h odsFileExt) (Regular i) (nodes fs)\<rparr>)" (is "fs_inv _ _ _ _ _ ?fs")
proof -
  have "height_inv K blk chain base ?fs"
    unfolding height_inv_def
  proof (intro allI impI)
    fix h' assume l: "linked base ?fs h'"
    show "if chain h' = EmptyEDSDataHash K then fmlookup (nodes ?fs) (heightToPath base h' odsFileExt) = Some (Symlink (hashToRelativePath (chain h') odsFileExt))
        else file_at ?fs (heightToPath base h' odsFileExt) (ods_bytes K blk (chain h'))"
    proof (cases "h' = h")
      case True
      then show ?thesis using h i by (auto simp: file_at_def inode_content_def)
    next
      case False
      then have "linked base fs h'" using l by (simp add: linked_def split: if_splits)
      then show ?thesis using inv False upd_file_at [of fs "heightToPath base h' odsFileExt"] by (auto simp: fs_inv_def height_inv_def split: if_splits)
    qed
  qed
  moreover have "q4_inv K blk chain mode base ?fs"
    unfolding q4_inv_def
  proof (intro allI impI)
    fix h' assume h': "chain h' \<noteq> EmptyEDSDataHash K"
    have "linked base fs h' \<or> h' = h" if "linked base ?fs h'" using that by (auto simp: linked_def split: if_splits)
    then show "(mode h' = Some False \<longrightarrow> fmlookup (nodes ?fs) (hashToPath base (chain h') q4FileExt) = None)
        \<and> (mode h' = Some True \<longrightarrow> linked base ?fs h' \<longrightarrow> file_at ?fs (hashToPath base (chain h') q4FileExt) (q4_bytes blk (chain h')))"
      using inv h' q4 by (auto simp: fs_inv_def q4_inv_def upd_file_at)
  qed
  moreover have "dirs_plain base ?fs" using inv dir_neq_hash(4,5) [of base h] by (simp add: fs_inv_def dirs_plain_def)
  ultimately show ?thesis using inv i(1) by (auto simp: fs_inv_def fresh_inodes_def upd_partial split: if_splits)
qed

lemma fs_inv_symlink:
  assumes inv: "fs_inv K blk chain mode base fs" and h: "chain h = EmptyEDSDataHash K"
  shows "fs_inv K blk chain mode base (fs\<lparr>nodes := fmupd (heightToPath base h odsFileExt) (Symlink (hashToRelativePath (chain h) odsFileExt)) (nodes fs)\<rparr>)"
    (is "fs_inv _ _ _ _ _ ?fs")
proof -
  have "height_inv K blk chain base ?fs"
    unfolding height_inv_def
  proof (intro allI impI)
    fix h' assume l: "linked base ?fs h'"
    show "if chain h' = EmptyEDSDataHash K then fmlookup (nodes ?fs) (heightToPath base h' odsFileExt) = Some (Symlink (hashToRelativePath (chain h') odsFileExt))
        else file_at ?fs (heightToPath base h' odsFileExt) (ods_bytes K blk (chain h'))"
    proof (cases "h' = h")
      case True
      then show ?thesis using h by simp
    next
      case False
      then have "linked base fs h'" using l by (simp add: linked_def split: if_splits)
      then show ?thesis using inv False upd_file_at [of fs "heightToPath base h' odsFileExt"] by (auto simp: fs_inv_def height_inv_def split: if_splits)
    qed
  qed
  moreover have "q4_inv K blk chain mode base ?fs" using inv h by (auto simp: fs_inv_def q4_inv_def linked_def intro: upd_file_at split: if_splits)
  moreover have "dirs_plain base ?fs" using inv dir_neq_hash(4,5) [of base h] by (simp add: fs_inv_def dirs_plain_def)
  ultimately show ?thesis using inv by (auto simp: fs_inv_def fresh_inodes_def upd_partial split: if_splits)
qed

end
