(* ===== verification/StoreSafety.thy ===== *)
theory StoreSafety
  imports StoreProofs
begin

text \<open>
  Every operation of the block store keeps its invariant, whatever calls of the operating system fail and wherever the process
  dies: the contract of the cache of accessors, and then one lemma per operation.
\<close>

section \<open>The contract of a cache\<close>

text \<open>What a cache gives for a height was loaded for it, and has not been removed; it may forget entries at any time. It keeps an
  invariant of its own.\<close>

locale accessor_cache =
  fixes C :: "'c Cache" and cache_ok :: "'c \<Rightarrow> bool" and holds :: "'c \<Rightarrow> u64 \<Rightarrow> opened \<Rightarrow> bool"
  assumes get: "cache_ok c \<Longrightarrow> c_Get C h c = (r, c1) \<Longrightarrow> cache_ok c1 \<and> (\<forall>a. r = Inr a \<longrightarrow> holds c h a) \<and> (\<forall>k a. holds c1 k a \<longrightarrow> holds c k a)"
    and load: "cache_ok c \<Longrightarrow> c_GetOrLoad C h ld (c, fs) = (r, c1, fs1) \<Longrightarrow> cache_ok c1 \<and>
      ((fs1 = fs \<and> (\<forall>a. r = Inr a \<longrightarrow> holds c h a) \<and> (\<forall>k a. holds c1 k a \<longrightarrow> holds c k a))
      \<or> (\<exists>r1. ld fs = (r1, fs1) \<and> (\<forall>a. r = Inr a \<longrightarrow> r1 = Inr a) \<and> (\<forall>k a. holds c1 k a \<longrightarrow> holds c k a \<or> k = h \<and> r1 = Inr a)))"
    and remove: "cache_ok c \<Longrightarrow> c_Remove C h c = (err, c1) \<Longrightarrow> cache_ok c1 \<and> (\<forall>k a. holds c1 k a \<longrightarrow> holds c k a) \<and> (err = [] \<longrightarrow> (\<forall>a. \<not> holds c1 h a))"

text \<open>The accessor for a height: the square itself or its files, of which the second may be missing.\<close>

definition right_accessor ::
    "'c store_env \<Rightarrow> (byte list \<Rightarrow> AxisRoots \<times> eds) \<Rightarrow> (u64 \<Rightarrow> byte list) \<Rightarrow> (u64 \<Rightarrow> bool option) \<Rightarrow> u64 \<Rightarrow> opened \<Rightarrow> bool" where
  "right_accessor K blk chain mode h a \<longleftrightarrow>
     (case a of
        InMemory square \<Rightarrow> square = snd (blk (chain h))
      | OnDisk f q4 \<Rightarrow> OpenODS (ods_bytes K blk (chain h)) = Inr f
          \<and> (mode h \<noteq> None \<or> chain h = EmptyEDSDataHash K \<longrightarrow> q4 = None \<or> q4 = Some (q4_bytes blk (chain h))))"

text \<open>What a store finds once it was started: its directories and the files of the empty block.\<close>

definition ready :: "'c store_env \<Rightarrow> (byte list \<Rightarrow> AxisRoots \<times> eds) \<Rightarrow> path \<Rightarrow> fsys \<Rightarrow> bool" where
  "ready K blk base fs \<longleftrightarrow> fmlookup (nodes fs) (base @ blocksPath) = Some Dir \<and> fmlookup (nodes fs) (base @ heightsPath) = Some Dir
     \<and> file_at fs (hashToPath base (EmptyEDSDataHash K) odsFileExt) (ods_bytes K blk (EmptyEDSDataHash K))
     \<and> file_at fs (hashToPath base (EmptyEDSDataHash K) q4FileExt) (q4_bytes blk (EmptyEDSDataHash K))"

section \<open>The store over a cache\<close>

locale block_store = accessor_cache +
  fixes K :: "'a store_env" and blk :: "byte list \<Rightarrow> AxisRoots \<times> eds" and chain :: "u64 \<Rightarrow> byte list"
    and mode :: "u64 \<Rightarrow> bool option" and base :: path
  assumes env: "env_ok K blk chain" and the_cache: "se_cache K = C"
begin

abbreviation E0 where "E0 \<equiv> EmptyEDSDataHash K"

lemma known: "block_known K blk (chain h)" "block_known K blk E0" "dh \<in> hashes K chain \<Longrightarrow> block_known K blk dh"
  using env by (auto simp: env_ok_def)

lemma hash_of: "RootsHash (se_eds K) (fst (blk (chain h))) = chain h"
  using known by (simp add: block_known_def)

lemma one_height: "chain h1 = chain h2 \<Longrightarrow> chain h1 \<noteq> E0 \<Longrightarrow> h1 = h2"
  using env by (auto simp: env_ok_def)

definition st_inv :: "'a Store \<Rightarrow> bool" where
  "st_inv s \<longleftrightarrow> basepath s = base \<and> fs_inv K blk chain mode base (disk s) \<and> cache_ok (cache s) \<and> (\<forall>h a. holds (cache s) h a \<longrightarrow> right_accessor K blk chain mode h a)"

text \<open>What an operation on one height leaves as it is.\<close>

definition goes :: "u64 \<Rightarrow> 'a Store \<Rightarrow> 'a Store \<Rightarrow> bool" where
  "goes h s s1 \<longleftrightarrow> st_inv s1 \<and> (\<forall>h'. h' \<noteq> h \<longrightarrow> linked base (disk s1) h' = linked base (disk s) h')
     \<and> (ready K blk base (disk s) \<longrightarrow> ready K blk base (disk s1))"

lemma goes_refl [simp]: "st_inv s \<Longrightarrow> goes h s s"
  by (simp add: goes_def)

lemma goes_trans: "goes h s s1 \<Longrightarrow> goes h s1 s2 \<Longrightarrow> goes h s s2"
  by (simp add: goes_def)

lemma goes_inv: "goes h s s1 \<Longrightarrow> st_inv s1"
  by (simp add: goes_def)

lemma on_disk_eq: "on_disk f s = (r, s1) \<longleftrightarrow> (\<exists>fs. f (disk s) = (r, fs) \<and> s1 = s\<lparr>disk := fs\<rparr>)"
  by (auto simp: on_disk_def split: prod.splits)

lemma st_inv_disk: "st_inv s \<Longrightarrow> fs_inv K blk chain mode base fs \<Longrightarrow> st_inv (s\<lparr>disk := fs\<rparr>)"
  by (simp add: st_inv_def)

lemma same_goes: "st_inv s \<Longrightarrow> same_files (disk s) fs \<Longrightarrow> goes h s (s\<lparr>disk := fs\<rparr>)"
  using fs_inv_same [of "disk s" fs K blk chain mode base] by (simp add: goes_def st_inv_def linked_def ready_def file_at_def) (simp add: same_files_def)

lemma cache_remove_goes:
  assumes "st_inv s" "cache_remove K h s = (err, s1)"
  shows "goes h s s1 \<and> disk s1 = disk s \<and> (err = [] \<longrightarrow> (\<forall>a. \<not> holds (cache s1) h a))"
  using assms remove [of "cache s" h] the_cache by (fastforce simp: cache_remove_def goes_def st_inv_def split: prod.splits)

text \<open>Removing a file.\<close>

lemma remove_file_cases:
  assumes "remove_file p fs = (err, fs1)"
  shows "same_files fs fs1 \<and> (err = [] \<longrightarrow> fmlookup (nodes fs) p = None) \<or> (\<exists>fs0. same_files fs fs0 \<and> fs1 = fs0\<lparr>nodes := fmdrop p (nodes fs0)\<rparr> \<and> err = [])"
proof -
  obtain r fs2 where r: "os_Remove p fs = (r, fs2)" by fastforce
  then show ?thesis
  proof (cases rule: os_Remove_cases)
    case (fault e)
    then show ?thesis using assms r by (cases "e = ErrNotExist") (auto simp: remove_file_def errors_Is_def)
  next
    case (works fs0)
    then show ?thesis using assms r by (auto simp: remove_file_def errors_Is_def)
  qed
qed

lemma remove_goes:
  assumes inv: "st_inv s" and r: "on_disk (remove_file p) s = (err, s1)"
    and p: "p = heightToPath base h odsFileExt \<or> (\<exists>dh. dh \<noteq> E0 \<and> p = hashToPath base dh odsFileExt)
        \<or> (\<exists>dh. dh \<noteq> E0 \<and> p = hashToPath base dh q4FileExt \<and> (\<forall>h'. chain h' = dh \<longrightarrow> mode h' = Some True \<longrightarrow> \<not> linked base (disk s) h'))"
  shows "goes h s s1 \<and> cache s1 = cache s \<and> (err = [] \<longrightarrow> fmlookup (nodes (disk s1)) p = None) \<and> (\<forall>q. q \<noteq> p \<longrightarrow> fmlookup (nodes (disk s1)) q = fmlookup (nodes (disk s)) q)"
proof -
  obtain fs where fs: "remove_file p (disk s) = (err, fs)" "s1 = s\<lparr>disk := fs\<rparr>" using r by (auto simp: on_disk_eq)
  from remove_file_cases [OF fs(1)] show ?thesis
  proof (elim disjE exE conjE)
    assume s: "same_files (disk s) fs" and e: "err = [] \<longrightarrow> fmlookup (nodes (disk s)) p = None"
    then show ?thesis using same_goes [OF inv s, of h] by (auto simp: fs(2) same_files_def)
  next
    fix fs0 assume s: "same_files (disk s) fs0" and f: "fs = fs0\<lparr>nodes := fmdrop p (nodes fs0)\<rparr>" "err = []"
    have i: "fs_inv K blk chain mode base fs0" using inv s by (auto simp: st_inv_def intro: fs_inv_same)
    have "fs_inv K blk chain mode base fs" unfolding f(1) using p s by (intro fs_inv_drop [OF i]) (auto simp: same_files_def linked_def)
    moreover have "linked base fs h' = linked base (disk s) h'" if "h' \<noteq> h" for h' using p that s by (auto simp: f(1) linked_def same_files_def)
    moreover have "base @ blocksPath \<noteq> p" "base @ heightsPath \<noteq> p" using p dir_neq_hash [of base] by metis+
    then have "ready K blk base fs" if "ready K blk base (disk s)"
      using that p s by (auto simp: ready_def f(1) file_at_def same_files_def inode_content_def fun_eq_iff)
    ultimately show ?thesis using inv s by (simp add: goes_def fs(2) st_inv_disk f(1) same_files_def)
  qed
qed

end

context block_store
begin

subsection \<open>Removing a block\<close>

lemma unlinked: "fmlookup (nodes fs) (heightToPath base h odsFileExt) = None \<longleftrightarrow> \<not> linked base fs h"
  by (simp add: linked_def)

lemma removeODS_goes:
  assumes inv: "st_inv s" and r: "removeODS K h (chain h) s = (err, s1)"
  shows "goes h s s1 \<and> (err = [] \<longrightarrow> \<not> linked base (disk s1) h \<and> (\<forall>a. \<not> holds (cache s1) h a)
      \<and> (chain h \<noteq> E0 \<longrightarrow> fmlookup (nodes (disk s1)) (hashToPath base (chain h) odsFileExt) = None))"
proof -
  have b: "basepath s = base" using inv by (simp add: st_inv_def)
  obtain e1 s2 where 1: "cache_remove K h s = (e1, s2)" by fastforce
  note c = cache_remove_goes [OF inv 1]
  show ?thesis
  proof (cases "e1 = []")
    case False
    then show ?thesis using r 1 c by (auto simp: removeODS_def neq_Nil_conv)
  next
    case e1: True
    obtain e2 s3 where 2: "on_disk (remove_file (heightToPath base h odsFileExt)) s2 = (e2, s3)" by fastforce
    have l: "goes h s2 s3 \<and> cache s3 = cache s2 \<and> (e2 = [] \<longrightarrow> \<not> linked base (disk s3) h)"
      using remove_goes [OF goes_inv [of h s s2] 2, of h] c by (simp add: unlinked)
    then have l1: "goes h s s3" using c goes_trans by blast
    show ?thesis
    proof (cases "e2 = [] \<and> chain h \<noteq> E0")
      case False
      then show ?thesis using r 1 2 e1 l l1 c b by (cases e2) (auto simp: removeODS_def IsEmptyEDS_def neq_Nil_conv)
    next
      case True
      then have 3: "on_disk (remove_file (hashToPath base (chain h) odsFileExt)) s3 = (err, s1)"
        using r 1 2 e1 b by (auto simp: removeODS_def IsEmptyEDS_def)
      have "goes h s3 s1 \<and> cache s1 = cache s3 \<and> (err = [] \<longrightarrow> fmlookup (nodes (disk s1)) (hashToPath base (chain h) odsFileExt) = None)
          \<and> linked base (disk s1) h = linked base (disk s3) h"
        using remove_goes [OF goes_inv [OF l1] 3, of h] True by (auto simp: linked_def)
      then show ?thesis using l l1 True goes_trans c e1 by auto
    qed
  qed
qed

lemma removeQ4_goes:
  assumes inv: "st_inv s" and r: "removeQ4 K h (chain h) s = (err, s1)" and q4: "mode h = Some True \<Longrightarrow> chain h \<noteq> E0 \<Longrightarrow> \<not> linked base (disk s) h"
  shows "goes h s s1 \<and> linked base (disk s1) h = linked base (disk s) h \<and> (\<forall>a. holds (cache s1) h a \<longrightarrow> holds (cache s) h a)
      \<and> fmlookup (nodes (disk s1)) (hashToPath base (chain h) odsFileExt) = fmlookup (nodes (disk s)) (hashToPath base (chain h) odsFileExt)
      \<and> (err = [] \<longrightarrow> chain h \<noteq> E0 \<longrightarrow> fmlookup (nodes (disk s1)) (hashToPath base (chain h) q4FileExt) = None)"
proof (cases "chain h = E0")
  case True
  then show ?thesis using r inv by (simp add: removeQ4_def IsEmptyEDS_def)
next
  case False
  have b: "basepath s = base" using inv by (simp add: st_inv_def)
  obtain e1 s2 where 1: "cache_remove K h s = (e1, s2)" by fastforce
  note c = cache_remove_goes [OF inv 1]
  have keeps: "\<forall>a. holds (cache s2) h a \<longrightarrow> holds (cache s) h a"
    using 1 remove [of "cache s" h] the_cache inv by (fastforce simp: cache_remove_def st_inv_def split: prod.splits)
  show ?thesis
  proof (cases "e1 = []")
    case False
    then show ?thesis using r 1 c keeps \<open>chain h \<noteq> E0\<close> by (auto simp: removeQ4_def IsEmptyEDS_def neq_Nil_conv)
  next
    case True
    then have 2: "on_disk (remove_file (hashToPath base (chain h) q4FileExt)) s2 = (err, s1)"
      using r 1 b \<open>chain h \<noteq> E0\<close> by (auto simp: removeQ4_def IsEmptyEDS_def)
    have "\<forall>h'. chain h' = chain h \<longrightarrow> mode h' = Some True \<longrightarrow> \<not> linked base (disk s2) h'" using one_height \<open>chain h \<noteq> E0\<close> q4 c by metis
    then have "goes h s2 s1 \<and> cache s1 = cache s2 \<and> (err = [] \<longrightarrow> fmlookup (nodes (disk s1)) (hashToPath base (chain h) q4FileExt) = None)
        \<and> (\<forall>q. q \<noteq> hashToPath base (chain h) q4FileExt \<longrightarrow> fmlookup (nodes (disk s1)) q = fmlookup (nodes (disk s2)) q)"
      using remove_goes [OF goes_inv [of h s s2] 2, of h] c \<open>chain h \<noteq> E0\<close> by blast
    then show ?thesis using c keeps goes_trans by (auto simp: linked_def)
  qed
qed

lemma removeODSQ4_goes:
  assumes inv: "st_inv s" and r: "removeODSQ4 K h (chain h) s = (err, s1)"
  shows "goes h s s1 \<and> (err = [] \<longrightarrow> \<not> linked base (disk s1) h \<and> (\<forall>a. \<not> holds (cache s1) h a)
      \<and> (chain h \<noteq> E0 \<longrightarrow> fmlookup (nodes (disk s1)) (hashToPath base (chain h) odsFileExt) = None \<and> fmlookup (nodes (disk s1)) (hashToPath base (chain h) q4FileExt) = None))"
proof -
  obtain e1 s2 where 1: "removeODS K h (chain h) s = (e1, s2)" by fastforce
  note o = removeODS_goes [OF inv 1]
  show ?thesis
  proof (cases "e1 = []")
    case False
    then show ?thesis using r 1 o by (auto simp: removeODSQ4_def neq_Nil_conv)
  next
    case True
    then have 2: "removeQ4 K h (chain h) s2 = (err, s1)" using r 1 by (auto simp: removeODSQ4_def)
    show ?thesis using removeQ4_goes [OF goes_inv [of h s s2] 2] o True goes_trans by metis
  qed
qed

subsection \<open>Creating files\<close>

lemma created_ods_goes:
  assumes inv: "st_inv s" and c: "created (hashToPath base dh odsFileExt) (ods_bytes K blk dh) err (disk s) fs"
  shows "goes h s (s\<lparr>disk := fs\<rparr>) \<and> (\<forall>h. linked base fs h = linked base (disk s) h) \<and> (err = [] \<longrightarrow> file_at fs (hashToPath base dh odsFileExt) (ods_bytes K blk dh))
     \<and> (errors_Is err ErrExist \<longrightarrow> err \<noteq> []) \<and> fmlookup (nodes fs) (hashToPath base dh' q4FileExt) = fmlookup (nodes (disk s)) (hashToPath base dh' q4FileExt)"
proof (cases "same_files (disk s) fs \<and> err \<noteq> []")
  case True
  then show ?thesis using same_goes [OF inv, of fs h] by (auto simp: linked_def same_files_def)
next
  case False
  then obtain n where n: "new_file (hashToPath base dh odsFileExt) (take n (ods_bytes K blk dh)) (disk s) fs" "err = [] \<longrightarrow> length (ods_bytes K blk dh) \<le> n"
    using c by (auto simp: created_def)
  have i: "fs_inv K blk chain mode base (disk s)" "fresh_inodes (disk s)" using inv by (auto simp: st_inv_def fs_inv_def)
  note new = new_file_at [OF n(1) i(2)] and dirs = dir_neq_hash [of base, symmetric]
  show ?thesis using st_inv_disk [OF inv fs_inv_new_ods [OF i(1) n(1)]] new n(2)
    by (auto simp: goes_def linked_def ready_def errors_Is_def dirs)
qed

lemma created_q4_goes:
  assumes inv: "st_inv s" and c: "created (hashToPath base dh q4FileExt) (q4_bytes blk dh) err (disk s) fs"
    and m: "\<And>h. chain h = dh \<Longrightarrow> dh \<noteq> E0 \<Longrightarrow> mode h \<noteq> Some False"
  shows "goes h s (s\<lparr>disk := fs\<rparr>) \<and> (\<forall>h. linked base fs h = linked base (disk s) h) \<and> (err = [] \<longrightarrow> file_at fs (hashToPath base dh q4FileExt) (q4_bytes blk dh))
     \<and> (\<forall>p bs. file_at (disk s) p bs \<longrightarrow> file_at fs p bs)"
proof (cases "same_files (disk s) fs \<and> err \<noteq> []")
  case True
  then show ?thesis using same_goes [OF inv, of fs h] by (auto simp: linked_def same_files_def file_at_def)
next
  case False
  then obtain n where n: "new_file (hashToPath base dh q4FileExt) (take n (q4_bytes blk dh)) (disk s) fs" "err = [] \<longrightarrow> length (q4_bytes blk dh) \<le> n"
    using c by (auto simp: created_def)
  have i: "fs_inv K blk chain mode base (disk s)" "fresh_inodes (disk s)" using inv by (auto simp: st_inv_def fs_inv_def)
  note new = new_file_at [OF n(1) i(2)] and dirs = dir_neq_hash [of base, symmetric]
  show ?thesis using st_inv_disk [OF inv fs_inv_new_q4 [OF i(1) n(1) m]] new n(2)
    by (auto simp: goes_def linked_def ready_def dirs)
qed

lemma CreateODS_goes:
  assumes inv: "st_inv s" and dh: "dh \<in> hashes K chain"
    and c: "on_disk (CreateODS (se_lib K) (se_nsSize K) (se_eds K) (hashToPath base dh odsFileExt) (fst (blk dh)) (snd (blk dh))) s = (err, s1)"
  shows "goes h s s1 \<and> cache s1 = cache s \<and> linked base (disk s1) h = linked base (disk s) h
    \<and> (err = [] \<longrightarrow> file_at (disk s1) (hashToPath base dh odsFileExt) (ods_bytes K blk dh))"
proof -
  obtain fs where fs: "CreateODS (se_lib K) (se_nsSize K) (se_eds K) (hashToPath base dh odsFileExt) (fst (blk dh)) (snd (blk dh)) (disk s) = (err, fs)" "s1 = s\<lparr>disk := fs\<rparr>"
    using c by (auto simp: on_disk_eq)
  show ?thesis using created_ods_goes [OF inv CreateODS_created [OF known(3) [OF dh] fs(1)], of h] by (simp add: fs(2))
qed

lemma CreateODSQ4_goes:
  assumes inv: "st_inv s" and dh: "dh \<in> hashes K chain" and m: "\<And>h. chain h = dh \<Longrightarrow> dh \<noteq> E0 \<Longrightarrow> mode h \<noteq> Some False"
    and c: "on_disk (CreateODSQ4 (se_lib K) (se_nsSize K) (se_eds K) (hashToPath base dh odsFileExt) (hashToPath base dh q4FileExt) (fst (blk dh)) (snd (blk dh))) s = (err, s1)"
  shows "goes h s s1 \<and> cache s1 = cache s \<and> linked base (disk s1) h = linked base (disk s) h
    \<and> (err = [] \<longrightarrow> file_at (disk s1) (hashToPath base dh odsFileExt) (ods_bytes K blk dh) \<and> file_at (disk s1) (hashToPath base dh q4FileExt) (q4_bytes blk dh))"
proof -
  obtain fs where fs: "CreateODSQ4 (se_lib K) (se_nsSize K) (se_eds K) (hashToPath base dh odsFileExt) (hashToPath base dh q4FileExt) (fst (blk dh)) (snd (blk dh)) (disk s) = (err, fs)"
      "s1 = s\<lparr>disk := fs\<rparr>"
    using c by (auto simp: on_disk_eq)
  obtain e1 e2 fs1 where x: "created (hashToPath base dh odsFileExt) (ods_bytes K blk dh) e1 (disk s) fs1"
      "created (hashToPath base dh q4FileExt) (q4_bytes blk dh) e2 fs1 fs" "err = e1 @ e2"
    using CreateODSQ4_created [OF known(3) [OF dh] fs(1)] .
  note a = created_ods_goes [OF inv x(1), of h]
  then have i: "st_inv (s\<lparr>disk := fs1\<rparr>)" using goes_inv by blast
  have "created (hashToPath base dh q4FileExt) (q4_bytes blk dh) e2 (disk (s\<lparr>disk := fs1\<rparr>)) fs" using x(2) by simp
  from created_q4_goes [OF i this m, of h] show ?thesis
    using a x(3) goes_trans [of h s "s\<lparr>disk := fs1\<rparr>" s1] by (auto simp: fs(2))
qed

end

section \<open>Validated files are complete\<close>

lemma follow_plain: "(\<And>t. fmlookup ns p \<noteq> Some (Symlink t)) \<Longrightarrow> follow n ns p = p"
  by (cases n) (auto split: option.splits node.splits)

lemma partial_plain: "partial_at fs p bs \<Longrightarrow> follow n (nodes fs) p = p"
  by (rule follow_plain) (auto simp: partial_at_def file_at_def)

lemma length_writeQ4:
  assumes "block_ok L nsSize roots hash eds"
  shows "length (writeQ4 eds) = length (GetCell eds 0 0) * (Width eds div 2) * (Width eds div 2)"
proof -
  note d = block_okD [OF assms]
  let ?k = "Width eds div 2"
  let ?rows = "\<lambda>n. concat (map (\<lambda>i. map (\<lambda>j. GetCell eds (i + ?k) (j + ?k)) [0..<?k]) [0..<n])"
  obtain k where k: "Width eds = 2 * k" "0 < k" "?k = k" using eds_half [OF d(3)] .
  have cells: "length (GetCell eds a b) = ShareSize L" if "a < Width eds" "b < Width eds" for a b
    using eds_okD(1,2) [OF d(3) that(1), of AxisRow] that(2) shares_ok_nth [of L "eds_row eds a" b] by (simp add: eds_axis_def eds_row_def)
  then have "shares_ok L (?rows ?k)" unfolding shares_ok_def using k by auto
  moreover have "length (?rows n) = n * ?k" for n by (induction n) auto
  ultimately have "length (concat (?rows ?k)) = ?k * ?k * ShareSize L" using length_concat_shares by metis
  then show ?thesis using cell00 [OF d(3)] by (simp add: writeQ4_def Let_def mult.commute)
qed

lemma validated_ods:
  assumes "block_known K blk dh" "partial_at fs p (ods_bytes K blk dh)" "ValidateODSSize_file (se_lib K) p (snd (blk dh)) fs = (err, fs1)"
  shows "same_files fs fs1 \<and> (err = [] \<longrightarrow> file_at fs p (ods_bytes K blk dh))"
proof -
  have b: "block_ok (se_lib K) (se_nsSize K) (fst (blk dh)) dh (snd (blk dh))" using assms(1) by (simp add: block_known_def)
  have pad: "ShareNamespace (se_lib K) (TailPaddingShare (se_lib K)) = TailPaddingNamespace (se_lib K)" using block_okD(2) [OF b] by (simp add: share_ok_def)
  have "file_at fs p (ods_bytes K blk dh)" if e: "err = []"
  proof -
    obtain i where i: "fmlookup (nodes fs) p = Some (Regular i)" "ValidateODSSize (se_lib K) (inode_content fs i) (snd (blk dh)) = None"
      using ValidateODSSize_file_cases [OF assms(3)] e partial_plain [OF assms(2)] by auto
    then obtain n where n: "inode_content fs i = take n (ods_bytes K blk dh)" using assms(2) by (auto simp: partial_at_def file_at_def)
    then have "length (ods_bytes K blk dh) \<le> n" using ValidateODSSize_cut [OF b pad ods_bytes_ok [OF assms(1)]] i(2) by simp
    then show ?thesis using i(1) n by (simp add: file_at_def)
  qed
  then show ?thesis using ValidateODSSize_file_cases [OF assms(3)] by blast
qed

lemma validated_q4:
  assumes "block_known K blk dh" "partial_at fs p (q4_bytes blk dh)" "validateQ4Size_file p (snd (blk dh)) fs = (err, fs1)"
  shows "same_files fs fs1 \<and> (err = [] \<longrightarrow> file_at fs p (q4_bytes blk dh))"
proof -
  have b: "block_ok (se_lib K) (se_nsSize K) (fst (blk dh)) dh (snd (blk dh))" using assms(1) by (simp add: block_known_def)
  have "file_at fs p (q4_bytes blk dh)" if e: "err = []"
  proof -
    obtain i where i: "fmlookup (nodes fs) p = Some (Regular i)" "validateQ4Size (inode_content fs i) (snd (blk dh)) = None"
      using validateQ4Size_file_cases [OF assms(3)] e partial_plain [OF assms(2)] by auto
    then obtain n where n: "inode_content fs i = take n (q4_bytes blk dh)" using assms(2) by (auto simp: partial_at_def file_at_def)
    moreover have "length (inode_content fs i) = length (q4_bytes blk dh)"
      using i(2) length_writeQ4 [OF b] by (simp add: validateQ4Size_def q4_bytes_def Let_def split: if_splits)
    ultimately show ?thesis using i(1) by (simp add: file_at_def)
  qed
  then show ?thesis using validateQ4Size_file_cases [OF assms(3)] by blast
qed

context block_store
begin

lemma partial_files:
  assumes "st_inv s" "dh \<in> hashes K chain"
  shows "partial_at (disk s) (hashToPath base dh odsFileExt) (ods_bytes K blk dh)" "partial_at (disk s) (hashToPath base dh q4FileExt) (q4_bytes blk dh)"
  using assms unfolding st_inv_def fs_inv_def by blast+

lemma ValidateODSSize_goes:
  assumes inv: "st_inv s" and v: "on_disk (ValidateODSSize_file (se_lib K) (hashToPath base (chain h) odsFileExt) (snd (blk (chain h)))) s = (err, s1)"
  shows "goes h s s1 \<and> linked base (disk s1) h = linked base (disk s) h \<and> (err = [] \<longrightarrow> file_at (disk s1) (hashToPath base (chain h) odsFileExt) (ods_bytes K blk (chain h)))"
proof -
  obtain fs where fs: "ValidateODSSize_file (se_lib K) (hashToPath base (chain h) odsFileExt) (snd (blk (chain h))) (disk s) = (err, fs)" "s1 = s\<lparr>disk := fs\<rparr>"
    using v by (auto simp: on_disk_eq)
  show ?thesis using validated_ods [OF known(1) partial_files(1) [OF inv] fs(1)] same_goes [OF inv, of fs h] by (auto simp: fs(2) linked_def same_files_def file_at_def)
qed

lemma ValidateODSQ4Size_goes:
  assumes inv: "st_inv s" and v: "on_disk (ValidateODSQ4Size (se_lib K) (hashToPath base (chain h) odsFileExt) (hashToPath base (chain h) q4FileExt) (snd (blk (chain h)))) s = (err, s1)"
  shows "goes h s s1 \<and> linked base (disk s1) h = linked base (disk s) h \<and> (err = [] \<longrightarrow> file_at (disk s1) (hashToPath base (chain h) odsFileExt) (ods_bytes K blk (chain h))
      \<and> file_at (disk s1) (hashToPath base (chain h) q4FileExt) (q4_bytes blk (chain h)))"
proof -
  obtain fs where fs: "ValidateODSQ4Size (se_lib K) (hashToPath base (chain h) odsFileExt) (hashToPath base (chain h) q4FileExt) (snd (blk (chain h))) (disk s) = (err, fs)"
      "s1 = s\<lparr>disk := fs\<rparr>"
    using v by (auto simp: on_disk_eq)
  obtain e1 fs1 where 1: "ValidateODSSize_file (se_lib K) (hashToPath base (chain h) odsFileExt) (snd (blk (chain h))) (disk s) = (e1, fs1)" by fastforce
  note a = validated_ods [OF known(1) partial_files(1) [OF inv] 1]
  show ?thesis
  proof (cases "e1 = []")
    case False
    then show ?thesis using fs a 1 same_goes [OF inv, of fs1 h] by (auto simp: ValidateODSQ4Size_def neq_Nil_conv linked_def same_files_def)
  next
    case True
    then have 2: "validateQ4Size_file (hashToPath base (chain h) q4FileExt) (snd (blk (chain h))) fs1 = (err, fs)" using fs(1) 1 by (simp add: ValidateODSQ4Size_def)
    have "partial_at fs1 (hashToPath base (chain h) q4FileExt) (q4_bytes blk (chain h))"
      using partial_files(2) [OF inv, of "chain h"] a by (simp add: partial_at_def file_at_def same_files_def)
    from validated_q4 [OF known(1) this 2] have b: "same_files fs1 fs" "err = [] \<longrightarrow> file_at fs1 (hashToPath base (chain h) q4FileExt) (q4_bytes blk (chain h))" by auto
    have "same_files (disk s) fs" using same_files_trans a b(1) by blast
    then show ?thesis using a b(2) True b(1) same_goes [OF inv, of fs h] by (auto simp: fs(2) linked_def same_files_def file_at_def)
  qed
qed

subsection \<open>Linking a height\<close>

lemma hardLink_goes:
  assumes inv: "st_inv s" and h: "chain h \<noteq> E0" and ods: "file_at (disk s) (hashToPath base (chain h) odsFileExt) (ods_bytes K blk (chain h))"
    and q4: "mode h = Some True \<Longrightarrow> file_at (disk s) (hashToPath base (chain h) q4FileExt) (q4_bytes blk (chain h))"
    and l: "linkHeight K (chain h) h s = (err, s1)"
  shows "goes h s s1 \<and> (err = [] \<or> errors_Is err ErrExist \<longrightarrow> linked base (disk s1) h)"
proof -
  obtain i where i: "fmlookup (nodes (disk s)) (hashToPath base (chain h) odsFileExt) = Some (Regular i)" "inode_content (disk s) i = ods_bytes K blk (chain h)"
    using ods by (auto simp: file_at_def)
  have "basepath s = base" using inv by (simp add: st_inv_def)
  then obtain r fs where fs: "os_Link (hashToPath base (chain h) odsFileExt) (heightToPath base h odsFileExt) (disk s) = (r, fs)" "err = err_of r" "s1 = s\<lparr>disk := fs\<rparr>"
    using l h by (auto simp: linkHeight_def IsEmptyEDS_def hardLink_def on_disk_eq Let_def map_prod_def split: prod.splits)
  from fs(1) show ?thesis unfolding os_Link_def
  proof (cases rule: syscall_cases)
    case fault
    then show ?thesis using same_goes [OF inv, of fs h] by (simp add: fs errors_Is_def)
  next
    case (works fs0)
    have i0: "fs_inv K blk chain mode base fs0" using inv works(1) by (auto simp: st_inv_def intro: fs_inv_same)
    have s0: "nodes fs0 = nodes (disk s)" "inode_content fs0 = inode_content (disk s)" using works(1) by (auto simp: same_files_def)
    have "add_node (heightToPath base h odsFileExt) (Regular i) fs0 = (r, fs)" using works(4) i(1) s0 by simp
    then show ?thesis
    proof (cases rule: add_node_cases)
      case (fault e)
      then show ?thesis using same_goes [OF inv works(1), of h] by (auto simp: fs errors_Is_def linked_def)
    next
      case works
      have "fs_inv K blk chain mode base fs" unfolding works(2)
        using i s0 q4 works(3) by (intro fs_inv_link [OF i0 h]) (auto simp: file_at_def)
      moreover have "ready K blk base fs" if "ready K blk base (disk s)"
        using that upd_file_at [of fs0] dir_neq_hash(4,5) [of base] by (simp add: ready_def works(2)) (simp add: file_at_def s0)
      ultimately show ?thesis using works s0 by (auto simp: goes_def fs st_inv_disk [OF inv] linked_def)
    qed
  qed
qed

lemma symlink_goes:
  assumes inv: "st_inv s" and h: "chain h = E0" and l: "linkHeight K (chain h) h s = (err, s1)"
  shows "goes h s s1 \<and> (err = [] \<or> errors_Is err ErrExist \<longrightarrow> linked base (disk s1) h)"
proof -
  have "basepath s = base" using inv by (simp add: st_inv_def)
  then obtain r fs where fs: "os_Symlink (hashToRelativePath (chain h) odsFileExt) (heightToPath base h odsFileExt) (disk s) = (r, fs)" "err = err_of r" "s1 = s\<lparr>disk := fs\<rparr>"
    using l h by (auto simp: linkHeight_def IsEmptyEDS_def symlink_def on_disk_eq Let_def map_prod_def split: prod.splits)
  from fs(1) show ?thesis unfolding os_Symlink_def
  proof (cases rule: syscall_cases)
    case fault
    then show ?thesis using same_goes [OF inv, of fs h] by (simp add: fs errors_Is_def)
  next
    case (works fs0)
    have i0: "fs_inv K blk chain mode base fs0" using inv works(1) by (auto simp: st_inv_def intro: fs_inv_same)
    have s0: "nodes fs0 = nodes (disk s)" "inode_content fs0 = inode_content (disk s)" using works(1) by (auto simp: same_files_def)
    from works(4) show ?thesis
    proof (cases rule: add_node_cases)
      case (fault e)
      then show ?thesis using same_goes [OF inv works(1), of h] by (auto simp: fs errors_Is_def linked_def)
    next
      case works
      have "fs_inv K blk chain mode base fs" unfolding works(2) by (rule fs_inv_symlink [OF i0 h])
      moreover have "ready K blk base fs" if "ready K blk base (disk s)"
        using that upd_file_at [of fs0] dir_neq_hash(4,5) [of base] by (simp add: ready_def works(2)) (simp add: file_at_def s0)
      ultimately show ?thesis using works s0 by (auto simp: goes_def fs st_inv_disk [OF inv] linked_def)
    qed
  qed
qed

end

context block_store
begin

subsection \<open>Putting a block\<close>

abbreviation ods_complete :: "'a Store \<Rightarrow> u64 \<Rightarrow> bool" where
  "ods_complete s h \<equiv> file_at (disk s) (hashToPath base (chain h) odsFileExt) (ods_bytes K blk (chain h))"

abbreviation q4_complete :: "'a Store \<Rightarrow> u64 \<Rightarrow> bool" where
  "q4_complete s h \<equiv> file_at (disk s) (hashToPath base (chain h) q4FileExt) (q4_bytes blk (chain h))"

lemma link_created_goes:
  assumes inv: "st_inv s" and h: "chain h \<noteq> E0" "ods_complete s h" "mode h = Some True \<Longrightarrow> q4_complete s h"
    and undo: "\<And>s e s1. st_inv s \<Longrightarrow> undo h (chain h) s = (e, s1) \<Longrightarrow> goes h s s1"
    and l: "link_created K undo (chain h) h s = ((ex, err), s1)"
  shows "goes h s s1 \<and> (ex \<or> err = [] \<longrightarrow> linked base (disk s1) h)"
proof -
  obtain e s2 where e: "linkHeight K (chain h) h s = (e, s2)" by fastforce
  note g = hardLink_goes [OF inv h e]
  show ?thesis
  proof (cases "errors_Is e ErrExist \<or> e = []")
    case True
    then show ?thesis using l e g by (auto simp: link_created_def split: if_splits)
  next
    case False
    obtain e2 s3 where u: "undo h (chain h) s2 = (e2, s3)" by fastforce
    have "goes h s2 s3" using undo [OF _ u] g goes_inv by blast
    then show ?thesis using l e u g False goes_trans by (auto simp: link_created_def)
  qed
qed

lemma validateAndRecoverODSQ4_goes:
  assumes inv: "st_inv s" and h: "chain h \<noteq> E0" "mode h \<noteq> Some False"
    and v: "validateAndRecoverODSQ4 K (snd (blk (chain h))) (fst (blk (chain h))) h (hashToPath base (chain h) odsFileExt) (hashToPath base (chain h) q4FileExt) s = (err, s1)"
  shows "goes h s s1 \<and> (err = [] \<longrightarrow> ods_complete s1 h \<and> q4_complete s1 h)"
proof -
  obtain e s2 where e: "on_disk (ValidateODSQ4Size (se_lib K) (hashToPath base (chain h) odsFileExt) (hashToPath base (chain h) q4FileExt) (snd (blk (chain h)))) s = (e, s2)" by fastforce
  note g = ValidateODSQ4Size_goes [OF inv e]
  show ?thesis
  proof (cases "e = []")
    case True
    then show ?thesis using v e g by (auto simp: validateAndRecoverODSQ4_def)
  next
    case False
    obtain e2 s3 where r: "removeODSQ4 K h (chain h) s2 = (e2, s3)" by fastforce
    have g2: "goes h s s3" using removeODSQ4_goes [OF _ r] g goes_inv goes_trans by blast
    show ?thesis
    proof (cases "e2 = []")
      case True
      then have c: "on_disk (CreateODSQ4 (se_lib K) (se_nsSize K) (se_eds K) (hashToPath base (chain h) odsFileExt) (hashToPath base (chain h) q4FileExt) (fst (blk (chain h))) (snd (blk (chain h)))) s3 = (err, s1)"
        using v e r False by (auto simp: validateAndRecoverODSQ4_def hash_of neq_Nil_conv)
      have "mode h' \<noteq> Some False" if "chain h' = chain h" for h' using one_height [OF that] h that by auto
      then show ?thesis using CreateODSQ4_goes [OF goes_inv [OF g2] _ _ c, of h] g2 goes_trans by blast
    next
      case e2: False
      then show ?thesis using v e r False g2 by (auto simp: validateAndRecoverODSQ4_def hash_of neq_Nil_conv)
    qed
  qed
qed

lemma validateAndRecoverODS_goes:
  assumes inv: "st_inv s" and h: "chain h \<noteq> E0"
    and v: "validateAndRecoverODS K (snd (blk (chain h))) (fst (blk (chain h))) h (hashToPath base (chain h) odsFileExt) s = (err, s1)"
  shows "goes h s s1 \<and> (err = [] \<longrightarrow> ods_complete s1 h)"
proof -
  obtain e s2 where e: "on_disk (ValidateODSSize_file (se_lib K) (hashToPath base (chain h) odsFileExt) (snd (blk (chain h)))) s = (e, s2)" by fastforce
  note g = ValidateODSSize_goes [OF inv e]
  show ?thesis
  proof (cases "e = []")
    case True
    then show ?thesis using v e g by (auto simp: validateAndRecoverODS_def)
  next
    case False
    obtain e2 s3 where r: "removeODS K h (chain h) s2 = (e2, s3)" by fastforce
    have g2: "goes h s s3" using removeODS_goes [OF _ r] g goes_inv goes_trans by blast
    show ?thesis
    proof (cases "e2 = []")
      case True
      then have c: "on_disk (CreateODS (se_lib K) (se_nsSize K) (se_eds K) (hashToPath base (chain h) odsFileExt) (fst (blk (chain h))) (snd (blk (chain h)))) s3 = (err, s1)"
        using v e r False by (auto simp: validateAndRecoverODS_def hash_of neq_Nil_conv)
      then show ?thesis using CreateODS_goes [OF goes_inv [OF g2] _ c, of h] g2 goes_trans by blast
    next
      case e2: False
      then show ?thesis using v e r False g2 by (auto simp: validateAndRecoverODS_def hash_of neq_Nil_conv)
    qed
  qed
qed

lemma createODSQ4File_goes:
  assumes inv: "st_inv s" and h: "chain h \<noteq> E0" "mode h \<noteq> Some False"
    and c: "createODSQ4File K (snd (blk (chain h))) (fst (blk (chain h))) h s = ((ex, err), s1)"
  shows "goes h s s1 \<and> (ex \<or> err = [] \<longrightarrow> linked base (disk s1) h)"
proof -
  have b: "basepath s = base" using inv by (simp add: st_inv_def)
  have m: "mode h' \<noteq> Some False" if "chain h' = chain h" for h' using one_height [OF that] h that by auto
  obtain e s2 where e: "on_disk (CreateODSQ4 (se_lib K) (se_nsSize K) (se_eds K) (hashToPath base (chain h) odsFileExt) (hashToPath base (chain h) q4FileExt) (fst (blk (chain h))) (snd (blk (chain h)))) s = (e, s2)"
    by fastforce
  have g: "goes h s s2" "e = [] \<longrightarrow> ods_complete s2 h \<and> q4_complete s2 h" using CreateODSQ4_goes [OF inv _ m e, of h] by auto
  show ?thesis
  proof (cases "e \<noteq> [] \<and> \<not> errors_Is e ErrExist")
    case True
    obtain e2 s3 where r: "removeODSQ4 K h (chain h) s2 = (e2, s3)" by fastforce
    then show ?thesis using c e True removeODSQ4_goes [OF goes_inv [OF g(1)] r] g(1) goes_trans by (auto simp: createODSQ4File_def Let_def hash_of b)
  next
    case False
    let ?v = "if errors_Is e ErrExist then validateAndRecoverODSQ4 K (snd (blk (chain h))) (fst (blk (chain h))) h (hashToPath base (chain h) odsFileExt) (hashToPath base (chain h) q4FileExt) s2 else ([], s2)"
    obtain e2 s3 where v: "?v = (e2, s3)" by fastforce
    have "goes h s2 s3 \<and> (e2 = [] \<longrightarrow> ods_complete s3 h \<and> q4_complete s3 h)"
    proof (cases "errors_Is e ErrExist")
      case True
      then show ?thesis using validateAndRecoverODSQ4_goes [OF goes_inv [OF g(1)] h] v by auto
    next
      case f: False
      then show ?thesis using v g False goes_inv by auto
    qed
    then have g3: "goes h s s3" "e2 = [] \<longrightarrow> ods_complete s3 h \<and> q4_complete s3 h" using g(1) goes_trans by blast+
    show ?thesis
    proof (cases "e2 = []")
      case True
      then have l: "link_created K (removeODSQ4 K) (chain h) h s3 = ((ex, err), s1)" using c e v False by (auto simp: createODSQ4File_def Let_def hash_of b)
      have "goes h s3 s1 \<and> (ex \<or> err = [] \<longrightarrow> linked base (disk s1) h)"
        using g3 True removeODSQ4_goes by (intro link_created_goes [OF goes_inv [OF g3(1)] h(1) _ _ _ l]) blast+
      then show ?thesis using g3(1) goes_trans by blast
    next
      case e2: False
      then show ?thesis using c e v False g3(1) by (auto simp: createODSQ4File_def Let_def hash_of b neq_Nil_conv)
    qed
  qed
qed

lemma createODSFile_goes:
  assumes inv: "st_inv s" and h: "chain h \<noteq> E0" "mode h \<noteq> Some True"
    and c: "createODSFile K (snd (blk (chain h))) (fst (blk (chain h))) h s = ((ex, err), s1)"
  shows "goes h s s1 \<and> (ex \<or> err = [] \<longrightarrow> linked base (disk s1) h)"
proof -
  have b: "basepath s = base" using inv by (simp add: st_inv_def)
  obtain e s2 where e: "on_disk (CreateODS (se_lib K) (se_nsSize K) (se_eds K) (hashToPath base (chain h) odsFileExt) (fst (blk (chain h))) (snd (blk (chain h)))) s = (e, s2)"
    by fastforce
  have g: "goes h s s2" "e = [] \<longrightarrow> ods_complete s2 h" using CreateODS_goes [OF inv _ e, of h] by auto
  show ?thesis
  proof (cases "e \<noteq> [] \<and> \<not> errors_Is e ErrExist")
    case True
    obtain e2 s3 where r: "removeODS K h (chain h) s2 = (e2, s3)" by fastforce
    then show ?thesis using c e True removeODS_goes [OF goes_inv [OF g(1)] r] g(1) goes_trans by (auto simp: createODSFile_def Let_def hash_of b)
  next
    case False
    let ?v = "if errors_Is e ErrExist then validateAndRecoverODS K (snd (blk (chain h))) (fst (blk (chain h))) h (hashToPath base (chain h) odsFileExt) s2 else ([], s2)"
    obtain e2 s3 where v: "?v = (e2, s3)" by fastforce
    have "goes h s2 s3 \<and> (e2 = [] \<longrightarrow> ods_complete s3 h)"
    proof (cases "errors_Is e ErrExist")
      case True
      then show ?thesis using validateAndRecoverODS_goes [OF goes_inv [OF g(1)] h(1)] v by auto
    next
      case f: False
      then show ?thesis using v g False goes_inv by auto
    qed
    then have g3: "goes h s s3" "e2 = [] \<longrightarrow> ods_complete s3 h" using g(1) goes_trans by blast+
    show ?thesis
    proof (cases "e2 = []")
      case True
      then have l: "link_created K (removeODS K) (chain h) h s3 = ((ex, err), s1)" using c e v False by (auto simp: createODSFile_def Let_def hash_of b)
      have "goes h s3 s1 \<and> (ex \<or> err = [] \<longrightarrow> linked base (disk s1) h)"
        using g3 True removeODS_goes h(2) by (intro link_created_goes [OF goes_inv [OF g3(1)] h(1) _ _ _ l]) blast+
      then show ?thesis using g3(1) goes_trans by blast
    next
      case e2: False
      then show ?thesis using c e v False g3(1) by (auto simp: createODSFile_def Let_def hash_of b neq_Nil_conv)
    qed
  qed
qed

end

context block_store
begin

lemma cache_load_goes:
  assumes inv: "st_inv s" and c: "cache_load K h ld s = (r, s1)"
    and ld: "\<And>r1 fs. ld (disk s) = (r1, fs) \<Longrightarrow> same_files (disk s) fs \<and> (\<forall>a. r1 = Inr a \<longrightarrow> right_accessor K blk chain mode h a)"
  shows "goes h s s1 \<and> linked base (disk s1) h = linked base (disk s) h \<and> (\<forall>a. r = Inr a \<longrightarrow> right_accessor K blk chain mode h a)"
proof -
  obtain c1 fs where x: "c_GetOrLoad C h ld (cache s, disk s) = (r, c1, fs)" "s1 = s\<lparr>cache := c1, disk := fs\<rparr>"
    using c the_cache by (auto simp: cache_load_def split: prod.splits)
  have ok: "cache_ok (cache s)" and old: "holds (cache s) k a \<Longrightarrow> right_accessor K blk chain mode k a" for k a using inv by (simp_all add: st_inv_def)
  have ok1: "cache_ok c1" using load [OF ok x(1)] by blast
  from load [OF ok x(1)] have "same_files (disk s) fs \<and> (\<forall>a. r = Inr a \<longrightarrow> right_accessor K blk chain mode h a) \<and> (\<forall>k a. holds c1 k a \<longrightarrow> right_accessor K blk chain mode k a)"
  proof (elim conjE disjE exE)
    fix r1 assume l: "ld (disk s) = (r1, fs)" "\<forall>a. r = Inr a \<longrightarrow> r1 = Inr a" "\<forall>k a. holds c1 k a \<longrightarrow> holds (cache s) k a \<or> k = h \<and> r1 = Inr a"
    show ?thesis using ld [OF l(1)] l(2,3) old by blast
  qed (use old in auto)
  then show ?thesis using same_goes [OF inv, of fs h] ok1 by (auto simp: x(2) goes_def st_inv_def linked_def same_files_def)
qed

text \<open>The kinds of puts that fit how the fourth quadrant of a height is stored.\<close>

definition put_fits :: "u64 \<Rightarrow> bool \<Rightarrow> bool" where
  "put_fits h withQ4 \<longleftrightarrow> mode h = None \<or> mode h = Some withQ4 \<or> chain h = E0"

lemma put_goes:
  assumes inv: "st_inv s" and m: "put_fits h withQ4" and p: "put K (fst (blk (chain h))) h (snd (blk (chain h))) withQ4 s = (err, s1)"
  shows "goes h s s1 \<and> (err = [] \<longrightarrow> linked base (disk s1) h)"
proof (cases "chain h = E0")
  case True
  obtain e s2 where l: "linkHeight K (chain h) h s = (e, s2)" by fastforce
  have "RootsHash (se_eds K) (fst (blk E0)) = E0" using hash_of [of h] True by simp
  then show ?thesis using symlink_goes [OF inv True l] p l True by (auto simp: put_def IsEmptyEDS_def Let_def split: if_splits)
next
  case False
  obtain r s2 where c: "cache_load K h (accessorLoader (snd (blk (chain h)))) s = (r, s2)" by fastforce
  have g: "goes h s s2" using cache_load_goes [OF inv c] by (auto simp: accessorLoader_def right_accessor_def)
  obtain ex e s3 where f: "(if withQ4 then createODSQ4File K (snd (blk (chain h))) (fst (blk (chain h))) h s2
      else createODSFile K (snd (blk (chain h))) (fst (blk (chain h))) h s2) = ((ex, e), s3)" by (metis prod.exhaust)
  have "goes h s2 s3 \<and> (ex \<or> e = [] \<longrightarrow> linked base (disk s3) h)"
  proof (cases withQ4)
    case True
    then show ?thesis using createODSQ4File_goes [OF goes_inv [OF g] False] f m False by (auto simp: put_fits_def)
  next
    case q: False
    then show ?thesis using createODSFile_goes [OF goes_inv [OF g] False] f m False by (auto simp: put_fits_def)
  qed
  then show ?thesis using p c f g False goes_trans by (auto simp: put_def hash_of IsEmptyEDS_def Let_def)
qed

lemma fileSize_goes: "st_inv s \<Longrightarrow> on_disk (fileSize p) s = (n, s1) \<Longrightarrow> goes h s s1 \<and> linked base (disk s1) h = linked base (disk s) h"
proof -
  assume inv: "st_inv s" and f: "on_disk (fileSize p) s = (n, s1)"
  then obtain fs where fs: "fileSize p (disk s) = (n, fs)" "s1 = s\<lparr>disk := fs\<rparr>" by (auto simp: on_disk_eq)
  obtain r fs2 where st: "os_Stat p (disk s) = (r, fs2)" by fastforce
  then have "same_files (disk s) fs" using fs(1) os_Stat_same [OF st] by (auto simp: fileSize_def split: sum.splits)
  then show ?thesis using same_goes [OF inv, of fs h] by (auto simp: fs(2) linked_def same_files_def)
qed

lemma RemoveODSQ4_goes:
  assumes inv: "st_inv s" and r: "RemoveODSQ4 K h (chain h) s = (err, s1)"
  shows "goes h s s1 \<and> (err = [] \<longrightarrow> \<not> linked base (disk s1) h \<and> (\<forall>a. \<not> holds (cache s1) h a)
      \<and> (chain h \<noteq> E0 \<longrightarrow> fmlookup (nodes (disk s1)) (hashToPath base (chain h) odsFileExt) = None \<and> fmlookup (nodes (disk s1)) (hashToPath base (chain h) q4FileExt) = None))"
proof -
  let ?s = "if IsEmptyEDS E0 (chain h) then s
      else snd (on_disk (fileSize (hashToPath (basepath s) (chain h) q4FileExt)) (snd (on_disk (fileSize (hashToPath (basepath s) (chain h) odsFileExt)) s)))"
  have f: "goes h s (snd (on_disk (fileSize p) s))" if "st_inv s" for p s using fileSize_goes [OF that] by (metis prod.collapse)
  have "goes h s (snd (on_disk (fileSize q) (snd (on_disk (fileSize p) s))))" for p q
    using goes_trans [OF f [OF inv] f [OF goes_inv [OF f [OF inv]]]] .
  then have "goes h s ?s" using inv by simp
  moreover have "removeODSQ4 K h (chain h) ?s = (err, s1)" using r by (simp add: RemoveODSQ4_def)
  ultimately show ?thesis using removeODSQ4_goes goes_inv goes_trans by blast
qed

lemma RemoveQ4_goes:
  assumes inv: "st_inv s" and m: "mode h \<noteq> Some True" and r: "RemoveQ4 K h (chain h) s = (err, s1)"
  shows "goes h s s1 \<and> (linked base (disk s) h \<longrightarrow> linked base (disk s1) h)"
proof -
  let ?s = "if IsEmptyEDS E0 (chain h) then s else snd (on_disk (fileSize (hashToPath (basepath s) (chain h) q4FileExt)) s)"
  have f: "goes h s (snd (on_disk (fileSize p) s)) \<and> linked base (disk (snd (on_disk (fileSize p) s))) h = linked base (disk s) h" for p
    using fileSize_goes [OF inv] by (metis prod.collapse)
  then have "goes h s ?s \<and> linked base (disk ?s) h = linked base (disk s) h" using inv by auto
  moreover have "removeQ4 K h (chain h) ?s = (err, s1)" using r by (simp add: RemoveQ4_def)
  ultimately show ?thesis using removeQ4_goes [OF goes_inv] m goes_trans by metis
qed

subsection \<open>Reading\<close>

lemma opened_hash: "OpenODS (ods_bytes K blk (chain h)) = Inr f \<Longrightarrow> ODS_DataHash f = chain h"
  using OpenODS_ok [OF _ ods_bytes_ok [OF known(1)]] known(1) [of h] by (fastforce simp: block_known_def ODS_valid_def ODS_DataHash_def ODS_header_def)

lemma follow_height:
  assumes inv: "fs_inv K blk chain mode base fs" and l: "linked base fs h" and e: "chain h = E0 \<Longrightarrow> ready K blk base fs"
  shows "file_at fs (follow 40 (nodes fs) (heightToPath base h odsFileExt)) (ods_bytes K blk (chain h))"
proof (cases "chain h = E0")
  case True
  let ?p = "hashToPath base E0 odsFileExt"
  have "rev (DataHash_String E0 @ ''.ods'') \<noteq> rev ''..''" by simp
  then have "DataHash_String E0 @ ''.ods'' \<noteq> ''..''" by metis
  then have j: "join_path (butlast (heightToPath base h odsFileExt)) (hashToRelativePath E0 odsFileExt) = ?p"
    by (simp add: join_path_def heightToPath_def hashToRelativePath_def hashToPath_def heightsPath_def blocksPath_def butlast_append odsFileExt_def)
  have f: "file_at fs ?p (ods_bytes K blk E0)" using e True by (simp add: ready_def)
  then have "follow n (nodes fs) ?p = ?p" for n by (intro follow_plain) (auto simp: file_at_def)
  moreover have "fmlookup (nodes fs) (heightToPath base h odsFileExt) = Some (Symlink (hashToRelativePath E0 odsFileExt))"
    using inv l True by (auto simp: fs_inv_def height_inv_def split: if_splits)
  ultimately have "follow (Suc n) (nodes fs) (heightToPath base h odsFileExt) = ?p" for n using j by simp
  from this [of 39] have "follow 40 (nodes fs) (heightToPath base h odsFileExt) = ?p" by simp
  then show ?thesis using f True by simp
next
  case False
  then have f: "file_at fs (heightToPath base h odsFileExt) (ods_bytes K blk (chain h))" using inv l by (auto simp: fs_inv_def height_inv_def split: if_splits)
  then have "follow 40 (nodes fs) (heightToPath base h odsFileExt) = heightToPath base h odsFileExt" by (intro follow_plain) (auto simp: file_at_def)
  then show ?thesis using f by simp
qed

lemma follow_unlinked: "\<not> linked base fs h \<Longrightarrow> follow n (nodes fs) (heightToPath base h odsFileExt) = heightToPath base h odsFileExt"
  by (rule follow_plain) (simp add: linked_def)

lemma q4_content_right:
  assumes "fs_inv K blk chain mode base fs" "linked base fs h" "mode h \<noteq> None \<or> chain h = E0" "ready K blk base fs"
  shows "q4_content (hashToPath base (chain h) q4FileExt) fs \<in> {None, Some (q4_bytes blk (chain h))}"
proof (cases "chain h = E0")
  case True
  have "partial_at fs (hashToPath base (chain h) q4FileExt) (q4_bytes blk (chain h))" using assms(1) unfolding fs_inv_def by blast
  from partial_plain [OF this] show ?thesis using assms(4) True by (auto simp: ready_def file_at_def q4_content_def)
next
  case False
  have "partial_at fs (hashToPath base (chain h) q4FileExt) (q4_bytes blk (chain h))" using assms(1) unfolding fs_inv_def by blast
  from partial_plain [OF this] show ?thesis
    using assms False by (cases "mode h = Some True") (auto simp: fs_inv_def q4_inv_def q4_content_def file_at_def split: option.splits node.splits)
qed

lemma openAccessor_right:
  assumes inv: "fs_inv K blk chain mode base fs" and e: "ready K blk base fs"
    and o: "openAccessor base (heightToPath base h odsFileExt) fs = (r, fs1)"
  shows "same_files fs fs1 \<and> (\<forall>a. r = Inr a \<longrightarrow> right_accessor K blk chain mode h a \<and> linked base fs h)"
proof -
  obtain r1 fs2 where f: "OpenODS_file (heightToPath base h odsFileExt) fs = (r1, fs2)" by fastforce
  note s = OpenODS_file_cases [OF f]
  have "right_accessor K blk chain mode h a \<and> linked base fs h" if a: "r = Inr a" for a
  proof -
    obtain g where g: "r1 = Inr g" "a = OnDisk g (q4_content (hashToPath base (ODS_DataHash g) q4FileExt) fs2)"
      using o f a by (auto simp: openAccessor_def split: sum.splits)
    then obtain i where i: "fmlookup (nodes fs) (follow 40 (nodes fs) (heightToPath base h odsFileExt)) = Some (Regular i)" "OpenODS (inode_content fs i) = Inr g" using s by auto
    have l: "linked base fs h"
    proof (rule ccontr)
      assume "\<not> linked base fs h"
      then show False using i(1) follow_unlinked [of fs h 40] by (simp add: linked_def)
    qed
    have op: "OpenODS (ods_bytes K blk (chain h)) = Inr g" using follow_height [OF inv l] e i by (auto simp: file_at_def)
    have "q4_content p fs2 = q4_content p fs" for p using s by (simp add: q4_content_def same_files_def split: option.split node.split)
    then show ?thesis using l op opened_hash [OF op] q4_content_right [OF inv l _ e] g(2) by (auto simp: right_accessor_def)
  qed
  moreover have "same_files fs fs1" using o f s by (auto simp: openAccessor_def split: sum.splits)
  ultimately show ?thesis by blast
qed

lemma GetByHeight_right:
  assumes inv: "st_inv s" and e: "ready K blk base (disk s)" and g: "GetByHeight K h s = (r, s1)"
  shows "goes h s s1 \<and> linked base (disk s1) h = linked base (disk s) h \<and> (\<forall>a. r = Inr a \<longrightarrow> right_accessor K blk chain mode h a)"
proof -
  have i: "basepath s = base" "fs_inv K blk chain mode base (disk s)" "\<And>k a. holds (cache s) k a \<Longrightarrow> right_accessor K blk chain mode k a"
    and ok: "cache_ok (cache s)" using inv by (auto simp: st_inv_def)
  obtain r1 c where c: "c_Get C h (cache s) = (r1, c)" by fastforce
  then have s1: "st_inv (s\<lparr>cache := c\<rparr>)" using get [OF ok c] i by (auto simp: st_inv_def)
  show ?thesis
  proof (cases r1)
    case (Inr a)
    then show ?thesis using g c the_cache s1 get [OF ok c] i(3) by (auto simp: GetByHeight_def goes_def)
  next
    case (Inl x)
    then obtain fs where o: "openAccessor base (heightToPath base h odsFileExt) (disk s) = (r, fs)" "s1 = s\<lparr>cache := c, disk := fs\<rparr>"
      using g c the_cache i(1) by (auto simp: GetByHeight_def on_disk_def split: prod.splits)
    note right = openAccessor_right [OF i(2) e o(1)]
    have "goes h (s\<lparr>cache := c\<rparr>) s1" using same_goes [OF s1, of fs h] right by (simp add: o(2))
    then show ?thesis using right by (auto simp: goes_def o(2) linked_def same_files_def)
  qed
qed

end

end
