(* ===== verification/StoreRuns.thy ===== *)
theory StoreRuns
  imports StoreSafety EdsExamples
begin

text \<open>
  Runs of a node with a block store: operations, crashes at any call of the operating system and restarts, and what the store
  does when no call fails.
\<close>

section \<open>Starting\<close>

locale block_node = block_store +
  assumes fresh_cache: "cache_ok (newCache K n) \<and> \<not> holds (newCache K n) h a"
begin

lemma mkdir_inv:
  assumes inv: "fs_inv K blk chain mode base fs" and m: "mkdir p fs = (err, fs1)" and p: "p = base @ blocksPath \<or> p = base @ heightsPath"
  shows "fs_inv K blk chain mode base fs1 \<and> (\<forall>h. linked base fs1 h = linked base fs h) \<and> (err = [] \<longrightarrow> fmlookup (nodes fs1) p \<noteq> None)
    \<and> (\<forall>q. fmlookup (nodes fs) q \<noteq> None \<longrightarrow> fmlookup (nodes fs1) q = fmlookup (nodes fs) q) \<and> (fmlookup (nodes fs) p = None \<longrightarrow> fmlookup (nodes fs1) p \<in> {None, Some Dir})"
proof -
  obtain r fs2 where r: "os_Mkdir p fs = (r, fs2)" by fastforce
  have e: "err = (if errors_Is (err_of r) ErrExist then [] else err_of r)" "fs1 = fs2" using m r by (auto simp: mkdir_def)
  from r show ?thesis unfolding os_Mkdir_def
  proof (cases rule: syscall_cases)
    case fault
    then show ?thesis using fs_inv_same [OF _ inv] e by (auto simp: errors_Is_def same_files_def linked_def)
  next
    case (works fs0)
    have i0: "fs_inv K blk chain mode base fs0" and s0: "nodes fs0 = nodes fs" using fs_inv_same [OF works(1) inv] works(1) by (auto simp: same_files_def)
    from works(4) show ?thesis
    proof (cases rule: add_node_cases)
      case (fault x)
      then show ?thesis using e i0 s0 by (auto simp: errors_Is_def linked_def)
    next
      case works
      have "p \<noteq> hashToPath base dh odsFileExt" "p \<noteq> hashToPath base dh q4FileExt" "p \<noteq> heightToPath base h odsFileExt" for dh h
        using p dir_neq_hash [of base] by metis+
      then show ?thesis using fs_inv_other [OF i0, of Dir p] works e s0 by (auto simp: linked_def)
    qed
  qed
qed

lemma drop_empty:
  assumes inv: "fs_inv K blk chain mode base fs" and r: "remove_file p fs = (err, fs1)" and p: "p = hashToPath base E0 odsFileExt \<or> p = hashToPath base E0 q4FileExt"
  shows "fs_inv K blk chain mode base fs1 \<and> (\<forall>h. linked base fs1 h = linked base fs h) \<and> (\<forall>q. fmlookup (nodes fs) q = Some Dir \<longrightarrow> q \<noteq> p \<longrightarrow> fmlookup (nodes fs1) q = Some Dir)"
proof -
  from remove_file_cases [OF r] show ?thesis
  proof (elim disjE exE conjE)
    assume "same_files fs fs1"
    then show ?thesis using fs_inv_same [OF _ inv] by (auto simp: linked_def same_files_def)
  next
    fix fs0 assume s: "same_files fs fs0" and f: "fs1 = fs0\<lparr>nodes := fmdrop p (nodes fs0)\<rparr>"
    have "fs_inv K blk chain mode base fs1" unfolding f using p by (intro fs_inv_drop [OF fs_inv_same [OF s inv]]) auto
    then show ?thesis using p s by (auto simp: f linked_def same_files_def)
  qed
qed

lemma populate_goes:
  assumes inv: "st_inv s" and dirs: "fmlookup (nodes (disk s)) (base @ blocksPath) = Some Dir" "fmlookup (nodes (disk s)) (base @ heightsPath) = Some Dir"
    and p: "populateEmptyFile K s = (err, s1)"
  shows "st_inv s1 \<and> (\<forall>h. linked base (disk s1) h = linked base (disk s) h) \<and> (err = [] \<longrightarrow> ready K blk base (disk s1))"
proof -
  have b: "basepath s = base" and f0: "fs_inv K blk chain mode base (disk s)" using inv by (simp_all add: st_inv_def)
  have neq: "base @ blocksPath \<noteq> hashToPath base E0 odsFileExt" "base @ blocksPath \<noteq> hashToPath base E0 q4FileExt"
      "base @ heightsPath \<noteq> hashToPath base E0 odsFileExt" "base @ heightsPath \<noteq> hashToPath base E0 q4FileExt"
    using dir_neq_hash(1,2,3) [of base E0] by metis+
  obtain e1 fs1 where 1: "remove_file (hashToPath base E0 odsFileExt) (disk s) = (e1, fs1)" by fastforce
  obtain e2 fs2 where 2: "remove_file (hashToPath base E0 q4FileExt) fs1 = (e2, fs2)" by fastforce
  have i1: "fs_inv K blk chain mode base fs1 \<and> (\<forall>h. linked base fs1 h = linked base (disk s) h) \<and> fmlookup (nodes fs1) (base @ blocksPath) = Some Dir \<and> fmlookup (nodes fs1) (base @ heightsPath) = Some Dir"
    using drop_empty [OF f0 1] dirs neq by simp
  have i2: "fs_inv K blk chain mode base fs2" "\<forall>h. linked base fs2 h = linked base (disk s) h" "fmlookup (nodes fs2) (base @ blocksPath) = Some Dir" "fmlookup (nodes fs2) (base @ heightsPath) = Some Dir"
    using drop_empty [OF _ 2] i1 neq by simp_all
  have s2: "st_inv (s\<lparr>disk := fs2\<rparr>)" using st_inv_disk [OF inv i2(1)] .
  have empty: "EmptyEDSRoots K = fst (blk E0)" "EmptyEDS K = snd (blk E0)" using env by (simp_all add: env_ok_def)
  have pe: "populateEmptyFile K s = (if e1 @ e2 \<noteq> [] then (e1 @ e2, s\<lparr>disk := fs2\<rparr>)
      else on_disk (CreateODSQ4 (se_lib K) (se_nsSize K) (se_eds K) (hashToPath base E0 odsFileExt) (hashToPath base E0 q4FileExt) (fst (blk E0)) (snd (blk E0))) (s\<lparr>disk := fs2\<rparr>))"
    using 1 2 by (simp add: populateEmptyFile_def Let_def on_disk_def [of "remove_file q" for q] b empty)
  show ?thesis
  proof (cases "e1 @ e2 = []")
    case False
    then have "s1 = s\<lparr>disk := fs2\<rparr>" "err \<noteq> []" using p unfolding pe by (auto split: if_splits)
    then show ?thesis using s2 i2(2) by simp
  next
    case True
    have c: "on_disk (CreateODSQ4 (se_lib K) (se_nsSize K) (se_eds K) (hashToPath base E0 odsFileExt) (hashToPath base E0 q4FileExt) (fst (blk E0)) (snd (blk E0))) (s\<lparr>disk := fs2\<rparr>) = (err, s1)"
      using p True unfolding pe by simp
    note g = CreateODSQ4_goes [OF s2 _ _ c]
    have "linked base (disk s1) h = linked base (disk s) h" for h using g [of h] i2(2) by simp
    moreover have "fmlookup (nodes (disk s1)) q = Some Dir" if "fmlookup (nodes fs2) q = Some Dir" for q
    proof -
      obtain fs where fs: "CreateODSQ4 (se_lib K) (se_nsSize K) (se_eds K) (hashToPath base E0 odsFileExt) (hashToPath base E0 q4FileExt) (fst (blk E0)) (snd (blk E0)) fs2 = (err, fs)" "s1 = s\<lparr>disk := fs\<rparr>"
        using c by (auto simp: on_disk_def split: prod.splits)
      show ?thesis
        by (rule CreateODSQ4_created [OF known(2) fs(1)]) (use that in \<open>auto simp: created_def same_files_def new_file_def fs(2)\<close>)
    qed
    ultimately show ?thesis using g [of undefined] i2(3,4) by (auto simp: goes_def ready_def)
  qed
qed

lemma mkdir_dir:
  assumes "fs_inv K blk chain mode base fs" "mkdir p fs = ([], fs1)" "p = base @ blocksPath \<or> p = base @ heightsPath"
  shows "fmlookup (nodes fs1) p = Some Dir"
proof -
  have "fs_inv K blk chain mode base fs1" and n: "fmlookup (nodes fs1) p \<noteq> None" using mkdir_inv [OF assms] by blast+
  then have "dirs_plain base fs1" unfolding fs_inv_def by blast
  then show ?thesis using assms(3) n unfolding dirs_plain_def by blast
qed

lemma NewStore_ok:
  assumes inv: "fs_inv K blk chain mode base fs" and n: "NewStore K params base fs = (r, fs1)"
  shows "fs_inv K blk chain mode base fs1 \<and> (\<forall>h. linked base fs1 h = linked base fs h) \<and> (\<forall>s. r = Inr s \<longrightarrow> st_inv s \<and> disk s = fs1 \<and> ready K blk base fs1)"
proof (cases "store_Validate params = []")
  case False
  then show ?thesis using n inv by (auto simp: NewStore_def)
next
  case v: True
  obtain e1 fs2 where 1: "mkdir (base @ blocksPath) fs = (e1, fs2)" by fastforce
  have m1: "fs_inv K blk chain mode base fs2" "\<forall>h. linked base fs2 h = linked base fs h" using mkdir_inv [OF inv 1 disjI1 [OF refl]] by auto
  show ?thesis
  proof (cases "e1 = []")
    case False
    then have "fs1 = fs2 \<and> r = Inl e1" using n v 1 by (cases e1) (simp_all add: NewStore_def)
    then show ?thesis using m1 by blast
  next
    case e1: True
    obtain e2 fs3 where 2: "mkdir (base @ heightsPath) fs2 = (e2, fs3)" by fastforce
    have m2: "fs_inv K blk chain mode base fs3" "\<forall>h. linked base fs3 h = linked base fs h" "fmlookup (nodes fs3) (base @ blocksPath) = Some Dir"
      using mkdir_inv [OF m1(1) 2 disjI2 [OF refl]] m1(2) mkdir_dir [OF inv 1 [unfolded e1] disjI1 [OF refl]] by auto
    show ?thesis
    proof (cases "e2 = []")
      case False
      then have "fs1 = fs3 \<and> r = Inl e2" using n v 1 2 e1 by (cases e2) (simp_all add: NewStore_def)
      then show ?thesis using m2 by blast
    next
      case e2: True
      let ?s = "\<lparr>basepath = base, cache = newCache K (RecentBlocksCacheSize params), disk = fs3\<rparr>"
      obtain e3 s3 where 3: "populateEmptyFile K ?s = (e3, s3)" by fastforce
      have i: "st_inv ?s" using m2(1) fresh_cache by (simp add: st_inv_def)
      have "st_inv s3 \<and> (\<forall>h. linked base (disk s3) h = linked base fs3 h) \<and> (e3 = [] \<longrightarrow> ready K blk base (disk s3))"
        using populate_goes [OF i _ _ 3] m2(3) mkdir_dir [OF m1(1) 2 [unfolded e2] disjI2 [OF refl]] by simp
      moreover from this have "fs_inv K blk chain mode base (disk s3)" by (simp add: st_inv_def)
      moreover have "fs1 = disk s3 \<and> r = (if e3 = [] then Inr s3 else Inl e3)" using n v 1 2 3 e1 e2 by (cases e3) (simp_all add: NewStore_def)
      ultimately show ?thesis using m2(2) by (auto split: if_splits)
    qed
  qed
qed

end

section \<open>Runs\<close>

text \<open>
  A node is stopped, with what is on its disk, or has a store. An event is an operation with the outcomes of its system calls;
  where none is given the calls work. Blocks that are put are those of the chain.
\<close>

datatype store_op = PutOp u64 bool | RemoveODSQ4Op u64 | RemoveQ4Op u64 | GetOp u64 | StartOp store_Parameters

datatype 'c node_state = Stopped fsys | Running "'c Store"

fun disk_of :: "'c node_state \<Rightarrow> fsys" where
  "disk_of (Stopped fs) = fs"
| "disk_of (Running s) = disk s"

definition at_rest :: "fsys \<Rightarrow> fsys" where
  "at_rest fs = fs\<lparr>faults := [], down := False\<rparr>"

definition settle :: "'c Store \<Rightarrow> 'c node_state" where
  "settle s = (if down (disk s) then Stopped (at_rest (disk s)) else Running (s\<lparr>disk := at_rest (disk s)\<rparr>))"

definition with_faults :: "fault list \<Rightarrow> 'c Store \<Rightarrow> 'c Store" where
  "with_faults flts s = s\<lparr>disk := (disk s)\<lparr>faults := flts\<rparr>\<rparr>"

fun do_op :: "'c store_env \<Rightarrow> (byte list \<Rightarrow> AxisRoots \<times> eds) \<Rightarrow> (u64 \<Rightarrow> byte list) \<Rightarrow> store_op \<Rightarrow> 'c Store \<Rightarrow> 'c Store" where
  "do_op K blk chain (PutOp h q4) s = snd (put K (fst (blk (chain h))) h (snd (blk (chain h))) q4 s)"
| "do_op K blk chain (RemoveODSQ4Op h) s = snd (RemoveODSQ4 K h (chain h) s)"
| "do_op K blk chain (RemoveQ4Op h) s = snd (RemoveQ4 K h (chain h) s)"
| "do_op K blk chain (GetOp h) s = snd (GetByHeight K h s)"
| "do_op K blk chain (StartOp params) s = s"

definition node_step :: "'c store_env \<Rightarrow> (byte list \<Rightarrow> AxisRoots \<times> eds) \<Rightarrow> (u64 \<Rightarrow> byte list) \<Rightarrow> path \<Rightarrow> fault list \<times> store_op \<Rightarrow> 'c node_state \<Rightarrow> 'c node_state" where
  "node_step K blk chain base ev st =
     (case ev of
        (flts, StartOp params) \<Rightarrow>
          (case NewStore K params base ((disk_of st)\<lparr>faults := flts\<rparr>) of
             (Inl e, fs) \<Rightarrow> Stopped (at_rest fs)
           | (Inr s, fs) \<Rightarrow> settle s)
      | (flts, oper) \<Rightarrow> (case st of Stopped fs \<Rightarrow> st | Running s \<Rightarrow> settle (do_op K blk chain oper (with_faults flts s))))"

fun op_height :: "store_op \<Rightarrow> u64 option" where
  "op_height (PutOp h _) = Some h"
| "op_height (RemoveODSQ4Op h) = Some h"
| "op_height (RemoveQ4Op h) = Some h"
| "op_height _ = None"

fun op_fits :: "'c store_env \<Rightarrow> (u64 \<Rightarrow> byte list) \<Rightarrow> (u64 \<Rightarrow> bool option) \<Rightarrow> store_op \<Rightarrow> bool" where
  "op_fits K chain mode (PutOp h q4) \<longleftrightarrow> mode h = None \<or> mode h = Some q4 \<or> chain h = EmptyEDSDataHash K"
| "op_fits K chain mode (RemoveQ4Op h) \<longleftrightarrow> mode h \<noteq> Some True"
| "op_fits K chain mode _ \<longleftrightarrow> True"

definition empty_disk :: "path \<Rightarrow> fsys" where
  "empty_disk base = \<lparr>nodes = fmupd base Dir fmempty, inodes = fmempty, inodeNext = 0, faults = [], down = False\<rparr>"

lemma empty_disk_inv: "fs_inv K blk chain mode base (empty_disk base)"
  by (auto simp: inv_defs empty_disk_def hashToPath_def heightToPath_def heightsPath_def blocksPath_def split: if_splits)

context block_node
begin

definition node_inv :: "'a node_state \<Rightarrow> bool" where
  "node_inv st \<longleftrightarrow> faults (disk_of st) = [] \<and> \<not> down (disk_of st)
     \<and> (case st of Stopped fs \<Rightarrow> fs_inv K blk chain mode base fs | Running s \<Rightarrow> st_inv s \<and> ready K blk base (disk s))"

lemma rest_same: "same_files fs (at_rest fs)" "faults (at_rest fs) = []" "\<not> down (at_rest fs)"
  by (simp_all add: at_rest_def)

lemma ready_same: "same_files fs fs1 \<Longrightarrow> ready K blk base fs \<Longrightarrow> ready K blk base fs1"
  by (simp add: ready_def same_files_def file_at_def)

lemma settle_inv:
  assumes "st_inv s" "ready K blk base (disk s)"
  shows "node_inv (settle s) \<and> (\<forall>h. linked base (disk_of (settle s)) h = linked base (disk s) h)"
proof -
  have "fs_inv K blk chain mode base (at_rest (disk s))" using fs_inv_same [OF rest_same(1)] assms(1) by (auto simp: st_inv_def)
  moreover have "ready K blk base (at_rest (disk s))" using ready_same [OF rest_same(1) assms(2)] .
  moreover have "linked base (at_rest (disk s)) h = linked base (disk s) h" for h by (simp add: linked_def at_rest_def)
  ultimately show ?thesis using assms(1) rest_same(2,3) by (simp add: settle_def node_inv_def st_inv_disk)
qed

lemma with_faults_inv:
  assumes "node_inv (Running s)"
  shows "st_inv (with_faults flts s)" "ready K blk base (disk (with_faults flts s))" "linked base (disk (with_faults flts s)) h = linked base (disk s) h"
  using assms same_goes [of s "(disk s)\<lparr>faults := flts\<rparr>"] by (auto simp: node_inv_def with_faults_def goes_def linked_def)

lemma do_op_goes:
  assumes s: "st_inv s" "ready K blk base (disk s)" and f: "op_fits K chain mode oper"
  shows "\<exists>h. goes h s (do_op K blk chain oper s) \<and> (op_height oper \<noteq> Some h \<longrightarrow> linked base (disk (do_op K blk chain oper s)) h = linked base (disk s) h)"
proof (cases oper)
  case (PutOp h q)
  have "put_fits h q" using f PutOp by (simp add: put_fits_def)
  then show ?thesis using put_goes [OF s(1)] PutOp by (metis do_op.simps(1) op_height.simps(1) prod.collapse)
next
  case (RemoveODSQ4Op h)
  then show ?thesis using RemoveODSQ4_goes [OF s(1)] by (metis do_op.simps(2) op_height.simps(2) prod.collapse)
next
  case (RemoveQ4Op h)
  then show ?thesis using RemoveQ4_goes [OF s(1), of h] f by (metis do_op.simps(3) op_fits.simps(2) op_height.simps(3) prod.collapse)
next
  case (GetOp h)
  then show ?thesis using GetByHeight_right [OF s, of h] by (metis do_op.simps(4) prod.collapse)
next
  case (StartOp p)
  then show ?thesis using s by simp
qed

lemma node_step_inv:
  assumes inv: "node_inv st" and f: "op_fits K chain mode (snd ev)"
  shows "node_inv (node_step K blk chain base ev st)
    \<and> (\<forall>h. op_height (snd ev) \<noteq> Some h \<longrightarrow> linked base (disk_of (node_step K blk chain base ev st)) h = linked base (disk_of st) h)"
proof -
  obtain flts oper where ev: "ev = (flts, oper)" by fastforce
  show ?thesis
  proof (cases "\<exists>params. oper = StartOp params")
    case True
    then obtain params where p: "oper = StartOp params" by blast
    let ?fs = "(disk_of st)\<lparr>faults := flts\<rparr>"
    have i: "fs_inv K blk chain mode base ?fs"
      using inv fs_inv_same [OF same_files_refl(2)] by (cases st) (auto simp: node_inv_def st_inv_def)
    have l0: "linked base ?fs h = linked base (disk_of st) h" for h by (simp add: linked_def)
    obtain r fs1 where n: "NewStore K params base ?fs = (r, fs1)" by fastforce
    note ok = NewStore_ok [OF i n]
    show ?thesis
    proof (cases r)
      case (Inl e)
      have "fs_inv K blk chain mode base (at_rest fs1)" using ok fs_inv_same [OF rest_same(1)] by blast
      moreover have "linked base (at_rest fs1) h = linked base fs1 h" for h by (simp add: linked_def at_rest_def)
      ultimately show ?thesis using ev p n Inl ok l0 rest_same(2,3) by (simp add: node_step_def node_inv_def)
    next
      case (Inr s)
      then have "st_inv s" "disk s = fs1" "ready K blk base (disk s)" using ok by auto
      from settle_inv [OF this(1,3)] show ?thesis using ev p n Inr ok l0 \<open>disk s = fs1\<close> by (simp add: node_step_def)
    qed
  next
    case False
    then have st: "node_step K blk chain base ev st = (case st of Stopped fs \<Rightarrow> st | Running s \<Rightarrow> settle (do_op K blk chain oper (with_faults flts s)))"
      using ev by (cases oper) (auto simp: node_step_def)
    show ?thesis
    proof (cases st)
      case (Stopped fs)
      then show ?thesis using st inv by simp
    next
      case (Running s)
      note w = with_faults_inv [OF inv [unfolded Running]]
      let ?s = "do_op K blk chain oper (with_faults flts s)"
      obtain h where h: "goes h (with_faults flts s) ?s" "op_height oper \<noteq> Some h \<longrightarrow> linked base (disk ?s) h = linked base (disk (with_faults flts s)) h"
        using do_op_goes [OF w(1,2)] f ev by fastforce
      then have "st_inv ?s" "ready K blk base (disk ?s)" using w(2) by (auto simp: goes_def)
      from settle_inv [OF this] have "node_inv (settle ?s)" "\<forall>k. linked base (disk_of (settle ?s)) k = linked base (disk ?s) k" by auto
      moreover have "linked base (disk ?s) k = linked base (disk s) k" if "op_height oper \<noteq> Some k" for k
        using h w(3) that by (cases "k = h") (auto simp: goes_def)
      ultimately show ?thesis using st Running ev by simp
    qed
  qed
qed

lemma run_inv:
  assumes "node_inv st" "\<And>ev. ev \<in> set evs \<Longrightarrow> op_fits K chain mode (snd ev)"
  shows "node_inv (fold (node_step K blk chain base) evs st)"
    "(\<And>ev. ev \<in> set evs \<Longrightarrow> op_height (snd ev) \<noteq> Some h) \<Longrightarrow> linked base (disk_of (fold (node_step K blk chain base) evs st)) h = linked base (disk_of st) h"
  using assms by (induction evs arbitrary: st) (simp_all add: node_step_inv)

lemma start_inv: "node_inv (Stopped (empty_disk base))"
  by (simp add: node_inv_def empty_disk_inv) (simp add: empty_disk_def)

end

section \<open>When no call fails\<close>

definition quiet :: "fsys \<Rightarrow> bool" where
  "quiet fs \<longleftrightarrow> faults fs = [] \<and> \<not> down fs"

lemma syscall_quiet: "quiet fs \<Longrightarrow> syscall call fs = call fs"
  by (simp add: quiet_def syscall_def take_fault_def)

lemma add_node_quiet: "quiet fs \<Longrightarrow> in_dir fs p \<Longrightarrow> \<exists>fs1. add_node p n fs = ((if fmlookup (nodes fs) p = None then Inr () else Inl ErrExist), fs1) \<and> quiet fs1"
  by (auto simp: add_node_def quiet_def)

lemma write_close_quiet: "quiet fs \<Longrightarrow> \<exists>fs1 fs2. os_Write i bs fs = (Inr (), fs1) \<and> os_Close fs1 = (Inr (), fs2) \<and> quiet fs2"
  by (simp add: os_Write_def os_Close_def syscall_def take_fault_def quiet_def append_inode_def)

lemma os_Create_quiet:
  assumes "quiet fs" "in_dir fs p"
  shows "\<exists>fs1. os_Create p fs = ((if fmlookup (nodes fs) p = None then Inr (inodeNext fs) else Inl ErrExist), fs1) \<and> quiet fs1"
  using assms by (auto simp: os_Create_def syscall_quiet add_node_def Let_def) (simp add: quiet_def)

lemma CreateODS_quiet:
  assumes "quiet fs" "in_dir fs p" "block_known K blk dh"
  shows "\<exists>fs1. CreateODS (se_lib K) (se_nsSize K) (se_eds K) p (fst (blk dh)) (snd (blk dh)) fs = ((if fmlookup (nodes fs) p = None then [] else [ErrExist]), fs1) \<and> quiet fs1"
proof -
  obtain fs1 where 1: "os_Create p fs = ((if fmlookup (nodes fs) p = None then Inr (inodeNext fs) else Inl ErrExist), fs1)" "quiet fs1" using os_Create_quiet [OF assms(1,2)] by blast
  obtain fs2 fs3 where 2: "os_Write (inodeNext fs) (ods_bytes K blk dh) fs1 = (Inr (), fs2)" "os_Close fs2 = (Inr (), fs3)" "quiet fs3" using write_close_quiet [OF 1(2)] by blast
  show ?thesis using 1 2 ods_bytes_ok [OF assms(3)] assms(3) by (simp add: CreateODS_def block_known_def)
qed

lemma createQ4_quiet:
  assumes "quiet fs" "in_dir fs p"
  shows "\<exists>fs1. createQ4 p eds fs = ((if fmlookup (nodes fs) p = None then [] else [ErrExist]), fs1) \<and> quiet fs1"
proof -
  obtain fs1 where 1: "os_Create p fs = ((if fmlookup (nodes fs) p = None then Inr (inodeNext fs) else Inl ErrExist), fs1)" "quiet fs1" using os_Create_quiet [OF assms] by blast
  obtain fs2 fs3 where 2: "os_Write (inodeNext fs) (writeQ4 eds) fs1 = (Inr (), fs2)" "os_Close fs2 = (Inr (), fs3)" "quiet fs3" using write_close_quiet [OF 1(2)] by blast
  show ?thesis using 1 2 by (simp add: createQ4_def)
qed

lemma CreateODSQ4_quiet:
  assumes "quiet fs" "in_dir fs p" "in_dir fs q" "block_known K blk dh" "p \<noteq> q"
  shows "\<exists>fs1. CreateODSQ4 (se_lib K) (se_nsSize K) (se_eds K) p q (fst (blk dh)) (snd (blk dh)) fs
      = ((if fmlookup (nodes fs) p = None then [] else [ErrExist]) @ (if fmlookup (nodes fs) q = None then [] else [ErrExist]), fs1) \<and> quiet fs1"
proof -
  obtain fs1 where 1: "CreateODS (se_lib K) (se_nsSize K) (se_eds K) p (fst (blk dh)) (snd (blk dh)) fs = ((if fmlookup (nodes fs) p = None then [] else [ErrExist]), fs1)" "quiet fs1"
    using CreateODS_quiet [OF assms(1,2,4)] by blast
  have same: "fmlookup (nodes fs1) r = fmlookup (nodes fs) r" if "r \<noteq> p \<or> fmlookup (nodes fs) p \<noteq> None" for r
    using CreateODS_created [OF assms(4) 1(1)] that by (auto simp: created_def same_files_def new_file_def split: if_splits)
  have "fmlookup (nodes fs1) q = fmlookup (nodes fs) q" using same assms(5) by auto
  moreover have "in_dir fs1 q" using same [of "butlast q"] assms(3) by (cases "butlast q = p") (auto simp: in_dir_def)
  ultimately obtain fs2 where 2: "createQ4 q (snd (blk dh)) fs1 = ((if fmlookup (nodes fs) q = None then [] else [ErrExist]), fs2)" "quiet fs2"
    using createQ4_quiet [OF 1(2), of q] by auto
  moreover have "fs1\<lparr>down := down fs\<rparr> = fs1" "fs2\<lparr>down := down fs1 \<or> down fs2\<rparr> = fs2" using assms(1) 1(2) 2(2) by (simp_all add: quiet_def)
  ultimately show ?thesis using 1 by (simp add: CreateODSQ4_def)
qed

lemma remove_file_quiet:
  assumes "quiet fs" "fmlookup (nodes fs) p \<noteq> Some Dir"
  shows "\<exists>fs1. remove_file p fs = ([], fs1) \<and> quiet fs1"
  using assms by (auto simp: remove_file_def os_Remove_def syscall_quiet errors_Is_def quiet_def split: option.splits node.splits)

lemma os_Open_quiet: "quiet fs \<Longrightarrow> quiet (snd (os_Open p fs))"
  by (simp add: os_Open_def syscall_quiet split: option.splits node.splits)

lemma os_Read_quiet: "quiet fs \<Longrightarrow> os_Read c fs = (Inr c, fs)"
  by (simp add: os_Read_def syscall_quiet)

lemma OpenODS_file_quiet: "quiet fs \<Longrightarrow> quiet (snd (OpenODS_file p fs))"
  using os_Open_quiet [of fs p] by (auto simp: OpenODS_file_def os_Read_quiet split: prod.splits sum.splits)

lemma Validate_quiet: "quiet fs \<Longrightarrow> quiet (snd (ValidateODSQ4Size L p q eds fs))" "quiet fs \<Longrightarrow> quiet (snd (ValidateODSSize_file L p eds fs))"
proof -
  have a: "quiet (snd (ValidateODSSize_file L p eds fs))" if "quiet fs" for fs
    using OpenODS_file_quiet [OF that, of p] by (auto simp: ValidateODSSize_file_def os_Read_quiet split: prod.splits sum.splits option.splits)
  have b: "quiet (snd (validateQ4Size_file q eds fs))" if "quiet fs" for fs
    using os_Open_quiet [OF that, of q] by (auto simp: validateQ4Size_file_def os_Read_quiet split: prod.splits sum.splits option.splits)
  show "quiet (snd (ValidateODSSize_file L p eds fs))" if "quiet fs" using a [OF that] .
  show "quiet (snd (ValidateODSQ4Size L p q eds fs))" if "quiet fs"
    using a [OF that] b by (auto simp: ValidateODSQ4Size_def split: prod.splits list.splits)
qed

context block_node
begin

definition calm :: "'a Store \<Rightarrow> bool" where
  "calm s \<longleftrightarrow> st_inv s \<and> ready K blk base (disk s) \<and> quiet (disk s)"

lemma calm_goes: "calm s \<Longrightarrow> goes h s s1 \<Longrightarrow> quiet (disk s1) \<Longrightarrow> calm s1"
  by (simp add: calm_def goes_def)

lemma calm_in_dir: "calm s \<Longrightarrow> in_dir (disk s) (hashToPath base dh ext)" "calm s \<Longrightarrow> in_dir (disk s) (heightToPath base h ext)"
  by (simp_all add: calm_def ready_def in_dir_def hashToPath_def heightToPath_def butlast_append)

lemma not_dir:
  assumes "st_inv s"
  shows "fmlookup (nodes (disk s)) (hashToPath base (chain h) odsFileExt) \<noteq> Some Dir" "fmlookup (nodes (disk s)) (hashToPath base (chain h) q4FileExt) \<noteq> Some Dir"
    "fmlookup (nodes (disk s)) (heightToPath base h odsFileExt) \<noteq> Some Dir"
proof -
  show "fmlookup (nodes (disk s)) (hashToPath base (chain h) odsFileExt) \<noteq> Some Dir" "fmlookup (nodes (disk s)) (hashToPath base (chain h) q4FileExt) \<noteq> Some Dir"
    using partial_files [OF assms, of "chain h"] by (auto simp: partial_at_def file_at_def)
  show "fmlookup (nodes (disk s)) (heightToPath base h odsFileExt) \<noteq> Some Dir"
  proof
    assume d: "fmlookup (nodes (disk s)) (heightToPath base h odsFileExt) = Some Dir"
    moreover have "height_inv K blk chain base (disk s)" using assms by (simp add: st_inv_def fs_inv_def)
    ultimately show False unfolding height_inv_def linked_def file_at_def by (metis (no_types, lifting) node.distinct(1,3) option.distinct(1) option.inject)
  qed
qed

lemma remove_calm:
  assumes c: "calm s" and r: "on_disk (remove_file p) s = (err, s1)" and p: "fmlookup (nodes (disk s)) p \<noteq> Some Dir"
  shows "err = [] \<and> quiet (disk s1)"
  using remove_file_quiet [OF _ p] c r by (auto simp: calm_def on_disk_eq)

lemma removeODS_calm:
  assumes c: "calm s" and cr: "\<And>x. fst (c_Remove C h x) = []" and r: "removeODS K h (chain h) s = (err, s1)"
  shows "err = [] \<and> calm s1"
proof -
  have inv: "st_inv s" and b: "basepath s = base" using c by (auto simp: calm_def st_inv_def)
  obtain s2 where 1: "cache_remove K h s = ([], s2)" using cr [of "cache s"] the_cache by (cases "c_Remove C h (cache s)") (simp add: cache_remove_def)
  have c2: "calm s2" using calm_goes [OF c] cache_remove_goes [OF inv 1] c by (auto simp: calm_def)
  obtain e s3 where 2: "on_disk (remove_file (heightToPath base h odsFileExt)) s2 = (e, s3)" by fastforce
  have e: "e = []" "quiet (disk s3)" using remove_calm [OF c2 2 not_dir(3)] c2 by (auto simp: calm_def)
  have c3: "calm s3" using calm_goes [OF c2 _ e(2)] remove_goes [OF _ 2, of h] c2 by (auto simp: calm_def)
  show ?thesis
  proof (cases "chain h = E0")
    case True
    then show ?thesis using r 1 2 e c3 b by (auto simp: removeODS_def IsEmptyEDS_def)
  next
    case False
    then have 3: "on_disk (remove_file (hashToPath base (chain h) odsFileExt)) s3 = (err, s1)" using r 1 2 e(1) b by (auto simp: removeODS_def IsEmptyEDS_def)
    have "err = []" "quiet (disk s1)" using remove_calm [OF c3 3 not_dir(1)] c3 by (auto simp: calm_def)
    then show ?thesis using calm_goes [OF c] removeODS_goes [OF inv r] by blast
  qed
qed

lemma removeQ4_calm:
  assumes c: "calm s" and cr: "\<And>x. fst (c_Remove C h x) = []" and r: "removeQ4 K h (chain h) s = (err, s1)" and l: "\<not> linked base (disk s) h"
  shows "err = [] \<and> calm s1"
proof (cases "chain h = E0")
  case True
  then show ?thesis using r c by (auto simp: removeQ4_def IsEmptyEDS_def)
next
  case False
  have inv: "st_inv s" and b: "basepath s = base" using c by (auto simp: calm_def st_inv_def)
  obtain s2 where 1: "cache_remove K h s = ([], s2)" using cr [of "cache s"] the_cache by (cases "c_Remove C h (cache s)") (simp add: cache_remove_def)
  have c2: "calm s2" using calm_goes [OF c] cache_remove_goes [OF inv 1] c by (auto simp: calm_def)
  have 3: "on_disk (remove_file (hashToPath base (chain h) q4FileExt)) s2 = (err, s1)" using r 1 b False by (auto simp: removeQ4_def IsEmptyEDS_def)
  have "err = []" "quiet (disk s1)" using remove_calm [OF c2 3 not_dir(2)] c2 by (auto simp: calm_def)
  then show ?thesis using calm_goes [OF c] removeQ4_goes [OF inv r] l by blast
qed

lemma removeODSQ4_calm:
  assumes c: "calm s" and cr: "\<And>x. fst (c_Remove C h x) = []" and r: "removeODSQ4 K h (chain h) s = (err, s1)"
  shows "err = [] \<and> calm s1"
proof -
  obtain e s2 where 1: "removeODS K h (chain h) s = (e, s2)" by fastforce
  have o: "e = []" "calm s2" using removeODS_calm [OF c cr 1] by auto
  have "\<not> linked base (disk s2) h" using removeODS_goes [OF _ 1] c o(1) by (auto simp: calm_def)
  then show ?thesis using removeQ4_calm [OF o(2) cr] r 1 o(1) by (auto simp: removeODSQ4_def)
qed

lemma linkHeight_calm:
  assumes c: "calm s" and l: "linkHeight K (chain h) h s = (err, s1)"
    and f: "chain h \<noteq> E0 \<Longrightarrow> ods_complete s h"
  shows "(err = [] \<or> errors_Is err ErrExist) \<and> quiet (disk s1)"
proof -
  have b: "basepath s = base" and q: "quiet (disk s)" using c by (auto simp: calm_def st_inv_def)
  show ?thesis
  proof (cases "chain h = E0")
    case True
    then show ?thesis using l b add_node_quiet [OF q calm_in_dir(2) [OF c], of h odsFileExt "Symlink (hashToRelativePath (chain h) odsFileExt)"]
      by (auto simp: linkHeight_def IsEmptyEDS_def symlink_def os_Symlink_def syscall_quiet [OF q] on_disk_def Let_def errors_Is_def split: if_splits)
  next
    case False
    obtain i where "fmlookup (nodes (disk s)) (hashToPath base (chain h) odsFileExt) = Some (Regular i)" using f False by (auto simp: file_at_def)
    then show ?thesis using l b False add_node_quiet [OF q calm_in_dir(2) [OF c], of h odsFileExt "Regular i"]
      by (auto simp: linkHeight_def IsEmptyEDS_def hardLink_def os_Link_def syscall_quiet [OF q] on_disk_def Let_def errors_Is_def split: if_splits)
  qed
qed

lemma link_created_calm:
  assumes c: "calm s" and f: "ods_complete s h" and l: "link_created K undo (chain h) h s = ((ex, err), s1)"
  shows "(ex \<or> err = []) \<and> quiet (disk s1)"
  using linkHeight_calm [OF c _ f] l by (auto simp: link_created_def split: prod.splits if_splits)

end

context block_node
begin

lemma on_disk_quiet: "on_disk f s = (r, s1) \<Longrightarrow> quiet (snd (f (disk s))) \<Longrightarrow> quiet (disk s1)"
  by (auto simp: on_disk_def split: prod.splits)

lemma CreateODSQ4_calm:
  assumes c: "calm s"
    and r: "on_disk (CreateODSQ4 (se_lib K) (se_nsSize K) (se_eds K) (hashToPath base (chain h) odsFileExt) (hashToPath base (chain h) q4FileExt) (fst (blk (chain h))) (snd (blk (chain h)))) s = (err, s1)"
  shows "(err = [] \<or> errors_Is err ErrExist) \<and> quiet (disk s1)
    \<and> (fmlookup (nodes (disk s)) (hashToPath base (chain h) odsFileExt) = None \<and> fmlookup (nodes (disk s)) (hashToPath base (chain h) q4FileExt) = None \<longrightarrow> err = [])"
  using CreateODSQ4_quiet [OF _ calm_in_dir(1) [OF c] calm_in_dir(1) [OF c] known(1) hash_ods_q4(1), of "chain h" "chain h" h] c r
  by (auto simp: on_disk_eq calm_def errors_Is_def split: if_splits)

lemma CreateODS_calm:
  assumes c: "calm s"
    and r: "on_disk (CreateODS (se_lib K) (se_nsSize K) (se_eds K) (hashToPath base (chain h) odsFileExt) (fst (blk (chain h))) (snd (blk (chain h)))) s = (err, s1)"
  shows "(err = [] \<or> errors_Is err ErrExist) \<and> quiet (disk s1) \<and> (fmlookup (nodes (disk s)) (hashToPath base (chain h) odsFileExt) = None \<longrightarrow> err = [])"
  using CreateODS_quiet [OF _ calm_in_dir(1) [OF c] known(1), of "chain h" odsFileExt h] c r
  by (auto simp: on_disk_eq calm_def errors_Is_def split: if_splits)

lemma validateAndRecoverODSQ4_calm:
  assumes c: "calm s" and cr: "\<And>x. fst (c_Remove C h x) = []" and h: "chain h \<noteq> E0"
    and v: "validateAndRecoverODSQ4 K (snd (blk (chain h))) (fst (blk (chain h))) h (hashToPath base (chain h) odsFileExt) (hashToPath base (chain h) q4FileExt) s = (err, s1)"
  shows "err = [] \<and> quiet (disk s1)"
proof -
  obtain e s2 where e: "on_disk (ValidateODSQ4Size (se_lib K) (hashToPath base (chain h) odsFileExt) (hashToPath base (chain h) q4FileExt) (snd (blk (chain h)))) s = (e, s2)" by fastforce
  have q2: "quiet (disk s2)" using on_disk_quiet [OF e Validate_quiet(1)] c by (simp add: calm_def)
  then have c2: "calm s2" using calm_goes [OF c] ValidateODSQ4Size_goes [OF _ e] c by (auto simp: calm_def)
  show ?thesis
  proof (cases "e = []")
    case True
    then show ?thesis using v e q2 by (simp add: validateAndRecoverODSQ4_def)
  next
    case False
    obtain e2 s3 where r: "removeODSQ4 K h (chain h) s2 = (e2, s3)" by fastforce
    have o: "e2 = []" "calm s3" using removeODSQ4_calm [OF c2 cr r] by auto
    have cre: "on_disk (CreateODSQ4 (se_lib K) (se_nsSize K) (se_eds K) (hashToPath base (chain h) odsFileExt) (hashToPath base (chain h) q4FileExt) (fst (blk (chain h))) (snd (blk (chain h)))) s3 = (err, s1)"
      using v e r False o(1) by (auto simp: validateAndRecoverODSQ4_def hash_of neq_Nil_conv)
    then show ?thesis using CreateODSQ4_calm [OF o(2) cre] removeODSQ4_goes [OF _ r] c2 o(1) h by (auto simp: calm_def)
  qed
qed

lemma validateAndRecoverODS_calm:
  assumes c: "calm s" and cr: "\<And>x. fst (c_Remove C h x) = []" and h: "chain h \<noteq> E0"
    and v: "validateAndRecoverODS K (snd (blk (chain h))) (fst (blk (chain h))) h (hashToPath base (chain h) odsFileExt) s = (err, s1)"
  shows "err = [] \<and> quiet (disk s1)"
proof -
  obtain e s2 where e: "on_disk (ValidateODSSize_file (se_lib K) (hashToPath base (chain h) odsFileExt) (snd (blk (chain h)))) s = (e, s2)" by fastforce
  have q2: "quiet (disk s2)" using on_disk_quiet [OF e Validate_quiet(2)] c by (simp add: calm_def)
  then have c2: "calm s2" using calm_goes [OF c] ValidateODSSize_goes [OF _ e] c by (auto simp: calm_def)
  show ?thesis
  proof (cases "e = []")
    case True
    then show ?thesis using v e q2 by (simp add: validateAndRecoverODS_def)
  next
    case False
    obtain e2 s3 where r: "removeODS K h (chain h) s2 = (e2, s3)" by fastforce
    have o: "e2 = []" "calm s3" using removeODS_calm [OF c2 cr r] by auto
    have cre: "on_disk (CreateODS (se_lib K) (se_nsSize K) (se_eds K) (hashToPath base (chain h) odsFileExt) (fst (blk (chain h))) (snd (blk (chain h)))) s3 = (err, s1)"
      using v e r False o(1) by (auto simp: validateAndRecoverODS_def hash_of neq_Nil_conv)
    then show ?thesis using CreateODS_calm [OF o(2) cre] removeODS_goes [OF _ r] c2 o(1) h by (auto simp: calm_def)
  qed
qed

lemma createODSQ4File_calm:
  assumes c: "calm s" and cr: "\<And>x. fst (c_Remove C h x) = []" and h: "chain h \<noteq> E0" "mode h \<noteq> Some False"
    and p: "createODSQ4File K (snd (blk (chain h))) (fst (blk (chain h))) h s = ((ex, err), s1)"
  shows "(ex \<or> err = []) \<and> quiet (disk s1)"
proof -
  have inv: "st_inv s" and b: "basepath s = base" using c by (auto simp: calm_def st_inv_def)
  have m: "mode h' \<noteq> Some False" if "chain h' = chain h" for h' using one_height [OF that] h that by auto
  obtain e s2 where e: "on_disk (CreateODSQ4 (se_lib K) (se_nsSize K) (se_eds K) (hashToPath base (chain h) odsFileExt) (hashToPath base (chain h) q4FileExt) (fst (blk (chain h))) (snd (blk (chain h)))) s = (e, s2)"
    by fastforce
  have g: "goes h s s2" "e = [] \<longrightarrow> ods_complete s2 h" using CreateODSQ4_goes [OF inv _ m e, of h] by auto
  have q: "e = [] \<or> errors_Is e ErrExist" "quiet (disk s2)" using CreateODSQ4_calm [OF c e] by auto
  have c2: "calm s2" using calm_goes [OF c g(1) q(2)] .
  let ?v = "if errors_Is e ErrExist then validateAndRecoverODSQ4 K (snd (blk (chain h))) (fst (blk (chain h))) h (hashToPath base (chain h) odsFileExt) (hashToPath base (chain h) q4FileExt) s2 else ([], s2)"
  obtain e2 s3 where v: "?v = (e2, s3)" by fastforce
  have "e2 = [] \<and> calm s3 \<and> ods_complete s3 h"
  proof (cases "errors_Is e ErrExist")
    case True
    then show ?thesis using validateAndRecoverODSQ4_calm [OF c2 cr h(1)] validateAndRecoverODSQ4_goes [OF goes_inv [OF g(1)] h] calm_goes [OF c2] v by auto
  next
    case False
    then show ?thesis using v g(2) q(1) c2 by auto
  qed
  moreover from this have "link_created K (removeODSQ4 K) (chain h) h s3 = ((ex, err), s1)" using p e v q(1) by (auto simp: createODSQ4File_def Let_def hash_of b)
  ultimately show ?thesis using link_created_calm by blast
qed

lemma createODSFile_calm:
  assumes c: "calm s" and cr: "\<And>x. fst (c_Remove C h x) = []" and h: "chain h \<noteq> E0"
    and p: "createODSFile K (snd (blk (chain h))) (fst (blk (chain h))) h s = ((ex, err), s1)"
  shows "(ex \<or> err = []) \<and> quiet (disk s1)"
proof -
  have inv: "st_inv s" and b: "basepath s = base" using c by (auto simp: calm_def st_inv_def)
  obtain e s2 where e: "on_disk (CreateODS (se_lib K) (se_nsSize K) (se_eds K) (hashToPath base (chain h) odsFileExt) (fst (blk (chain h))) (snd (blk (chain h)))) s = (e, s2)"
    by fastforce
  have g: "goes h s s2" "e = [] \<longrightarrow> ods_complete s2 h" using CreateODS_goes [OF inv _ e, of h] by auto
  have q: "e = [] \<or> errors_Is e ErrExist" "quiet (disk s2)" using CreateODS_calm [OF c e] by auto
  have c2: "calm s2" using calm_goes [OF c g(1) q(2)] .
  let ?v = "if errors_Is e ErrExist then validateAndRecoverODS K (snd (blk (chain h))) (fst (blk (chain h))) h (hashToPath base (chain h) odsFileExt) s2 else ([], s2)"
  obtain e2 s3 where v: "?v = (e2, s3)" by fastforce
  have "e2 = [] \<and> calm s3 \<and> ods_complete s3 h"
  proof (cases "errors_Is e ErrExist")
    case True
    then show ?thesis using validateAndRecoverODS_calm [OF c2 cr h] validateAndRecoverODS_goes [OF goes_inv [OF g(1)] h] calm_goes [OF c2] v by auto
  next
    case False
    then show ?thesis using v g(2) q(1) c2 by auto
  qed
  moreover from this have "link_created K (removeODS K) (chain h) h s3 = ((ex, err), s1)" using p e v q(1) by (auto simp: createODSFile_def Let_def hash_of b)
  ultimately show ?thesis using link_created_calm by blast
qed

lemma put_calm:
  assumes c: "calm s" and cr: "\<And>x. fst (c_Remove C h x) = []" and m: "put_fits h withQ4" and p: "put K (fst (blk (chain h))) h (snd (blk (chain h))) withQ4 s = (err, s1)"
  shows "err = [] \<and> calm s1 \<and> linked base (disk s1) h"
proof -
  have inv: "st_inv s" using c by (simp add: calm_def)
  have "err = [] \<and> quiet (disk s1)"
  proof (cases "chain h = E0")
    case True
    obtain e s2 where l: "linkHeight K (chain h) h s = (e, s2)" by fastforce
    have "RootsHash (se_eds K) (fst (blk E0)) = E0" using hash_of [of h] True by simp
    then show ?thesis using linkHeight_calm [OF c l] p l True by (auto simp: put_def IsEmptyEDS_def Let_def split: if_splits)
  next
    case False
    obtain r s2 where l: "cache_load K h (accessorLoader (snd (blk (chain h)))) s = (r, s2)" by fastforce
    have g: "goes h s s2" using cache_load_goes [OF inv l] by (auto simp: accessorLoader_def right_accessor_def)
    have "disk s2 = disk s"
      using l load [of "cache s" h "accessorLoader (snd (blk (chain h)))" "disk s"] the_cache inv by (fastforce simp: cache_load_def accessorLoader_def st_inv_def split: prod.splits)
    then have c2: "calm s2" using calm_goes [OF c g] c by (simp add: calm_def)
    obtain ex e s3 where f: "(if withQ4 then createODSQ4File K (snd (blk (chain h))) (fst (blk (chain h))) h s2
        else createODSFile K (snd (blk (chain h))) (fst (blk (chain h))) h s2) = ((ex, e), s3)" by (metis prod.exhaust)
    have "(ex \<or> e = []) \<and> quiet (disk s3)"
      using createODSQ4File_calm [OF c2 cr False] createODSFile_calm [OF c2 cr False] f m False by (cases withQ4) (auto simp: put_fits_def)
    then show ?thesis using p l f False by (auto simp: put_def hash_of IsEmptyEDS_def Let_def)
  qed
  then show ?thesis using put_goes [OF inv m p] calm_goes [OF c] by blast
qed

lemma RemoveODSQ4_calm:
  assumes c: "calm s" and cr: "\<And>x. fst (c_Remove C h x) = []" and r: "RemoveODSQ4 K h (chain h) s = (err, s1)"
  shows "err = [] \<and> calm s1"
proof -
  have f: "calm (snd (on_disk (fileSize p) s))" if "calm s" for p s
  proof -
    have "quiet (snd (fileSize p (disk s)))" using that by (auto simp: calm_def fileSize_def os_Stat_def syscall_quiet split: option.splits node.splits)
    then show ?thesis using calm_goes [OF that] fileSize_goes [of s] that on_disk_quiet by (metis calm_def prod.collapse)
  qed
  show ?thesis
  proof (cases "chain h = E0")
    case True
    then show ?thesis using r removeODSQ4_calm [OF c cr] by (simp add: RemoveODSQ4_def IsEmptyEDS_def)
  next
    case False
    then show ?thesis using r removeODSQ4_calm [OF f [OF f [OF c]] cr] by (simp add: RemoveODSQ4_def IsEmptyEDS_def)
  qed
qed

lemma openAccessor_calm:
  assumes c: "calm s"
  shows "linked base (disk s) h \<Longrightarrow> \<exists>a fs. openAccessor base (heightToPath base h odsFileExt) (disk s) = (Inr a, fs)"
    "\<not> linked base (disk s) h \<Longrightarrow> \<exists>fs. openAccessor base (heightToPath base h odsFileExt) (disk s) = (Inl [ErrStoreNotFound], fs)"
proof -
  have inv: "fs_inv K blk chain mode base (disk s)" and q: "quiet (disk s)" and rd: "ready K blk base (disk s)" using c by (auto simp: calm_def st_inv_def)
  {
    assume l: "linked base (disk s) h"
    obtain f where "OpenODS (ods_bytes K blk (chain h)) = Inr f" using OpenODS_ok [OF _ ods_bytes_ok [OF known(1)]] known(1) [of h] by (auto simp: block_known_def)
    then show "\<exists>a fs. openAccessor base (heightToPath base h odsFileExt) (disk s) = (Inr a, fs)"
      using follow_height [OF inv l rd] q by (auto simp: openAccessor_def OpenODS_file_def os_Open_def syscall_quiet os_Read_quiet file_at_def)
  }
  {
    assume l: "\<not> linked base (disk s) h"
    then show "\<exists>fs. openAccessor base (heightToPath base h odsFileExt) (disk s) = (Inl [ErrStoreNotFound], fs)"
      using follow_unlinked [OF l, of 40] q by (auto simp: openAccessor_def OpenODS_file_def os_Open_def syscall_quiet linked_def errors_Is_def)
  }
qed

lemma GetByHeight_calm:
  assumes c: "calm s"
  shows "linked base (disk s) h \<Longrightarrow> \<exists>a. fst (GetByHeight K h s) = Inr a"
    "\<not> linked base (disk s) h \<Longrightarrow> (\<And>a. \<not> holds (cache s) h a) \<Longrightarrow> fst (GetByHeight K h s) = Inl [ErrStoreNotFound]"
proof -
  have b: "basepath s = base" and ok: "cache_ok (cache s)" using c by (auto simp: calm_def st_inv_def)
  obtain r x where g: "c_Get C h (cache s) = (r, x)" by fastforce
  show "\<exists>a. fst (GetByHeight K h s) = Inr a" if "linked base (disk s) h"
    using openAccessor_calm(1) [OF c that] g the_cache b by (cases r) (auto simp: GetByHeight_def on_disk_def)
  show "fst (GetByHeight K h s) = Inl [ErrStoreNotFound]" if "\<not> linked base (disk s) h" "\<And>a. \<not> holds (cache s) h a"
    using openAccessor_calm(2) [OF c that(1)] get [OF ok g] that(2) g the_cache b by (cases r) (auto simp: GetByHeight_def on_disk_def)
qed

lemma running_calm: "node_inv (Running s) \<Longrightarrow> calm s"
  by (simp add: node_inv_def calm_def quiet_def)

end

end
