(* ===== verification/StoreCaches.thy ===== *)
theory StoreCaches
  imports StoreRuns AccessorCacheProperties
begin

text \<open>
  The caches of the block store have the contract it relies on: none, the cache of accessors with reference counts over any LRU
  cache, and two caches behind each other.
\<close>

section \<open>No cache\<close>

interpretation noop: accessor_cache NoopCache "\<lambda>_. True" "\<lambda>_ _ _. False"
  by unfold_locales (auto simp: NoopCache_def Noop_Get_def split: prod.splits)

section \<open>Two caches\<close>

lemma double_cache:
  assumes "accessor_cache A oka ha" "accessor_cache B okb hb"
  shows "accessor_cache (NewDoubleCache A B) (\<lambda>c. oka (fst c) \<and> okb (snd c)) (\<lambda>c h a. ha (fst c) h a \<or> hb (snd c) h a)"
proof
  fix h c r c1
  assume ok: "oka (fst c) \<and> okb (snd c)" and g: "c_Get (NewDoubleCache A B) h c = (r, c1)"
  obtain r1 a1 where 1: "c_Get A h (fst c) = (r1, a1)" by fastforce
  obtain r2 b1 where 2: "c_Get B h (snd c) = (r2, b1)" by fastforce
  show "(oka (fst c1) \<and> okb (snd c1)) \<and> (\<forall>a. r = Inr a \<longrightarrow> ha (fst c) h a \<or> hb (snd c) h a) \<and> (\<forall>k a. ha (fst c1) k a \<or> hb (snd c1) k a \<longrightarrow> ha (fst c) k a \<or> hb (snd c) k a)"
    using g ok accessor_cache.get [OF assms(1) _ 1] accessor_cache.get [OF assms(2) _ 2] 1 2
    by (cases r1) (auto simp: NewDoubleCache_def Double_Get_def)
next
  fix h ld c fs r c1 fs1
  assume ok: "oka (fst c) \<and> okb (snd c)" and g: "c_GetOrLoad (NewDoubleCache A B) h ld (c, fs) = (r, c1, fs1)"
  obtain r2 b1 where 2: "c_Get B h (snd c) = (r2, b1)" by fastforce
  obtain r1 a1 fs2 where 1: "c_GetOrLoad A h ld (fst c, fs) = (r1, a1, fs2)" by (metis prod.exhaust)
  have la: "oka a1" "fs2 = fs \<and> (\<forall>a. r1 = Inr a \<longrightarrow> ha (fst c) h a) \<and> (\<forall>k a. ha a1 k a \<longrightarrow> ha (fst c) k a)
      \<or> (\<exists>x. ld fs = (x, fs2) \<and> (\<forall>a. r1 = Inr a \<longrightarrow> x = Inr a) \<and> (\<forall>k a. ha a1 k a \<longrightarrow> ha (fst c) k a \<or> k = h \<and> x = Inr a))"
    using accessor_cache.load [OF assms(1) _ 1] ok by blast+
  have gb: "okb b1" "\<forall>a. r2 = Inr a \<longrightarrow> hb (snd c) h a" "\<forall>k a. hb b1 k a \<longrightarrow> hb (snd c) k a" using accessor_cache.get [OF assms(2) _ 2] ok by blast+
  show "(oka (fst c1) \<and> okb (snd c1)) \<and> ((fs1 = fs \<and> (\<forall>a. r = Inr a \<longrightarrow> ha (fst c) h a \<or> hb (snd c) h a) \<and> (\<forall>k a. ha (fst c1) k a \<or> hb (snd c1) k a \<longrightarrow> ha (fst c) k a \<or> hb (snd c) k a))
    \<or> (\<exists>r1. ld fs = (r1, fs1) \<and> (\<forall>a. r = Inr a \<longrightarrow> r1 = Inr a)
        \<and> (\<forall>k a. ha (fst c1) k a \<or> hb (snd c1) k a \<longrightarrow> (ha (fst c) k a \<or> hb (snd c) k a) \<or> k = h \<and> r1 = Inr a)))"
  proof (cases r2)
    case (Inr a)
    then have "r = Inr a" "c1 = (fst c, b1)" "fs1 = fs" using g 2 by (auto simp: NewDoubleCache_def Double_GetOrLoad_def split: prod.splits)
    then show ?thesis using gb Inr ok by auto
  next
    case (Inl e)
    then have eq: "r = r1" "c1 = (a1, b1)" "fs1 = fs2" using g 1 2 by (auto simp: NewDoubleCache_def Double_GetOrLoad_def split: prod.splits)
    from la(2) show ?thesis
    proof (elim disjE exE conjE)
      fix x assume x: "ld fs = (x, fs2)" "\<forall>a. r1 = Inr a \<longrightarrow> x = Inr a" "\<forall>k a. ha a1 k a \<longrightarrow> ha (fst c) k a \<or> k = h \<and> x = Inr a"
      show ?thesis unfolding eq fst_conv snd_conv using x gb la(1) by blast
    qed (use la(1) gb eq in auto)
  qed
next
  fix h c err c1
  assume ok: "oka (fst c) \<and> okb (snd c)" and g: "c_Remove (NewDoubleCache A B) h c = (err, c1)"
  obtain e1 a1 where 1: "c_Remove A h (fst c) = (e1, a1)" by fastforce
  obtain e2 b1 where 2: "c_Remove B h (snd c) = (e2, b1)" by fastforce
  have "err = e1 @ e2" "c1 = (a1, b1)" using g 1 2 by (auto simp: NewDoubleCache_def split: prod.splits)
  then show "(oka (fst c1) \<and> okb (snd c1)) \<and> (\<forall>k a. ha (fst c1) k a \<or> hb (snd c1) k a \<longrightarrow> ha (fst c) k a \<or> hb (snd c) k a) \<and> (err = [] \<longrightarrow> (\<forall>a. \<not> (ha (fst c1) h a \<or> hb (snd c1) h a)))"
    using accessor_cache.remove [OF assms(1) _ 1] accessor_cache.remove [OF assms(2) _ 2] ok by simp
qed

section \<open>The cache of accessors\<close>

text \<open>The world of accessors, together with what each accessor opened. Names of sessions and accessors are new.\<close>

record 'l recent =
  rec_world :: "'l cache_world"
  rec_opened :: "(nat, opened) fmap"

definition new_session :: "'l recent \<Rightarrow> nat" where
  "new_session c = Suc (Max (insert 0 (fset (fmdom (sessions (rec_world c))))))"

definition new_accessor :: "'l recent \<Rightarrow> nat" where
  "new_accessor c = Suc (Max (insert 0 (fset (fmdom (accessors (rec_world c))))))"

text \<open>The accessor for a height that is in the cache and not being closed.\<close>

definition hit :: "'l lru_cache \<Rightarrow> u64 \<Rightarrow> 'l recent \<Rightarrow> nat option" where
  "hit L h c =
     (case fst (lc_Get L h (lru (rec_world c))) of
        None \<Rightarrow> None
      | Some n \<Rightarrow> if isClosed (the (fmlookup (accessors (rec_world c)) n)) then None else Some n)"

text \<open>\<^verbatim>\<open>Remove\<close> in full: the accessor is closed, after its sessions or the timeout, and its entry removed.\<close>

definition remove_key :: "'l lru_cache \<Rightarrow> u64 \<Rightarrow> 'l cache_world \<Rightarrow> 'l cache_world" where
  "remove_key L h w = (case lc_Remove L h (lru w) of (evicted, l) \<Rightarrow> evictFn evicted (w\<lparr>lru := l\<rparr>))"

definition recent_Remove :: "'l lru_cache \<Rightarrow> bool \<Rightarrow> u64 \<Rightarrow> 'l cache_world \<Rightarrow> go_error \<times> 'l cache_world" where
  "recent_Remove L closeErr h w =
     (case lc_Get L h (lru w) of
        (None, l) \<Rightarrow> ([], w\<lparr>lru := l\<rparr>)
      | (Some ac, l) \<Rightarrow>
          (case close_begin ac (w\<lparr>lru := l\<rparr>) of
             (None, w1) \<Rightarrow> ([], remove_key L h w1)
           | (Some ch, w1) \<Rightarrow> if closeErr then ([ErrOther], close_end ac w1) else ([], remove_key L h (close_end ac w1))))"

definition RecentCache :: "'l lru_cache \<Rightarrow> bool \<Rightarrow> 'l recent Cache" where
  "RecentCache L closeErr = \<lparr>
     c_Has = (\<lambda>h c. cache_Has L h (rec_world c)),
     c_Get = (\<lambda>h c. (case hit L h c of None \<Rightarrow> Inl [ErrOther] | Some n \<Rightarrow> Inr (the (fmlookup (rec_opened c) n)),
       c\<lparr>rec_world := snd (cache_Get L (new_session c) h (rec_world c))\<rparr>)),
     c_GetOrLoad = (\<lambda>h loader (c, fs).
       let get = (\<lambda>loadErr. snd (cache_GetOrLoad L (new_session c) (new_accessor c) h loadErr (rec_world c))) in
       case hit L h c of
         Some n \<Rightarrow> (Inr (the (fmlookup (rec_opened c) n)), c\<lparr>rec_world := get None\<rparr>, fs)
       | None \<Rightarrow>
           (case loader fs of
              (Inl e, fs1) \<Rightarrow> (Inl e, c\<lparr>rec_world := get (Some ''unable to load accessor'')\<rparr>, fs1)
            | (Inr a, fs1) \<Rightarrow> (Inr a, c\<lparr>rec_world := get None, rec_opened := fmupd (new_accessor c) a (rec_opened c)\<rparr>, fs1))),
     c_Remove = (\<lambda>h c. case recent_Remove L closeErr h (rec_world c) of (err, w) \<Rightarrow> (err, c\<lparr>rec_world := w\<rparr>))\<rparr>"

definition recent_ok :: "('l \<Rightarrow> u64 \<Rightarrow> nat option) \<Rightarrow> 'l recent \<Rightarrow> bool" where
  "recent_ok view c \<longleftrightarrow> (\<forall>h n. view (lru (rec_world c)) h = Some n \<longrightarrow> fmlookup (accessors (rec_world c)) n \<noteq> None \<and> fmlookup (rec_opened c) n \<noteq> None)"

definition recent_holds :: "('l \<Rightarrow> u64 \<Rightarrow> nat option) \<Rightarrow> 'l recent \<Rightarrow> u64 \<Rightarrow> opened \<Rightarrow> bool" where
  "recent_holds view c h a \<longleftrightarrow>
     (\<exists>n s. view (lru (rec_world c)) h = Some n \<and> fmlookup (accessors (rec_world c)) n = Some s \<and> \<not> isClosed s \<and> fmlookup (rec_opened c) n = Some a)"

lemma hit_holds:
  assumes "lc_ok L view" "recent_ok view c" "hit L h c = Some n"
  shows "view (lru (rec_world c)) h = Some n \<and> recent_holds view c h (the (fmlookup (rec_opened c) n))"
  using assms lc_get [of L view h "lru (rec_world c)"]
  by (cases "lc_Get L h (lru (rec_world c))") (fastforce simp: hit_def recent_holds_def recent_ok_def split: option.splits if_splits)

text \<open>What a step may do to the entries: none is new, and none that was closed is open again.\<close>

definition entries_kept :: "('l \<Rightarrow> u64 \<Rightarrow> nat option) \<Rightarrow> 'l cache_world \<Rightarrow> 'l cache_world \<Rightarrow> bool" where
  "entries_kept view w w1 \<longleftrightarrow> (\<forall>h n. view (lru w1) h = Some n \<longrightarrow> view (lru w) h = Some n)
     \<and> (\<forall>n s. fmlookup (accessors w) n = Some s \<longrightarrow> (\<exists>s1. fmlookup (accessors w1) n = Some s1 \<and> (isClosed s \<longrightarrow> isClosed s1)))"

lemma entries_keptD:
  assumes "entries_kept view (rec_world c) w1" "recent_ok view c"
  shows "recent_ok view (c\<lparr>rec_world := w1\<rparr>)" "recent_holds view (c\<lparr>rec_world := w1\<rparr>) k a \<Longrightarrow> recent_holds view c k a"
proof -
  show "recent_ok view (c\<lparr>rec_world := w1\<rparr>)" using assms unfolding entries_kept_def recent_ok_def by fastforce
  show "recent_holds view c k a" if h: "recent_holds view (c\<lparr>rec_world := w1\<rparr>) k a"
  proof -
    obtain n s where n: "view (lru w1) k = Some n" "fmlookup (accessors w1) n = Some s" "\<not> isClosed s" "fmlookup (rec_opened c) n = Some a"
      using h by (auto simp: recent_holds_def)
    have v: "view (lru (rec_world c)) k = Some n" using assms(1) n(1) by (simp add: entries_kept_def)
    then obtain s0 where "fmlookup (accessors (rec_world c)) n = Some s0" using assms(2) by (auto simp: recent_ok_def)
    moreover from this have "\<not> isClosed s0" using assms(1) n(2,3) unfolding entries_kept_def by fastforce
    ultimately show ?thesis using v n(4) by (auto simp: recent_holds_def)
  qed
qed

lemma newRefCloser_frame:
  assumes "fmlookup (accessors w) n \<noteq> None" "newRefCloser rc n w = (r, w1)"
  shows "lru w1 = lru w \<and> (\<forall>m s. fmlookup (accessors w) m = Some s \<longrightarrow> (\<exists>s1. fmlookup (accessors w1) m = Some s1 \<and> isClosed s1 = isClosed s))"
  using assms by (auto simp: newRefCloser_def addRef_def upd_accessor_def Let_def split: if_splits)

lemma cache_Get_kept:
  assumes L: "lc_ok L view" and c: "\<And>h n. view (lru w) h = Some n \<Longrightarrow> fmlookup (accessors w) n \<noteq> None"
  shows "entries_kept view w (snd (cache_Get L rc h w))"
proof -
  obtain x l where x: "lc_Get L h (lru w) = (x, l)" by fastforce
  note v = lc_get [OF L x]
  show ?thesis
  proof (cases x)
    case None
    then show ?thesis using x v by (auto simp: cache_Get_def entries_kept_def)
  next
    case (Some n)
    obtain r w1 where r: "newRefCloser rc n (w\<lparr>lru := l\<rparr>) = (r, w1)" by fastforce
    have eq: "snd (cache_Get L rc h w) = w1" using x Some r by (simp add: cache_Get_def)
    have "fmlookup (accessors (w\<lparr>lru := l\<rparr>)) n \<noteq> None" using c v Some by simp
    from newRefCloser_frame [OF this r] show ?thesis unfolding eq entries_kept_def using v by (simp, blast)
  qed
qed

lemma fresh_accessor: "fmlookup (accessors (rec_world c)) (new_accessor c) = None"
proof (rule ccontr)
  assume "fmlookup (accessors (rec_world c)) (new_accessor c) \<noteq> None"
  then have "new_accessor c \<in> insert 0 (fset (fmdom (accessors (rec_world c))))" by (simp add: in_fmdom_iff)
  then have "new_accessor c \<le> Max (insert 0 (fset (fmdom (accessors (rec_world c)))))" by (intro Max_ge) auto
  then show False by (simp add: new_accessor_def)
qed

text \<open>\<^verbatim>\<open>GetOrLoad\<close>: as \<^verbatim>\<open>Get\<close> when there is an open accessor, and otherwise with one new entry.\<close>

lemma cache_GetOrLoad_kept:
  assumes L: "lc_ok L view" and c: "recent_ok view c" and e: "hit L h c \<noteq> None \<or> loadErr \<noteq> None"
  shows "entries_kept view (rec_world c) (snd (cache_GetOrLoad L rc new h loadErr (rec_world c)))"
proof -
  let ?w = "rec_world c"
  obtain x l where x: "lc_Get L h (lru ?w) = (x, l)" by fastforce
  note v = lc_get [OF L x]
  have same: "entries_kept view ?w (?w\<lparr>lru := l\<rparr>)" using v by (simp add: entries_kept_def)
  show ?thesis
  proof (cases x)
    case None
    then have "hit L h c = None" using x by (simp add: hit_def)
    then show ?thesis using e same x None by (auto simp: cache_GetOrLoad_def Let_def)
  next
    case (Some n)
    obtain r w1 where r: "newRefCloser rc n (?w\<lparr>lru := l\<rparr>) = (r, w1)" by fastforce
    have a: "fmlookup (accessors (?w\<lparr>lru := l\<rparr>)) n \<noteq> None" using c v Some by (simp add: recent_ok_def)
    have k: "entries_kept view ?w w1" using newRefCloser_frame [OF a r] v unfolding entries_kept_def by (simp, blast)
    have "loadErr \<noteq> None" if "r = Inl y" for y
      using that e r x Some by (auto simp: hit_def newRefCloser_def addRef_def Let_def split: if_splits)
    then show ?thesis using k x Some r by (cases r) (auto simp: cache_GetOrLoad_def Let_def)
  qed
qed

lemma cache_GetOrLoad_new:
  fixes rc :: nat
  assumes L: "lc_ok L view" and c: "recent_ok view c" and e: "hit L h c = None" and new: "fmlookup (accessors (rec_world c)) new = None"
  defines "w1 \<equiv> snd (cache_GetOrLoad L rc new h None (rec_world c))"
  shows "(\<forall>k n. view (lru w1) k = Some n \<longrightarrow> n = new \<and> k = h \<or> view (lru (rec_world c)) k = Some n)
    \<and> (\<forall>n s. fmlookup (accessors (rec_world c)) n = Some s \<longrightarrow> fmlookup (accessors w1) n = Some s) \<and> fmlookup (accessors w1) new \<noteq> None"
proof -
  let ?w = "rec_world c"
  obtain x l where x: "lc_Get L h (lru ?w) = (x, l)" by fastforce
  note v = lc_get [OF L x]
  let ?u = "upd_accessor new \<lparr>acc_done = None, refs = 0, isClosed = False, closes = 0\<rparr> (?w\<lparr>lru := l\<rparr>)"
  obtain r w4 where n: "newRefCloser rc new ?u = (r, w4)" by fastforce
  obtain ev l1 where a: "lc_Add L h new (lru w4) = (ev, l1)" by fastforce
  have "w1 = evictFn ev (w4\<lparr>lru := l1\<rparr>)"
  proof (cases x)
    case None
    then show ?thesis using x n a by (auto simp: w1_def cache_GetOrLoad_def Let_def newRefCloser_def addRef_def upd_accessor_def)
  next
    case (Some m)
    then have "isClosed (the (fmlookup (accessors ?w) m))" using e x by (simp add: hit_def split: if_splits)
    then show ?thesis using Some x n a by (auto simp: w1_def cache_GetOrLoad_def Let_def newRefCloser_def addRef_def upd_accessor_def)
  qed
  moreover have "lru w4 = l" "fmlookup (accessors w4) new \<noteq> None" "\<forall>m s. fmlookup (accessors ?w) m = Some s \<longrightarrow> fmlookup (accessors w4) m = Some s"
    using n new by (auto simp: newRefCloser_def addRef_def upd_accessor_def Let_def split: if_splits)
  moreover have "k = h \<and> n = new \<or> view (lru ?w) k = Some n" if "view l1 k = Some n" for k n
    using L a v that \<open>lru w4 = l\<close> unfolding lc_ok_def by (metis option.inject snd_conv)
  ultimately show ?thesis by (auto simp: evictFn_def)
qed

lemma remove_key_kept:
  assumes L: "lc_ok L view"
  shows "entries_kept view w (remove_key L h w)" "view (lru (remove_key L h w)) h = None"
proof -
  obtain ev l where r: "lc_Remove L h (lru w) = (ev, l)" by fastforce
  have "view l h = None" "\<And>k b. view l k = Some b \<Longrightarrow> view (lru w) k = Some b" using L r unfolding lc_ok_def by (metis snd_conv)+
  then show "entries_kept view w (remove_key L h w)" "view (lru (remove_key L h w)) h = None" using r by (auto simp: remove_key_def evictFn_def entries_kept_def)
qed

lemma entries_kept_trans: "entries_kept view w w1 \<Longrightarrow> entries_kept view w1 w2 \<Longrightarrow> entries_kept view w w2"
  unfolding entries_kept_def by meson

lemma recent_Remove_kept:
  assumes L: "lc_ok L view" and c: "recent_ok view c" and r: "recent_Remove L closeErr h (rec_world c) = (err, w1)"
  shows "entries_kept view (rec_world c) w1 \<and> (err = [] \<longrightarrow> view (lru w1) h = None)"
proof -
  let ?w = "rec_world c"
  obtain x l where x: "lc_Get L h (lru ?w) = (x, l)" by fastforce
  note v = lc_get [OF L x]
  show ?thesis
  proof (cases x)
    case None
    then show ?thesis using r x v by (auto simp: recent_Remove_def entries_kept_def)
  next
    case (Some n)
    then obtain s where s: "fmlookup (accessors ?w) n = Some s" using c v by (auto simp: recent_ok_def)
    obtain b w2 where b: "close_begin n (?w\<lparr>lru := l\<rparr>) = (b, w2)" by fastforce
    have k: "entries_kept view ?w w2" using b s v by (auto simp: close_begin_def upd_accessor_def entries_kept_def Let_def split: if_splits)
    have "\<exists>t. fmlookup (accessors w2) n = Some t" using b s by (auto simp: close_begin_def upd_accessor_def Let_def split: if_splits)
    then have k2: "entries_kept view w2 (close_end n w2)" by (auto simp: close_end_def upd_accessor_def entries_kept_def Let_def)
    show ?thesis using r x Some b k k2 entries_kept_trans [OF k] entries_kept_trans [OF entries_kept_trans [OF k k2]] remove_key_kept [OF L]
      by (cases b) (auto simp: recent_Remove_def split: if_splits)
  qed
qed

lemma recent_cache:
  assumes L: "lc_ok L view"
  shows "accessor_cache (RecentCache L closeErr) (recent_ok view) (recent_holds view)"
proof
  fix c h r c1
  assume c: "recent_ok view c" and g: "c_Get (RecentCache L closeErr) h c = (r, c1)"
  have k: "entries_kept view (rec_world c) (snd (cache_Get L (new_session c) h (rec_world c)))" using c by (intro cache_Get_kept [OF L]) (auto simp: recent_ok_def)
  have r: "r = (case hit L h c of None \<Rightarrow> Inl [ErrOther] | Some n \<Rightarrow> Inr (the (fmlookup (rec_opened c) n)))" "c1 = c\<lparr>rec_world := snd (cache_Get L (new_session c) h (rec_world c))\<rparr>"
    using g by (simp_all add: RecentCache_def)
  show "recent_ok view c1 \<and> (\<forall>a. r = Inr a \<longrightarrow> recent_holds view c h a) \<and> (\<forall>k a. recent_holds view c1 k a \<longrightarrow> recent_holds view c k a)"
    using entries_keptD [OF k c] hit_holds [OF L c] unfolding r by (auto split: option.splits)
next
  fix c h ld fs r c1 fs1
  assume c: "recent_ok view c" and g: "c_GetOrLoad (RecentCache L closeErr) h ld (c, fs) = (r, c1, fs1)"
  let ?get = "\<lambda>e. snd (cache_GetOrLoad L (new_session c) (new_accessor c) h e (rec_world c))"
  show "recent_ok view c1 \<and> ((fs1 = fs \<and> (\<forall>a. r = Inr a \<longrightarrow> recent_holds view c h a) \<and> (\<forall>k a. recent_holds view c1 k a \<longrightarrow> recent_holds view c k a))
    \<or> (\<exists>r1. ld fs = (r1, fs1) \<and> (\<forall>a. r = Inr a \<longrightarrow> r1 = Inr a) \<and> (\<forall>k a. recent_holds view c1 k a \<longrightarrow> recent_holds view c k a \<or> k = h \<and> r1 = Inr a)))"
  proof (cases "hit L h c")
    case (Some n)
    then have r: "r = Inr (the (fmlookup (rec_opened c) n))" "c1 = c\<lparr>rec_world := ?get None\<rparr>" "fs1 = fs" using g by (auto simp: RecentCache_def Let_def)
    have "hit L h c \<noteq> None \<or> None \<noteq> None" using Some by simp
    note k = cache_GetOrLoad_kept [OF L c this, of "new_session c" "new_accessor c"]
    show ?thesis using entries_keptD [OF k c] hit_holds [OF L c Some] unfolding r by auto
  next
    case None
    obtain r1 fs2 where ld: "ld fs = (r1, fs2)" by fastforce
    show ?thesis
    proof (cases r1)
      case (Inl e)
      then have r: "r = Inl e" "c1 = c\<lparr>rec_world := ?get (Some ''unable to load accessor'')\<rparr>" "fs1 = fs2" using g None ld by (auto simp: RecentCache_def Let_def)
      have "hit L h c \<noteq> None \<or> Some ''unable to load accessor'' \<noteq> None" by simp
      note k = cache_GetOrLoad_kept [OF L c this, of "new_session c" "new_accessor c"]
      show ?thesis using entries_keptD [OF k c] ld unfolding r by auto
    next
      case (Inr a)
      then have r: "r = Inr a" "c1 = c\<lparr>rec_world := ?get None, rec_opened := fmupd (new_accessor c) a (rec_opened c)\<rparr>" "fs1 = fs2" using g None ld by (auto simp: RecentCache_def Let_def)
      note n = cache_GetOrLoad_new [OF L c None fresh_accessor, of "new_session c"]
      have neq: "m \<noteq> new_accessor c" if "view (lru (rec_world c)) k = Some m" for k m using that c fresh_accessor [of c] unfolding recent_ok_def by metis
      have "recent_ok view c1" unfolding recent_ok_def r using n c neq by (auto simp: recent_ok_def) blast+
      moreover have "recent_holds view c k b \<or> k = h \<and> a = b" if "recent_holds view c1 k b" for k b
      proof -
        obtain m s where m: "view (lru (?get None)) k = Some m" "fmlookup (accessors (?get None)) m = Some s" "\<not> isClosed s" "fmlookup (rec_opened c1) m = Some b"
          using \<open>recent_holds view c1 k b\<close> unfolding r by (auto simp: recent_holds_def)
        consider "m = new_accessor c" "k = h" | "view (lru (rec_world c)) k = Some m" using n m(1) by blast
        then show ?thesis
        proof cases
          case 1
          then show ?thesis using m(4) by (simp add: r)
        next
          case 2
          then obtain t where "fmlookup (accessors (rec_world c)) m = Some t" using c by (auto simp: recent_ok_def)
          then show ?thesis using 2 m neq [OF 2] n by (auto simp: r recent_holds_def)
        qed
      qed
      ultimately show ?thesis using ld Inr r(1,3) by blast
    qed
  qed
next
  fix c h err c1
  assume c: "recent_ok view c" and g: "c_Remove (RecentCache L closeErr) h c = (err, c1)"
  obtain w where w: "recent_Remove L closeErr h (rec_world c) = (err, w)" "c1 = c\<lparr>rec_world := w\<rparr>" using g by (auto simp: RecentCache_def split: prod.splits)
  note k = recent_Remove_kept [OF L c w(1)]
  show "recent_ok view c1 \<and> (\<forall>k a. recent_holds view c1 k a \<longrightarrow> recent_holds view c k a) \<and> (err = [] \<longrightarrow> (\<forall>a. \<not> recent_holds view c1 h a))"
    using entries_keptD [OF _ c] k unfolding w(2) by (auto simp: recent_holds_def)
qed

interpretation one: accessor_cache "RecentCache one_entry False" "recent_ok one_view" "recent_holds one_view"
  by (rule recent_cache [OF one_entry_ok(1)])

end
