(* ===== verification/StoreExamples.thy ===== *)
theory StoreExamples
  imports StoreProperties
begin

text \<open>
  A chain with one block and empty blocks otherwise, on a store whose cache has one entry.
\<close>

section \<open>The chain\<close>

definition ex_empty :: eds where
  "ex_empty = [[[254, 0], [254, 0]], [[254, 0], [254, 0]]]"

definition ex_empty_roots :: AxisRoots where
  "ex_empty_roots = \<lparr>RowRoots = map (\<lambda>i. wide_root 1 i (eds_row ex_empty i)) [0..<2], ColumnRoots = map (\<lambda>i. wide_root 1 i (eds_col ex_empty i)) [0..<2]\<rparr>"

definition ex_K :: "(u64 \<times> nat) option recent store_env" where
  "ex_K = \<lparr>se_lib = rep_lib, se_nsSize = 1, se_eds = rep_E\<lparr>RootsHash := (\<lambda>r. if r = wide_roots then replicate 32 7 else replicate 32 9)\<rparr>,
     EmptyEDS = ex_empty, EmptyEDSRoots = ex_empty_roots, EmptyEDSDataHash = replicate 32 9, se_cache = RecentCache one_entry False,
     newCache = (\<lambda>n. \<lparr>rec_world = new_cache None, rec_opened = fmempty\<rparr>)\<rparr>"

definition ex_blk :: "byte list \<Rightarrow> AxisRoots \<times> eds" where
  "ex_blk dh = (if dh = replicate 32 7 then (wide_roots, rep_eds) else (ex_empty_roots, ex_empty))"

definition ex_chain :: "u64 \<Rightarrow> byte list" where
  "ex_chain h = (if h = 5 then replicate 32 7 else replicate 32 9)"

lemma ex_roots_neq: "ex_empty_roots \<noteq> wide_roots"
proof
  assume "ex_empty_roots = wide_roots"
  then have "length (RowRoots ex_empty_roots) = length (RowRoots wide_roots)" by simp
  then show False by (simp add: ex_empty_roots_def wide_roots_def)
qed

lemma ex_hash_neq: "replicate 32 (9 :: byte) \<noteq> replicate 32 7"
  by simp

lemma ex_empty_block: "block_ok rep_lib 1 ex_empty_roots (replicate 32 9) ex_empty"
proof -
  have f: "FlattenedODS ex_empty = [[254, 0]]" by (simp add: FlattenedODS_rows ex_empty_def eds_row_def)
  have "filled rep_lib ex_empty = []" by (simp add: filled_def f rep_lib_def)
  then have "\<exists>m. FlattenedODS ex_empty = filled rep_lib ex_empty @ replicate m (TailPaddingShare rep_lib)" by (intro exI [of _ 1]) (simp add: f rep_lib_def)
  moreover have "eds_ok rep_lib ex_empty" by (auto simp: eds_ok_def ex_empty_def rep_shares codeword_def eds_col_def less_Suc_eq rep_lib_def)
  moreover have "\<forall>r \<in> set (RowRoots ex_empty_roots) \<union> set (ColumnRoots ex_empty_roots). length r = AxisRootSize"
    by (auto simp: ex_empty_roots_def wide_root_def pad_def leaf_root_def AxisRootSize_def eds_row_def eds_col_def ex_empty_def upt_rec)
  moreover have "Width ex_empty = 2" "ShareSize rep_lib = 2" "ShareNamespace rep_lib = take 1" "NamespaceErr rep_lib = (\<lambda>b. None)" by (simp_all add: ex_empty_def rep_lib_def)
  ultimately show ?thesis using rep_lib_ok by (simp add: block_ok_def DataHashSize_def f) (simp add: ex_empty_roots_def)
qed

lemma ex_env: "env_ok ex_K ex_blk ex_chain"
proof -
  have "block_known ex_K ex_blk (replicate 32 7)" "block_known ex_K ex_blk (replicate 32 9)"
    using rep_block_ok ex_empty_block ex_roots_neq ex_hash_neq by (simp_all add: block_known_def ex_K_def ex_blk_def)
  then show ?thesis using ex_hash_neq by (auto simp: env_ok_def ex_chain_def ex_blk_def ex_K_def split: if_splits)
qed

lemma ex_fresh: "recent_ok one_view (newCache ex_K n) \<and> \<not> recent_holds one_view (newCache ex_K n) h a"
  by (simp add: ex_K_def recent_ok_def recent_holds_def new_cache_def one_entry_ok(2))

interpretation ex: block_node "RecentCache one_entry False" "recent_ok one_view" "recent_holds one_view" ex_K ex_blk ex_chain "\<lambda>_. Some True" "[''data'']"
  by unfold_locales (use ex_env ex_fresh in \<open>simp_all add: ex_K_def\<close>)

lemma ex_node: "node_ok ex_K (recent_ok one_view) (recent_holds one_view) ex_blk ex_chain"
proof -
  have "se_cache ex_K = RecentCache one_entry False" by (simp add: ex_K_def)
  then show ?thesis using ex_env ex_fresh one.accessor_cache_axioms by (simp add: node_ok_def)
qed

lemma ex_Remove: "\<forall>x. fst (c_Remove (se_cache ex_K) h x) = []"
  by (auto simp: ex_K_def RecentCache_def recent_Remove_def split: prod.splits option.splits)


section \<open>Runs\<close>

abbreviation ex_start :: "fault list \<times> store_op" where
  "ex_start \<equiv> ([], StartOp store_DefaultParameters)"

definition ex_run :: "(fault list \<times> store_op) list \<Rightarrow> (u64 \<times> nat) option recent node_state" where
  "ex_run evs = fold (node_step ex_K ex_blk ex_chain [''data'']) evs (Stopped (empty_disk [''data'']))"

definition ex_found :: "u64 \<Rightarrow> (u64 \<times> nat) option recent node_state \<Rightarrow> bool" where
  "ex_found h st = (case st of Stopped _ \<Rightarrow> False | Running s \<Rightarrow> (case fst (GetByHeight ex_K h (with_faults [] s)) of Inl _ \<Rightarrow> False | Inr _ \<Rightarrow> True))"

text \<open>The process dies when 20 bytes of a block were written; the block is put again after a restart, and there is another restart.\<close>

definition ex_crash :: "(fault list \<times> store_op) list" where
  "ex_crash = [ex_start, ([Fine, Dies 20], PutOp 5 True), ex_start, ([], PutOp 5 True), ex_start]"

lemma ex_crash_found: "ex_found 5 (ex_run ex_crash)"
  by code_simp


definition ex_put :: "u64 \<Rightarrow> (u64 \<times> nat) option recent Store \<Rightarrow> go_error \<times> (u64 \<times> nat) option recent Store" where
  "ex_put h s = put ex_K (fst (ex_blk (ex_chain h))) h (snd (ex_blk (ex_chain h))) True s"

text \<open>After a put the process dies while it puts the empty block of another height.\<close>

definition ex_later :: "(fault list \<times> store_op) list" where
  "ex_later = [([Dies 0], PutOp 6 True), ex_start]"

definition ex_stays :: "(u64 \<times> nat) option recent node_state \<Rightarrow> bool" where
  "ex_stays st = (case st of Stopped _ \<Rightarrow> False | Running s \<Rightarrow> (case ex_put 5 (with_faults [] s) of (err, s1) \<Rightarrow>
     err = [] \<and> (case fold (node_step ex_K ex_blk ex_chain [''data'']) ex_later (settle s1) of Stopped _ \<Rightarrow> False | Running s2 \<Rightarrow> True)))"

lemma ex_stays_ok: "ex_stays (ex_run [ex_start])"
  by code_simp

theorem store_durable_witness:
  "\<exists>s s1 s2 a. ex_run [ex_start] = Running s \<and> ex_put 5 (with_faults [] s) = ([], s1)
    \<and> fold (node_step ex_K ex_blk ex_chain [''data'']) ex_later (settle s1) = Running s2 \<and> fst (GetByHeight ex_K 5 s2) = Inr a"
proof -
  obtain s where 1: "ex_run [ex_start] = Running s" using ex_stays_ok by (cases "ex_run [ex_start]") (simp_all add: ex_stays_def)
  obtain err s1 where 2: "ex_put 5 (with_faults [] s) = (err, s1)" by fastforce
  let ?st = "fold (node_step ex_K ex_blk ex_chain [''data'']) ex_later (settle s1)"
  have 3: "err = []" "case ?st of Stopped _ \<Rightarrow> False | Running s2 \<Rightarrow> True" using ex_stays_ok 1 2 by (simp_all add: ex_stays_def)
  then obtain s2 where "?st = Running s2" by (cases ?st) simp_all
  note s = 1 2 [unfolded 3(1)] this
  have fits: "\<forall>ev \<in> set ([ex_start] @ ex_later). op_fits ex_K ex_chain (\<lambda>_. Some True) (snd ev)" "op_fits ex_K ex_chain (\<lambda>_. Some True) (PutOp 5 True)" by (simp_all add: ex_later_def)
  have other: "\<forall>ev \<in> set ex_later. op_height (snd ev) \<noteq> Some 5" by (simp add: ex_later_def)
  show ?thesis using store_durable [OF ex_node fits s(1) [unfolded ex_run_def] s(2) [unfolded ex_put_def] other s(3)] s by blast
qed

definition ex_torn :: "(fault list \<times> store_op) list" where
  "ex_torn = [ex_start, ([Fine, Dies 20], PutOp 5 True)]"

lemma ex_torn_base: "fmlookup (nodes (disk_of (ex_run ex_torn))) [''data''] = Some Dir"
  by code_simp

theorem store_recovers_witness:
  "\<exists>s s1 a. node_step ex_K ex_blk ex_chain [''data''] ex_start (ex_run ex_torn) = Running s \<and> ex_put 5 s = ([], s1) \<and> fst (GetByHeight ex_K 5 s1) = Inr a"
proof -
  have fits: "\<forall>ev \<in> set ex_torn. op_fits ex_K ex_chain (\<lambda>_. Some True) (snd ev)" "op_fits ex_K ex_chain (\<lambda>_. Some True) (PutOp 5 True)" by (simp_all add: ex_torn_def)
  have "store_Validate store_DefaultParameters = []" by (simp add: store_Validate_def store_DefaultParameters_def)
  from store_recovers [OF ex_node fits ex_torn_base [unfolded ex_run_def] this ex_Remove] show ?thesis unfolding ex_run_def ex_put_def by blast
qed

theorem store_removes_witness:
  "\<exists>s s1. ex_run ex_crash = Running s \<and> RemoveODSQ4 ex_K 5 (ex_chain 5) s = ([], s1) \<and> fst (GetByHeight ex_K 5 s1) = Inl [ErrStoreNotFound]"
proof -
  obtain s where s: "ex_run ex_crash = Running s" using ex_crash_found by (auto simp: ex_found_def split: node_state.splits)
  have fits: "\<forall>ev \<in> set ex_crash. op_fits ex_K ex_chain (\<lambda>_. Some True) (snd ev)" by (simp add: ex_crash_def)
  show ?thesis using store_removes [OF ex_node fits s [unfolded ex_run_def] ex_Remove] s by blast
qed

section \<open>A torn fourth quadrant\<close>






end
