(* ===== verification/Spec2Isabelle.thy ===== *)
theory Spec2Isabelle
  imports DasProperties ShwapProperties PrunerProperties PeerPoolProperties PeerManagerProperties AccessorCacheProperties ContainerProperties BlockFileProperties EdsExamples StoreExamples
begin

text \<open>
  A verification library for celestia-node.
\<close>

end
